(* ===== verification/Ob_Prelude.thy ===== *)
theory Ob_Prelude
  imports Main "HOL-Library.Word"
begin

text \<open>
  The vocabulary shared by the component theories: machine integers, the return codes of
  \<^verbatim>\<open>src/oceanbase/src/common/ob_define.h\<close>, the byte buffer \<^verbatim>\<open>(buf, buf_len, pos)\<close> that every
  serialisation routine takes, and the small language in which those routines are written
  (\<open>ret\<close>, \<open>fail\<close>, \<open>bind\<close>, \<open>tmp_pos\<close>). A routine is a function from the buffer to an
  optional outcome: \<open>None\<close> is undefined behaviour (a read or write outside the memory the
  pointer refers to, a null dereference, an over-wide shift, a failed assertion), \<open>Some (Err e, s)\<close> is a
  routine that returned the code \<open>e\<close>, and \<open>Some (Ok v, s)\<close> is one that returned
  \<^verbatim>\<open>OB_SUCCESS\<close> with the out-parameter \<open>v\<close>. The theory then gives the two specifications
  the components are measured against, \<open>emits\<close> (a writer puts exactly these bytes at the
  cursor) and \<open>reads\<close> (a reader that finds these bytes at the cursor returns this value), with
  the rules that compose them, and the interface \<open>codec\<close> of a writer and a reader that
  agree on a byte representation.
\<close>

unbundle bit_operations_syntax

section \<open>Machine integers\<close>

type_synonym u8 = "8 word"
type_synonym i8 = "8 word"
type_synonym i16 = "16 word"
type_synonym u32 = "32 word"
type_synonym i32 = "32 word"
type_synonym u64 = "64 word"
type_synonym i64 = "64 word"

text \<open>
  Signed and unsigned integers of one width share the word type; a signed comparison of the
  source is written with \<^const>\<open>sint\<close>, an unsigned one with \<^term>\<open>(\<le>)\<close> on words. Arithmetic
  wraps around, as it does on the two's complement machines the server is compiled for.
\<close>

section \<open>Return codes\<close>

datatype ob_err =
    OB_ERROR
  | OB_OBJ_TYPE_ERROR
  | OB_INVALID_ARGUMENT
  | OB_ARRAY_OUT_OF_RANGE
  | OB_ITER_END
  | OB_ERR_UNEXPECTED
  | OB_SIZE_OVERFLOW
  | OB_BUF_NOT_ENOUGH
  | OB_NOT_IMPLEMENT
  | OB_DIVISION_BY_ZERO
  | OB_VALUE_OUT_OF_RANGE
  | OB_INVALID_INDEX
  | OB_ENTRY_NOT_EXIST
  | OB_ALLOCATE_MEMORY_FAILED
  | OB_EMPTY_RANGE
  | OB_EAGAIN
  | OB_LOCK_NOT_MATCH
  | OB_DEAD_LOCK
  | OB_NOT_INIT
  | OB_INIT_TWICE
  | OB_ALREADY_REGISTERED
  | OB_NOT_REGISTERED
  | OB_CONFLICT_VALUE
  | OB_UPS_MASTER_EXISTS
  | OB_RESPONSE_TIME_OUT

text \<open>A call that returns \<^verbatim>\<open>OB_SUCCESS\<close> is \<open>Ok\<close>; any other code is \<open>Err\<close>.\<close>

datatype 'a result = Ok 'a | Err ob_err

section \<open>Buffers\<close>

text \<open>
  The triple \<^verbatim>\<open>(char *buf, int64_t buf_len, int64_t& pos)\<close>. \<open>mem\<close> is the memory behind the
  pointer (\<open>None\<close> for a null pointer), \<open>blen\<close> the length the caller passes and \<open>pos\<close> the cursor.
\<close>

record buffer =
  mem :: "u8 list option"
  blen :: int
  pos :: int

type_synonym 'a run = "buffer \<Rightarrow> ('a result \<times> buffer) option"

definition ret :: "'a \<Rightarrow> 'a run" where
  "ret a s = Some (Ok a, s)"

definition fail :: "ob_err \<Rightarrow> 'a run" where
  "fail e s = Some (Err e, s)"

definition bind :: "'a run \<Rightarrow> ('a \<Rightarrow> 'b run) \<Rightarrow> 'b run" where
  "bind m f s =
     (case m s of
        None \<Rightarrow> None
      | Some (Err e, s') \<Rightarrow> Some (Err e, s')
      | Some (Ok a, s') \<Rightarrow> f a s')"

text \<open>The code \<^verbatim>\<open>if (OB_SUCCESS != m) ret = e\<close>: the callee's error code is replaced.\<close>

definition with_err :: "ob_err \<Rightarrow> 'a run \<Rightarrow> 'a run" where
  "with_err e m s =
     (case m s of
        None \<Rightarrow> None
      | Some (Err _, s') \<Rightarrow> Some (Err e, s')
      | Some (Ok a, s') \<Rightarrow> Some (Ok a, s'))"

text \<open>
  The idiom \<^verbatim>\<open>tmp_pos = pos; ...; if (OB_SUCCESS == ret) pos = tmp_pos;\<close>: the cursor moves
  only when the block succeeds.
\<close>

definition tmp_pos :: "'a run \<Rightarrow> 'a run" where
  "tmp_pos m s =
     (case m s of
        None \<Rightarrow> None
      | Some (Err e, s') \<Rightarrow> Some (Err e, s'\<lparr>pos := pos s\<rparr>)
      | Some (Ok a, s') \<Rightarrow> Some (Ok a, s'))"

text \<open>\<^verbatim>\<open>*(buf + pos++) = b\<close> and \<^verbatim>\<open>*(buf + pos++)\<close>, undefined outside the memory.\<close>

definition put_byte :: "u8 \<Rightarrow> unit run" where
  "put_byte b s =
     (case mem s of
        None \<Rightarrow> None
      | Some m \<Rightarrow>
          if 0 \<le> pos s \<and> pos s < int (length m)
          then Some (Ok (), s\<lparr>mem := Some (m[nat (pos s) := b]), pos := pos s + 1\<rparr>)
          else None)"

definition peek :: "buffer \<Rightarrow> int \<Rightarrow> u8 option" where
  "peek s i =
     (case mem s of
        None \<Rightarrow> None
      | Some m \<Rightarrow> if 0 \<le> i \<and> i < int (length m) then Some (m ! nat i) else None)"

definition get_byte :: "u8 run" where
  "get_byte s =
     (case peek s (pos s) of
        None \<Rightarrow> None
      | Some b \<Rightarrow> Some (Ok b, s\<lparr>pos := pos s + 1\<rparr>))"

text \<open>\<^verbatim>\<open>memcpy(buf + pos, vbuf, len); pos += len;\<close>\<close>

fun put_bytes :: "u8 list \<Rightarrow> unit run" where
  "put_bytes [] s = ret () s"
| "put_bytes (b # bs) s = bind (put_byte b) (\<lambda>_. put_bytes bs) s"

section \<open>Specifications of writers and readers\<close>

text \<open>
  A buffer is well formed when the pointer refers to exactly \<open>blen\<close> bytes and the cursor
  stands inside them or just behind them.
\<close>

definition buf_wf :: "buffer \<Rightarrow> bool" where
  "buf_wf s =
     (case mem s of
        None \<Rightarrow> False
      | Some m \<Rightarrow> blen s = int (length m) \<and> 0 \<le> pos s \<and> pos s \<le> blen s)"

definition room :: "nat \<Rightarrow> buffer \<Rightarrow> bool" where
  "room n s \<longleftrightarrow> buf_wf s \<and> pos s + int n \<le> blen s"

text \<open>The bytes from the cursor on.\<close>

definition rest :: "buffer \<Rightarrow> u8 list" where
  "rest s = (case mem s of None \<Rightarrow> [] | Some m \<Rightarrow> drop (nat (pos s)) m)"

text \<open>The buffer after \<open>bs\<close> has been written at the cursor.\<close>

definition overlay :: "u8 list \<Rightarrow> buffer \<Rightarrow> buffer" where
  "overlay bs s = s\<lparr>
     mem := map_option (\<lambda>m. take (nat (pos s)) m @ bs @ drop (nat (pos s) + length bs) m) (mem s),
     pos := pos s + int (length bs)\<rparr>"

definition adv :: "nat \<Rightarrow> buffer \<Rightarrow> buffer" where
  "adv n s = s\<lparr>pos := pos s + int n\<rparr>"

definition holds :: "u8 list \<Rightarrow> buffer \<Rightarrow> bool" where
  "holds bs s \<longleftrightarrow> room (length bs) s \<and> take (length bs) (rest s) = bs"

definition emits :: "unit run \<Rightarrow> u8 list \<Rightarrow> bool" where
  "emits m bs \<longleftrightarrow> (\<forall>s. room (length bs) s \<longrightarrow> m s = Some (Ok (), overlay bs s))"

definition reads :: "'a run \<Rightarrow> u8 list \<Rightarrow> 'a \<Rightarrow> bool" where
  "reads m bs v \<longleftrightarrow> (\<forall>s. holds bs s \<longrightarrow> m s = Some (Ok v, adv (length bs) s))"

text \<open>A writer that refuses a well-formed buffer with fewer than \<open>n\<close> bytes left.\<close>

definition refuses :: "unit run \<Rightarrow> nat \<Rightarrow> bool" where
  "refuses m n \<longleftrightarrow>
     (\<forall>s. buf_wf s \<longrightarrow> \<not> room n s \<longrightarrow> (\<exists>e s'. m s = Some (Err e, s')))"

text \<open>A buffer of \<open>n\<close> zero bytes with the cursor at its start.\<close>

definition zero_buffer :: "nat \<Rightarrow> buffer" where
  "zero_buffer n = \<lparr>mem = Some (replicate n 0), blen = int n, pos = 0\<rparr>"

lemma zero_buffer_simps [simp]:
  "buf_wf (zero_buffer n)" "room k (zero_buffer n) \<longleftrightarrow> k \<le> n" "pos (zero_buffer n) = 0" "blen (zero_buffer n) = int n"
  by (auto simp: zero_buffer_def buf_wf_def room_def)

named_theorems run_simps "the primitives of the buffer language, unfolded"
named_theorems emits_rules "composition rules for writers"
named_theorems reads_rules "composition rules for readers"

lemmas run_prims [run_simps] = ret_def fail_def bind_def with_err_def tmp_pos_def


section \<open>Laws of buffers\<close>

lemma buf_wfE:
  assumes "buf_wf s"
  obtains m where "mem s = Some m" "blen s = int (length m)" "0 \<le> pos s" "pos s \<le> blen s"
  using assms by (auto simp: buf_wf_def split: option.splits)

lemma roomE:
  assumes "room n s"
  obtains m p where "mem s = Some m" "blen s = int (length m)" "pos s = int p" "p + n \<le> length m"
proof -
  from assms obtain m where m: "mem s = Some m" "blen s = int (length m)" "0 \<le> pos s"
    and r: "pos s + int n \<le> blen s"
    by (auto simp: room_def elim: buf_wfE)
  from m r have "nat (pos s) + n \<le> length m" "pos s = int (nat (pos s))" by auto
  with m that show thesis by blast
qed

lemma room_iff:
  "mem s = Some m \<Longrightarrow> blen s = int (length m) \<Longrightarrow> pos s = int p \<Longrightarrow>
   room n s \<longleftrightarrow> p + n \<le> length m"
  by (auto simp: room_def buf_wf_def)

lemma room_wf [dest]: "room n s \<Longrightarrow> buf_wf s"
  by (simp add: room_def)

lemma room_mono: "room n s \<Longrightarrow> k \<le> n \<Longrightarrow> room k s"
  by (simp add: room_def)

lemma room_ge: "room n s \<Longrightarrow> int n \<le> blen s - pos s"
  by (simp add: room_def)

lemma room_mem [simp]: "room n s \<Longrightarrow> mem s \<noteq> None"
  by (auto elim: roomE)

lemma overlay_Nil [simp]: "buf_wf s \<Longrightarrow> overlay [] s = s"
  by (auto simp: overlay_def elim!: buf_wfE)

lemma blen_overlay [simp]: "blen (overlay bs s) = blen s"
  by (simp add: overlay_def)

lemma pos_overlay [simp]: "pos (overlay bs s) = pos s + int (length bs)"
  by (simp add: overlay_def)

lemma mem_overlay_None [simp]: "mem (overlay bs s) = None \<longleftrightarrow> mem s = None"
  by (simp add: overlay_def)

lemma room_overlay: "room (length bs + n) s \<Longrightarrow> room n (overlay bs s)"
proof (erule roomE)
  fix m p
  assume "mem s = Some m" "blen s = int (length m)" "pos s = int p" "p + (length bs + n) \<le> length m"
  then show "room n (overlay bs s)"
    by (simp add: overlay_def room_def buf_wf_def)
qed

lemma overlay_overlay:
  "room (length as + length bs) s \<Longrightarrow> overlay bs (overlay as s) = overlay (as @ bs) s"
  by (erule roomE)
    (simp add: overlay_def nat_add_distrib min_absorb2 ac_simps)

lemma adv_simps [simp]:
  "mem (adv n s) = mem s" "blen (adv n s) = blen s" "pos (adv n s) = pos s + int n"
  "adv 0 s = s" "adv n (adv k s) = adv (k + n) s"
  by (simp_all add: adv_def)

lemma holds_room: "holds bs s \<Longrightarrow> room (length bs) s"
  by (simp add: holds_def)

lemma holds_append:
  "holds (as @ bs) s \<longleftrightarrow> holds as s \<and> holds bs (adv (length as) s)"
proof
  assume h: "holds (as @ bs) s"
  then have r: "room (length as + length bs) s" and
    t: "take (length as + length bs) (rest s) = as @ bs"
    by (simp_all add: holds_def)
  from r obtain m p where m: "mem s = Some m" "blen s = int (length m)" "pos s = int p"
    "p + (length as + length bs) \<le> length m"
    by (rule roomE)
  from arg_cong [OF t, of "take (length as)"] have a: "take (length as) (rest s) = as"
    by simp
  from arg_cong [OF t, of "drop (length as)"] have b: "take (length bs) (drop (length as) (rest s)) = bs"
    by (simp add: drop_take)
  from m a b show "holds as s \<and> holds bs (adv (length as) s)"
    by (simp add: holds_def room_def buf_wf_def rest_def nat_add_distrib add.commute)
next
  assume h: "holds as s \<and> holds bs (adv (length as) s)"
  then have "room (length bs) (adv (length as) s)" by (simp add: holds_def)
  then obtain m p where m: "mem s = Some m" "blen s = int (length m)"
    "pos s + int (length as) = int p" "p + length bs \<le> length m"
    by (auto elim: roomE)
  have p: "0 \<le> pos s" "p = length as + nat (pos s)"
    using h m(3) by (auto simp: holds_def room_def buf_wf_def split: option.splits)
  have "take (length as) (rest s) = as" "take (length bs) (drop (length as) (rest s)) = bs"
    using h m p by (simp_all add: holds_def rest_def nat_add_distrib)
  moreover have "room (length (as @ bs)) s"
    using m p by (simp add: room_def buf_wf_def) linarith
  ultimately show "holds (as @ bs) s" by (simp add: holds_def take_add)
qed

lemma holds_Nil [simp]: "holds [] s \<longleftrightarrow> buf_wf s"
  by (auto simp: holds_def room_def buf_wf_def split: option.splits)

lemma holds_overlay: "room (length bs) s \<Longrightarrow> holds bs ((overlay bs s)\<lparr>pos := pos s\<rparr>)"
  by (erule roomE) (auto simp: holds_def room_def buf_wf_def rest_def overlay_def)

lemma rest_overlay: "room (length bs) s \<Longrightarrow> rest (overlay bs s) = drop (length bs) (rest s)"
  by (erule roomE) (simp add: rest_def overlay_def nat_add_distrib min_absorb2 ac_simps)

lemma put_byte_room: "room 1 s \<Longrightarrow> put_byte b s = Some (Ok (), overlay [b] s)"
  by (erule roomE)
    (auto simp: put_byte_def overlay_def upd_conv_take_nth_drop intro!: buffer.equality)

lemma peek_holds: "holds (b # bs) s \<Longrightarrow> peek s (pos s) = Some b"
proof -
  assume h: "holds (b # bs) s"
  then obtain m p where m: "mem s = Some m" "pos s = int p" "p + Suc (length bs) \<le> length m"
    by (auto simp: holds_def elim: roomE)
  from h m have "take (Suc (length bs)) (drop p m) = b # bs"
    by (simp add: holds_def rest_def)
  then have "hd (drop p m) = b"
    by (metis hd_take list.sel(1) zero_less_Suc)
  with m show ?thesis by (simp add: peek_def hd_drop_conv_nth)
qed

lemma get_byte_holds: "holds [b] s \<Longrightarrow> get_byte s = Some (Ok b, adv 1 s)"
  by (simp add: get_byte_def peek_holds adv_def)

lemma rest_Cons:
  assumes "buf_wf s" "rest s = b # bs"
  shows "peek s (pos s) = Some b \<and> 1 \<le> blen s - pos s \<and> buf_wf (adv 1 s) \<and> rest (adv 1 s) = bs"
proof -
  obtain m p where m: "mem s = Some m" "blen s = int (length m)" "pos s = int p" "p \<le> length m"
    using assms(1) by (metis buf_wfE of_nat_le_iff zero_le_imp_eq_int)
  with assms(2) have d: "drop p m = b # bs" by (simp add: rest_def)
  then have "p < length m" "m ! p = b" "drop (Suc p) m = bs"
    by (metis drop_eq_Nil linorder_not_less list.distinct(1), metis nth_via_drop,
        metis Cons_nth_drop_Suc drop_eq_Nil linorder_not_less list.distinct(1) list.inject)
  with m show ?thesis by (simp add: peek_def buf_wf_def rest_def nat_add_distrib)
qed

lemma rest_Nil: "buf_wf s \<Longrightarrow> rest s = [] \<Longrightarrow> peek s (pos s) = None"
  by (auto simp: rest_def peek_def elim!: buf_wfE)

lemma put_bytes_overrun: "buf_wf s \<Longrightarrow> \<not> room (length bs) s \<Longrightarrow> put_bytes bs s = None"
proof (induction bs arbitrary: s)
  case Nil
  then show ?case by (auto simp: room_def elim: buf_wfE)
next
  case (Cons b bs)
  show ?case
  proof (cases "room 1 s")
    case True
    then have "buf_wf (overlay [b] s)" using room_overlay [of "[b]" 0 s] by auto
    moreover have "\<not> room (length bs) (overlay [b] s)"
      using Cons.prems by (auto simp: room_def)
    ultimately show ?thesis using True Cons.IH by (simp add: put_byte_room bind_def)
  next
    case False
    with Cons.prems(1) have "put_byte b s = None"
      by (auto simp: room_def put_byte_def elim!: buf_wfE)
    then show ?thesis by (simp add: bind_def)
  qed
qed

section \<open>Composition rules\<close>

lemma emitsI: "(\<And>s. room (length bs) s \<Longrightarrow> m s = Some (Ok (), overlay bs s)) \<Longrightarrow> emits m bs"
  by (simp add: emits_def)

lemma emitsD: "emits m bs \<Longrightarrow> room (length bs) s \<Longrightarrow> m s = Some (Ok (), overlay bs s)"
  by (simp add: emits_def)

lemma readsI: "(\<And>s. holds bs s \<Longrightarrow> m s = Some (Ok v, adv (length bs) s)) \<Longrightarrow> reads m bs v"
  by (simp add: reads_def)

lemma readsD: "reads m bs v \<Longrightarrow> holds bs s \<Longrightarrow> m s = Some (Ok v, adv (length bs) s)"
  by (simp add: reads_def)

lemma emits_ret [emits_rules]: "emits (ret ()) []"
  by (rule emitsI) (auto simp: ret_def)

lemma emits_put_byte [emits_rules]: "emits (put_byte b) [b]"
  by (rule emitsI) (simp add: put_byte_room)

lemma emits_bind [emits_rules]:
  assumes "emits m as" "emits (f ()) bs"
  shows "emits (bind m f) (as @ bs)"
proof (rule emitsI)
  fix s assume r: "room (length (as @ bs)) s"
  then have "m s = Some (Ok (), overlay as s)"
    by (intro emitsD [OF assms(1)]) (auto elim: room_mono)
  moreover from r have "f () (overlay as s) = Some (Ok (), overlay bs (overlay as s))"
    by (intro emitsD [OF assms(2)]) (simp add: room_overlay)
  ultimately show "bind m f s = Some (Ok (), overlay (as @ bs) s)"
    using r by (simp add: bind_def overlay_overlay)
qed

lemma emits_bind_Cons:
  "emits m [b] \<Longrightarrow> emits (f ()) bs \<Longrightarrow> emits (bind m f) (b # bs)"
  using emits_bind [of m "[b]" f bs] by simp

lemma emits_with_err [emits_rules]: "emits m bs \<Longrightarrow> emits (with_err e m) bs"
  by (rule emitsI) (simp add: with_err_def emitsD)

lemma emits_tmp_pos [emits_rules]: "emits m bs \<Longrightarrow> emits (tmp_pos m) bs"
  by (rule emitsI) (simp add: tmp_pos_def emitsD)

lemma emits_guard:
  assumes "emits m bs" "\<And>s. room (length bs) s \<Longrightarrow> \<not> P s"
  shows "emits (\<lambda>s. if P s then fail e s else m s) bs"
  by (rule emitsI) (simp add: assms(2) emitsD [OF assms(1)])

lemma emits_put_bytes [emits_rules]: "emits (put_bytes bs) bs"
proof (induction bs)
  case Nil
  have "put_bytes [] = ret ()" by (rule ext) simp
  then show ?case by (simp add: emits_ret)
next
  case (Cons b bs)
  have "put_bytes (b # bs) = bind (put_byte b) (\<lambda>_. put_bytes bs)" by (rule ext) simp
  with Cons show ?case by (auto intro: emits_bind_Cons emits_put_byte)
qed

lemma reads_ret [reads_rules]: "reads (ret v) [] v"
  by (rule readsI) (simp add: ret_def)

lemma reads_get_byte [reads_rules]: "reads get_byte [b] b"
  by (rule readsI) (simp add: get_byte_holds)

lemma reads_bind [reads_rules]:
  assumes "reads m as v" "reads (f v) bs w"
  shows "reads (bind m f) (as @ bs) w"
proof (rule readsI)
  fix s assume "holds (as @ bs) s"
  then have h: "holds as s" "holds bs (adv (length as) s)" by (simp_all add: holds_append)
  from readsD [OF assms(1) h(1)] readsD [OF assms(2) h(2)]
  show "bind m f s = Some (Ok w, adv (length (as @ bs)) s)" by (simp add: bind_def)
qed

lemma reads_bind_Cons:
  "reads m [b] v \<Longrightarrow> reads (f v) bs w \<Longrightarrow> reads (bind m f) (b # bs) w"
  using reads_bind [of m "[b]" v f bs w] by simp

lemma reads_bind_ret [reads_rules]: "reads m bs v \<Longrightarrow> reads (bind m (\<lambda>x. ret (g x))) bs (g v)"
  using reads_bind [of m bs v "\<lambda>x. ret (g x)" "[]" "g v"] reads_ret [of "g v"] by simp

lemma reads_with_err [reads_rules]: "reads m bs v \<Longrightarrow> reads (with_err e m) bs v"
  by (rule readsI) (simp add: with_err_def readsD)

lemma reads_tmp_pos [reads_rules]: "reads m bs v \<Longrightarrow> reads (tmp_pos m) bs v"
  by (rule readsI) (simp add: tmp_pos_def readsD)

lemma reads_guard:
  assumes "reads m bs v" "\<And>s. holds bs s \<Longrightarrow> \<not> P s"
  shows "reads (\<lambda>s. if P s then fail e s else m s) bs v"
  by (rule readsI) (simp add: assms(2) readsD [OF assms(1)])

text \<open>Routines that test the remaining length before they run their body.\<close>

lemma emits_checked:
  assumes "\<And>s. m s = (if mem s \<noteq> None \<and> blen s - pos s \<ge> n then body s else fail e s)"
    and "emits body bs" and "n \<le> int (length bs)"
  shows "emits m bs"
proof (rule emitsI)
  fix s assume r: "room (length bs) s"
  with assms(3) have "n \<le> blen s - pos s" by (auto dest: room_ge)
  with r show "m s = Some (Ok (), overlay bs s)"
    by (simp add: assms(1) emitsD [OF assms(2)] del: not_None_eq)
qed

lemma reads_checked:
  assumes "\<And>s. m s = (if mem s \<noteq> None \<and> blen s - pos s \<ge> n then body s else fail e s)"
    and "reads body bs v" and "n \<le> int (length bs)"
  shows "reads m bs v"
proof (rule readsI)
  fix s assume h: "holds bs s"
  then have r: "room (length bs) s" by (rule holds_room)
  with assms(3) have "n \<le> blen s - pos s" by (auto dest: room_ge)
  with r h show "m s = Some (Ok v, adv (length bs) s)"
    by (simp add: assms(1) readsD [OF assms(2)] del: not_None_eq)
qed

lemma refuses_checked:
  assumes "\<And>s. m s = (if mem s \<noteq> None \<and> blen s - pos s \<ge> n then body s else fail e s)"
    and "n = int k"
  shows "refuses m k"
  using assms by (auto simp: refuses_def room_def fail_def)

lemma refusesI: "(\<And>s. buf_wf s \<Longrightarrow> \<not> room n s \<Longrightarrow> \<exists>e s'. m s = Some (Err e, s')) \<Longrightarrow> refuses m n"
  by (simp add: refuses_def)

lemma refuses_with_err: "refuses m n \<Longrightarrow> refuses (with_err e m) n"
  by (fastforce simp: refuses_def with_err_def)

lemma refuses_tmp_pos: "refuses m n \<Longrightarrow> refuses (tmp_pos m) n"
  by (fastforce simp: refuses_def tmp_pos_def)

lemma refuses_ret: "refuses m 0"
  by (simp add: refuses_def room_def buf_wf_def split: option.splits)

lemma refuses_bind:
  assumes "emits m as" "refuses m (length as)" "refuses (f ()) n"
  shows "refuses (bind m f) (length as + n)"
proof (rule refusesI)
  fix s assume s: "buf_wf s" "\<not> room (length as + n) s"
  show "\<exists>e s'. bind m f s = Some (Err e, s')"
  proof (cases "room (length as) s")
    case True
    then have "buf_wf (overlay as s)" "\<not> room n (overlay as s)"
      using s room_overlay [of as 0 s] by (auto simp: room_def)
    then show ?thesis
      using True emitsD [OF assms(1)] assms(3) by (auto simp: bind_def refuses_def)
  next
    case False
    then show ?thesis using s assms(2) by (fastforce simp: bind_def refuses_def)
  qed
qed

lemma refuses_bind_Cons:
  "emits m [b] \<Longrightarrow> refuses m 1 \<Longrightarrow> refuses (f ()) n \<Longrightarrow> refuses (bind m f) (Suc n)"
  using refuses_bind [of m "[b]" f n] by simp

lemma refuses_guard: "refuses m n \<Longrightarrow> refuses (\<lambda>s. if P s then fail e s else m s) n"
  by (auto simp: refuses_def fail_def)

lemma reads_guarded:
  assumes "\<And>s. m s = (if mem s = None \<or> blen s - pos s < n then fail e s else body s)"
    and "reads body bs v" "n \<le> int (length bs)"
  shows "reads m bs v"
  using assms(1) by (intro reads_checked [OF _ assms(2,3)]) auto

lemma emits_guarded:
  assumes "\<And>s. m s = (if mem s = None \<or> blen s - pos s < n then fail e s else body s)"
    and "emits body bs" "n \<le> int (length bs)"
  shows "emits m bs"
  using assms(1) by (intro emits_checked [OF _ assms(2,3)]) auto

lemma refuses_guarded:
  assumes "\<And>s. m s = (if mem s = None \<or> blen s - pos s < int k then fail e s else body s)"
  shows "refuses m k"
  using assms by (auto simp: refuses_def room_def fail_def)

lemma guard_nonempty_emits:
  assumes "\<And>s. m s = (if mem s = None \<or> blen s - pos s \<le> 0 then fail e s else body s)"
    and "emits body bs" "bs \<noteq> []"
  shows "emits m bs"
proof (rule emits_guarded [of m 1 e body])
  show "m s = (if mem s = None \<or> blen s - pos s < 1 then fail e s else body s)" for s
    by (auto simp: assms(1))
qed (use assms(2,3) in \<open>cases bs; simp\<close>)+

lemma guard_nonempty_refuses:
  assumes "\<And>s. m s = (if mem s = None \<or> blen s - pos s \<le> 0 then fail e s else body s)"
    and "refuses body n"
  shows "refuses m n"
  using assms by (auto simp: refuses_def fail_def)

lemma guard_nonempty_reads:
  assumes "\<And>s. m s = (if mem s = None \<or> blen s - pos s \<le> 0 then fail e s else body s)"
    and "reads body bs v" "bs \<noteq> []"
  shows "reads m bs v"
proof (rule reads_guarded [of m 1 e body])
  show "m s = (if mem s = None \<or> blen s - pos s < 1 then fail e s else body s)" for s
    by (auto simp: assms(1))
qed (use assms(2,3) in \<open>cases bs; simp\<close>)+

lemma int_sum_list: "int (sum_list (map f xs)) = sum_list (map (\<lambda>x. int (f x)) xs)"
  by (induction xs) simp_all

section \<open>The codec interface\<close>

text \<open>
  What the routines that store and fetch values rely on: on the values in \<open>good\<close>, the writer
  emits \<open>bytes v\<close>, refuses a buffer that is too short for them, and the reader gets \<open>v\<close> back
  from exactly those bytes.
\<close>

locale codec =
  fixes enc :: "'a \<Rightarrow> unit run"
    and dec :: "'a run"
    and bytes :: "'a \<Rightarrow> u8 list"
    and good :: "'a \<Rightarrow> bool"
  assumes enc_emits: "good v \<Longrightarrow> emits (enc v) (bytes v)"
    and dec_reads: "good v \<Longrightarrow> reads dec (bytes v) v"
    and enc_refuses: "good v \<Longrightarrow> refuses (enc v) (length (bytes v))"
begin

text \<open>Reading back from where the value was written returns it and leaves the cursor behind it.\<close>

lemma roundtrip:
  assumes "good v" "room (length (bytes v)) s"
  shows "\<exists>s'. enc v s = Some (Ok (), s') \<and> pos s' = pos s + int (length (bytes v)) \<and>
     dec (s'\<lparr>pos := pos s\<rparr>) = Some (Ok v, s')"
proof -
  have e: "enc v s = Some (Ok (), overlay (bytes v) s)"
    using assms by (intro emitsD [OF enc_emits])
  have "dec ((overlay (bytes v) s)\<lparr>pos := pos s\<rparr>)
      = Some (Ok v, adv (length (bytes v)) ((overlay (bytes v) s)\<lparr>pos := pos s\<rparr>))"
    using assms by (intro readsD [OF dec_reads] holds_overlay)
  then show ?thesis
    using e by (simp add: adv_def)
qed

text \<open>On a well-formed buffer the writer succeeds exactly when the bytes fit.\<close>

lemma enc_total:
  assumes "good v" "buf_wf s"
  shows "\<exists>r s'. enc v s = Some (r, s') \<and> (r = Ok () \<longleftrightarrow> room (length (bytes v)) s)"
proof (cases "room (length (bytes v)) s")
  case True
  then show ?thesis using emitsD [OF enc_emits [OF assms(1)]] by auto
next
  case False
  then show ?thesis using enc_refuses [OF assms(1)] assms(2) by (auto simp: refuses_def)
qed

text \<open>Two good values with the same bytes are equal, and no encoding is a proper prefix of another.\<close>

lemma bytes_prefix_free:
  assumes "good v" "good w" "bytes w = bytes v @ zs"
  shows "w = v \<and> zs = []"
proof -
  define s where "s = \<lparr>mem = Some (bytes w), blen = int (length (bytes w)), pos = 0\<rparr>"
  have "holds (bytes v @ zs) s" "holds (bytes w) s"
    using assms(3) by (simp_all add: s_def holds_def room_def buf_wf_def rest_def)
  then have "dec s = Some (Ok v, adv (length (bytes v)) s)" "dec s = Some (Ok w, adv (length (bytes w)) s)"
    using assms(1,2) by (auto intro!: readsD [OF dec_reads] simp: holds_append)
  then have "w = v" "pos (adv (length (bytes v)) s) = pos (adv (length (bytes w)) s)" by simp_all
  with assms(3) show ?thesis by simp
qed

end

text \<open>Writing a sequence of values, and reading a given number of them back.\<close>

fun enc_seq :: "('a \<Rightarrow> unit run) \<Rightarrow> 'a list \<Rightarrow> unit run" where
  "enc_seq enc [] = ret ()"
| "enc_seq enc (v # vs) = bind (enc v) (\<lambda>_. enc_seq enc vs)"

fun dec_seq :: "'a run \<Rightarrow> nat \<Rightarrow> 'a list run" where
  "dec_seq dec 0 = ret []"
| "dec_seq dec (Suc n) = bind dec (\<lambda>v. bind (dec_seq dec n) (\<lambda>vs. ret (v # vs)))"

context codec
begin

lemma enc_seq_emits: "list_all good vs \<Longrightarrow> emits (enc_seq enc vs) (concat (map bytes vs))"
proof (induction vs)
  case Nil
  show ?case by (simp add: emits_ret)
next
  case (Cons v vs)
  then have "emits (enc v) (bytes v)" "emits (enc_seq enc vs) (concat (map bytes vs))"
    by (simp_all add: enc_emits)
  then show ?case by (simp add: emits_bind)
qed

lemma dec_seq_reads:
  "list_all good vs \<Longrightarrow> reads (dec_seq dec (length vs)) (concat (map bytes vs)) vs"
proof (induction vs)
  case Nil
  show ?case by (simp add: reads_ret)
next
  case (Cons v vs)
  then have "reads dec (bytes v) v"
    "reads (bind (dec_seq dec (length vs)) (\<lambda>vs. ret (v # vs))) (concat (map bytes vs)) (v # vs)"
    by (simp_all add: dec_reads reads_bind_ret)
  then show ?case
    using reads_bind [of dec "bytes v" v] by simp
qed

lemma enc_seq_refuses:
  "list_all good vs \<Longrightarrow> refuses (enc_seq enc vs) (length (concat (map bytes vs)))"
proof (induction vs)
  case (Cons v vs)
  then show ?case
    using refuses_bind [OF enc_emits [of v] enc_refuses [of v], of "\<lambda>_. enc_seq enc vs"]
    by simp
qed (simp add: refuses_ret)

end

end
