(* ===== verification/Serialization.thy ===== *)
theory Serialization
  imports Ob_Prelude
begin

text \<open>
  The untyped half of \<^verbatim>\<open>src/oceanbase/src/common/serialization.h\<close>: single bytes, big-endian
  integers, booleans, variable-length integers, floats and doubles (whose bit patterns travel as
  integers) and length-prefixed strings. Each \<^verbatim>\<open>encode_x\<close>/\<^verbatim>\<open>decode_x\<close> pair is shown to be a
  \<open>codec\<close> for an explicit byte representation (\<open>be_bytes\<close>, \<open>vi_bytes\<close>, \<open>vstr_bytes\<close>), and
  each \<^verbatim>\<open>encoded_length_x\<close> to be the length of that representation.
\<close>

unbundle bit_operations_syntax

section \<open>Constants and bit operations\<close>

definition OB_MAX_V1B :: u64 where "OB_MAX_V1B = push_bit 7 1 - 1"
definition OB_MAX_V2B :: u64 where "OB_MAX_V2B = push_bit 14 1 - 1"
definition OB_MAX_V3B :: u64 where "OB_MAX_V3B = push_bit 21 1 - 1"
definition OB_MAX_V4B :: u64 where "OB_MAX_V4B = push_bit 28 1 - 1"
definition OB_MAX_V5B :: u64 where "OB_MAX_V5B = push_bit 35 1 - 1"
definition OB_MAX_V6B :: u64 where "OB_MAX_V6B = push_bit 42 1 - 1"
definition OB_MAX_V7B :: u64 where "OB_MAX_V7B = push_bit 49 1 - 1"
definition OB_MAX_V8B :: u64 where "OB_MAX_V8B = push_bit 56 1 - 1"
definition OB_MAX_V9B :: u64 where "OB_MAX_V9B = push_bit 63 1 - 1"

lemmas OB_MAX_V_defs = OB_MAX_V1B_def OB_MAX_V2B_def OB_MAX_V3B_def OB_MAX_V4B_def
  OB_MAX_V5B_def OB_MAX_V6B_def OB_MAX_V7B_def OB_MAX_V8B_def OB_MAX_V9B_def

text \<open>\<^verbatim>\<open>set_bit\<close>, \<^verbatim>\<open>clear_bit\<close> and \<^verbatim>\<open>test_bit\<close> on an \<^verbatim>\<open>int8_t\<close>.\<close>

definition set_bit8 :: "i8 \<Rightarrow> nat \<Rightarrow> i8" where
  "set_bit8 v p = v OR push_bit p 1"

definition clear_bit8 :: "i8 \<Rightarrow> nat \<Rightarrow> i8" where
  "clear_bit8 v p = v AND NOT (push_bit p 1)"

definition test_bit8 :: "i8 \<Rightarrow> nat \<Rightarrow> bool" where
  "test_bit8 v p \<longleftrightarrow> v AND push_bit p 1 \<noteq> 0"

section \<open>Fixed-width integers\<close>

definition encoded_length_i8 :: "i8 \<Rightarrow> int" where
  "encoded_length_i8 v = 1"

definition encode_i8 :: "i8 \<Rightarrow> unit run" where
  "encode_i8 v s =
     (if mem s \<noteq> None \<and> blen s - pos s \<ge> 1 then put_byte v s else fail OB_ERROR s)"

definition decode_i8 :: "i8 run" where
  "decode_i8 s =
     (if mem s \<noteq> None \<and> blen s - pos s \<ge> 1 then get_byte s else fail OB_ERROR s)"

definition encoded_length_i16 :: "i16 \<Rightarrow> int" where
  "encoded_length_i16 v = 2"

text \<open>The operands of the shifts are promoted to \<^verbatim>\<open>int\<close>, hence the sign extension to 32 bits.\<close>

definition encode_i16 :: "i16 \<Rightarrow> unit run" where
  "encode_i16 v s =
     (if mem s \<noteq> None \<and> blen s - pos s \<ge> 2
      then bind (put_byte (ucast (signed_drop_bit 8 (scast v :: i32) AND 0xff)))
          (\<lambda>_. put_byte (ucast ((scast v :: i32) AND 0xff))) s
      else fail OB_ERROR s)"

definition decode_i16 :: "i16 run" where
  "decode_i16 s =
     (if mem s \<noteq> None \<and> blen s - pos s \<ge> 2
      then bind get_byte (\<lambda>b0.
             let v0 = ucast (push_bit 8 ((scast b0 :: i32) AND 0xff)) :: i16 in
           bind get_byte (\<lambda>b1.
             ret (ucast ((scast v0 :: i32) OR ((scast b1 :: i32) AND 0xff))))) s
      else fail OB_ERROR s)"

definition encoded_length_i32 :: "i32 \<Rightarrow> int" where
  "encoded_length_i32 v = 4"

definition encode_i32 :: "i32 \<Rightarrow> unit run" where
  "encode_i32 v s =
     (if mem s \<noteq> None \<and> blen s - pos s \<ge> 4
      then bind (put_byte (ucast (signed_drop_bit 24 v AND 0xff))) (\<lambda>_.
           bind (put_byte (ucast (signed_drop_bit 16 v AND 0xff))) (\<lambda>_.
           bind (put_byte (ucast (signed_drop_bit 8 v AND 0xff))) (\<lambda>_.
           put_byte (ucast (v AND 0xff))))) s
      else fail OB_ERROR s)"

definition decode_i32 :: "i32 run" where
  "decode_i32 s =
     (if mem s \<noteq> None \<and> blen s - pos s \<ge> 4
      then bind get_byte (\<lambda>b0.
           bind get_byte (\<lambda>b1.
           bind get_byte (\<lambda>b2.
           bind get_byte (\<lambda>b3.
             ret (push_bit 24 (scast b0 AND 0xff)
               OR push_bit 16 (scast b1 AND 0xff)
               OR push_bit 8 (scast b2 AND 0xff)
               OR (scast b3 AND 0xff)))))) s
      else fail OB_ERROR s)"

definition encoded_length_i64 :: "i64 \<Rightarrow> int" where
  "encoded_length_i64 v = 8"

definition encode_i64 :: "i64 \<Rightarrow> unit run" where
  "encode_i64 v s =
     (if mem s \<noteq> None \<and> blen s - pos s \<ge> 8
      then bind (put_byte (ucast (signed_drop_bit 56 v AND 0xff))) (\<lambda>_.
           bind (put_byte (ucast (signed_drop_bit 48 v AND 0xff))) (\<lambda>_.
           bind (put_byte (ucast (signed_drop_bit 40 v AND 0xff))) (\<lambda>_.
           bind (put_byte (ucast (signed_drop_bit 32 v AND 0xff))) (\<lambda>_.
           bind (put_byte (ucast (signed_drop_bit 24 v AND 0xff))) (\<lambda>_.
           bind (put_byte (ucast (signed_drop_bit 16 v AND 0xff))) (\<lambda>_.
           bind (put_byte (ucast (signed_drop_bit 8 v AND 0xff))) (\<lambda>_.
           put_byte (ucast (v AND 0xff))))))))) s
      else fail OB_ERROR s)"

definition decode_i64 :: "i64 run" where
  "decode_i64 s =
     (if mem s \<noteq> None \<and> blen s - pos s \<ge> 8
      then bind get_byte (\<lambda>b0.
           bind get_byte (\<lambda>b1.
           bind get_byte (\<lambda>b2.
           bind get_byte (\<lambda>b3.
           bind get_byte (\<lambda>b4.
           bind get_byte (\<lambda>b5.
           bind get_byte (\<lambda>b6.
           bind get_byte (\<lambda>b7.
             ret (push_bit 56 (scast b0 AND 0xff)
               OR push_bit 48 (scast b1 AND 0xff)
               OR push_bit 40 (scast b2 AND 0xff)
               OR push_bit 32 (scast b3 AND 0xff)
               OR push_bit 24 (scast b4 AND 0xff)
               OR push_bit 16 (scast b5 AND 0xff)
               OR push_bit 8 (scast b6 AND 0xff)
               OR (scast b7 AND 0xff)))))))))) s
      else fail OB_ERROR s)"

section \<open>Booleans\<close>

definition encoded_length_bool :: "bool \<Rightarrow> int" where
  "encoded_length_bool v = 1"

definition encode_bool :: "bool \<Rightarrow> unit run" where
  "encode_bool v s =
     (if mem s \<noteq> None \<and> blen s - pos s \<ge> 1
      then put_byte (if v then 1 else 0) s else fail OB_ERROR s)"

definition decode_bool :: "bool run" where
  "decode_bool = bind decode_i8 (\<lambda>v. ret (v \<noteq> 0))"

section \<open>Variable-length integers\<close>

definition encoded_length_vi64 :: "i64 \<Rightarrow> int" where
  "encoded_length_vi64 v =
     (if v \<le> OB_MAX_V1B then 1
      else if v \<le> OB_MAX_V2B then 2
      else if v \<le> OB_MAX_V3B then 3
      else if v \<le> OB_MAX_V4B then 4
      else if v \<le> OB_MAX_V5B then 5
      else if v \<le> OB_MAX_V6B then 6
      else if v \<le> OB_MAX_V7B then 7
      else if v \<le> OB_MAX_V8B then 8
      else if v \<le> OB_MAX_V9B then 9
      else 10)"

text \<open>
  The loop \<^verbatim>\<open>while (__v > OB_MAX_V1B)\<close> of \<^verbatim>\<open>encode_vi64\<close> and \<^verbatim>\<open>encode_vi32\<close>, with the final
  byte behind it; the two functions differ only in the width of \<^verbatim>\<open>__v\<close>.
\<close>

function emit_vi :: "'a::len word \<Rightarrow> unit run" where
  "emit_vi v s =
     (if v > 127
      then bind (put_byte (ucast (v OR 0x80))) (\<lambda>_. emit_vi (drop_bit 7 v)) s
      else put_byte (ucast (v AND 0x7f)) s)"
  by pat_completeness auto
termination
proof (relation "measure (\<lambda>(v, s). unat v)", simp)
  fix v :: "'a word" and s x
  assume "v > 127"
  then have "0 < unat v" by (simp add: word_less_nat_alt)
  then have "unat v div 128 < unat v" by simp
  then show "((drop_bit 7 v, x), v, s) \<in> measure (\<lambda>(v, s). unat v)"
    by (simp add: unat_drop_bit_eq) (simp add: drop_bit_eq_div)
qed

definition encode_vi64 :: "i64 \<Rightarrow> unit run" where
  "encode_vi64 v s =
     (if mem s \<noteq> None \<and> blen s - pos s \<ge> encoded_length_vi64 v
      then emit_vi v s else fail OB_ERROR s)"

text \<open>
  The loop of \<^verbatim>\<open>decode_vi64\<close> and \<^verbatim>\<open>decode_vi32\<close>. The byte at the cursor is read before the
  remaining length is tested, and a shift by the width of \<^verbatim>\<open>__v\<close> or more is undefined.
\<close>

function decode_vi_loop :: "'a::len word \<Rightarrow> nat \<Rightarrow> 'a word run" where
  "decode_vi_loop v shift s =
     (case peek s (pos s) of
        None \<Rightarrow> None
      | Some b \<Rightarrow>
          if blen s - pos s < 1 then fail OB_ERROR s
          else if shift \<ge> LENGTH('a) then None
          else if b AND 0x80 \<noteq> 0
          then decode_vi_loop (v OR push_bit shift (scast b AND 0x7f)) (shift + 7)
                 (s\<lparr>pos := pos s + 1\<rparr>)
          else ret (v OR push_bit shift (scast b AND 0x7f)) (s\<lparr>pos := pos s + 1\<rparr>))"
  by pat_completeness auto
termination
  by (relation "measure (\<lambda>(v, shift, s). nat (blen s - pos s))") auto

definition decode_vi64 :: "i64 run" where
  "decode_vi64 = tmp_pos (decode_vi_loop 0 0)"

definition encoded_length_vi32 :: "i32 \<Rightarrow> int" where
  "encoded_length_vi32 v =
     (let v = ucast v :: u64 in
      if v \<le> OB_MAX_V1B then 1
      else if v \<le> OB_MAX_V2B then 2
      else if v \<le> OB_MAX_V3B then 3
      else if v \<le> OB_MAX_V4B then 4
      else 5)"

definition encode_vi32 :: "i32 \<Rightarrow> unit run" where
  "encode_vi32 v s =
     (if mem s \<noteq> None \<and> blen s - pos s \<ge> encoded_length_vi32 v
      then emit_vi v s else fail OB_ERROR s)"

definition decode_vi32 :: "i32 run" where
  "decode_vi32 = tmp_pos (decode_vi_loop 0 0)"

text \<open>Floats and doubles are represented by their bit patterns, which is all these routines use.\<close>

definition encoded_length_float :: "i32 \<Rightarrow> int" where
  "encoded_length_float v = encoded_length_vi32 v"

definition encode_float :: "i32 \<Rightarrow> unit run" where
  "encode_float v = encode_vi32 v"

definition decode_float :: "i32 run" where
  "decode_float = decode_vi32"

definition encoded_length_double :: "i64 \<Rightarrow> int" where
  "encoded_length_double v = encoded_length_vi64 v"

definition encode_double :: "i64 \<Rightarrow> unit run" where
  "encode_double v = encode_vi64 v"

definition decode_double :: "i64 run" where
  "decode_double = decode_vi64"

section \<open>Length-prefixed strings\<close>

definition encoded_length_vstr :: "int \<Rightarrow> int" where
  "encoded_length_vstr len = encoded_length_vi64 (of_int len) + len + 1"

text \<open>
  The overload on a C string; \<open>None\<close> is a null pointer and \<open>Some cs\<close> the characters before the
  terminating zero.
\<close>

definition encoded_length_vstr_cstr :: "u8 list option \<Rightarrow> int" where
  "encoded_length_vstr_cstr str =
     encoded_length_vstr (case str of None \<Rightarrow> 0 | Some cs \<Rightarrow> int (length cs) + 1)"

definition decoded_length_vstr :: "buffer \<Rightarrow> int option" where
  "decoded_length_vstr s =
     (if mem s = None \<or> blen s < 0 \<or> pos s < 0 then Some (- 1)
      else case decode_vi64 s of
             None \<Rightarrow> None
           | Some (Err e, _) \<Rightarrow> Some (- 1)
           | Some (Ok len, _) \<Rightarrow> Some (sint len))"

text \<open>
  \<open>vbuf\<close> is the source memory (\<open>None\<close> for null) and \<open>len\<close> the number of bytes to copy. The
  space check truncates the required length to 32 bits; the terminating zero is written even
  when the length could not be encoded.
\<close>

definition memcpy_from :: "u8 list \<Rightarrow> int \<Rightarrow> unit run" where
  "memcpy_from vb len s =
     (if 0 \<le> len \<and> len \<le> int (length vb) then put_bytes (take (nat len) vb) s else None)"

definition encode_vstr :: "u8 list option \<Rightarrow> int \<Rightarrow> unit run" where
  "encode_vstr vbuf len s =
     (if mem s \<noteq> None \<and> len \<ge> 0 \<and>
         blen s - pos s \<ge> sint (of_int (encoded_length_vstr len) :: i32)
      then case bind (encode_vi64 (of_int len))
                 (\<lambda>_. case vbuf of
                        None \<Rightarrow> ret ()
                      | Some vb \<Rightarrow> if len > 0 then memcpy_from vb len else ret ()) s of
             None \<Rightarrow> None
           | Some (r, s') \<Rightarrow>
               (case put_byte 0 s' of
                  None \<Rightarrow> None
                | Some (_, s'') \<Rightarrow> Some (r, s''))
      else fail OB_ERROR s)"

definition encode_vstr_cstr :: "u8 list option \<Rightarrow> unit run" where
  "encode_vstr_cstr str =
     (case str of
        None \<Rightarrow> encode_vstr None 0
      | Some cs \<Rightarrow> encode_vstr (Some (cs @ [0])) (int (length cs) + 1))"

text \<open>
  The reader returns a pointer into the buffer, given as the offset it points to (\<open>None\<close> for
  null), and stores the length through \<^verbatim>\<open>lenp\<close>; the second component is what is stored there
  (\<open>None\<close> when \<^verbatim>\<open>*lenp\<close> is left alone).
\<close>

definition decode_vstr :: "(int option \<times> int option) run" where
  "decode_vstr s =
     (if mem s = None \<or> blen s < 0 \<or> pos s < 0 then ret (None, None) s
      else case decode_vi64 s of
             None \<Rightarrow> None
           | Some (Err e, _) \<Rightarrow> ret (None, Some (- 1)) s
           | Some (Ok w, s') \<Rightarrow>
               let tmp_len = sint w in
               if tmp_len \<ge> 0
               then if blen s - pos s' \<ge> tmp_len
                    then ret (Some (pos s'), Some tmp_len) (s'\<lparr>pos := pos s' + (tmp_len + 1)\<rparr>)
                    else ret (None, Some (- 1)) s
               else ret (None, None) s)"

text \<open>The overload that also copies the string to \<^verbatim>\<open>dest\<close>; the bytes copied are the last component.\<close>

definition mem_slice :: "buffer \<Rightarrow> int \<Rightarrow> int \<Rightarrow> u8 list option" where
  "mem_slice s from len =
     (case mem s of
        None \<Rightarrow> None
      | Some m \<Rightarrow>
          if 0 \<le> from \<and> 0 \<le> len \<and> from + len \<le> int (length m)
          then Some (take (nat len) (drop (nat from) m)) else None)"

definition decode_vstr_copy :: "int \<Rightarrow> (int option \<times> int option \<times> u8 list) run" where
  "decode_vstr_copy dest_len s =
     (if mem s = None \<or> blen s < 0 \<or> pos s < 0 \<or> dest_len < 0 then ret (None, None, []) s
      else case decode_vi64 s of
             None \<Rightarrow> None
           | Some (Err e, _) \<Rightarrow> ret (None, Some (- 1), []) s
           | Some (Ok w, s') \<Rightarrow>
               let tmp_len = sint w in
               if tmp_len > dest_len then ret (None, Some (- 1), []) s
               else if tmp_len \<ge> 0
               then if blen s - pos s' \<ge> tmp_len
                    then (case mem_slice s (pos s') tmp_len of
                            None \<Rightarrow> None
                          | Some bs \<Rightarrow>
                              ret (Some (pos s'), Some tmp_len, bs)
                                (s'\<lparr>pos := pos s' + (tmp_len + 1)\<rparr>))
                    else ret (None, Some (- 1), []) s
               else ret (None, None, []) s)"

section \<open>Byte representations\<close>

text \<open>Big-endian bytes of a word, and the little-endian base-128 digits of a number.\<close>

definition be_bytes :: "nat \<Rightarrow> 'a::len word \<Rightarrow> u8 list" where
  "be_bytes n w = map (\<lambda>i. ucast (drop_bit (8 * i) w)) (rev [0..<n])"

fun vi_bytes :: "nat \<Rightarrow> u8 list" where
  "vi_bytes n = (if n < 128 then [of_nat n] else of_nat (128 + n mod 128) # vi_bytes (n div 128))"

declare vi_bytes.simps [simp del] emit_vi.simps [simp del] decode_vi_loop.simps [simp del]

lemma length_be_bytes [simp]: "length (be_bytes n w) = n"
  by (simp add: be_bytes_def)

lemma be_bytes_expand:
  "be_bytes 2 w = [ucast (drop_bit 8 w), ucast w]"
  "be_bytes 4 w = [ucast (drop_bit 24 w), ucast (drop_bit 16 w), ucast (drop_bit 8 w), ucast w]"
  "be_bytes 8 w = [ucast (drop_bit 56 w), ucast (drop_bit 48 w), ucast (drop_bit 40 w),
     ucast (drop_bit 32 w), ucast (drop_bit 24 w), ucast (drop_bit 16 w), ucast (drop_bit 8 w), ucast w]"
  by (simp_all add: be_bytes_def eval_nat_numeral)

subsection \<open>Bytes of a word\<close>

lemma mask8_word: "(0xff :: 'a::len word) = mask 8"
  by (simp add: mask_eq_exp_minus_1)

lemma byte_of_shift:
  fixes w :: "'a::len word"
  assumes "k + 8 \<le> LENGTH('a)"
  shows "(ucast (signed_drop_bit k w AND 0xff) :: u8) = ucast (drop_bit k w)"
proof (rule bit_word_eqI)
  fix n assume "n < LENGTH(8)"
  then show "bit (ucast (signed_drop_bit k w AND 0xff) :: u8) n = bit (ucast (drop_bit k w) :: u8) n"
    using assms unfolding mask8_word by (auto simp: bit_simps)
qed

lemma byte_low: "(ucast (w AND 0xff) :: u8) = ucast (w :: 'a :: len word)"
  unfolding mask8_word by (rule bit_word_eqI) (auto simp: bit_simps dest: bit_imp_le_length)

lemma byte_of_shift':
  fixes w :: "'a::len word"
  assumes "k + 8 \<le> LENGTH('a)"
  shows "(ucast (signed_drop_bit k w) :: u8) = ucast (drop_bit k w)"
  using byte_of_shift [OF assms, of w] by (simp add: byte_low)

lemma byte_promote: "8 \<le> LENGTH('a) \<Longrightarrow> (scast (b :: u8) AND 0xff :: 'a::len word) = ucast b"
  unfolding mask8_word
proof (rule bit_word_eqI)
  fix n assume a: "8 \<le> LENGTH('a)" "n < LENGTH('a)"
  have "bit b n \<Longrightarrow> n < 8" using bit_imp_le_length [of b n] by simp
  with a show "bit (scast b AND mask 8 :: 'a word) n = bit (ucast b :: 'a word) n"
    by (cases "n < 8") (auto simp: bit_simps min_absorb2)
qed

lemma byte_slice:
  fixes w :: "'a::len word"
  shows "(ucast (ucast w :: u8) :: 'a word) = take_bit 8 w"
  by (rule bit_word_eqI) (auto simp: bit_simps)

lemma join_slice:
  fixes w :: "'a::len word"
  shows "push_bit k (take_bit 8 (drop_bit k w)) OR take_bit k w = take_bit (k + 8) w"
  by (rule bit_word_eqI) (auto simp: bit_simps)

lemmas byte_simps = byte_of_shift' byte_low byte_promote byte_slice join_slice


subsection \<open>Fixed-width codecs\<close>

interpretation i8: codec encode_i8 decode_i8 "\<lambda>v. [v]" "\<lambda>_. True"
proof
  fix v :: i8
  show "emits (encode_i8 v) [v]"
    by (rule emits_checked [OF encode_i8_def]) (simp_all add: emits_put_byte)
  show "reads decode_i8 [v] v"
    by (rule reads_checked [OF decode_i8_def]) (simp_all add: reads_get_byte)
  show "refuses (encode_i8 v) (length [v])"
    by (rule refuses_checked [OF encode_i8_def]) simp
qed

lemma i16_bytes:
  "ucast (signed_drop_bit 8 (scast (v :: i16) :: i32) AND 0xff) = (ucast (drop_bit 8 v) :: u8)"
  "ucast ((scast (v :: i16) :: i32) AND 0xff) = (ucast v :: u8)"
  unfolding mask8_word by ((rule bit_word_eqI, auto simp: bit_simps)[1])+

lemma i16_assemble:
  "ucast ((scast (ucast (push_bit 8 (ucast (ucast (drop_bit 8 v) :: u8) :: i32)) :: i16) :: i32)
     OR ucast (ucast v :: u8)) = (v :: i16)"
  by (rule bit_word_eqI) (auto simp: bit_simps)

interpretation i16: codec encode_i16 decode_i16 "be_bytes 2" "\<lambda>_. True"
proof
  fix v :: i16
  show "emits (encode_i16 v) (be_bytes 2 v)"
    by (rule emits_checked [OF encode_i16_def])
      (auto simp only: be_bytes_expand i16_bytes intro!: emits_bind_Cons emits_put_byte, simp)
  show "reads decode_i16 (be_bytes 2 v) v"
    apply (rule reads_checked [OF decode_i16_def])
    unfolding be_bytes_expand Let_def
    by (rule reads_bind_Cons, rule reads_get_byte, rule reads_bind_Cons, rule reads_get_byte)
      (simp_all add: byte_promote i16_assemble reads_ret)
  show "refuses (encode_i16 v) (length (be_bytes 2 v))"
    by (rule refuses_checked [OF encode_i16_def]) simp
qed

interpretation i32: codec encode_i32 decode_i32 "be_bytes 4" "\<lambda>_. True"
proof
  fix v :: i32
  show "emits (encode_i32 v) (be_bytes 4 v)"
    by (rule emits_checked [OF encode_i32_def])
      (simp_all add: be_bytes_expand byte_simps emits_bind_Cons emits_put_byte)
  show "reads decode_i32 (be_bytes 4 v) v"
    by (rule reads_checked [OF decode_i32_def], unfold be_bytes_expand)
      ((rule reads_bind_Cons, rule reads_get_byte)+, simp_all add: byte_simps reads_ret take_bit_word_eq_self)
  show "refuses (encode_i32 v) (length (be_bytes 4 v))"
    by (rule refuses_checked [OF encode_i32_def]) simp
qed

interpretation i64: codec encode_i64 decode_i64 "be_bytes 8" "\<lambda>_. True"
proof
  fix v :: i64
  show "emits (encode_i64 v) (be_bytes 8 v)"
    by (rule emits_checked [OF encode_i64_def])
      (simp_all add: be_bytes_expand byte_simps emits_bind_Cons emits_put_byte)
  show "reads decode_i64 (be_bytes 8 v) v"
    by (rule reads_checked [OF decode_i64_def], unfold be_bytes_expand)
      ((rule reads_bind_Cons, rule reads_get_byte)+, simp_all add: byte_simps reads_ret take_bit_word_eq_self)
  show "refuses (encode_i64 v) (length (be_bytes 8 v))"
    by (rule refuses_checked [OF encode_i64_def]) simp
qed

interpretation bool: codec encode_bool decode_bool "\<lambda>v. [if v then 1 else 0]" "\<lambda>_. True"
proof
  fix v :: bool
  show "emits (encode_bool v) [if v then 1 else 0]"
    by (rule emits_checked [OF encode_bool_def]) (simp_all add: emits_put_byte)
  have "reads decode_bool [if v then 1 else 0] ((if v then 1 else 0 :: i8) \<noteq> 0)"
    unfolding decode_bool_def by (rule reads_bind_ret) (rule i8.dec_reads, simp)
  then show "reads decode_bool [if v then 1 else 0] v" by (cases v) simp_all
  show "refuses (encode_bool v) (length [if v then 1 else (0 :: u8)])"
    by (rule refuses_checked [OF encode_bool_def]) simp
qed


subsection \<open>Variable-length integers\<close>

lemma vi_bytes_small: "n < 128 \<Longrightarrow> vi_bytes n = [of_nat n]"
  by (simp add: vi_bytes.simps)

lemma vi_bytes_big: "128 \<le> n \<Longrightarrow> vi_bytes n = of_nat (128 + n mod 128) # vi_bytes (n div 128)"
  by (simp add: vi_bytes.simps [of n])

lemma bit_128_nat [simp]: "bit (128 :: nat) i \<longleftrightarrow> i = 7"
  using bit_exp_iff [where 'a = nat, of 7 i] by simp

lemma bit_127_nat [simp]: "bit (127 :: nat) i \<longleftrightarrow> i < 7"
  using bit_mask_iff [where 'a = nat, of 7 i] by (simp add: mask_eq_exp_minus_1)

lemma bit_128_int [simp]: "bit (128 :: int) i \<longleftrightarrow> i = 7"
  using bit_exp_iff [where 'a = int, of 7 i] by simp

lemma bit_127_int [simp]: "bit (127 :: int) i \<longleftrightarrow> i < 7"
  using bit_mask_iff [where 'a = int, of 7 i] by (simp add: mask_eq_exp_minus_1)

lemma bit_cont: "bit (128 + n mod 128 :: nat) i \<longleftrightarrow> i = 7 \<or> (i < 7 \<and> bit n i)"
proof -
  have "128 + take_bit 7 n = 128 OR take_bit 7 n"
    by (rule disjunctive_add) (auto simp: bit_simps)
  then have "128 + n mod 128 = 128 OR take_bit 7 n" by (simp add: take_bit_eq_mod)
  then show ?thesis by (simp only:) (auto simp: bit_simps)
qed

lemma bit_mod128: "bit (n mod 128 :: nat) i \<longleftrightarrow> i < 7 \<and> bit n i"
  using bit_take_bit_iff [of 7 n i] by (simp add: take_bit_eq_mod)

lemma bit_div128: "bit (n div 128 :: nat) i \<longleftrightarrow> bit n (7 + i)"
  using bit_drop_bit_eq [of 7 n] by (simp add: drop_bit_eq_div fun_eq_iff)

lemma less_128_bits: "(n :: nat) < 128 \<Longrightarrow> bit n i \<Longrightarrow> i < 7"
  using bit_mod128 [of n i] by simp

lemmas vi_bits = bit_cont bit_mod128 bit_div128

lemma vi_more: "8 \<le> LENGTH('a) \<Longrightarrow> (127 :: 'a::len word) < v \<longleftrightarrow> 128 \<le> unat v"
proof -
  assume "8 \<le> LENGTH('a)"
  then have "(2::nat) ^ 8 \<le> 2 ^ LENGTH('a)" by (rule power_increasing) simp
  then show ?thesis by (simp add: word_less_nat_alt take_bit_nat_eq_self) linarith
qed

lemma emit_cont_byte:
  fixes v :: "'a::len word"
  assumes "8 \<le> LENGTH('a)"
  shows "(ucast (v OR 0x80) :: u8) = of_nat (128 + unat v mod 128)"
  by (rule bit_word_eqI) (use assms in \<open>auto simp: bit_simps vi_bits simp del: of_nat_add\<close>)

lemma emit_last_byte:
  fixes v :: "'a::len word"
  assumes "8 \<le> LENGTH('a)" "unat v < 128"
  shows "(ucast (v AND 0x7f) :: u8) = of_nat (unat v)"
proof (rule bit_word_eqI)
  fix n assume "n < LENGTH(8)"
  then show "bit (ucast (v AND 0x7f) :: u8) n = bit (of_nat (unat v) :: u8) n"
   using assms(1) less_128_bits [OF assms(2), of n] by (auto simp: bit_simps vi_bits)
qed

lemma decode_vi_step:
  fixes v :: "'a::len word"
  shows "v OR push_bit k (of_nat (n mod 128)) OR push_bit (k + 7) (of_nat (n div 128))
       = v OR push_bit k (of_nat n)"
proof (rule bit_word_eqI)
  fix i assume "i < LENGTH('a)"
  then show "bit (v OR push_bit k (of_nat (n mod 128)) OR push_bit (k + 7) (of_nat (n div 128))) i
    = bit (v OR push_bit k (of_nat n)) i"
    by (cases "i < k + 7") (auto simp: bit_simps vi_bits)
qed

lemma cont_byte_facts:
  "(of_nat (128 + n mod 128) :: u8) AND 0x80 \<noteq> 0"
  "8 \<le> LENGTH('a) \<Longrightarrow> (scast (of_nat (128 + n mod 128) :: u8) AND 0x7f :: 'a::len word) = of_nat (n mod 128)"
proof -
  have "bit ((of_nat (128 + n mod 128) :: u8) AND 0x80) 7"
    by (auto simp: bit_simps vi_bits simp del: of_nat_add)
  then show "(of_nat (128 + n mod 128) :: u8) AND 0x80 \<noteq> 0" by auto
  assume a: "8 \<le> LENGTH('a)"
  show "(scast (of_nat (128 + n mod 128) :: u8) AND 0x7f :: 'a::len word) = of_nat (n mod 128)"
    by (rule bit_word_eqI) (use a in \<open>auto simp: bit_simps vi_bits min_def simp del: of_nat_add\<close>)
qed

lemma last_byte_facts:
  "n < 128 \<Longrightarrow> (of_nat n :: u8) AND 0x80 = 0"
  "n < 128 \<Longrightarrow> 8 \<le> LENGTH('a) \<Longrightarrow> (scast (of_nat n :: u8) AND 0x7f :: 'a::len word) = of_nat n"
proof -
  assume n: "n < 128"
  show "(of_nat n :: u8) AND 0x80 = 0"
    by (rule bit_word_eqI) (auto simp: bit_simps dest: less_128_bits [OF n])
  assume "8 \<le> LENGTH('a)"
  then show "(scast (of_nat n :: u8) AND 0x7f :: 'a::len word) = of_nat n"
    by (intro bit_word_eqI) (auto simp: bit_simps min_def dest: less_128_bits [OF n])
qed

lemma emit_vi_emits:
  fixes v :: "'a::len word"
  assumes len: "8 \<le> LENGTH('a)"
  shows "emits (emit_vi v) (vi_bytes (unat v))"
proof (induction "unat v" arbitrary: v rule: less_induct)
  case less
  show ?case
  proof (cases "unat v < 128")
    case True
    then have "emit_vi v = put_byte (ucast (v AND 0x7f))"
      using len by (intro ext, subst emit_vi.simps) (simp add: vi_more)
    with True show ?thesis
      using len by (simp add: vi_bytes_small emit_last_byte emits_put_byte)
  next
    case False
    then have "emit_vi v = bind (put_byte (ucast (v OR 0x80))) (\<lambda>_. emit_vi (drop_bit 7 v))"
      using len by (intro ext, subst emit_vi.simps) (simp add: vi_more)
    moreover have d: "unat (drop_bit 7 v) = unat v div 128"
      by (simp add: unat_drop_bit_eq) (simp add: drop_bit_eq_div)
    moreover have "emits (emit_vi (drop_bit 7 v)) (vi_bytes (unat (drop_bit 7 v)))"
      using False by (intro less) (simp add: d)
    ultimately show ?thesis
      using False len by (simp add: vi_bytes_big emit_cont_byte emits_bind_Cons emits_put_byte)
  qed
qed

lemma decode_vi_loop_more:
  fixes v :: "'a::len word"
  assumes "peek s (pos s) = Some b" "1 \<le> blen s - pos s" "k < LENGTH('a)"
    "b AND 0x80 \<noteq> 0" "scast b AND 0x7f = x"
  shows "decode_vi_loop v k s = decode_vi_loop (v OR push_bit k x) (k + 7) (adv 1 s)"
  using assms by (subst decode_vi_loop.simps) (simp add: adv_def del: push_bit_and)

lemma decode_vi_loop_last:
  fixes v :: "'a::len word"
  assumes "peek s (pos s) = Some b" "1 \<le> blen s - pos s" "k < LENGTH('a)"
    "b AND 0x80 = 0" "scast b AND 0x7f = x"
  shows "decode_vi_loop v k s = Some (Ok (v OR push_bit k x), adv 1 s)"
  using assms by (subst decode_vi_loop.simps) (simp add: adv_def ret_def del: push_bit_and)

lemma decode_vi_loop_reads:
  fixes v :: "'a::len word"
  assumes len: "8 \<le> LENGTH('a)"
  shows "k < LENGTH('a) \<Longrightarrow> n < 2 ^ (LENGTH('a) - k) \<Longrightarrow>
     reads (decode_vi_loop v k) (vi_bytes n) (v OR push_bit k (of_nat n))"
proof (induction n arbitrary: v k rule: less_induct)
  case (less n)
  show ?case
  proof (cases "n < 128")
    case True
    show ?thesis
    proof (rule readsI)
      fix s assume h: "holds (vi_bytes n) s"
      then have p: "peek s (pos s) = Some (of_nat n)" "1 \<le> blen s - pos s"
        using True room_ge [OF holds_room [OF h]] by (simp_all add: vi_bytes_small peek_holds)
      show "decode_vi_loop v k s = Some (Ok (v OR push_bit k (of_nat n)), adv (length (vi_bytes n)) s)"
        using True
        by (subst decode_vi_loop_last [OF p less.prems(1) last_byte_facts(1) last_byte_facts(2) [OF _ len]])
          (simp_all add: vi_bytes_small)
    qed
  next
    case False
    have k: "k + 7 < LENGTH('a)"
    proof (rule ccontr)
      assume "\<not> k + 7 < LENGTH('a)"
      then have "(2::nat) ^ (LENGTH('a) - k) \<le> 2 ^ 7" by (intro power_increasing) auto
      with less.prems False show False by simp
    qed
    have n': "n div 128 < 2 ^ (LENGTH('a) - (k + 7))"
    proof -
      have "(2::nat) ^ (LENGTH('a) - k) = 2 ^ (LENGTH('a) - (k + 7)) * 128"
        using k power_add [of "2::nat" "LENGTH('a) - (k + 7)" 7] by simp
      with less.prems(2) show ?thesis by (simp add: less_mult_imp_div_less)
    qed
    have IH: "reads (decode_vi_loop (v OR push_bit k (of_nat (n mod 128))) (k + 7)) (vi_bytes (n div 128))
        (v OR push_bit k (of_nat n))"
      using less.IH [of "n div 128" "k + 7" "v OR push_bit k (of_nat (n mod 128))"] False k n'
      by (simp add: decode_vi_step or.assoc)
    show ?thesis
    proof (rule readsI)
      fix s assume "holds (vi_bytes n) s"
      then have h: "holds (of_nat (128 + n mod 128) # vi_bytes (n div 128)) s"
        using False by (simp add: vi_bytes_big)
      then have p: "peek s (pos s) = Some (of_nat (128 + n mod 128))" "1 \<le> blen s - pos s"
        using room_ge [OF holds_room [OF h]] by (simp_all add: peek_holds)
      from h have "holds (vi_bytes (n div 128)) (adv 1 s)"
        using holds_append [of "[of_nat (128 + n mod 128)]" "vi_bytes (n div 128)" s] by simp
      from readsD [OF IH this] False
      show "decode_vi_loop v k s = Some (Ok (v OR push_bit k (of_nat n)), adv (length (vi_bytes n)) s)"
        by (subst decode_vi_loop_more [OF p less.prems(1) cont_byte_facts(1) cont_byte_facts(2) [OF len]])
          (simp add: vi_bytes_big)
    qed
  qed
qed



lemma length_vi_bytes:
  "n < 128 ^ Suc k \<Longrightarrow> k = 0 \<or> 128 ^ k \<le> n \<Longrightarrow> length (vi_bytes n) = Suc k"
proof (induction k arbitrary: n)
  case 0
  then show ?case by (simp add: vi_bytes_small)
next
  case (Suc k)
  have big: "128 \<le> n"
  proof -
    have "(128::nat) ^ 1 \<le> 128 ^ Suc k" by (rule power_increasing) simp_all
    moreover have "128 ^ Suc k \<le> n" using Suc.prems(2) by blast
    ultimately show ?thesis unfolding power_one_right by (rule le_trans)
  qed
  have "n div 128 < 128 ^ Suc k"
    using Suc.prems(1) by (simp add: less_mult_imp_div_less)
  moreover have "128 ^ k \<le> n div 128"
    using Suc.prems(2) by (simp add: less_eq_div_iff_mult_less_eq mult.commute)
  ultimately show ?case
    using Suc.IH [of "n div 128"] big by (simp add: vi_bytes_big)
qed

lemma length_vi_bytes_pos: "0 < length (vi_bytes n)"
  by (subst vi_bytes.simps) simp

lemma length_vi_bytes_between:
  "n < 2 ^ (7 * Suc k) \<Longrightarrow> k = 0 \<or> 2 ^ (7 * k) \<le> n \<Longrightarrow> int (length (vi_bytes n)) = int k + 1"
proof -
  assume a: "n < 2 ^ (7 * Suc k)" "k = 0 \<or> 2 ^ (7 * k) \<le> n"
  have "n < 128 ^ Suc k" "k = 0 \<or> 128 ^ k \<le> n"
    using a power_mult [of "2::nat" 7 "Suc k"] power_mult [of "2::nat" 7 k] by simp_all
  then show ?thesis by (simp add: length_vi_bytes)
qed

lemma encoded_length_vi64_eq: "encoded_length_vi64 v = int (length (vi_bytes (unat v)))"
proof -
  have b: "unat v < 2 ^ 64" using unsigned_less [of v] by simp
  note len = length_vi_bytes_between [where n = "unat v"]
  show ?thesis
    using b unfolding encoded_length_vi64_def OB_MAX_V_defs word_le_nat_alt
    by (simp add: len [of 0] len [of 1] len [of 2] len [of 3] len [of 4] len [of 5] len [of 6]
        len [of 7] len [of 8] len [of 9] not_le split: if_split)
qed

lemma encoded_length_vi32_eq: "encoded_length_vi32 v = int (length (vi_bytes (unat v)))"
proof -
  have b: "unat v < 2 ^ 32" using unsigned_less [of v] by simp
  have u: "unat (ucast v :: u64) = unat v"
    using b by (simp add: unsigned_ucast_eq take_bit_nat_eq_self)
  note len = length_vi_bytes_between [where n = "unat v"]
  show ?thesis
    using b unfolding encoded_length_vi32_def OB_MAX_V_defs word_le_nat_alt u Let_def
    by (simp add: len [of 0] len [of 1] len [of 2] len [of 3] len [of 4] not_le split: if_split)
qed

interpretation vi64: codec encode_vi64 decode_vi64 "\<lambda>v. vi_bytes (unat v)" "\<lambda>_. True"
proof
  fix v :: i64
  show "emits (encode_vi64 v) (vi_bytes (unat v))"
    by (rule emits_checked [OF encode_vi64_def]) (simp_all add: emit_vi_emits encoded_length_vi64_eq)
  have "reads (decode_vi_loop (0 :: i64) 0) (vi_bytes (unat v)) (0 OR push_bit 0 (of_nat (unat v)))"
    using unsigned_less [of v] by (intro decode_vi_loop_reads) simp_all
  then show "reads decode_vi64 (vi_bytes (unat v)) v"
    by (simp add: decode_vi64_def reads_tmp_pos)
  show "refuses (encode_vi64 v) (length (vi_bytes (unat v)))"
    by (rule refuses_checked [OF encode_vi64_def]) (simp add: encoded_length_vi64_eq)
qed

interpretation vi32: codec encode_vi32 decode_vi32 "\<lambda>v. vi_bytes (unat v)" "\<lambda>_. True"
proof
  fix v :: i32
  show "emits (encode_vi32 v) (vi_bytes (unat v))"
    by (rule emits_checked [OF encode_vi32_def]) (simp_all add: emit_vi_emits encoded_length_vi32_eq)
  have "reads (decode_vi_loop (0 :: i32) 0) (vi_bytes (unat v)) (0 OR push_bit 0 (of_nat (unat v)))"
    using unsigned_less [of v] by (intro decode_vi_loop_reads) simp_all
  then show "reads decode_vi32 (vi_bytes (unat v)) v"
    by (simp add: decode_vi32_def reads_tmp_pos)
  show "refuses (encode_vi32 v) (length (vi_bytes (unat v)))"
    by (rule refuses_checked [OF encode_vi32_def]) (simp add: encoded_length_vi32_eq)
qed

lemma decode_vi_loop_defined:
  fixes v :: i64
  assumes "buf_wf s" "j \<le> 10"
  shows "(decode_vi_loop v (7 * j) s = None \<longleftrightarrow>
            list_all (\<lambda>b. b AND 0x80 \<noteq> 0) (take (10 - j) (rest s))) \<and>
         (\<forall>e s'. decode_vi_loop v (7 * j) s \<noteq> Some (Err e, s'))"
  using assms
proof (induction "10 - j" arbitrary: j v s)
  case 0
  then have "j = 10" by simp
  then have "decode_vi_loop v (7 * j) s = None"
    using 0(2) by (subst decode_vi_loop.simps)
      (cases "rest s"; auto dest: rest_Nil rest_Cons split: option.split)
  with \<open>j = 10\<close> show ?case by simp
next
  case (Suc n)
  then have j: "7 * j < LENGTH(64)" "10 - Suc j = n" "Suc j \<le> 10" by simp_all
  show ?case
  proof (cases "rest s")
    case Nil
    then have "decode_vi_loop v (7 * j) s = None"
      using Suc.prems(1) by (subst decode_vi_loop.simps) (simp add: rest_Nil)
    with Nil show ?thesis by simp
  next
    case (Cons b bs)
    with Suc.prems(1) have c: "peek s (pos s) = Some b" "1 \<le> blen s - pos s"
      "buf_wf (adv 1 s)" "rest (adv 1 s) = bs"
      using rest_Cons by blast+
    show ?thesis
    proof (cases "b AND 0x80 = 0")
      case True
      from decode_vi_loop_last [OF c(1,2) j(1) this refl] True Cons Suc.hyps(2) show ?thesis
        by (simp flip: Suc.hyps(2))
    next
      case False
      from decode_vi_loop_more [OF c(1,2) j(1) this refl]
        Suc.hyps(1) [of "Suc j" "adv 1 s" "v OR push_bit (7 * j) (scast b AND 0x7f)"] j c False Cons
      show ?thesis by (simp flip: Suc.hyps(2) add: add.commute del: push_bit_and)
    qed
  qed
qed

lemma decode_vi64_defined:
  assumes "buf_wf s"
  shows "(decode_vi64 s = None \<longleftrightarrow> list_all (\<lambda>b. b AND 0x80 \<noteq> 0) (take 10 (rest s))) \<and>
     (\<forall>e s'. decode_vi64 s \<noteq> Some (Err e, s'))"
  using decode_vi_loop_defined [OF assms, of 0 0]
  by (auto simp: decode_vi64_def tmp_pos_def split: option.splits result.splits)

subsection \<open>Length-prefixed strings\<close>

definition vstr_bytes :: "u8 list \<Rightarrow> u8 list" where
  "vstr_bytes bs = vi_bytes (length bs) @ bs @ [0]"

lemma unat_of_nat64 [simp]: "n < 2 ^ 64 \<Longrightarrow> unat (of_nat n :: i64) = n"
  by (simp add: unsigned_of_nat take_bit_nat_eq_self)

lemma sint_of_nat32 [simp]: "n < 2 ^ 31 \<Longrightarrow> sint (of_nat n :: i32) = int n"
  by (simp add: signed_of_nat signed_take_bit_int_eq_self)

lemma sint_of_nat64 [simp]: "n < 2 ^ 63 \<Longrightarrow> sint (of_nat n :: i64) = int n"
  by (simp add: signed_of_nat signed_take_bit_int_eq_self)

lemma encoded_length_vstr_eq:
  "length bs < 2 ^ 64 \<Longrightarrow> encoded_length_vstr (int (length bs)) = int (length (vstr_bytes bs))"
  by (simp add: encoded_length_vstr_def encoded_length_vi64_eq vstr_bytes_def)

lemma encode_vstr_emits:
  assumes "length (vstr_bytes bs) < 2 ^ 31"
  shows "emits (encode_vstr (Some bs) (int (length bs))) (vstr_bytes bs)"
proof (rule emitsI)
  fix s assume r: "room (length (vstr_bytes bs)) s"
  let ?n = "int (length bs)"
  have n: "length bs < 2 ^ 31" using assms by (simp add: vstr_bytes_def)
  have "emits (encode_vi64 (of_int ?n)) (vi_bytes (length bs))"
    using vi64.enc_emits [of "of_int ?n"] n by simp
  moreover have "emits (if 0 < ?n then memcpy_from bs ?n else ret ()) bs"
  proof (cases "bs = []")
    case False
    have "memcpy_from bs ?n = put_bytes bs" by (rule ext) (simp add: memcpy_from_def)
    with False show ?thesis by (simp add: emits_put_bytes)
  qed (simp add: emits_ret)
  ultimately have "emits (bind (encode_vi64 (of_int ?n)) (\<lambda>_. if 0 < ?n then memcpy_from bs ?n else ret ()))
    (vi_bytes (length bs) @ bs)"
    by (rule emits_bind)
  moreover have r1: "room (length (vi_bytes (length bs) @ bs)) s"
    and r2: "room 1 (overlay (vi_bytes (length bs) @ bs) s)"
    using r by (auto simp: vstr_bytes_def intro: room_mono room_overlay)
  moreover have "sint (of_int (encoded_length_vstr ?n) :: i32) \<le> blen s - pos s"
    using assms n room_ge [OF r] by (simp add: encoded_length_vstr_eq)
  ultimately show "encode_vstr (Some bs) ?n s = Some (Ok (), overlay (vstr_bytes bs) s)"
    using r overlay_overlay [of "vi_bytes (length bs) @ bs" "[0]" s]
    by (simp add: encode_vstr_def emitsD put_byte_room vstr_bytes_def del: not_None_eq)
qed

lemma decode_vstr_holds:
  assumes "holds (vi_bytes (length bs) @ bs) s" "length bs < 2 ^ 63"
  shows "decode_vstr s =
     Some (Ok (Some (pos s + int (length (vi_bytes (length bs)))), Some (int (length bs))),
       adv (length (vi_bytes (length bs)) + length bs + 1) s)" (is ?A)
    and "mem_slice s (pos s + int (length (vi_bytes (length bs)))) (int (length bs)) = Some bs" (is ?B)
proof -
  let ?k = "length (vi_bytes (length bs))"
  have h: "holds (vi_bytes (length bs)) s" "holds bs (adv ?k s)"
    using assms(1) by (simp_all add: holds_append)
  have d: "decode_vi64 s = Some (Ok (of_nat (length bs)), adv ?k s)"
    using readsD [OF vi64.dec_reads [of "of_nat (length bs)"]] h assms(2) by simp
  obtain m p where m: "mem s = Some m" "blen s = int (length m)" "pos s = int p" "p + ?k + length bs \<le> length m"
    using holds_room [OF assms(1)] by (auto elim!: roomE)
  from m d assms(2) show ?A
    by (simp add: decode_vstr_def ret_def adv_def Let_def)
  from h(2) m show ?B
    by (simp add: mem_slice_def holds_def rest_def nat_add_distrib)
qed


lemma encode_vstr_overrun:
  assumes "buf_wf s" "room 5 s" "blen s < 2 ^ 31" "length vb = 2 ^ 31"
  shows "encode_vstr (Some vb) (2 ^ 31) s = None"
proof -
  let ?w = "of_nat (2 ^ 31) :: i64"
  have len: "length (vi_bytes (2 ^ 31)) = 5"
    using length_vi_bytes [of "2 ^ 31" 4] by simp
  have u: "unat ?w = 2 ^ 31" by (rule unat_of_nat64) simp
  have e: "encode_vi64 ?w s = Some (Ok (), overlay (vi_bytes (2 ^ 31)) s)"
    by (rule emitsD [OF vi64.enc_emits [of ?w, unfolded u]]) (simp_all add: len [simplified] assms(2))
  have wf: "buf_wf (overlay (vi_bytes (2 ^ 31)) s)"
    using room_overlay [of "vi_bytes (2 ^ 31)" 0 s] assms(2) len by auto
  have "encoded_length_vstr (2 ^ 31) = 2 ^ 31 + 6"
    using encoded_length_vi64_eq [of ?w, unfolded u len] by (simp add: encoded_length_vstr_def)
  then have g: "sint (of_int (encoded_length_vstr (2 ^ 31)) :: i32) \<le> blen s - pos s"
    using room_ge [OF assms(2)] by simp
  have "memcpy_from vb (2 ^ 31) (overlay (vi_bytes (2 ^ 31)) s) = None"
  proof -
    have "0 \<le> pos s" using assms(1) by (auto elim: buf_wfE)
    with put_bytes_overrun [OF wf, of vb] assms show ?thesis
      by (auto simp: memcpy_from_def room_def)
  qed
  with e g assms(2) show ?thesis
    by (simp add: encode_vstr_def bind_def del: not_None_eq)
qed

end
