(* ===== verification/Serialization_Obj.thy ===== *)
theory Serialization_Obj
  imports Serialization
begin

text \<open>
  The typed half of \<^verbatim>\<open>src/oceanbase/src/common/serialization.h\<close>: the self-describing encodings that
  \<^verbatim>\<open>ObObj\<close> uses, whose first byte carries the type, the sign, the \<^verbatim>\<open>is_add\<close> flag and the number
  of value bytes that follow. The integer routines come twice, a checked version
  (\<^verbatim>\<open>encode_int_safe\<close>, \<^verbatim>\<open>decode_int_safe\<close>) and an unrolled one that writes and reads without
  bounds checks (\<^verbatim>\<open>fast_encode\<close>, \<^verbatim>\<open>fast_decode\<close>); the theory shows that they agree, and where
  they do not.
\<close>

unbundle bit_operations_syntax

section \<open>Constants\<close>

definition OB_MAX_INT_1B :: u64 where "OB_MAX_INT_1B = 23"
definition OB_MAX_INT_2B :: u64 where "OB_MAX_INT_2B = push_bit 8 1 - 1"
definition OB_MAX_INT_3B :: u64 where "OB_MAX_INT_3B = push_bit 16 1 - 1"
definition OB_MAX_INT_4B :: u64 where "OB_MAX_INT_4B = push_bit 24 1 - 1"
definition OB_MAX_INT_5B :: u64 where "OB_MAX_INT_5B = push_bit 32 1 - 1"
definition OB_MAX_INT_7B :: u64 where "OB_MAX_INT_7B = push_bit 48 1 - 1"

lemmas OB_MAX_INT_defs = OB_MAX_INT_1B_def OB_MAX_INT_2B_def OB_MAX_INT_3B_def
  OB_MAX_INT_4B_def OB_MAX_INT_5B_def OB_MAX_INT_7B_def

definition OB_MAX_4B :: u64 where "OB_MAX_4B = push_bit 32 1 - 1"
definition OB_MAX_6B :: u64 where "OB_MAX_6B = push_bit 48 1 - 1"

definition OB_MAX_1B_STR_LEN :: int where "OB_MAX_1B_STR_LEN = 55"
definition OB_MAX_2B_STR_LEN :: int where "OB_MAX_2B_STR_LEN = 2 ^ 8 - 1"
definition OB_MAX_3B_STR_LEN :: int where "OB_MAX_3B_STR_LEN = 2 ^ 16 - 1"
definition OB_MAX_4B_STR_LEN :: int where "OB_MAX_4B_STR_LEN = 2 ^ 24 - 1"
definition OB_MAX_5B_STR_LEN :: int where "OB_MAX_5B_STR_LEN = 2 ^ 32 - 1"

lemmas OB_MAX_STR_defs = OB_MAX_1B_STR_LEN_def OB_MAX_2B_STR_LEN_def OB_MAX_3B_STR_LEN_def
  OB_MAX_4B_STR_LEN_def OB_MAX_5B_STR_LEN_def

definition OB_INT_OPERATION_BIT_POS :: nat where "OB_INT_OPERATION_BIT_POS = 6"
definition OB_INT_SIGN_BIT_POS :: nat where "OB_INT_SIGN_BIT_POS = 5"
definition OB_DATETIME_OPERATION_BIT :: nat where "OB_DATETIME_OPERATION_BIT = 3"
definition OB_DATETIME_SIGN_BIT :: nat where "OB_DATETIME_SIGN_BIT = 2"
definition OB_FLOAT_OPERATION_BIT_POS :: nat where "OB_FLOAT_OPERATION_BIT_POS = 0"

lemmas OB_BIT_defs = OB_INT_OPERATION_BIT_POS_def OB_INT_SIGN_BIT_POS_def
  OB_DATETIME_OPERATION_BIT_def OB_DATETIME_SIGN_BIT_def OB_FLOAT_OPERATION_BIT_POS_def

definition OB_INT_VALUE_MASK :: i8 where "OB_INT_VALUE_MASK = 0x1f"
definition OB_VARCHAR_LEN_MASK :: i8 where "OB_VARCHAR_LEN_MASK = 0x3f"
definition OB_DATETIME_LEN_MASK :: i8 where "OB_DATETIME_LEN_MASK = 0x3"

definition OB_VARCHAR_TYPE :: i8 where "OB_VARCHAR_TYPE = 0x80"
definition OB_DATETIME_TYPE :: i8 where "OB_DATETIME_TYPE = 0xd0"
definition OB_PRECISE_DATETIME_TYPE :: i8 where "OB_PRECISE_DATETIME_TYPE = 0xe0"
definition OB_MODIFYTIME_TYPE :: i8 where "OB_MODIFYTIME_TYPE = 0xf0"
definition OB_CREATETIME_TYPE :: i8 where "OB_CREATETIME_TYPE = 0xf4"
definition OB_FLOAT_TYPE :: i8 where "OB_FLOAT_TYPE = 0xf8"
definition OB_DOUBLE_TYPE :: i8 where "OB_DOUBLE_TYPE = 0xfa"
definition OB_NULL_TYPE :: i8 where "OB_NULL_TYPE = 0xfc"
definition OB_BOOL_TYPE :: i8 where "OB_BOOL_TYPE = 0xfd"
definition OB_EXTEND_TYPE :: i8 where "OB_EXTEND_TYPE = 0xfe"
definition OB_DECIMAL_TYPE :: i8 where "OB_DECIMAL_TYPE = 0xff"

lemmas OB_TYPE_defs = OB_VARCHAR_TYPE_def OB_DATETIME_TYPE_def OB_PRECISE_DATETIME_TYPE_def
  OB_MODIFYTIME_TYPE_def OB_CREATETIME_TYPE_def OB_FLOAT_TYPE_def OB_DOUBLE_TYPE_def
  OB_NULL_TYPE_def OB_BOOL_TYPE_def OB_EXTEND_TYPE_def OB_DECIMAL_TYPE_def

section \<open>Booleans and null\<close>

definition encoded_length_bool_type :: "bool \<Rightarrow> int" where
  "encoded_length_bool_type v = 1 + encoded_length_bool v"

definition encode_bool_type :: "bool \<Rightarrow> unit run" where
  "encode_bool_type v =
     bind (with_err OB_ERROR (encode_i8 OB_BOOL_TYPE)) (\<lambda>_. with_err OB_ERROR (encode_bool v))"

definition decode_bool_type :: "i8 \<Rightarrow> bool run" where
  "decode_bool_type first_byte s =
     (if mem s = None \<or> blen s - pos s < 1 then fail OB_ERROR s
      else with_err OB_ERROR decode_bool s)"

definition encoded_length_null :: int where
  "encoded_length_null = 1"

definition encode_null :: "unit run" where
  "encode_null = encode_i8 OB_NULL_TYPE"

section \<open>Unsigned integers of a given number of bytes\<close>

definition safe_int64_abs :: "i64 \<Rightarrow> u64" where
  "safe_int64_abs val = (let tmp = signed_drop_bit 63 val in (val XOR tmp) - tmp)"

text \<open>
  The \<^verbatim>\<open>for\<close> loops of \<^verbatim>\<open>__encode_uint_with_given_length\<close> and its inverse, at index \<open>n\<close> with
  \<open>k\<close> iterations to go; a shift by 64 or more is undefined.
\<close>

fun encode_uint_loop :: "u64 \<Rightarrow> nat \<Rightarrow> nat \<Rightarrow> unit run" where
  "encode_uint_loop v n 0 = ret ()"
| "encode_uint_loop v n (Suc k) =
     (if 64 \<le> 8 * n then (\<lambda>s. None)
      else bind (encode_i8 (ucast (drop_bit (8 * n) v AND 0xff))) (\<lambda>_. encode_uint_loop v (Suc n) k))"

definition encode_uint_with_given_length :: "u64 \<Rightarrow> int \<Rightarrow> unit run" where
  "encode_uint_with_given_length val val_len s =
     (if mem s = None \<or> val_len \<le> 0 \<or> blen s - pos s < val_len then fail OB_ERROR s
      else tmp_pos (encode_uint_loop val 0 (nat val_len)) s)"

fun decode_uint_loop :: "u64 \<Rightarrow> nat \<Rightarrow> nat \<Rightarrow> u64 run" where
  "decode_uint_loop v n 0 = ret v"
| "decode_uint_loop v n (Suc k) =
     bind (with_err OB_ERROR decode_i8) (\<lambda>tmp.
       if 64 \<le> 8 * n then (\<lambda>s. None)
       else decode_uint_loop (v OR push_bit (8 * n) (ucast tmp)) (Suc n) k)"

definition decode_uint_with_given_length :: "int \<Rightarrow> u64 run" where
  "decode_uint_with_given_length val_len s =
     (if mem s = None \<or> blen s - pos s < val_len then fail OB_ERROR s
      else tmp_pos (decode_uint_loop 0 0 (nat val_len)) s)"

section \<open>Integers\<close>

definition encoded_length_int :: "i64 \<Rightarrow> int" where
  "encoded_length_int val =
     (let v = safe_int64_abs val in
      if v \<le> OB_MAX_INT_1B then 1
      else if v \<le> OB_MAX_INT_2B then 2
      else if v \<le> OB_MAX_INT_3B then 3
      else if v \<le> OB_MAX_INT_4B then 4
      else if v \<le> OB_MAX_INT_5B then 5
      else if v \<le> OB_MAX_INT_7B then 7
      else 9)"

text \<open>
  The tail \<^verbatim>\<open>G_INT9B: ... G_INT2B:\<close> of \<^verbatim>\<open>fast_encode\<close>: jumping to a label writes that many low
  bytes, shifting (arithmetically) in between.
\<close>

fun put_low_bytes :: "nat \<Rightarrow> i64 \<Rightarrow> unit run" where
  "put_low_bytes 0 v = ret ()"
| "put_low_bytes (Suc k) v =
     bind (put_byte (ucast (v AND 0xff))) (\<lambda>_. put_low_bytes k (signed_drop_bit 8 v))"

definition fast_encode :: "i64 \<Rightarrow> bool \<Rightarrow> unit run" where
  "fast_encode val0 is_add =
     (let first_byte = (if sint val0 < 0 then set_bit8 0 OB_INT_SIGN_BIT_POS else 0);
          val = (if sint val0 < 0 then - val0 else val0);
          first_byte = (if is_add then set_bit8 first_byte OB_INT_OPERATION_BIT_POS else first_byte)
      in
      if val \<le> OB_MAX_INT_1B then put_byte (first_byte OR ucast val)
      else
        let first_byte = first_byte OR ucast OB_MAX_INT_1B in
        if val \<le> OB_MAX_INT_4B then
          if val \<le> OB_MAX_INT_2B then bind (put_byte (first_byte + 1)) (\<lambda>_. put_low_bytes 1 val)
          else if val \<le> OB_MAX_INT_3B then bind (put_byte (first_byte + 2)) (\<lambda>_. put_low_bytes 2 val)
          else bind (put_byte (first_byte + 3)) (\<lambda>_. put_low_bytes 3 val)
        else
          if val \<le> OB_MAX_INT_5B then bind (put_byte (first_byte + 4)) (\<lambda>_. put_low_bytes 4 val)
          else if val \<le> OB_MAX_INT_7B then bind (put_byte (first_byte + 5)) (\<lambda>_. put_low_bytes 6 val)
          else bind (put_byte (first_byte + 7)) (\<lambda>_. put_low_bytes 8 val))"

definition encode_int_safe :: "i64 \<Rightarrow> bool \<Rightarrow> unit run" where
  "encode_int_safe val is_add s =
     (let len = encoded_length_int val in
      if mem s = None \<or> blen s - pos s < len then fail OB_ERROR s
      else
        let first_byte = (if sint val < 0 then set_bit8 0 OB_INT_SIGN_BIT_POS else 0);
            first_byte = (if is_add then set_bit8 first_byte OB_INT_OPERATION_BIT_POS else first_byte);
            v = safe_int64_abs val;
            first_byte =
              (if v \<le> OB_MAX_INT_1B then ucast (scast first_byte OR v)
               else
                 let tmp_len = (if len = 7 \<or> len = 9 then len - 1 else len) in
                 ucast (scast first_byte OR (of_int (tmp_len - 1) + OB_MAX_INT_1B)))
        in bind (with_err OB_ERROR (encode_i8 first_byte))
             (\<lambda>_. if len - 1 > 0 then encode_uint_with_given_length v (len - 1) else ret ()) s)"

definition encode_int :: "i64 \<Rightarrow> bool \<Rightarrow> unit run" where
  "encode_int val is_add s =
     (if blen s - pos s \<ge> 10 then fast_encode val is_add s else encode_int_safe val is_add s)"

text \<open>
  The tail \<^verbatim>\<open>D_INT9B: ... D_INT2B:\<close> of \<^verbatim>\<open>fast_decode\<close>: \<open>k\<close> bytes are read backwards from
  \<open>npos\<close>, shifting after every byte but the last.
\<close>

fun fast_read :: "buffer \<Rightarrow> nat \<Rightarrow> int \<Rightarrow> i64 \<Rightarrow> i64 option" where
  "fast_read s 0 npos v = Some v"
| "fast_read s (Suc k) npos v =
     (case peek s (npos - 1) of
        None \<Rightarrow> None
      | Some b \<Rightarrow>
          let v = v OR ucast b in
          if k = 0 then Some v else fast_read s k (npos - 1) (push_bit 8 v))"

definition fast_decode :: "i8 \<Rightarrow> (i64 \<times> bool) run" where
  "fast_decode first_byte s =
     (let is_neg = test_bit8 first_byte OB_INT_SIGN_BIT_POS;
          is_add = test_bit8 first_byte OB_INT_OPERATION_BIT_POS;
          len_or_value = first_byte AND OB_INT_VALUE_MASK
      in
      if len_or_value \<le> ucast OB_MAX_INT_1B
      then ret (if is_neg then - ucast len_or_value else ucast len_or_value, is_add) s
      else
        let n = (if len_or_value \<le> 26
                 then if len_or_value = 24 then 1 else if len_or_value = 25 then 2 else 3
                 else if len_or_value = 27 then 4 else if len_or_value = 28 then 6 else (8 :: nat))
        in case fast_read s n (pos s + int n) 0 of
             None \<Rightarrow> None
           | Some v \<Rightarrow> ret (if is_neg then - v else v, is_add) (s\<lparr>pos := pos s + int n\<rparr>))"

definition decode_int_safe :: "i8 \<Rightarrow> (i64 \<times> bool) run" where
  "decode_int_safe first_byte s =
     (if mem s = None \<or> blen s - pos s < 0 then fail OB_ERROR s
      else
        let is_neg = test_bit8 first_byte OB_INT_SIGN_BIT_POS;
            is_add = test_bit8 first_byte OB_INT_OPERATION_BIT_POS;
            len_or_value = first_byte AND OB_INT_VALUE_MASK
        in
        if len_or_value \<le> ucast OB_MAX_INT_1B
        then ret (if is_neg then - ucast len_or_value else ucast len_or_value, is_add) s
        else
          let len = int (unat len_or_value) - 23;
              len = (if len = 5 \<or> len = 7 then len + 1 else len)
          in bind (decode_uint_with_given_length len)
               (\<lambda>uv. ret (if is_neg then - uv else uv, is_add)) s)"

definition decode_int :: "i8 \<Rightarrow> (i64 \<times> bool) run" where
  "decode_int first_byte s =
     (if blen s - pos s \<ge> 9 then fast_decode first_byte s else decode_int_safe first_byte s)"

section \<open>Strings\<close>

definition encoded_length_str_len :: "int \<Rightarrow> int" where
  "encoded_length_str_len len =
     (if len < 0 then - 1
      else if len \<le> OB_MAX_1B_STR_LEN then 1
      else if len \<le> OB_MAX_2B_STR_LEN then 2
      else if len \<le> OB_MAX_3B_STR_LEN then 3
      else if len \<le> OB_MAX_4B_STR_LEN then 4
      else if len \<le> OB_MAX_5B_STR_LEN then 5
      else - 1)"

definition encoded_length_str :: "int \<Rightarrow> int" where
  "encoded_length_str len = encoded_length_str_len len + len"

text \<open>The loop that writes the length bytes, at index \<open>n\<close> with \<open>k\<close> iterations to go.\<close>

fun encode_len_loop :: "i64 \<Rightarrow> nat \<Rightarrow> nat \<Rightarrow> unit run" where
  "encode_len_loop len n 0 = ret ()"
| "encode_len_loop len n (Suc k) =
     bind (encode_i8 (ucast (signed_drop_bit (8 * n) len))) (\<lambda>_. encode_len_loop len (Suc n) k)"

definition encode_str :: "u8 list option \<Rightarrow> int \<Rightarrow> unit run" where
  "encode_str vbuf len s =
     (let len_size = encoded_length_str_len len in
      if mem s = None \<or> len_size < 0 \<or> blen s - pos s < len_size + len \<or> pos s < 0 \<or> len < 0
      then fail OB_ERROR s
      else
        let first_byte =
              (if len_size = 1 then ucast (scast OB_VARCHAR_TYPE OR (of_int len AND 0xff :: i64))
               else ucast (scast OB_VARCHAR_TYPE OR (of_int (len_size - 1 + OB_MAX_1B_STR_LEN) :: i64)))
        in
        bind (with_err OB_ERROR (encode_i8 first_byte)) (\<lambda>_.
        bind (encode_len_loop (of_int len) 0 (nat (len_size - 1))) (\<lambda>_.
          case vbuf of
            None \<Rightarrow> ret ()
          | Some vb \<Rightarrow> if len > 0 then memcpy_from vb len else ret ())) s)"

fun decode_len_loop :: "i64 \<Rightarrow> nat \<Rightarrow> nat \<Rightarrow> i64 run" where
  "decode_len_loop v n 0 = ret v"
| "decode_len_loop v n (Suc k) =
     bind decode_i8 (\<lambda>tmp. decode_len_loop (v OR push_bit (8 * n) (ucast tmp)) (Suc n) k)"

text \<open>The pointer returned (as an offset into the buffer, \<open>None\<close> for null) and the value of \<^verbatim>\<open>lenp\<close>.\<close>

definition decode_str :: "i8 \<Rightarrow> (int option \<times> i32 option) run" where
  "decode_str first_byte s =
     (if mem s = None \<or> blen s < 0 then ret (None, None) s
      else
        let len_or_value = first_byte AND OB_VARCHAR_LEN_MASK;
            n = unat len_or_value - 55
        in case decode_len_loop (if n = 0 then ucast len_or_value else 0) 0 n s of
             None \<Rightarrow> None
           | Some (Err e, s') \<Rightarrow> ret (None, Some (- 1)) s'
           | Some (Ok w, s') \<Rightarrow>
               let str_len = sint w in
               if str_len \<ge> 0 \<and> blen s' - pos s' \<ge> str_len
               then ret (Some (pos s'), Some (ucast w)) (s'\<lparr>pos := pos s' + str_len\<rparr>)
               else ret (None, Some (- 1)) s')"

section \<open>Floats, doubles and decimals\<close>

definition encoded_length_float_type :: int where
  "encoded_length_float_type = 4 + 1"

definition encode_float_type :: "i32 \<Rightarrow> bool \<Rightarrow> unit run" where
  "encode_float_type val is_add =
     (let first_byte =
            (if is_add then set_bit8 OB_FLOAT_TYPE OB_FLOAT_OPERATION_BIT_POS else OB_FLOAT_TYPE)
      in bind (with_err OB_ERROR (encode_i8 first_byte)) (\<lambda>_. encode_i32 val))"

definition decode_float_type :: "i8 \<Rightarrow> (i32 \<times> bool) run" where
  "decode_float_type first_byte s =
     (if mem s = None \<or> blen s - pos s < 4 then fail OB_ERROR s
      else bind (with_err OB_ERROR decode_i32)
             (\<lambda>tmp. ret (tmp, test_bit8 first_byte OB_FLOAT_OPERATION_BIT_POS)) s)"

definition encoded_length_double_type :: int where
  "encoded_length_double_type = 8 + 1"

definition encode_double_type :: "i64 \<Rightarrow> bool \<Rightarrow> unit run" where
  "encode_double_type val is_add =
     (let first_byte =
            (if is_add then set_bit8 OB_DOUBLE_TYPE OB_FLOAT_OPERATION_BIT_POS else OB_DOUBLE_TYPE)
      in bind (with_err OB_ERROR (encode_i8 first_byte)) (\<lambda>_. encode_i64 val))"

definition decode_double_type :: "i8 \<Rightarrow> (i64 \<times> bool) run" where
  "decode_double_type first_byte s =
     (if mem s = None \<or> blen s - pos s < 8 then fail OB_ERROR s
      else bind (with_err OB_ERROR decode_i64)
             (\<lambda>tmp. ret (tmp, test_bit8 first_byte OB_FLOAT_OPERATION_BIT_POS)) s)"

text \<open>
  \<open>words\<close> is the array the caller passes (\<open>None\<close> for null); the loop runs for \<^verbatim>\<open>nwords\<close> words
  and reading past the array is undefined.
\<close>

definition encode_decimal_type ::
  "bool \<Rightarrow> i8 \<Rightarrow> i8 \<Rightarrow> i8 \<Rightarrow> i8 \<Rightarrow> u32 list option \<Rightarrow> unit run" where
  "encode_decimal_type is_add precision scale vscale nwords words s =
     (if mem s = None \<or> blen s \<le> 0 \<or> pos s \<ge> blen s \<or> words = None then fail OB_INVALID_ARGUMENT s
      else
        bind (encode_i8 OB_DECIMAL_TYPE) (\<lambda>_.
        bind (encode_i8 (if is_add then 1 else 0)) (\<lambda>_.
        bind (encode_i8 precision) (\<lambda>_.
        bind (encode_i8 scale) (\<lambda>_.
        bind (encode_i8 vscale) (\<lambda>_.
        bind (encode_i8 nwords) (\<lambda>_.
          if nat (sint nwords) \<le> length (the words)
          then enc_seq encode_vi32 (take (nat (sint nwords)) (the words))
          else (\<lambda>s. None))))))) s)"

text \<open>\<open>cap\<close> is the number of words the caller's array has room for (\<open>None\<close> for a null array).\<close>

definition decode_decimal_type ::
  "nat option \<Rightarrow> (bool \<times> i8 \<times> i8 \<times> i8 \<times> i8 \<times> u32 list) run" where
  "decode_decimal_type cap s =
     (if mem s = None \<or> blen s \<le> 0 \<or> pos s \<ge> blen s \<or> cap = None then fail OB_INVALID_ARGUMENT s
      else
        bind decode_i8 (\<lambda>op.
        bind decode_i8 (\<lambda>precision.
        bind decode_i8 (\<lambda>scale.
        bind decode_i8 (\<lambda>vscale.
        bind decode_i8 (\<lambda>nwords.
          if nat (sint nwords) \<le> the cap
          then bind (dec_seq decode_vi32 (nat (sint nwords)))
                 (\<lambda>words. ret (op \<noteq> 0, precision, scale, vscale, nwords, words))
          else (\<lambda>s. None)))))) s)"

definition encoded_length_decimal_type :: "i8 \<Rightarrow> u32 list option \<Rightarrow> int option" where
  "encoded_length_decimal_type nwords words =
     (case words of
        None \<Rightarrow> Some 6
      | Some ws \<Rightarrow>
          if nat (sint nwords) \<le> length ws
          then Some (6 + sum_list (map encoded_length_vi32 (take (nat (sint nwords)) ws)))
          else None)"

section \<open>Times\<close>

definition encoded_length_datetime :: "i64 \<Rightarrow> int" where
  "encoded_length_datetime value =
     (let tmp_value = safe_int64_abs value in
      if tmp_value \<le> OB_MAX_4B then 5 else if tmp_value \<le> OB_MAX_6B then 7 else 9)"

definition encoded_length_precise_datetime :: "i64 \<Rightarrow> int" where
  "encoded_length_precise_datetime value = encoded_length_datetime value"

definition encode_time_type :: "i8 \<Rightarrow> i64 \<Rightarrow> unit run" where
  "encode_time_type first_byte val s =
     (let len = encoded_length_datetime val in
      if mem s = None \<or> blen s - pos s < len then fail OB_ERROR s
      else
        let first_byte =
              (if len = 7 then first_byte OR 1 else if len = 9 then first_byte OR 2 else first_byte)
        in tmp_pos (bind (encode_i8 first_byte)
             (\<lambda>_. encode_uint_with_given_length (safe_int64_abs val) (len - 1))) s)"

definition decode_time_type :: "i8 \<Rightarrow> i64 run" where
  "decode_time_type first_byte s =
     (if mem s = None \<or> blen s - pos s < 0 then fail OB_ERROR s
      else
        let len_mark = first_byte AND OB_DATETIME_LEN_MASK;
            len = (if len_mark = 0 then 4 else if len_mark = 1 then 6
                   else if len_mark = 2 then 8 else 0)
        in if len = 0 then fail OB_ERROR s else decode_uint_with_given_length len s)"

definition encode_datetime_type :: "i64 \<Rightarrow> bool \<Rightarrow> unit run" where
  "encode_datetime_type val is_add s =
     (if mem s = None \<or> blen s - pos s \<le> 0 then fail OB_ERROR s
      else
        let first_byte = OB_DATETIME_TYPE;
            first_byte = (if sint val < 0 then set_bit8 first_byte OB_DATETIME_SIGN_BIT else first_byte);
            first_byte = (if is_add then set_bit8 first_byte OB_DATETIME_OPERATION_BIT else first_byte)
        in encode_time_type first_byte val s)"

definition decode_datetime_type :: "i8 \<Rightarrow> (i64 \<times> bool) run" where
  "decode_datetime_type first_byte s =
     (if mem s = None \<or> blen s - pos s < 0 then fail OB_ERROR s
      else
        let is_neg = test_bit8 first_byte OB_DATETIME_SIGN_BIT;
            is_add = test_bit8 first_byte OB_DATETIME_OPERATION_BIT
        in bind (decode_time_type first_byte)
             (\<lambda>v. ret (if is_neg then - v else v, is_add)) s)"

definition encode_precise_datetime_type :: "i64 \<Rightarrow> bool \<Rightarrow> unit run" where
  "encode_precise_datetime_type val is_add s =
     (if mem s = None \<or> blen s - pos s \<le> 0 then fail OB_ERROR s
      else
        let first_byte = OB_PRECISE_DATETIME_TYPE;
            first_byte = (if sint val < 0 then set_bit8 first_byte OB_DATETIME_SIGN_BIT else first_byte);
            first_byte = (if is_add then set_bit8 first_byte OB_DATETIME_OPERATION_BIT else first_byte)
        in encode_time_type first_byte val s)"

definition decode_precise_datetime_type :: "i8 \<Rightarrow> (i64 \<times> bool) run" where
  "decode_precise_datetime_type first_byte s =
     (if mem s = None \<or> blen s - pos s < 0 then fail OB_ERROR s
      else
        let is_neg = test_bit8 first_byte OB_DATETIME_SIGN_BIT;
            is_add = test_bit8 first_byte OB_DATETIME_OPERATION_BIT
        in bind (decode_time_type first_byte)
             (\<lambda>v. ret (if is_neg then - v else v, is_add)) s)"

definition encoded_length_modifytime :: "i64 \<Rightarrow> int" where
  "encoded_length_modifytime value = encoded_length_datetime value"

definition encode_modifytime_type :: "i64 \<Rightarrow> unit run" where
  "encode_modifytime_type val s =
     (if mem s = None \<or> blen s - pos s \<le> 0 \<or> sint val < 0 then fail OB_ERROR s
      else encode_time_type OB_MODIFYTIME_TYPE val s)"

definition decode_modifytime_type :: "i8 \<Rightarrow> i64 run" where
  "decode_modifytime_type first_byte s =
     (if mem s = None \<or> blen s - pos s \<le> 0 then fail OB_ERROR s
      else decode_time_type first_byte s)"

definition encoded_length_createtime :: "i64 \<Rightarrow> int" where
  "encoded_length_createtime value = encoded_length_datetime value"

definition encode_createtime_type :: "i64 \<Rightarrow> unit run" where
  "encode_createtime_type val s =
     (if mem s = None \<or> blen s - pos s \<le> 0 \<or> sint val < 0 then fail OB_ERROR s
      else encode_time_type OB_CREATETIME_TYPE val s)"

definition decode_createtime_type :: "i8 \<Rightarrow> i64 run" where
  "decode_createtime_type first_byte s =
     (if mem s = None \<or> blen s - pos s \<le> 0 then fail OB_ERROR s
      else decode_time_type first_byte s)"

section \<open>Extended values\<close>

definition encoded_length_extend :: "i64 \<Rightarrow> int" where
  "encoded_length_extend value = encoded_length_vi64 value + 1"

definition encode_extend_type :: "i64 \<Rightarrow> unit run" where
  "encode_extend_type val s =
     (if mem s = None \<or> blen s < 0 \<or> blen s - pos s < encoded_length_extend val
      then fail OB_ERROR s
      else tmp_pos (bind (encode_i8 OB_EXTEND_TYPE) (\<lambda>_. encode_vi64 val)) s)"

section \<open>Byte representations\<close>

text \<open>The \<open>n\<close> low bytes of a word, least significant first, and the word they stand for.\<close>

definition le_bytes :: "nat \<Rightarrow> u64 \<Rightarrow> u8 list" where
  "le_bytes n w = map (\<lambda>i. ucast (drop_bit (8 * i) w)) [0..<n]"

fun le_val :: "u8 list \<Rightarrow> u64" where
  "le_val [] = 0"
| "le_val (b # bs) = ucast b OR push_bit 8 (le_val bs)"

lemma length_le_bytes [simp]: "length (le_bytes n w) = n"
  by (simp add: le_bytes_def)

lemma le_bytes_0 [simp]: "le_bytes 0 w = []"
  by (simp add: le_bytes_def)

lemma le_bytes_Suc: "le_bytes (Suc n) w = ucast w # le_bytes n (drop_bit 8 w)"
  by (simp add: le_bytes_def upt_conv_Cons map_Suc_upt [symmetric] add.commute del: upt_Suc)

lemma le_val_bit: "bit (le_val bs) j \<Longrightarrow> j < 8 * length bs"
proof (induction bs arbitrary: j)
  case (Cons b bs)
  then have "bit b j \<or> 8 \<le> j \<and> bit (le_val bs) (j - 8)" by (auto simp: bit_simps)
  then show ?case using Cons.IH [of "j - 8"] by (auto dest: bit_imp_le_length)
qed simp

lemma le_val_Cons:
  fixes b :: u8
  assumes "length bs < 8"
  shows "ucast (le_val (b # bs)) = b" "drop_bit 8 (le_val (b # bs)) = le_val bs"
proof -
  show "ucast (le_val (b # bs)) = b" by (auto intro!: bit_word_eqI simp: bit_simps)
  have "bit (le_val bs) n \<Longrightarrow> n < 56" for n using le_val_bit [of bs n] assms by simp
  then show "drop_bit 8 (le_val (b # bs)) = le_val bs"
    by (intro bit_word_eqI) (auto simp: bit_simps dest: bit_imp_le_length)
qed

lemma le_val_inj: "length as = length bs \<Longrightarrow> length bs \<le> 8 \<Longrightarrow> le_val as = le_val bs \<Longrightarrow> as = bs"
proof (induction as bs rule: list_induct2)
  case (Cons a as b bs)
  then show ?case
    using le_val_Cons [of as a] le_val_Cons [of bs b] by (simp del: le_val.simps)
qed simp

lemma le_val_le_bytes: "le_val (le_bytes n w) = take_bit (8 * n) w"
proof (induction n arbitrary: w)
  case (Suc n)
  have "ucast (ucast w :: u8) OR push_bit 8 (take_bit (8 * n) (drop_bit 8 w)) = take_bit (8 * Suc n) w"
    by (rule bit_word_eqI) (auto simp: bit_simps)
  then show ?case by (simp add: le_bytes_Suc Suc)
qed simp

lemma encode_uint_loop_emits:
  "n + k \<le> 8 \<Longrightarrow> emits (encode_uint_loop v n k) (le_bytes k (drop_bit (8 * n) v))"
proof (induction k arbitrary: n)
  case 0
  show ?case by (simp add: emits_ret)
next
  case (Suc k)
  have "emits (encode_i8 (ucast (drop_bit (8 * n) v AND 0xff))) [ucast (drop_bit (8 * n) v)]"
    using i8.enc_emits by (simp add: byte_low)
  with Suc.prems Suc.IH [of "Suc n"] show ?case
    by (auto simp: le_bytes_Suc add.commute intro!: emits_bind_Cons)
qed

lemma decode_uint_loop_reads:
  "n + length bs \<le> 8 \<Longrightarrow>
   reads (decode_uint_loop v n (length bs)) bs (v OR push_bit (8 * n) (le_val bs))"
proof (induction bs arbitrary: n v)
  case Nil
  show ?case by (simp add: reads_ret)
next
  case (Cons b bs)
  have "reads (with_err OB_ERROR decode_i8) [b] b" using i8.dec_reads by (simp add: reads_with_err)
  then show ?case
    using Cons.prems Cons.IH [of "Suc n" "v OR push_bit (8 * n) (ucast b)"]
    by (auto simp: or.assoc add.commute intro!: reads_bind_Cons)
qed

lemma encode_uint_emits:
  "0 < n \<Longrightarrow> n \<le> 8 \<Longrightarrow> emits (encode_uint_with_given_length v (int n)) (le_bytes n v)"
  by (rule emits_checked [where n = "int n" and e = OB_ERROR and body = "tmp_pos (encode_uint_loop v 0 n)"])
    (use encode_uint_loop_emits [of 0 n v] in \<open>auto simp: encode_uint_with_given_length_def intro: emits_tmp_pos\<close>)

lemma decode_uint_reads:
  "length bs \<le> 8 \<Longrightarrow> reads (decode_uint_with_given_length (int (length bs))) bs (le_val bs)"
  by (rule reads_checked [where n = "int (length bs)" and e = OB_ERROR
        and body = "tmp_pos (decode_uint_loop 0 0 (length bs))"])
    (use decode_uint_loop_reads [of 0 bs 0] in
      \<open>auto simp: decode_uint_with_given_length_def intro: reads_tmp_pos\<close>)

lemma decode_uint_refuses:
  "blen s - pos s < n \<Longrightarrow> decode_uint_with_given_length n s = Some (Err OB_ERROR, s)"
  by (simp add: decode_uint_with_given_length_def fail_def)

section \<open>Absolute values\<close>

lemma uint_less64: "uint (v :: u64) < 2 ^ 64"
  using unsigned_less [of v, where 'a = int] by simp

lemma bit_63: "bit (v :: i64) 63 \<longleftrightarrow> 2 ^ 63 \<le> uint v"
proof -
  have "bit v 63 \<longleftrightarrow> odd (uint v div 2 ^ 63)"
    using bit_uint_iff [of v 63] by (simp add: bit_iff_odd [of "uint v"])
  moreover have "uint v div 2 ^ 63 = (if uint v < 2 ^ 63 then 0 else 1)"
    using uint_less64 [of v] by (auto intro!: int_div_pos_eq [where r = "uint v - 2 ^ 63"])
  ultimately show ?thesis by auto
qed

lemma sint_eq64:
  "sint (v :: i64) = (if uint v < 2 ^ 63 then uint v else uint v - 2 ^ 64)"
proof -
  have "take_bit 64 (uint v) = uint v" using uint_less64 [of v] by (simp add: take_bit_int_eq_self)
  then show ?thesis
    by (simp add: sint_uint signed_take_bit_eq_take_bit_minus bit_63 [simplified] bit_uint_iff not_less)
qed

lemma sint_neg: "sint (v :: i64) < 0 \<longleftrightarrow> 2 ^ 63 \<le> uint v"
  using uint_less64 [of v] by (auto simp: sint_eq64)

lemma safe_int64_abs_eq: "safe_int64_abs v = (if sint v < 0 then - v else v)"
proof -
  have "signed_drop_bit 63 v = (if bit v 63 then - 1 else 0)"
    by (rule bit_word_eqI) (auto simp: bit_simps Suc_le_eq)
  moreover have "(v XOR - 1) - (- 1) = - v"
    by (metis bit.xor_one_right diff_minus_eq_add minus_eq_not_plus_1)
  ultimately show ?thesis by (simp add: safe_int64_abs_def Let_def bit_63 sint_neg)
qed

lemma safe_int64_abs_value: "uint (safe_int64_abs v) = \<bar>sint v\<bar>"
proof -
  have "uint (- v) = (- uint v) mod 2 ^ 64" by (simp add: uint_word_ariths)
  then show ?thesis
    using uint_less64 [of v]
    by (auto simp: safe_int64_abs_eq sint_eq64 zmod_zminus1_eq_if split: if_splits)
qed

section \<open>The integer codec\<close>

text \<open>Number of value bytes, marker, first byte and whole encoding of an integer.\<close>


definition int_width :: "u64 \<Rightarrow> nat" where
  "int_width a =
     (if uint a \<le> 23 then 0 else if uint a < 2 ^ 8 then 1 else if uint a < 2 ^ 16 then 2
      else if uint a < 2 ^ 24 then 3 else if uint a < 2 ^ 32 then 4 else if uint a < 2 ^ 48 then 6
      else 8)"

definition int_mark :: "u64 \<Rightarrow> nat" where
  "int_mark a =
     (if uint a \<le> 23 then unat a
      else 23 + (if int_width a \<le> 4 then int_width a else int_width a - 1))"

definition int_head :: "bool \<Rightarrow> bool \<Rightarrow> nat \<Rightarrow> u8" where
  "int_head neg add m = of_nat m OR (if neg then 0x20 else 0) OR (if add then 0x40 else 0)"

definition int_bytes :: "i64 \<times> bool \<Rightarrow> u8 list" where
  "int_bytes = (\<lambda>(v, add).
     let a = safe_int64_abs v in int_head (sint v < 0) add (int_mark a) # le_bytes (int_width a) a)"

lemma le_cmp64: "a \<le> b \<longleftrightarrow> uint a \<le> uint (b :: u64)"
  by (simp add: word_le_def)

lemma int_max_cmp:
  "a \<le> OB_MAX_INT_1B \<longleftrightarrow> uint a \<le> 23" "a \<le> OB_MAX_INT_2B \<longleftrightarrow> uint a < 2 ^ 8"
  "a \<le> OB_MAX_INT_3B \<longleftrightarrow> uint a < 2 ^ 16" "a \<le> OB_MAX_INT_4B \<longleftrightarrow> uint a < 2 ^ 24"
  "a \<le> OB_MAX_INT_5B \<longleftrightarrow> uint a < 2 ^ 32" "a \<le> OB_MAX_INT_7B \<longleftrightarrow> uint a < 2 ^ 48"
  by (auto simp: OB_MAX_INT_defs le_cmp64)

lemma length_int_bytes [simp]: "length (int_bytes (v, add)) = Suc (int_width (safe_int64_abs v))"
  by (simp add: int_bytes_def Let_def)

lemma int_width_le: "int_width a \<le> 8"
  by (simp add: int_width_def)

lemma encoded_length_int_eq:
  "encoded_length_int v = int (length (int_bytes (v, add)))"
  unfolding encoded_length_int_def int_max_cmp length_int_bytes int_width_def Let_def
  by (simp split: if_split)

lemma unat_le_23: "uint (a :: u64) \<le> 23 \<Longrightarrow> unat a \<le> 23"
proof -
  have "int (unat a) = uint a" by simp
  then show "uint a \<le> 23 \<Longrightarrow> unat a \<le> 23" by linarith
qed

lemma int_mark_less: "int_mark a < 32"
  using unat_le_23 [of a] int_width_le [of a] by (auto simp: int_mark_def)

lemma less_32_bits: "m < 32 \<Longrightarrow> bit (m :: nat) i \<Longrightarrow> i < 5"
  using bit_take_bit_iff [of 5 m i] by (simp add: take_bit_nat_eq_self)

lemma bit_31_int: "bit (31 :: int) i \<longleftrightarrow> i < 5"
  using bit_mask_iff [of 5 i, where 'a = int] by (simp add: mask_eq_exp_minus_1)

lemma int_head_mask:
  assumes "m < 32"
  shows "int_head neg add m AND 0x1f = of_nat m"
proof (rule bit_word_eqI)
  fix i assume "i < LENGTH(8)"
  have "\<not> bit (32 :: int) i" "\<not> bit (64 :: int) i" if "i < 5"
    using that by (auto simp: less_Suc_eq numeral_eq_Suc)
  then show "bit (int_head neg add m AND 0x1f) i = bit (of_nat m :: u8) i"
    using less_32_bits [OF assms, of i]
    by (auto simp: int_head_def bit_simps bit_31_int)
qed
lemma test_bit8_iff: "test_bit8 v p = bit v p"
  unfolding test_bit8_def by (rule bit_iff_and_push_bit_not_eq_0 [symmetric])

lemma int_head_flags:
  assumes "m < 32"
  shows "test_bit8 (int_head neg add m) 5 = neg" "test_bit8 (int_head neg add m) 6 = add"
proof -
  have "\<not> bit m 5" "\<not> bit m 6"
    using less_32_bits [OF assms, of 5] less_32_bits [OF assms, of 6] by auto
  then show "test_bit8 (int_head neg add m) 5 = neg" "test_bit8 (int_head neg add m) 6 = add"
    by (simp_all add: test_bit8_iff int_head_def bit_simps)
qed

lemma put_low_bytes_emits:
  "8 * k \<le> 64 - j \<Longrightarrow> j \<le> 64 \<Longrightarrow> (\<And>i. i < 64 - j \<Longrightarrow> bit v i = bit w i) \<Longrightarrow> emits (put_low_bytes k v) (le_bytes k w)"
proof (induction k arbitrary: v w j)
  case 0
  show ?case by (simp add: emits_ret)
next
  case (Suc k)
  have "(ucast (v AND 0xff) :: u8) = ucast w"
    unfolding byte_low by (rule bit_word_eqI) (use Suc.prems in \<open>auto simp: bit_simps\<close>)
  then have "emits (put_byte (ucast (v AND 0xff))) [ucast w]" by (simp add: emits_put_byte)
  moreover have "emits (put_low_bytes k (signed_drop_bit 8 v)) (le_bytes k (drop_bit 8 w))"
    by (rule Suc.IH [of "j + 8"]) (use Suc.prems in \<open>auto simp: bit_simps\<close>)
  ultimately show ?case by (auto simp: le_bytes_Suc intro!: emits_bind_Cons)
qed

lemma put_low_bytes_emits': "k \<le> 8 \<Longrightarrow> emits (put_low_bytes k v) (le_bytes k v)"
  by (rule put_low_bytes_emits [of k 0]) auto

lemma int_head_flag_byte:
  "(if add then set_bit8 (if neg then set_bit8 0 OB_INT_SIGN_BIT_POS else 0) OB_INT_OPERATION_BIT_POS
    else if neg then set_bit8 0 OB_INT_SIGN_BIT_POS else 0) = int_head neg add 0"
  by (simp add: set_bit8_def int_head_def OB_BIT_defs push_bit_eq_mult)

lemma int_head_value: "int_head neg add 0 OR ucast a = int_head neg add (unat (a :: u64))"
  by (simp add: int_head_def ac_simps)

lemma int_head_width:
  "n \<in> {1, 2, 3, 4, 5, 7} \<Longrightarrow>
   (int_head neg add 0 OR ucast OB_MAX_INT_1B) + of_nat n = int_head neg add (23 + n)"
  by (cases neg; cases add) (auto simp: int_head_def OB_MAX_INT_1B_def)

lemma int_mark_small: "uint a \<le> 23 \<Longrightarrow> int_mark a = unat a"
  by (simp add: int_mark_def)

lemma int_mark_big:
  "\<not> uint a \<le> 23 \<Longrightarrow> int_mark a = 23 + (if int_width a \<le> 4 then int_width a else int_width a - 1)"
  by (simp add: int_mark_def)

lemma fast_encode_emits: "emits (fast_encode v add) (int_bytes (v, add))"
proof -
  define a where "a = safe_int64_abs v"
  define h where "h = int_head (sint v < 0) add"
  note w = put_low_bytes_emits' [of _ a] emits_put_byte
  have width: "emits (bind (put_byte ((h 0 OR ucast OB_MAX_INT_1B) + of_nat n)) (\<lambda>_. put_low_bytes k a))
      (h (23 + n) # le_bytes k a)" if "n \<in> {1, 2, 3, 4, 5, 7}" "k \<le> 8" for n k
    using that int_head_width [of n "sint v < 0" add]
    by (auto simp: h_def simp del: of_nat_numeral intro!: emits_bind_Cons emits_put_byte put_low_bytes_emits')
  note ws = width [of 1 1, simplified] width [of 2 2, simplified] width [of 3 3, simplified] 
    width [of 4 4, simplified] width [of 5 6, simplified] width [of 7 8, simplified]
  have "fast_encode v add =
    (if uint a \<le> 23 then put_byte (h (unat a))
     else if uint a < 2 ^ 24
     then if uint a < 2 ^ 8 then bind (put_byte ((h 0 OR ucast OB_MAX_INT_1B) + 1)) (\<lambda>_. put_low_bytes 1 a)
       else if uint a < 2 ^ 16 then bind (put_byte ((h 0 OR ucast OB_MAX_INT_1B) + 2)) (\<lambda>_. put_low_bytes 2 a)
       else bind (put_byte ((h 0 OR ucast OB_MAX_INT_1B) + 3)) (\<lambda>_. put_low_bytes 3 a)
     else if uint a < 2 ^ 32 then bind (put_byte ((h 0 OR ucast OB_MAX_INT_1B) + 4)) (\<lambda>_. put_low_bytes 4 a)
       else if uint a < 2 ^ 48 then bind (put_byte ((h 0 OR ucast OB_MAX_INT_1B) + 5)) (\<lambda>_. put_low_bytes 6 a)
       else bind (put_byte ((h 0 OR ucast OB_MAX_INT_1B) + 7)) (\<lambda>_. put_low_bytes 8 a))"
    unfolding fast_encode_def Let_def safe_int64_abs_eq [symmetric] a_def [symmetric]
      int_head_flag_byte h_def [symmetric] int_max_cmp
    by (simp add: h_def int_head_value)
  moreover have "int_bytes (v, add) = h (int_mark a) # le_bytes (int_width a) a"
    by (simp add: int_bytes_def Let_def a_def h_def)
  ultimately show ?thesis
    using ws by (auto simp: int_mark_def int_width_def emits_put_byte)
qed

lemma int_head_safe:
  "(ucast (scast (int_head neg add 0) OR (w :: u64)) :: u8) = int_head neg add 0 OR ucast w"
  by (rule bit_word_eqI) (auto simp: bit_simps)

lemma int_safe_mark:
  assumes "\<not> uint a \<le> 23"
  shows "(let len = int (Suc (int_width a)); tmp_len = (if len = 7 \<or> len = 9 then len - 1 else len)
     in of_int (tmp_len - 1) + OB_MAX_INT_1B) = (of_nat (int_mark a) :: u64)"
  using assms by (simp add: int_mark_def int_width_def OB_MAX_INT_1B_def Let_def)

lemma encode_int_safe_body:
  fixes v add
  defines "a \<equiv> safe_int64_abs v"
  shows "encode_int_safe v add s =
     (if mem s \<noteq> None \<and> blen s - pos s \<ge> int (Suc (int_width a))
      then bind (with_err OB_ERROR (encode_i8 (int_head (sint v < 0) add (int_mark a))))
        (\<lambda>_. if int_width a > 0 then encode_uint_with_given_length a (int (int_width a)) else ret ()) s
      else fail OB_ERROR s)"
proof -
  define h where "h = int_head (sint v < 0) add"
  have first: "(if uint a \<le> 23 then h 0 OR ucast a
      else (let tmp_len = (if int (Suc (int_width a)) = 7 \<or> int (Suc (int_width a)) = 9
              then int (Suc (int_width a)) - 1 else int (Suc (int_width a)))
            in h 0 OR ucast (of_int (tmp_len - 1) + OB_MAX_INT_1B))) = h (int_mark a)"
  proof (cases "uint a \<le> 23")
    case True
    then show ?thesis by (simp add: h_def int_head_value int_mark_small)
  next
    case False
    have "h 0 OR ucast (of_nat (int_mark a) :: u64) = h (int_mark a)"
      using int_mark_less [of a] by (simp add: h_def int_head_value)
    with False show ?thesis
      by (simp only: Let_def int_safe_mark [OF False, unfolded Let_def] if_False)
  qed
  then show ?thesis
    unfolding encode_int_safe_def encoded_length_int_eq [of v add] length_int_bytes Let_def
      int_head_flag_byte int_head_safe int_max_cmp a_def [symmetric]
    unfolding h_def [symmetric] first [unfolded Let_def]
    by (simp add: not_less)
qed

lemma encode_int_safe_emits: "emits (encode_int_safe v add) (int_bytes (v, add))"
  by (rule emits_checked [OF encode_int_safe_body])
    (use int_width_le [of "safe_int64_abs v"] in
      \<open>auto simp: int_bytes_def Let_def intro!: emits_bind_Cons emits_with_err i8.enc_emits encode_uint_emits emits_ret\<close>)

lemma encode_int_safe_refuses:
  "buf_wf s \<Longrightarrow> \<not> room (length (int_bytes (v, add))) s \<Longrightarrow>
   encode_int_safe v add s = Some (Err OB_ERROR, s)"
  by (auto simp: encode_int_safe_def encoded_length_int_eq [of v add] room_def Let_def fail_def)

lemma encode_int_eq_safe: "buf_wf s \<Longrightarrow> encode_int v add s = encode_int_safe v add s"
proof (cases "blen s - pos s \<ge> 10")
  case True
  assume "buf_wf s"
  with True have "room (length (int_bytes (v, add))) s"
    using int_width_le [of "safe_int64_abs v"] by (auto simp: room_def)
  with True show ?thesis
    by (simp add: encode_int_def emitsD [OF fast_encode_emits] emitsD [OF encode_int_safe_emits] del: length_int_bytes)
qed (simp add: encode_int_def)

lemma peek_nth: "holds bs s \<Longrightarrow> i < length bs \<Longrightarrow> peek s (pos s + int i) = Some (bs ! i)"
proof -
  assume h: "holds bs s" and i: "i < length bs"
  then have "holds (take i bs) s" "holds (bs ! i # drop (Suc i) bs) (adv i s)"
    using holds_append [of "take i bs" "drop i bs" s] by (simp_all add: Cons_nth_drop_Suc)
  then show ?thesis using peek_holds [of "bs ! i" "drop (Suc i) bs" "adv i s"] by (simp add: peek_def)
qed

lemma le_val_take_Suc:
  "k < length bs \<Longrightarrow> le_val (take (Suc k) bs) = push_bit (8 * k) (ucast (bs ! k)) OR le_val (take k bs)"
proof (induction bs arbitrary: k)
  case (Cons b bs)
  then show ?case
    by (cases k) (simp_all add: push_bit_or ac_simps)
qed simp

lemma fast_read_holds:
  assumes "holds bs s"
  shows "Suc k \<le> length bs \<Longrightarrow> fast_read s (Suc k) (pos s + int (Suc k)) v
     = Some (push_bit (8 * k) v OR le_val (take (Suc k) bs))"
proof (induction k arbitrary: v)
  case 0
  then have "bs \<noteq> []" by auto
  with peek_nth [OF assms, of 0] show ?case by (simp add: le_val_take_Suc Let_def)
next
  case (Suc k)
  have "fast_read s (Suc (Suc k)) (pos s + int (Suc (Suc k))) v
      = fast_read s (Suc k) (pos s + int (Suc k)) (push_bit 8 (v OR ucast (bs ! Suc k)))"
    using peek_nth [OF assms, of "Suc k"] Suc.prems
    by (subst fast_read.simps(2)) (simp add: Let_def add.commute add.left_commute del: fast_read.simps push_bit_or)
  also have "\<dots> = Some (push_bit (8 * Suc k) (v OR ucast (bs ! Suc k)) OR le_val (take (Suc k) bs))"
    using Suc by (simp add: push_bit_or add.commute del: fast_read.simps)
  finally show ?case
    using Suc.prems by (simp add: le_val_take_Suc [of "Suc k"] or.assoc del: fast_read.simps)
qed

lemma fast_read_all: "holds bs s \<Longrightarrow> bs \<noteq> [] \<Longrightarrow> fast_read s (length bs) (pos s + int (length bs)) 0 = Some (le_val bs)"
  using fast_read_holds [of bs s "length bs - 1" 0] by (cases bs) auto

text \<open>The number of value bytes each decoder takes a marker to announce.\<close>

definition safe_width :: "nat \<Rightarrow> nat" where
  "safe_width m = (if m = 28 \<or> m = 30 then m - 22 else m - 23)"

definition fast_width :: "nat \<Rightarrow> nat" where
  "fast_width m = (if m \<le> 27 then m - 23 else if m = 28 then 6 else 8)"

definition int_value :: "i8 \<Rightarrow> u8 list \<Rightarrow> i64 \<times> bool" where
  "int_value fb bs =
     (let m = fb AND 0x1f; a = (if unat m \<le> 23 then ucast m else le_val bs)
      in (if bit fb 5 then - a else a, bit fb 6))"

lemma marker_less: "unat ((fb :: i8) AND 0x1f) < 32"
proof -
  have "fb AND 0x1f = take_bit 5 fb" by (simp add: take_bit_eq_mask mask_eq_exp_minus_1)
  then show ?thesis
    using take_bit_nat_less_exp [of 5 "unat fb"] by (simp add: unsigned_take_bit_eq)
qed

lemma marker_small: "(m :: i8) \<le> ucast OB_MAX_INT_1B \<longleftrightarrow> unat m \<le> 23"
  by (simp add: word_le_nat_alt OB_MAX_INT_1B_def)

lemma marker_eq: "(m :: i8) = numeral n \<longleftrightarrow> unat m = unat (numeral n :: i8)"
  by (simp add: word_unat_eq_iff)

lemma fast_decode_reads:
  assumes "length bs = fast_width (unat (fb AND 0x1f))"
  shows "reads (fast_decode fb) bs (int_value fb bs)"
proof (rule readsI)
  fix s assume h: "holds bs s"
  define m where "m = fb AND 0x1f"
  show "fast_decode fb s = Some (Ok (int_value fb bs), adv (length bs) s)"
  proof (cases "unat m \<le> 23")
    case True
    then show ?thesis
      using assms by (simp add: fast_decode_def int_value_def Let_def OB_INT_VALUE_MASK_def
       m_def [symmetric] marker_small ret_def fast_width_def test_bit8_iff OB_BIT_defs)
  next
    case False
    have w: "(if m \<le> 26 then if m = 24 then 1 else if m = 25 then 2 else 3
             else if m = 27 then 4 else if m = 28 then 6 else 8) = length bs"
      using False assms by (auto simp: fast_width_def m_def [symmetric] marker_eq word_le_nat_alt)
    have "length bs \<noteq> 0" using False assms by (simp add: fast_width_def m_def [symmetric])
    then have "bs \<noteq> []" by simp
    then show ?thesis
      using False w fast_read_all [OF h]
      by (simp add: fast_decode_def int_value_def Let_def OB_INT_VALUE_MASK_def
       m_def [symmetric] marker_small ret_def adv_def test_bit8_iff OB_BIT_defs)
  qed
qed

lemma decode_int_safe_reads:
  assumes "length bs = safe_width (unat (fb AND 0x1f))"
  shows "reads (decode_int_safe fb) bs (int_value fb bs)"
proof (rule readsI)
  fix s assume h: "holds bs s"
  define m where "m = fb AND 0x1f"
  have s: "mem s \<noteq> None" "\<not> blen s - pos s < 0"
    using room_mem [OF holds_room [OF h]] room_ge [OF holds_room [OF h]] by auto
  show "decode_int_safe fb s = Some (Ok (int_value fb bs), adv (length bs) s)"
  proof (cases "unat m \<le> 23")
    case True
    then show ?thesis
      using assms s by (simp add: decode_int_safe_def int_value_def Let_def OB_INT_VALUE_MASK_def
       m_def [symmetric] marker_small ret_def safe_width_def test_bit8_iff OB_BIT_defs del: not_None_eq)
  next
    case False
    define u where "u = unat m"
    define len where "len = int u - 23"
    have w: "(if len = 5 \<or> len = 7 then len + 1 else len) = int (length bs)"
      using False assms by (auto simp: safe_width_def m_def [symmetric] u_def [symmetric] len_def)
    have "length bs \<le> 8" using marker_less [of fb] assms by (auto simp: safe_width_def)
    from readsD [OF decode_uint_reads [OF this] h] show ?thesis
      using False w s
      by (simp add: decode_int_safe_def int_value_def Let_def OB_INT_VALUE_MASK_def
       m_def [symmetric] marker_small ret_def adv_def test_bit8_iff OB_BIT_defs bind_def u_def [symmetric] len_def [symmetric]
          del: not_None_eq of_nat_unat)
  qed
qed

lemma decode_int_eq_safe:
  assumes "buf_wf s" "unat (fb AND 0x1f) \<noteq> 29"
  shows "decode_int fb s = decode_int_safe fb s"
proof (cases "blen s - pos s \<ge> 9")
  case True
  define n where "n = fast_width (unat (fb AND 0x1f))"
  have n: "n \<le> 8" "n = safe_width (unat (fb AND 0x1f))"
    using assms(2) marker_less [of fb] by (auto simp: n_def fast_width_def safe_width_def)
  have "holds (take n (rest s)) s"
    using True n(1) assms(1) by (auto simp: holds_def room_def rest_def elim!: buf_wfE)
  moreover from this have "length (take n (rest s)) = n"
    using True n(1) assms(1) by (auto simp: rest_def elim!: buf_wfE)
  ultimately show ?thesis
    using True n readsD [OF fast_decode_reads, of "take n (rest s)" fb s]
      readsD [OF decode_int_safe_reads, of "take n (rest s)" fb s]
    by (simp add: decode_int_def n_def)
qed (simp add: decode_int_def)

lemma take_bit_id64: "uint (a :: u64) < 2 ^ n \<Longrightarrow> take_bit n a = a"
proof -
  assume "uint a < 2 ^ n"
  then have "uint (take_bit n a) = uint a"
    by (simp add: unsigned_take_bit_eq take_bit_int_eq_self)
  then show ?thesis by (metis word_of_int_uint)
qed

lemma int_width_bits: "\<not> uint a \<le> 23 \<Longrightarrow> take_bit (8 * int_width a) a = a"
  using uint_less64 [of a] by (intro take_bit_id64) (simp add: int_width_def)

lemma int_mark_width: "safe_width (int_mark a) = int_width a"
proof (cases "uint a \<le> 23")
  case True
  with unat_le_23 [OF True] show ?thesis by (simp add: int_mark_small safe_width_def int_width_def)
next
  case False
  then have "int_width a \<in> {1, 2, 3, 4, 6, 8}" by (simp add: int_width_def)
  with False show ?thesis by (auto simp: int_mark_big safe_width_def)
qed

lemma int_mark_unat: "unat (of_nat (int_mark a) :: i8) = int_mark a"
  using int_mark_less [of a] by (simp add: unsigned_of_nat take_bit_nat_eq_self)

lemma int_value_bytes:
  fixes v add
  defines "a \<equiv> safe_int64_abs v"
  shows "int_value (int_head (sint v < 0) add (int_mark a)) (le_bytes (int_width a) a) = (v, add)"
proof -
  have "(if int_mark a \<le> 23 then ucast (of_nat (int_mark a) :: i8) else le_val (le_bytes (int_width a) a)) = a"
  proof (cases "uint a \<le> 23")
    case True
    with unat_le_23 [OF True] show ?thesis by (simp add: int_mark_small unsigned_ucast_eq take_bit_id64)
  next
    case False
    moreover have "\<not> int_mark a \<le> 23"
      using False by (auto simp: int_mark_big int_width_def)
    ultimately show ?thesis by (simp add: le_val_le_bytes int_width_bits)
  qed
  then show ?thesis
    using int_mark_less [of a] int_head_flags [of "int_mark a"]
    by (auto simp: int_value_def int_head_mask int_mark_unat Let_def test_bit8_iff a_def safe_int64_abs_eq)
qed

lemma int_mark_not_29: "int_mark a \<noteq> 29"
proof (cases "uint a \<le> 23")
  case True
  with unat_le_23 [OF True] show ?thesis by (auto simp: int_mark_small)
next
  case False
  then have "int_width a \<in> {1, 2, 3, 4, 6, 8}" by (simp add: int_width_def)
  with False show ?thesis by (auto simp: int_mark_big)
qed

lemma decode_int_reads:
  assumes "int_bytes (v, add) = fb # bs"
  shows "reads (decode_int fb) bs (v, add)"
proof (rule readsI)
  define a where "a = safe_int64_abs v"
  fix s assume h: "holds bs s"
  have fb: "fb = int_head (sint v < 0) add (int_mark a)" "bs = le_bytes (int_width a) a"
    using assms by (simp_all add: int_bytes_def Let_def a_def)
  have m: "unat (fb AND 0x1f) = int_mark a"
    by (simp add: fb int_head_mask int_mark_less int_mark_unat)
  have "unat (fb AND 0x1f) \<noteq> 29" unfolding m by (rule int_mark_not_29)
  then have "decode_int fb s = decode_int_safe fb s"
    using room_wf [OF holds_room [OF h]] by (rule decode_int_eq_safe [rotated])
  also have "\<dots> = Some (Ok (int_value fb bs), adv (length bs) s)"
    using h by (intro readsD [OF decode_int_safe_reads]) (simp_all add: m int_mark_width fb(2))
  finally show "decode_int fb s = Some (Ok (v, add), adv (length bs) s)"
    using int_value_bytes [of v add] by (simp add: fb a_def)
qed

text \<open>A typed value as the readers see it: the first byte is fetched, then handed to the decoder.\<close>

interpretation int: codec "\<lambda>(v, add). encode_int v add" "bind decode_i8 decode_int" int_bytes "\<lambda>_. True"
proof
  fix p :: "i64 \<times> bool"
  obtain v add where p: "p = (v, add)" by (cases p)
  show "emits (case p of (v, add) \<Rightarrow> encode_int v add) (int_bytes p)"
    by (rule emitsI)
      (auto simp: p encode_int_eq_safe [OF room_wf] emitsD [OF encode_int_safe_emits] simp del: length_int_bytes)
  show "refuses (case p of (v, add) \<Rightarrow> encode_int v add) (length (int_bytes p))"
    using encode_int_safe_refuses [of _ v add] by (simp add: p refuses_def encode_int_eq_safe)
  obtain fb bs where b: "int_bytes p = fb # bs" by (simp add: p int_bytes_def Let_def)
  show "reads (bind decode_i8 decode_int) (int_bytes p) p"
    unfolding b using decode_int_reads [of v add fb bs] b p
    by (intro reads_bind_Cons [OF i8.dec_reads]) simp_all
qed

end
