(* ===== verification/Serialization_Types.thy ===== *)
theory Serialization_Types
  imports Serialization_Obj
begin

text \<open>
  The remaining typed encodings of \<^verbatim>\<open>src/oceanbase/src/common/serialization.h\<close> as codecs: booleans,
  null, floats and doubles, the four time types, extended values, decimals and strings. For each
  an explicit byte representation, the length function, the writer and the reader are related.
\<close>

unbundle bit_operations_syntax

section \<open>First bytes\<close>

lemma emits_first: "emits m bs \<Longrightarrow> emits (bind (with_err e (encode_i8 b)) (\<lambda>_. m)) (b # bs)"
  by (intro emits_bind_Cons emits_with_err i8.enc_emits TrueI)

lemma refuses_first:
  assumes "refuses m n"
  shows "refuses (bind (with_err e (encode_i8 b)) (\<lambda>_. m)) (Suc n)"
  using refuses_bind [OF emits_with_err [OF i8.enc_emits] refuses_with_err [OF i8.enc_refuses] assms]
  by simp

lemma reads_first: "reads (dec b) bs v \<Longrightarrow> reads (bind decode_i8 dec) (b # bs) v"
  by (rule reads_bind_Cons [OF i8.dec_reads]) auto

lemma decode_bool_type_reads: "reads (decode_bool_type fb) [if v then 1 else 0] v"
  by (rule reads_guarded [OF decode_bool_type_def reads_with_err [OF bool.dec_reads]]) simp_all

interpretation bool_type: codec encode_bool_type "bind decode_i8 decode_bool_type"
  "\<lambda>v. [OB_BOOL_TYPE, if v then 1 else 0]" "\<lambda>_. True"
proof
  fix v
  show "emits (encode_bool_type v) [OB_BOOL_TYPE, if v then 1 else 0]"
    unfolding encode_bool_type_def
    by (intro emits_first emits_with_err bool.enc_emits TrueI)
  show "refuses (encode_bool_type v) (length [OB_BOOL_TYPE, if v then 1 else 0])"
    using refuses_first [OF refuses_with_err [OF bool.enc_refuses]]
    by (simp add: encode_bool_type_def)
  show "reads (bind decode_i8 decode_bool_type) [OB_BOOL_TYPE, if v then 1 else 0] v"
    by (rule reads_first [OF decode_bool_type_reads])
qed

interpretation null: codec "\<lambda>_ :: unit. encode_null" "bind decode_i8 (\<lambda>_. ret ())"
  "\<lambda>_. [OB_NULL_TYPE]" "\<lambda>_. True"
  by unfold_locales
    (use i8.enc_emits i8.enc_refuses in \<open>auto simp: encode_null_def intro: reads_first reads_ret\<close>)

section \<open>Floats and doubles\<close>

definition float_head :: "i8 \<Rightarrow> bool \<Rightarrow> u8" where
  "float_head tag add = (if add then set_bit8 tag OB_FLOAT_OPERATION_BIT_POS else tag)"

lemma float_head_flag:
  "tag \<in> {OB_FLOAT_TYPE, OB_DOUBLE_TYPE} \<Longrightarrow>
   test_bit8 (float_head tag add) OB_FLOAT_OPERATION_BIT_POS = add"
  by (auto simp: float_head_def set_bit8_def test_bit8_def OB_BIT_defs OB_TYPE_defs)

lemma decode_float_type_reads:
  "reads (decode_float_type (float_head OB_FLOAT_TYPE add)) (be_bytes 4 v) (v, add)"
  by (rule reads_guarded [OF decode_float_type_def])
    (auto simp: float_head_flag intro!: reads_bind_ret reads_with_err i32.dec_reads)

interpretation float_type: codec "\<lambda>(v, add). encode_float_type v add"
  "bind decode_i8 decode_float_type"
  "\<lambda>(v, add). float_head OB_FLOAT_TYPE add # be_bytes 4 v" "\<lambda>_. True"
proof
  fix p :: "i32 \<times> bool"
  obtain v add where p: "p = (v, add)" by (cases p)
  have e: "encode_float_type v add =
      bind (with_err OB_ERROR (encode_i8 (float_head OB_FLOAT_TYPE add))) (\<lambda>_. encode_i32 v)"
    by (simp add: encode_float_type_def float_head_def Let_def)
  show "emits (case p of (v, add) \<Rightarrow> encode_float_type v add)
      (case p of (v, add) \<Rightarrow> float_head OB_FLOAT_TYPE add # be_bytes 4 v)"
    by (simp add: p e emits_first i32.enc_emits)
  show "refuses (case p of (v, add) \<Rightarrow> encode_float_type v add)
      (length (case p of (v, add) \<Rightarrow> float_head OB_FLOAT_TYPE add # be_bytes 4 v))"
    using refuses_first [OF i32.enc_refuses [of v]] by (simp add: p e)
  show "reads (bind decode_i8 decode_float_type)
      (case p of (v, add) \<Rightarrow> float_head OB_FLOAT_TYPE add # be_bytes 4 v) p"
    unfolding p prod.case by (intro reads_first decode_float_type_reads)
qed

lemma decode_double_type_reads:
  "reads (decode_double_type (float_head OB_DOUBLE_TYPE add)) (be_bytes 8 v) (v, add)"
  by (rule reads_guarded [OF decode_double_type_def])
    (auto simp: float_head_flag intro!: reads_bind_ret reads_with_err i64.dec_reads)

interpretation double_type: codec "\<lambda>(v, add). encode_double_type v add"
  "bind decode_i8 decode_double_type"
  "\<lambda>(v, add). float_head OB_DOUBLE_TYPE add # be_bytes 8 v" "\<lambda>_. True"
proof
  fix p :: "i64 \<times> bool"
  obtain v add where p: "p = (v, add)" by (cases p)
  have e: "encode_double_type v add =
      bind (with_err OB_ERROR (encode_i8 (float_head OB_DOUBLE_TYPE add))) (\<lambda>_. encode_i64 v)"
    by (simp add: encode_double_type_def float_head_def Let_def)
  show "emits (case p of (v, add) \<Rightarrow> encode_double_type v add)
      (case p of (v, add) \<Rightarrow> float_head OB_DOUBLE_TYPE add # be_bytes 8 v)"
    by (simp add: p e emits_first i64.enc_emits)
  show "refuses (case p of (v, add) \<Rightarrow> encode_double_type v add)
      (length (case p of (v, add) \<Rightarrow> float_head OB_DOUBLE_TYPE add # be_bytes 8 v))"
    using refuses_first [OF i64.enc_refuses [of v]] by (simp add: p e)
  show "reads (bind decode_i8 decode_double_type)
      (case p of (v, add) \<Rightarrow> float_head OB_DOUBLE_TYPE add # be_bytes 8 v) p"
    unfolding p prod.case by (intro reads_first decode_double_type_reads)
qed

section \<open>Times\<close>

definition time_width :: "u64 \<Rightarrow> nat" where
  "time_width a = (if uint a < 2 ^ 32 then 4 else if uint a < 2 ^ 48 then 6 else 8)"

definition time_head :: "u8 \<Rightarrow> u64 \<Rightarrow> u8" where
  "time_head fb a = fb OR (if time_width a = 4 then 0 else if time_width a = 6 then 1 else 2)"

definition time_bytes :: "u8 \<Rightarrow> i64 \<Rightarrow> u8 list" where
  "time_bytes fb v = (let a = safe_int64_abs v in time_head fb a # le_bytes (time_width a) a)"

lemma time_width_cases: "time_width a = 4 \<or> time_width a = 6 \<or> time_width a = 8"
  by (simp add: time_width_def)

lemma length_time_bytes [simp]: "length (time_bytes fb v) = Suc (time_width (safe_int64_abs v))"
  by (simp add: time_bytes_def Let_def)

lemma encoded_length_datetime_eq: "encoded_length_datetime v = int (length (time_bytes fb v))"
  unfolding encoded_length_datetime_def length_time_bytes time_width_def Let_def
  by (simp add: OB_MAX_4B_def OB_MAX_6B_def le_cmp64)

lemma time_width_bits: "take_bit (8 * time_width a) a = a"
  using uint_less64 [of a] by (intro take_bit_id64) (simp add: time_width_def)

lemma encode_time_type_body:
  fixes v
  defines "a \<equiv> safe_int64_abs v"
  shows "encode_time_type fb v s =
    (if mem s = None \<or> blen s - pos s < int (Suc (time_width a)) then fail OB_ERROR s
     else tmp_pos (bind (encode_i8 (time_head fb a))
       (\<lambda>_. encode_uint_with_given_length a (int (time_width a)))) s)"
  using time_width_cases [of a]
  by (auto simp: encode_time_type_def encoded_length_datetime_eq [of v fb] Let_def a_def time_head_def)

lemma encode_time_type_emits: "emits (encode_time_type fb v) (time_bytes fb v)"
  by (rule emits_guarded [OF encode_time_type_body])
    (use time_width_cases [of "safe_int64_abs v"] in
      \<open>auto simp: time_bytes_def Let_def intro!: emits_tmp_pos emits_bind_Cons i8.enc_emits encode_uint_emits\<close>)

lemma encode_time_type_refuses: "refuses (encode_time_type fb v) (length (time_bytes fb v))"
  unfolding length_time_bytes by (rule refuses_guarded [OF encode_time_type_body])

lemma decode_time_type_reads:
  assumes "fb AND OB_DATETIME_LEN_MASK = 0"
  shows "reads (decode_time_type (time_head fb a)) (le_bytes (time_width a) a) a"
proof (rule reads_guarded [where n = 0])
  define w where "w = time_width a"
  have "time_head fb a AND OB_DATETIME_LEN_MASK = (if w = 4 then 0 else if w = 6 then 1 else 2)"
    using assms time_width_cases [of a]
    by (auto simp: time_head_def w_def OB_DATETIME_LEN_MASK_def bit.conj_disj_distrib2)
  then show "decode_time_type (time_head fb a) s = (if mem s = None \<or> blen s - pos s < 0 then fail OB_ERROR s
      else decode_uint_with_given_length (int w) s)" for s
    using time_width_cases [of a] by (auto simp: decode_time_type_def Let_def w_def)
  show "reads (decode_uint_with_given_length (int w)) (le_bytes (time_width a) a) a"
    using decode_uint_reads [of "le_bytes w a"] time_width_cases [of a] time_width_bits [of a]
    by (auto simp: w_def le_val_le_bytes)
qed simp


definition dt_head :: "u8 \<Rightarrow> bool \<Rightarrow> bool \<Rightarrow> u8" where
  "dt_head tag neg add =
     (let fb = (if neg then set_bit8 tag OB_DATETIME_SIGN_BIT else tag)
      in if add then set_bit8 fb OB_DATETIME_OPERATION_BIT else fb)"

lemma dt_head_facts:
  assumes "tag \<in> {OB_DATETIME_TYPE, OB_PRECISE_DATETIME_TYPE}"
  shows "dt_head tag neg add AND OB_DATETIME_LEN_MASK = 0"
    "test_bit8 (time_head (dt_head tag neg add) a) OB_DATETIME_SIGN_BIT = neg"
    "test_bit8 (time_head (dt_head tag neg add) a) OB_DATETIME_OPERATION_BIT = add"
  using assms
  by (auto simp: dt_head_def time_head_def set_bit8_def test_bit8_def Let_def OB_TYPE_defs OB_BIT_defs
      OB_DATETIME_LEN_MASK_def)

lemma abs_sign: "(if sint v < 0 then - safe_int64_abs v else safe_int64_abs v) = v"
  by (simp add: safe_int64_abs_eq)

lemma encode_datetime_type_body:
  "encode_datetime_type v add s =
    (if mem s = None \<or> blen s - pos s \<le> 0 then fail OB_ERROR s
     else encode_time_type (dt_head OB_DATETIME_TYPE (sint v < 0) add) v s)"
  by (simp add: encode_datetime_type_def dt_head_def Let_def)

lemma encode_precise_datetime_type_body:
  "encode_precise_datetime_type v add s =
    (if mem s = None \<or> blen s - pos s \<le> 0 then fail OB_ERROR s
     else encode_time_type (dt_head OB_PRECISE_DATETIME_TYPE (sint v < 0) add) v s)"
  by (simp add: encode_precise_datetime_type_def dt_head_def Let_def)

definition datetime_bytes :: "u8 \<Rightarrow> i64 \<times> bool \<Rightarrow> u8 list" where
  "datetime_bytes tag = (\<lambda>(v, add). time_bytes (dt_head tag (sint v < 0) add) v)"

lemma decode_datetime_type_reads:
  "datetime_bytes OB_DATETIME_TYPE (v, add) = fb # bs \<Longrightarrow> reads (decode_datetime_type fb) bs (v, add)"
  unfolding datetime_bytes_def prod.case time_bytes_def Let_def
proof (rule reads_guarded [OF decode_datetime_type_def], goal_cases)
  case 1
  then show ?case
    using reads_bind_ret [OF decode_time_type_reads, of _ "safe_int64_abs v"
       "\<lambda>x. (if sint v < 0 then - x else x, add)"]
    by (auto simp: dt_head_facts abs_sign Let_def)
qed simp

lemma decode_precise_datetime_type_reads:
  "datetime_bytes OB_PRECISE_DATETIME_TYPE (v, add) = fb # bs \<Longrightarrow> reads (decode_precise_datetime_type fb) bs (v, add)"
  unfolding datetime_bytes_def prod.case time_bytes_def Let_def
proof (rule reads_guarded [OF decode_precise_datetime_type_def], goal_cases)
  case 1
  then show ?case
    using reads_bind_ret [OF decode_time_type_reads, of _ "safe_int64_abs v"
       "\<lambda>x. (if sint v < 0 then - x else x, add)"]
    by (auto simp: dt_head_facts abs_sign Let_def)
qed simp

interpretation datetime: codec "\<lambda>(v, add). encode_datetime_type v add"
  "bind decode_i8 decode_datetime_type" "datetime_bytes OB_DATETIME_TYPE" "\<lambda>_. True"
proof
  fix p :: "i64 \<times> bool"
  obtain v add where p: "p = (v, add)" by (cases p)
  obtain fb bs where b: "datetime_bytes OB_DATETIME_TYPE (v, add) = fb # bs"
    by (simp add: datetime_bytes_def time_bytes_def Let_def)
  show "emits (case p of (v, add) \<Rightarrow> encode_datetime_type v add) (datetime_bytes OB_DATETIME_TYPE p)"
    unfolding p prod.case datetime_bytes_def
    by (rule guard_nonempty_emits [OF encode_datetime_type_body encode_time_type_emits])
      (simp add: time_bytes_def Let_def)
  show "refuses (case p of (v, add) \<Rightarrow> encode_datetime_type v add)
      (length (datetime_bytes OB_DATETIME_TYPE p))"
    unfolding p prod.case datetime_bytes_def
    by (rule guard_nonempty_refuses [OF encode_datetime_type_body encode_time_type_refuses])
  show "reads (bind decode_i8 decode_datetime_type) (datetime_bytes OB_DATETIME_TYPE p) p"
    unfolding p b by (intro reads_first decode_datetime_type_reads b)
qed

interpretation precise_datetime: codec "\<lambda>(v, add). encode_precise_datetime_type v add"
  "bind decode_i8 decode_precise_datetime_type" "datetime_bytes OB_PRECISE_DATETIME_TYPE" "\<lambda>_. True"
proof
  fix p :: "i64 \<times> bool"
  obtain v add where p: "p = (v, add)" by (cases p)
  obtain fb bs where b: "datetime_bytes OB_PRECISE_DATETIME_TYPE (v, add) = fb # bs"
    by (simp add: datetime_bytes_def time_bytes_def Let_def)
  show "emits (case p of (v, add) \<Rightarrow> encode_precise_datetime_type v add)
      (datetime_bytes OB_PRECISE_DATETIME_TYPE p)"
    unfolding p prod.case datetime_bytes_def
    by (rule guard_nonempty_emits [OF encode_precise_datetime_type_body encode_time_type_emits])
      (simp add: time_bytes_def Let_def)
  show "refuses (case p of (v, add) \<Rightarrow> encode_precise_datetime_type v add)
      (length (datetime_bytes OB_PRECISE_DATETIME_TYPE p))"
    unfolding p prod.case datetime_bytes_def
    by (rule guard_nonempty_refuses [OF encode_precise_datetime_type_body encode_time_type_refuses])
  show "reads (bind decode_i8 decode_precise_datetime_type) (datetime_bytes OB_PRECISE_DATETIME_TYPE p) p"
    unfolding p b by (intro reads_first decode_precise_datetime_type_reads b)
qed

lemma abs_nonneg: "0 \<le> sint v \<Longrightarrow> safe_int64_abs v = v"
  by (simp add: safe_int64_abs_eq)

lemma encode_modifytime_type_body:
  "0 \<le> sint v \<Longrightarrow> encode_modifytime_type v s =
    (if mem s = None \<or> blen s - pos s \<le> 0 then fail OB_ERROR s
     else encode_time_type OB_MODIFYTIME_TYPE v s)"
  by (simp add: encode_modifytime_type_def)

lemma encode_createtime_type_body:
  "0 \<le> sint v \<Longrightarrow> encode_createtime_type v s =
    (if mem s = None \<or> blen s - pos s \<le> 0 then fail OB_ERROR s
     else encode_time_type OB_CREATETIME_TYPE v s)"
  by (simp add: encode_createtime_type_def)

lemma time_tag_mask:
  "OB_MODIFYTIME_TYPE AND OB_DATETIME_LEN_MASK = 0" "OB_CREATETIME_TYPE AND OB_DATETIME_LEN_MASK = 0"
  by (simp_all add: OB_TYPE_defs OB_DATETIME_LEN_MASK_def)

lemma time_le_bytes_nonempty: "le_bytes (time_width a) a \<noteq> []"
  using time_width_cases [of a] length_le_bytes [of "time_width a" a] by (auto simp del: length_le_bytes)

lemma decode_modifytime_type_reads:
  "0 \<le> sint v \<Longrightarrow> time_bytes OB_MODIFYTIME_TYPE v = fb # bs \<Longrightarrow> reads (decode_modifytime_type fb) bs v"
  by (rule guard_nonempty_reads [OF decode_modifytime_type_def])
    (auto simp: time_bytes_def Let_def abs_nonneg time_tag_mask time_le_bytes_nonempty intro: decode_time_type_reads)

lemma decode_createtime_type_reads:
  "0 \<le> sint v \<Longrightarrow> time_bytes OB_CREATETIME_TYPE v = fb # bs \<Longrightarrow> reads (decode_createtime_type fb) bs v"
  by (rule guard_nonempty_reads [OF decode_createtime_type_def])
    (auto simp: time_bytes_def Let_def abs_nonneg time_tag_mask time_le_bytes_nonempty intro: decode_time_type_reads)

interpretation modifytime: codec encode_modifytime_type "bind decode_i8 decode_modifytime_type"
  "time_bytes OB_MODIFYTIME_TYPE" "\<lambda>v. 0 \<le> sint v"
proof
  fix v :: i64 assume v: "0 \<le> sint v"
  obtain fb bs where b: "time_bytes OB_MODIFYTIME_TYPE v = fb # bs"
    by (simp add: time_bytes_def Let_def)
  show "emits (encode_modifytime_type v) (time_bytes OB_MODIFYTIME_TYPE v)"
    by (rule guard_nonempty_emits [OF encode_modifytime_type_body [OF v] encode_time_type_emits]) (simp add: b)
  show "refuses (encode_modifytime_type v) (length (time_bytes OB_MODIFYTIME_TYPE v))"
    by (rule guard_nonempty_refuses [OF encode_modifytime_type_body [OF v] encode_time_type_refuses])
  show "reads (bind decode_i8 decode_modifytime_type) (time_bytes OB_MODIFYTIME_TYPE v) v"
    unfolding b by (intro reads_first decode_modifytime_type_reads v b)
qed

interpretation createtime: codec encode_createtime_type "bind decode_i8 decode_createtime_type"
  "time_bytes OB_CREATETIME_TYPE" "\<lambda>v. 0 \<le> sint v"
proof
  fix v :: i64 assume v: "0 \<le> sint v"
  obtain fb bs where b: "time_bytes OB_CREATETIME_TYPE v = fb # bs"
    by (simp add: time_bytes_def Let_def)
  show "emits (encode_createtime_type v) (time_bytes OB_CREATETIME_TYPE v)"
    by (rule guard_nonempty_emits [OF encode_createtime_type_body [OF v] encode_time_type_emits]) (simp add: b)
  show "refuses (encode_createtime_type v) (length (time_bytes OB_CREATETIME_TYPE v))"
    by (rule guard_nonempty_refuses [OF encode_createtime_type_body [OF v] encode_time_type_refuses])
  show "reads (bind decode_i8 decode_createtime_type) (time_bytes OB_CREATETIME_TYPE v) v"
    unfolding b by (intro reads_first decode_createtime_type_reads v b)
qed

section \<open>Extended values\<close>

lemma encoded_length_extend_eq:
  "encoded_length_extend v = int (length (OB_EXTEND_TYPE # vi_bytes (unat v)))"
  by (simp add: encoded_length_extend_def encoded_length_vi64_eq)

lemma encode_extend_type_emits: "emits (encode_extend_type v) (OB_EXTEND_TYPE # vi_bytes (unat v))"
proof (rule emitsI)
  fix s assume r: "room (length (OB_EXTEND_TYPE # vi_bytes (unat v))) s"
  have "emits (tmp_pos (bind (encode_i8 OB_EXTEND_TYPE) (\<lambda>_. encode_vi64 v))) (OB_EXTEND_TYPE # vi_bytes (unat v))"
    by (intro emits_tmp_pos emits_bind_Cons i8.enc_emits vi64.enc_emits TrueI)
  from emitsD [OF this r] show "encode_extend_type v s = Some (Ok (), overlay (OB_EXTEND_TYPE # vi_bytes (unat v)) s)"
    using r room_mem [OF r] room_ge [OF r]
    by (auto simp: encode_extend_type_def encoded_length_extend_eq room_def elim!: buf_wfE)
qed

interpretation extend: codec encode_extend_type "bind decode_i8 (\<lambda>_. decode_vi64)"
  "\<lambda>v. OB_EXTEND_TYPE # vi_bytes (unat v)" "\<lambda>_. True"
proof
  fix v
  show "refuses (encode_extend_type v) (length (OB_EXTEND_TYPE # vi_bytes (unat v)))"
    by (auto simp: refuses_def encode_extend_type_def encoded_length_extend_eq room_def fail_def)
qed (intro encode_extend_type_emits reads_first vi64.dec_reads TrueI)+

section \<open>Decimals\<close>

definition decimal_bytes :: "bool \<times> i8 \<times> i8 \<times> i8 \<times> i8 \<times> u32 list \<Rightarrow> u8 list" where
  "decimal_bytes = (\<lambda>(add, precision, scale, vscale, nwords, words).
     [if add then 1 else 0, precision, scale, vscale, nwords] @ concat (map (\<lambda>w. vi_bytes (unat w)) words))"

lemma emits_i8_Cons: "emits m bs \<Longrightarrow> emits (bind (encode_i8 b) (\<lambda>_. m)) (b # bs)"
  by (intro emits_bind_Cons i8.enc_emits TrueI)

lemma refuses_i8_Cons: "refuses m n \<Longrightarrow> refuses (bind (encode_i8 b) (\<lambda>_. m)) (Suc n)"
  using refuses_bind [OF i8.enc_emits i8.enc_refuses] by simp

definition decimal_fields :: "bool \<times> i8 \<times> i8 \<times> i8 \<times> i8 \<times> u32 list \<Rightarrow> unit run" where
  "decimal_fields = (\<lambda>(add, precision, scale, vscale, nwords, words).
     bind (encode_i8 OB_DECIMAL_TYPE) (\<lambda>_.
     bind (encode_i8 (if add then 1 else 0)) (\<lambda>_.
     bind (encode_i8 precision) (\<lambda>_.
     bind (encode_i8 scale) (\<lambda>_.
     bind (encode_i8 vscale) (\<lambda>_.
     bind (encode_i8 nwords) (\<lambda>_. enc_seq encode_vi32 words)))))))"

lemma decimal_fields_emits: "emits (decimal_fields d) (OB_DECIMAL_TYPE # decimal_bytes d)"
  unfolding decimal_bytes_def decimal_fields_def
  by (cases d) (auto intro!: emits_i8_Cons vi32.enc_seq_emits simp: list_all_iff)

lemma decimal_fields_refuses: "refuses (decimal_fields d) (length (OB_DECIMAL_TYPE # decimal_bytes d))"
  unfolding decimal_bytes_def decimal_fields_def
  by (cases d) (auto intro!: refuses_i8_Cons vi32.enc_seq_refuses simp: list_all_iff)

lemma encode_decimal_type_fields:
  assumes "nat (sint nwords) \<le> length words" "buf_wf s"
  shows "encode_decimal_type add precision scale vscale nwords (Some words) s =
    (if pos s \<ge> blen s then fail OB_INVALID_ARGUMENT s
     else decimal_fields (add, precision, scale, vscale, nwords, take (nat (sint nwords)) words) s)"
  using assms by (auto simp: encode_decimal_type_def decimal_fields_def elim!: buf_wfE)

lemma encode_decimal_type_emits:
  assumes "nat (sint nwords) \<le> length words"
  shows "emits (encode_decimal_type add precision scale vscale nwords (Some words))
    (OB_DECIMAL_TYPE # decimal_bytes (add, precision, scale, vscale, nwords, take (nat (sint nwords)) words))"
    (is "emits _ ?bs")
proof (rule emitsI)
  fix s assume r: "room (length ?bs) s"
  then have "buf_wf s" "\<not> blen s \<le> pos s" by (auto simp: room_def)
  then show "encode_decimal_type add precision scale vscale nwords (Some words) s = Some (Ok (), overlay ?bs s)"
    using emitsD [OF decimal_fields_emits r] assms by (simp add: encode_decimal_type_fields)
qed

lemma encode_decimal_type_refuses:
  assumes "nat (sint nwords) \<le> length words"
  shows "refuses (encode_decimal_type add precision scale vscale nwords (Some words))
    (length (OB_DECIMAL_TYPE # decimal_bytes (add, precision, scale, vscale, nwords, take (nat (sint nwords)) words)))"
  using decimal_fields_refuses [of "(add, precision, scale, vscale, nwords, take (nat (sint nwords)) words)"] assms
  by (auto simp: refuses_def encode_decimal_type_fields fail_def)

lemma decode_decimal_type_reads:
  assumes "nat (sint nwords) = length words" "length words \<le> cap"
  shows "reads (decode_decimal_type (Some cap))
    (decimal_bytes (add, precision, scale, vscale, nwords, words))
    (add, precision, scale, vscale, nwords, words)" (is "reads _ ?bs ?v")
proof (rule readsI)
  fix s assume h: "holds ?bs s"
  then have "mem s \<noteq> None" "\<not> (blen s \<le> 0 \<or> pos s \<ge> blen s)"
    by (auto simp: holds_def room_def decimal_bytes_def elim!: buf_wfE)
  moreover have "reads (bind decode_i8 (\<lambda>op.
        bind decode_i8 (\<lambda>precision.
        bind decode_i8 (\<lambda>scale.
        bind decode_i8 (\<lambda>vscale.
        bind decode_i8 (\<lambda>nwords.
          if nat (sint nwords) \<le> cap
          then bind (dec_seq decode_vi32 (nat (sint nwords)))
                 (\<lambda>words. ret (op \<noteq> 0, precision, scale, vscale, nwords, words))
          else (\<lambda>s. None)))))))  ?bs ?v"
    unfolding decimal_bytes_def prod.case append_Cons append_Nil
    apply (rule reads_first)+
    using assms reads_bind_ret [OF vi32.dec_seq_reads, of words
        "\<lambda>words. (add, precision, scale, vscale, nwords, words)"]
    by (cases add) (simp_all add: list_all_iff)
  ultimately show "decode_decimal_type (Some cap) s = Some (Ok ?v, adv (length ?bs) s)"
    using h assms by (simp add: decode_decimal_type_def readsD del: not_None_eq)
qed

lemma encoded_length_decimal_type_eq:
  "nat (sint nwords) \<le> length words \<Longrightarrow>
   encoded_length_decimal_type nwords (Some words) =
     Some (int (length (OB_DECIMAL_TYPE # decimal_bytes (add, p, sc, vs, nwords, take (nat (sint nwords)) words))))"
  by (simp add: encoded_length_decimal_type_def decimal_bytes_def length_concat comp_def int_sum_list
      ext [of encoded_length_vi32, OF encoded_length_vi32_eq])

section \<open>Strings\<close>

definition str_len_width :: "nat \<Rightarrow> nat" where
  "str_len_width n =
     (if n \<le> 55 then 0 else if n < 2 ^ 8 then 1 else if n < 2 ^ 16 then 2 else if n < 2 ^ 24 then 3 else 4)"

definition str_bytes :: "u8 list \<Rightarrow> u8 list" where
  "str_bytes bs =
     (let n = length bs; k = str_len_width n
      in (0x80 OR of_nat (if n \<le> 55 then n else 55 + k)) # le_bytes k (of_nat n) @ bs)"

lemma length_str_bytes: "length (str_bytes bs) = Suc (str_len_width (length bs) + length bs)"
  by (simp add: str_bytes_def Let_def)

lemma encoded_length_str_len_eq:
  "n < 2 ^ 32 \<Longrightarrow> encoded_length_str_len (int n) = int (Suc (str_len_width n))"
  by (simp add: encoded_length_str_len_def OB_MAX_STR_defs str_len_width_def)

lemma encoded_length_str_eq:
  "length bs < 2 ^ 32 \<Longrightarrow> encoded_length_str (int (length bs)) = int (length (str_bytes bs))"
  by (simp add: encoded_length_str_def encoded_length_str_len_eq length_str_bytes)

lemma str_len_width_facts:
  "str_len_width n \<le> 4" "str_len_width n = 0 \<longleftrightarrow> n \<le> 55"
  by (simp_all add: str_len_width_def)

lemma encode_len_loop_emits:
  "n + k \<le> 8 \<Longrightarrow> emits (encode_len_loop v n k) (le_bytes k (drop_bit (8 * n) v))"
proof (induction k arbitrary: n)
  case 0
  show ?case by (simp add: emits_ret)
next
  case (Suc k)
  have "(ucast (signed_drop_bit (8 * n) v) :: u8) = ucast (drop_bit (8 * n) v)"
    by (rule bit_word_eqI) (use Suc.prems in \<open>auto simp: bit_simps\<close>)
  then have "emits (encode_i8 (ucast (signed_drop_bit (8 * n) v))) [ucast (drop_bit (8 * n) v)]"
    using i8.enc_emits by simp
  with Suc.prems Suc.IH [of "Suc n"] show ?case
    by (auto simp: le_bytes_Suc add.commute intro!: emits_bind_Cons)
qed

lemma decode_len_loop_reads:
  "reads (decode_len_loop v n (length bs)) bs (v OR push_bit (8 * n) (le_val bs))"
proof (induction bs arbitrary: n v)
  case Nil
  show ?case by (simp add: reads_ret)
next
  case (Cons b bs)
  have "reads (decode_len_loop (v OR push_bit (8 * n) (ucast b)) (Suc n) (length bs)) bs
      (v OR push_bit (8 * n) (le_val (b # bs)))"
    using Cons.IH [of "v OR push_bit (8 * n) (ucast b)" "Suc n"] by (simp add: or.assoc add.commute)
  then show ?case
    by (auto intro!: reads_bind_Cons [OF i8.dec_reads])
qed


lemma or_low_byte: "(ucast (scast (b :: u8) OR (w :: u64)) :: u8) = b OR ucast w"
  by (rule bit_word_eqI) (auto simp: bit_simps)

lemma less_64_bits: "m < 64 \<Longrightarrow> bit (m :: nat) i \<Longrightarrow> i < 6"
  using bit_take_bit_iff [of 6 m i] by (simp add: take_bit_nat_eq_self)

lemma bit_63_int: "bit (63 :: int) i \<longleftrightarrow> i < 6"
  using bit_mask_iff [of 6 i, where 'a = int] by (simp add: mask_eq_exp_minus_1)

lemma str_mark:
  assumes "n \<le> 63"
  shows "unat ((0x80 OR of_nat n) AND OB_VARCHAR_LEN_MASK :: u8) = n"
proof -
  have "(0x80 OR of_nat n) AND OB_VARCHAR_LEN_MASK = (of_nat n :: u8)"
    using less_64_bits [of n] assms
    by (intro bit_word_eqI) (auto simp: bit_simps OB_VARCHAR_LEN_MASK_def bit_63_int)
  then show ?thesis using assms by (simp add: unsigned_of_nat take_bit_nat_eq_self)
qed

lemma ucast_of_nat8: "ucast (of_nat n :: u64) = (of_nat n :: u8)"
  by (rule bit_word_eqI) (auto simp: bit_simps)

lemma ucast_of_nat32: "ucast (of_nat n :: u64) = (of_nat n :: u32)"
  by (rule bit_word_eqI) (auto simp: bit_simps)

lemma encode_str_body:
  assumes "length bs < 2 ^ 32"
  shows "encode_str (Some bs) (int (length bs)) s =
     (if mem s = None \<or> pos s < 0 \<or> blen s - pos s < int (length (str_bytes bs)) then fail OB_ERROR s
      else bind (with_err OB_ERROR (encode_i8 (hd (str_bytes bs)))) (\<lambda>_.
        bind (encode_len_loop (of_nat (length bs)) 0 (str_len_width (length bs))) (\<lambda>_. put_bytes bs)) s)"
proof -
  define n where "n = length bs"
  define k where "k = str_len_width n"
  have k: "k \<le> 4" "k = 0 \<longleftrightarrow> n \<le> 55" by (simp_all add: k_def str_len_width_facts)
  have first: "(if int (Suc k) = 1 then ucast (scast OB_VARCHAR_TYPE OR (of_int (int n) AND 0xff :: i64))
      else ucast (scast OB_VARCHAR_TYPE OR (of_int (int (Suc k) - 1 + OB_MAX_1B_STR_LEN) :: i64)))
    = hd (str_bytes bs)"
  proof -
    have "of_int (int (Suc k) - 1 + OB_MAX_1B_STR_LEN) = (of_nat (55 + k) :: i64)"
      by (simp add: OB_MAX_1B_STR_LEN_def)
    then show ?thesis
      using k unfolding or_low_byte byte_low of_int_of_nat_eq
      by (simp add: str_bytes_def Let_def n_def [symmetric] k_def [symmetric] OB_VARCHAR_TYPE_def
          ucast_of_nat8 del: of_nat_add)
  qed
  have copy: "(if int n > 0 then memcpy_from bs (int n) else ret ()) = put_bytes bs"
    by (rule ext) (auto simp: memcpy_from_def n_def)
  show ?thesis
    unfolding encode_str_def Let_def encoded_length_str_len_eq [OF assms] option.case length_str_bytes
    unfolding n_def [symmetric] k_def [symmetric]
    unfolding first copy by auto
qed

lemma encode_str_emits:
  assumes "length bs < 2 ^ 32"
  shows "emits (encode_str (Some bs) (int (length bs))) (str_bytes bs)"
proof (rule emitsI)
  fix s assume r: "room (length (str_bytes bs)) s"
  define k where "k = str_len_width (length bs)"
  have "emits (bind (with_err OB_ERROR (encode_i8 (hd (str_bytes bs)))) (\<lambda>_.
      bind (encode_len_loop (of_nat (length bs)) 0 k) (\<lambda>_. put_bytes bs)))
      (hd (str_bytes bs) # le_bytes k (of_nat (length bs)) @ bs)"
    using encode_len_loop_emits [of 0 k "of_nat (length bs)"] str_len_width_facts(1) [of "length bs"]
    by (intro emits_first emits_bind emits_put_bytes) (simp add: k_def)
  then have "emits (bind (with_err OB_ERROR (encode_i8 (hd (str_bytes bs)))) (\<lambda>_.
      bind (encode_len_loop (of_nat (length bs)) 0 k) (\<lambda>_. put_bytes bs))) (str_bytes bs)"
    by (simp add: str_bytes_def Let_def k_def)
  from emitsD [OF this r] room_mem [OF r] room_ge [OF r] r
  show "encode_str (Some bs) (int (length bs)) s = Some (Ok (), overlay (str_bytes bs) s)"
    unfolding encode_str_body [OF assms] k_def
    by (auto simp: room_def elim!: buf_wfE)
qed

lemma encode_str_refuses:
  "length bs < 2 ^ 32 \<Longrightarrow> refuses (encode_str (Some bs) (int (length bs))) (length (str_bytes bs))"
  by (auto simp: refuses_def encode_str_body room_def fail_def)

lemma decode_str_holds:
  assumes "length bs < 2 ^ 31" "str_bytes bs = fb # ds" "holds ds s"
  shows "decode_str fb s = Some (Ok (Some (pos s + int (length ds - length bs)), Some (of_nat (length bs))),
     adv (length ds) s)"
proof -
  define n where "n = length bs"
  define k where "k = str_len_width n"
  have n: "of_nat n < (2 :: int) ^ 31" using assms(1) by (simp add: n_def)
  have k: "k \<le> 4" "k = 0 \<longleftrightarrow> n \<le> 55" by (simp_all add: k_def str_len_width_facts)
  have fb: "fb = 0x80 OR of_nat (if n \<le> 55 then n else 55 + k)" "ds = le_bytes k (of_nat n) @ bs"
    using assms(2) by (auto simp: str_bytes_def Let_def n_def k_def simp del: of_nat_add)
  have m: "unat (fb AND OB_VARCHAR_LEN_MASK) = (if n \<le> 55 then n else 55 + k)"
    unfolding fb(1) by (rule str_mark) (use k in auto)
  have h: "holds (le_bytes k (of_nat n)) s" "holds bs (adv k s)"
    using assms(3) by (simp_all add: fb holds_append)
  have v: "take_bit (8 * k) (of_nat n :: u64) = of_nat n" if "k \<noteq> 0"
    using that assms(1) by (intro take_bit_id64)
      (auto simp: k_def str_len_width_def unsigned_of_nat take_bit_nat_eq_self n_def)
  have l: "decode_len_loop (if unat (fb AND OB_VARCHAR_LEN_MASK) - 55 = 0 then ucast (fb AND OB_VARCHAR_LEN_MASK) else 0)
      0 (unat (fb AND OB_VARCHAR_LEN_MASK) - 55) s = Some (Ok (of_nat n), adv k s)"
  proof (cases "n \<le> 55")
    case True
    then have "ucast (fb AND OB_VARCHAR_LEN_MASK) = (of_nat n :: i64)"
      using m by (metis of_nat_unat)
    then show ?thesis using True m k by (simp add: ret_def)
  next
    case False
    then show ?thesis
      using readsD [OF decode_len_loop_reads h(1), of 0 0] m k v by (simp add: le_val_le_bytes)
  qed
  have "sint (of_nat n :: i64) = int n" using assms(1) by (simp add: n_def)
  moreover have "mem s \<noteq> None" "\<not> blen s < 0" "int n \<le> blen s - (pos s + int k)"
    using h(2) by (auto simp: holds_def room_def n_def elim!: buf_wfE)
  ultimately show ?thesis
    using l by (simp add: decode_str_def Let_def ret_def fb(2) n_def [symmetric] adv_def ucast_of_nat32 del: not_None_eq)
qed

end
