(* ===== verification/Ob_Number.thy ===== *)
theory Ob_Number
  imports Ob_Prelude "HOL-Library.Signed_Division" "HOL-Library.Monad_Syntax"
begin

text \<open>
  \<^verbatim>\<open>ObNumber\<close> of \<^verbatim>\<open>src/oceanbase/src/common/ob_number.{h,cpp}\<close>: decimals stored as a two's
  complement integer of up to nine 32-bit words, least significant first, and a decimal scale. An
  object is the list of its valid words \<^verbatim>\<open>words_[0 .. nwords_-1]\<close> (no operation reads a word
  beyond them) and \<^verbatim>\<open>vscale_\<close>. Operations return \<open>None\<close> when an assertion fails or an array is
  accessed out of bounds, and otherwise the error code together with the new value of the result
  object. Signed 64-bit accumulators wrap around.
\<close>

unbundle bit_operations_syntax

section \<open>Numbers\<close>

record ob_number =
  num_vscale :: int
  num_words :: "u32 list"

abbreviation nwords :: "ob_number \<Rightarrow> int" where
  "nwords n \<equiv> int (length (num_words n))"

type_synonym num_op = "(unit result \<times> ob_number) option"

definition wrap64 :: "int \<Rightarrow> int" where
  "wrap64 x = sint (word_of_int x :: i64)"

definition wrap8 :: "int \<Rightarrow> int" where
  "wrap8 x = sint (word_of_int x :: i8)"

definition ob_assert :: "bool \<Rightarrow> unit option" where
  "ob_assert b = (if b then Some () else None)"

definition MAX_NWORDS :: int where "MAX_NWORDS = 9"
definition BASE :: int where "BASE = 2 ^ 32"
definition HALF_BASE :: int where "HALF_BASE = 2 ^ 31"
definition SIGN_MASK :: u32 where "SIGN_MASK = 0x80000000"
definition SINGLE_PRECISION_NDIGITS :: int where "SINGLE_PRECISION_NDIGITS = 38"
definition DOUBLE_PRECISION_NDIGITS :: int where "DOUBLE_PRECISION_NDIGITS = 76"
definition QUOTIENT_SCALE :: int where "QUOTIENT_SCALE = 38"

lemmas num_consts = MAX_NWORDS_def BASE_def HALF_BASE_def SIGN_MASK_def
  SINGLE_PRECISION_NDIGITS_def DOUBLE_PRECISION_NDIGITS_def QUOTIENT_SCALE_def

definition POWER10 :: "int \<Rightarrow> u32" where
  "POWER10 i = 10 ^ nat i"

definition new_number :: ob_number where
  "new_number = \<lparr>num_vscale = 0, num_words = [0]\<rparr>"

definition set_zero :: "ob_number \<Rightarrow> ob_number" where
  "set_zero n = n\<lparr>num_words := [0]\<rparr>"

definition is_zero :: "ob_number \<Rightarrow> bool" where
  "is_zero n \<longleftrightarrow> num_words n = [0]"

definition is_negative :: "ob_number \<Rightarrow> bool" where
  "is_negative n \<longleftrightarrow> num_words n \<noteq> [] \<and> last (num_words n) AND SIGN_MASK \<noteq> 0"

definition from_words :: "int \<Rightarrow> int \<Rightarrow> u32 list \<Rightarrow> ob_number option" where
  "from_words vscale nw words = do {
     ob_assert (0 \<le> vscale);
     ob_assert (0 \<le> nw);
     ob_assert (MAX_NWORDS \<ge> nw);
     ob_assert (nw \<le> int (length words));
     Some \<lparr>num_vscale = vscale, num_words = take (nat nw) words\<rparr>
   }"

section \<open>Multiplication, negation and addition by a word\<close>

fun mul_uint32_loop :: "u32 \<Rightarrow> u32 list \<Rightarrow> int \<Rightarrow> u32 list \<times> int" where
  "mul_uint32_loop m [] carry = ([], carry)"
| "mul_uint32_loop m (w # ws) carry =
     (let carry = wrap64 (carry + wrap64 (uint m * uint w));
          (r, carry) =
            (if carry \<ge> BASE
             then let new_carry = carry sdiv BASE in (word_of_int (carry - new_carry * BASE), new_carry)
             else (word_of_int carry, 0));
          (rs, carry) = mul_uint32_loop m ws carry
      in (r # rs, carry))"

definition mul_uint32 :: "ob_number \<Rightarrow> u32 \<Rightarrow> ob_number \<Rightarrow> bool \<Rightarrow> num_op" where
  "mul_uint32 multiplicand multiplier res did_carry = do {
     ob_assert (nwords multiplicand \<le> MAX_NWORDS);
     ob_assert (nwords multiplicand > 0);
     let (ws, carry) = mul_uint32_loop multiplier (num_words multiplicand) 0;
     let res = res\<lparr>num_words := ws\<rparr>;
     if did_carry \<and> carry > 0
     then if nwords res < MAX_NWORDS - 1
          then Some (Ok (), res\<lparr>num_words := ws @ [word_of_int carry]\<rparr>)
          else Some (Err OB_VALUE_OUT_OF_RANGE, res)
     else Some (Ok (), res)
   }"

fun negate_loop :: "u32 list \<Rightarrow> int \<Rightarrow> u32 list" where
  "negate_loop [] carry = []"
| "negate_loop (w # ws) carry =
     (let carry = carry + uint w in
      if carry \<ge> BASE then word_of_int (carry - BASE) # negate_loop ws 1
      else word_of_int carry # negate_loop ws 0)"

text \<open>The private, static \<^verbatim>\<open>negate(n, res)\<close>.\<close>

definition negate_words :: "ob_number \<Rightarrow> ob_number option" where
  "negate_words n = do {
     ob_assert (nwords n \<le> MAX_NWORDS);
     ob_assert (nwords n > 0);
     Some \<lparr>num_vscale = num_vscale n, num_words = negate_loop (map (\<lambda>w. NOT w) (num_words n)) 1\<rparr>
   }"

text \<open>Every caller passes the same object as \<^verbatim>\<open>n1\<close> and \<^verbatim>\<open>res\<close>, so the words after the
  \<^verbatim>\<open>break\<close> are those of \<open>n\<close>.\<close>

fun add_uint32_loop :: "u32 list \<Rightarrow> int \<Rightarrow> u32 list \<times> int" where
  "add_uint32_loop [] carry = ([], carry)"
| "add_uint32_loop (w # ws) carry =
     (let carry = carry + uint w in
      if carry \<ge> BASE
      then let (rs, c) = add_uint32_loop ws 1 in (word_of_int (carry - BASE) # rs, c)
      else (word_of_int carry # ws, 0))"

definition add_uint32 :: "ob_number \<Rightarrow> u32 \<Rightarrow> num_op" where
  "add_uint32 n n2 = do {
     ob_assert (nwords n > 0);
     ob_assert (nwords n \<le> MAX_NWORDS);
     let (ws, carry) = add_uint32_loop (num_words n) (uint n2);
     let res = n\<lparr>num_words := ws\<rparr>;
     if carry > 0
     then if nwords res < MAX_NWORDS - 1
          then Some (Ok (), res\<lparr>num_words := ws @ [word_of_int carry]\<rparr>)
          else Some (Err OB_VALUE_OUT_OF_RANGE, res)
     else Some (Ok (), res)
   }"

section \<open>Normalisation\<close>

text \<open>The loop runs from the most significant word down, so it works on the reversed words.\<close>

fun remove_leading_loop :: "u32 list \<Rightarrow> u32 list" where
  "remove_leading_loop (a # b # ws) =
     (if a = 0xffffffff
      then if b AND SIGN_MASK \<noteq> 0 then remove_leading_loop (b # ws) else a # b # ws
      else if a = 0
      then if b AND SIGN_MASK = 0 then remove_leading_loop (b # ws) else a # b # ws
      else a # b # ws)"
| "remove_leading_loop ws = ws"

definition remove_leading_zeroes :: "ob_number \<Rightarrow> ob_number" where
  "remove_leading_zeroes n = n\<lparr>num_words := rev (remove_leading_loop (rev (num_words n)))\<rparr>"

fun remove_leading_unsigned_loop :: "u32 list \<Rightarrow> u32 list" where
  "remove_leading_unsigned_loop (a # b # ws) =
     (if a = 0 then remove_leading_unsigned_loop (b # ws) else a # b # ws)"
| "remove_leading_unsigned_loop ws = ws"

definition remove_leading_zeroes_unsigned :: "ob_number \<Rightarrow> ob_number" where
  "remove_leading_zeroes_unsigned n =
     n\<lparr>num_words := rev (remove_leading_unsigned_loop (rev (num_words n)))\<rparr>"

definition extend_words :: "ob_number \<Rightarrow> int \<Rightarrow> ob_number option" where
  "extend_words n nw = do {
     ob_assert (nw > nwords n);
     ob_assert (nw \<le> MAX_NWORDS);
     Some (n\<lparr>num_words := num_words n @
       replicate (nat (nw - nwords n)) (if is_negative n then 0xffffffff else 0)\<rparr>)
   }"

section \<open>Division by a word and shifts\<close>

text \<open>The loop runs from the most significant word down; the words come reversed.\<close>

fun div_uint32_loop :: "u32 \<Rightarrow> u32 list \<Rightarrow> int \<Rightarrow> u32 list \<times> int" where
  "div_uint32_loop d [] carry = ([], carry)"
| "div_uint32_loop d (w # ws) carry =
     (let carry = wrap64 (wrap64 (carry * BASE) + uint w);
          q = word_of_int (carry sdiv uint d);
          (qs, carry) = div_uint32_loop d ws (carry smod uint d)
      in (q # qs, carry))"

definition div_uint32 ::
  "ob_number \<Rightarrow> u32 \<Rightarrow> ob_number \<Rightarrow> ob_number \<Rightarrow> (ob_number \<times> ob_number) option" where
  "div_uint32 dividend divisor quot remainder = do {
     ob_assert (0 < nwords dividend);
     ob_assert (MAX_NWORDS \<ge> nwords dividend);
     ob_assert (0 < divisor);
     let (qs, carry) = div_uint32_loop divisor (rev (num_words dividend)) 0;
     Some (remove_leading_zeroes (quot\<lparr>num_words := rev qs\<rparr>),
       if carry = 0 then set_zero remainder else remainder\<lparr>num_words := [word_of_int carry]\<rparr>)
   }"

text \<open>The \<^verbatim>\<open>while (9 < i)\<close> loops of the shifts, with the last multiplication or division.\<close>

function left_shift_loop :: "ob_number \<Rightarrow> int \<Rightarrow> bool \<Rightarrow> num_op" where
  "left_shift_loop n i did_carry =
     (if 9 < i
      then case mul_uint32 n (POWER10 9) n did_carry of
             None \<Rightarrow> None
           | Some (Err e, n) \<Rightarrow> Some (Err e, n)
           | Some (Ok _, n) \<Rightarrow> left_shift_loop n (i - 9) did_carry
      else mul_uint32 n (POWER10 i) n did_carry)"
  by pat_completeness auto
termination by (relation "measure (\<lambda>(n, i, c). nat i)") auto

definition left_shift :: "ob_number \<Rightarrow> int \<Rightarrow> bool \<Rightarrow> num_op" where
  "left_shift n i did_carry = do {
     ob_assert (0 < i \<and> i < DOUBLE_PRECISION_NDIGITS);
     left_shift_loop (n\<lparr>num_vscale := wrap8 (num_vscale n + i)\<rparr>) i did_carry
   }"

function right_shift_loop :: "ob_number \<Rightarrow> int \<Rightarrow> ob_number option" where
  "right_shift_loop n i =
     (if 9 < i
      then do { (n, _) \<leftarrow> div_uint32 n (POWER10 9) n new_number; right_shift_loop n (i - 9) }
      else do { (n, _) \<leftarrow> div_uint32 n (POWER10 i) n new_number; Some n })"
  by pat_completeness auto
termination by (relation "measure (\<lambda>(n, i). nat i)") auto

definition right_shift :: "ob_number \<Rightarrow> int \<Rightarrow> ob_number option" where
  "right_shift n i = do {
     ob_assert (0 < i \<and> i \<le> num_vscale n);
     right_shift_loop (n\<lparr>num_vscale := wrap8 (num_vscale n - i)\<rparr>) i
   }"

declare left_shift_loop.simps [simp del] right_shift_loop.simps [simp del]

section \<open>Conversions\<close>

text \<open>\<^verbatim>\<open>from(int64_t)\<close>: negation of the least value wraps, so the loop may see a negative number
  and then uses truncating division.\<close>

function from_int64_loop :: "int \<Rightarrow> u32 list" where
  "from_int64_loop i64 =
     (if i64 = 0 then []
      else let new_i64 = i64 sdiv BASE
           in word_of_int (i64 - BASE * new_i64) # from_int64_loop new_i64)"
  by pat_completeness auto
termination
proof (relation "measure (\<lambda>i. nat \<bar>i\<bar>)")
  fix i x :: int
  assume "i \<noteq> 0" "x = i sdiv BASE"
  then have "\<bar>x\<bar> = \<bar>i\<bar> div BASE"
    by (simp add: signed_divide_int_def BASE_def sgn_if)
  also have "\<dots> < \<bar>i\<bar>" using \<open>i \<noteq> 0\<close> by (simp add: BASE_def int_div_less_self)
  finally show "(x, i) \<in> measure (\<lambda>i. nat \<bar>i\<bar>)" by simp
qed simp

declare from_int64_loop.simps [simp del]

definition from_int64 :: "i64 \<Rightarrow> ob_number option" where
  "from_int64 v =
     (let is_neg = sint v < 0;
          i64 = (if is_neg then - v else v);
          ws = from_int64_loop (sint i64);
          n = \<lparr>num_vscale = 0, num_words = (if ws = [] then [0] else ws)\<rparr>
      in if is_neg then negate_words n else Some n)"

definition can_convert_to_int64 :: "ob_number \<Rightarrow> bool" where
  "can_convert_to_int64 n \<longleftrightarrow> num_vscale n = 0 \<and> 0 \<le> nwords n \<and> nwords n \<le> 2"

fun to_int64_loop :: "u32 list \<Rightarrow> int \<Rightarrow> int" where
  "to_int64_loop [] v = v"
| "to_int64_loop (w # ws) v = to_int64_loop ws (wrap64 (wrap64 (v * BASE) + uint w))"

definition to_int64 :: "ob_number \<Rightarrow> int result option" where
  "to_int64 n =
     (if \<not> can_convert_to_int64 n then Some (Err OB_VALUE_OUT_OF_RANGE)
      else let is_neg = is_negative n in do {
        p \<leftarrow> (if is_neg then negate_words n else Some n);
        ob_assert (nwords p \<le> 2);
        let v = to_int64_loop (rev (num_words p)) 0;
        Some (Ok (if is_neg then wrap64 (- v) else v))
      })"

section \<open>Addition, subtraction and comparison\<close>

definition round_fraction_part :: "ob_number \<Rightarrow> int \<Rightarrow> ob_number option" where
  "round_fraction_part n scale =
     (let is_neg = is_negative n in do {
        clone \<leftarrow> (if is_neg then negate_words n else Some n);
        clone \<leftarrow> (if num_vscale n > scale
                  then right_shift clone (wrap8 (num_vscale n - scale)) else Some clone);
        n \<leftarrow> (if is_neg then negate_words clone else Some clone);
        Some (remove_leading_zeroes n)
      })"

fun add_words_loop :: "u32 list \<Rightarrow> u32 list \<Rightarrow> int \<Rightarrow> u32 list" where
  "add_words_loop (a # as) (b # bs) carry =
     (let carry = carry + (uint a + uint b) in
      if carry \<ge> BASE then word_of_int (carry - BASE) # add_words_loop as bs 1
      else word_of_int carry # add_words_loop as bs 0)"
| "add_words_loop _ _ carry = []"

definition add_words :: "ob_number \<Rightarrow> ob_number \<Rightarrow> ob_number option" where
  "add_words n1 n2 = do {
     ob_assert (nwords n1 > 0);
     ob_assert (nwords n1 \<le> MAX_NWORDS);
     ob_assert (nwords n1 = nwords n2);
     ob_assert (num_vscale n1 = num_vscale n2);
     Some \<lparr>num_vscale = num_vscale n1, num_words = add_words_loop (num_words n1) (num_words n2) 0\<rparr>
   }"

text \<open>
  \<^verbatim>\<open>add\<close>. When the result does not fit, the error code is set but the scales are still aligned,
  and the code of \<^verbatim>\<open>left_shift\<close> replaces it.
\<close>

definition num_add :: "ob_number \<Rightarrow> ob_number \<Rightarrow> ob_number \<Rightarrow> num_op" where
  "num_add this other res = do {
     let res = set_zero res;
     n1 \<leftarrow> (if num_vscale this > SINGLE_PRECISION_NDIGITS
            then round_fraction_part this SINGLE_PRECISION_NDIGITS else Some this);
     n2 \<leftarrow> (if num_vscale other > SINGLE_PRECISION_NDIGITS
            then round_fraction_part other SINGLE_PRECISION_NDIGITS else Some other);
     let res_nwords = wrap8 (max (nwords n1) (nwords n2) + 1);
     (ret, n1, n2) \<leftarrow>
       (if res_nwords > MAX_NWORDS then Some (Err OB_VALUE_OUT_OF_RANGE, n1, n2)
        else do { n1 \<leftarrow> extend_words n1 res_nwords;
                  n2 \<leftarrow> extend_words n2 res_nwords;
                  Some (Ok (), n1, n2) });
     (ret, n1, n2) \<leftarrow>
       (if num_vscale n1 > num_vscale n2
        then do { (ret, n2) \<leftarrow> left_shift n2 (wrap8 (num_vscale n1 - num_vscale n2)) False;
                  Some (ret, n1, n2) }
        else if num_vscale n1 < num_vscale n2
        then do { (ret, n1) \<leftarrow> left_shift n1 (wrap8 (num_vscale n2 - num_vscale n1)) False;
                  Some (ret, n1, n2) }
        else Some (ret, n1, n2));
     case ret of
       Err e \<Rightarrow> Some (Err e, res)
     | Ok _ \<Rightarrow> do { res \<leftarrow> add_words n1 n2; Some (Ok (), remove_leading_zeroes res) }
   }"

definition num_sub :: "ob_number \<Rightarrow> ob_number \<Rightarrow> ob_number \<Rightarrow> num_op" where
  "num_sub this other res =
     (if nwords other \<ge> MAX_NWORDS then Some (Err OB_VALUE_OUT_OF_RANGE, res)
      else do {
        neg_other \<leftarrow> extend_words other (wrap8 (nwords other + 1));
        neg_other \<leftarrow> negate_words neg_other;
        num_add this (remove_leading_zeroes neg_other) res
      })"

definition num_compare :: "ob_number \<Rightarrow> ob_number \<Rightarrow> int option" where
  "num_compare this other = do {
     (ret, res) \<leftarrow> num_sub this other new_number;
     Some (case ret of
             Err _ \<Rightarrow> 0
           | Ok _ \<Rightarrow> if is_negative res then - 1 else if \<not> is_zero res then 1 else 0)
   }"

definition num_negate :: "ob_number \<Rightarrow> ob_number \<Rightarrow> num_op" where
  "num_negate this res =
     (if nwords this \<ge> MAX_NWORDS then Some (Err OB_VALUE_OUT_OF_RANGE, res)
      else do {
        res \<leftarrow> extend_words this (wrap8 (nwords this + 1));
        res \<leftarrow> negate_words res;
        Some (Ok (), remove_leading_zeroes res)
      })"

definition num_lt :: "ob_number \<Rightarrow> ob_number \<Rightarrow> bool option" where
  "num_lt a b = map_option (\<lambda>c. c < 0) (num_compare a b)"

definition num_le :: "ob_number \<Rightarrow> ob_number \<Rightarrow> bool option" where
  "num_le a b = map_option (\<lambda>c. c \<le> 0) (num_compare a b)"

definition num_gt :: "ob_number \<Rightarrow> ob_number \<Rightarrow> bool option" where
  "num_gt a b = map_option (\<lambda>c. c > 0) (num_compare a b)"

definition num_ge :: "ob_number \<Rightarrow> ob_number \<Rightarrow> bool option" where
  "num_ge a b = map_option (\<lambda>c. c \<ge> 0) (num_compare a b)"

definition num_eq :: "ob_number \<Rightarrow> ob_number \<Rightarrow> bool option" where
  "num_eq a b = map_option (\<lambda>c. c = 0) (num_compare a b)"

definition num_ne :: "ob_number \<Rightarrow> ob_number \<Rightarrow> bool option" where
  "num_ne a b = map_option (\<lambda>c. c \<noteq> 0) (num_compare a b)"

section \<open>Multiplication\<close>

text \<open>
  One pass of the outer loop of \<^verbatim>\<open>mul_words\<close>: \<open>m\<close> is \<^verbatim>\<open>n2.words_[i]\<close>, the last argument the result
  words from position \<open>i\<close> on. The accumulator is unsigned and 64 bits wide.
\<close>

fun mul_words_row :: "u32 \<Rightarrow> u32 list \<Rightarrow> int \<Rightarrow> u32 list \<Rightarrow> u32 list" where
  "mul_words_row m [] carry rs =
     (case rs of
        [] \<Rightarrow> []
      | r # rs' \<Rightarrow> if carry > 0 then word_of_int carry # rs' else rs)"
| "mul_words_row m (w # ws) carry rs =
     (case rs of
        [] \<Rightarrow> []
      | r # rs' \<Rightarrow>
          let carry = (carry + uint w * uint m + uint r) mod 2 ^ 64 in
          if carry \<ge> BASE
          then let new_carry = carry div BASE
               in word_of_int (carry - new_carry * BASE) # mul_words_row m ws new_carry rs'
          else word_of_int carry # mul_words_row m ws 0 rs')"

text \<open>The outer loop; after a pass its first position is final and the next pass starts behind it.\<close>

fun mul_words_loop :: "u32 list \<Rightarrow> u32 list \<Rightarrow> u32 list \<Rightarrow> u32 list" where
  "mul_words_loop ws [] rs = rs"
| "mul_words_loop ws (m # ms) rs =
     (case mul_words_row m ws 0 rs of
        [] \<Rightarrow> []
      | r # rs' \<Rightarrow> r # mul_words_loop ws ms rs')"

text \<open>
  On an error the callee has set \<^verbatim>\<open>nwords_\<close> to a value above \<^verbatim>\<open>MAX_NWORDS\<close>. Every caller goes on to
  scan the words from \<^verbatim>\<open>nwords_ - 1\<close> down, which reads outside the array; the callers below return
  \<open>None\<close> in that case.
\<close>

definition mul_words :: "ob_number \<Rightarrow> ob_number \<Rightarrow> ob_number \<Rightarrow> num_op" where
  "mul_words n1 n2 res = do {
     ob_assert (nwords n1 > 0);
     ob_assert (nwords n2 > 0);
     let res_nwords = wrap8 (nwords n1 + nwords n2 + 1);
     if res_nwords > MAX_NWORDS then Some (Err OB_VALUE_OUT_OF_RANGE, res)
     else Some (Ok (), res\<lparr>num_words :=
            mul_words_loop (num_words n1) (num_words n2) (replicate (nat res_nwords) 0)\<rparr>)
   }"

definition num_mul :: "ob_number \<Rightarrow> ob_number \<Rightarrow> ob_number \<Rightarrow> num_op" where
  "num_mul this other res =
     (let res = set_zero res in
      if is_zero this \<or> is_zero other then Some (Ok (), res)
      else do {
        multiplicand \<leftarrow> (if is_negative this then negate_words this else Some this);
        multiplier \<leftarrow> (if is_negative other then negate_words other else Some other);
        let res_is_neg = (is_negative this \<noteq> is_negative other);
        multiplicand \<leftarrow> (if num_vscale multiplicand > SINGLE_PRECISION_NDIGITS
          then round_fraction_part multiplicand SINGLE_PRECISION_NDIGITS else Some multiplicand);
        multiplier \<leftarrow> (if num_vscale multiplier > SINGLE_PRECISION_NDIGITS
          then round_fraction_part multiplier SINGLE_PRECISION_NDIGITS else Some multiplier);
        let res = res\<lparr>num_vscale := wrap8 (num_vscale multiplicand + num_vscale multiplier)\<rparr>;
        (ret, res) \<leftarrow> mul_words multiplicand multiplier res;
        case ret of
          Err e \<Rightarrow> None
        | Ok _ \<Rightarrow> do {
            let res = remove_leading_zeroes res;
            res \<leftarrow> (if res_is_neg then negate_words res else Some res);
            Some (Ok (), res)
          }
      })"

section \<open>Division\<close>

text \<open>The loop of \<^verbatim>\<open>compare_words_unsigned\<close> with the next index to look at below \<open>i\<close>.\<close>

fun compare_words_loop :: "u32 list \<Rightarrow> u32 list \<Rightarrow> nat \<Rightarrow> int" where
  "compare_words_loop ws1 ws2 0 = 0"
| "compare_words_loop ws1 ws2 (Suc i) =
     (if i < length ws1 \<and> i \<ge> length ws2
      then if ws1 ! i > 0 then 1 else compare_words_loop ws1 ws2 i
      else if i < length ws2 \<and> i \<ge> length ws1
      then if ws2 ! i > 0 then - 1 else compare_words_loop ws1 ws2 i
      else if ws1 ! i > ws2 ! i then 1
      else if ws1 ! i < ws2 ! i then - 1
      else compare_words_loop ws1 ws2 i)"

definition compare_words_unsigned :: "ob_number \<Rightarrow> ob_number \<Rightarrow> int option" where
  "compare_words_unsigned n1 n2 = do {
     ob_assert (nwords n1 \<le> MAX_NWORDS);
     ob_assert (nwords n2 \<le> MAX_NWORDS);
     Some (compare_words_loop (num_words n1) (num_words n2)
       (max (length (num_words n1)) (length (num_words n2))))
   }"

text \<open>The loop of \<^verbatim>\<open>sub_words_unsigned\<close>; a list that has run out contributes nothing.\<close>

function sub_words_loop :: "u32 list \<Rightarrow> u32 list \<Rightarrow> int \<Rightarrow> u32 list" where
  "sub_words_loop as bs borrow =
     (if as = [] \<and> bs = [] then []
      else
        let borrow = borrow + (if as \<noteq> [] then uint (hd as) else 0) - (if bs \<noteq> [] then uint (hd bs) else 0)
        in if 0 > borrow
           then word_of_int (borrow + BASE) # sub_words_loop (tl as) (tl bs) (- 1)
           else word_of_int borrow # sub_words_loop (tl as) (tl bs) 0)"
  by pat_completeness auto
termination
  by (relation "measure (\<lambda>(as, bs, b). length as + length bs)") (auto simp: neq_Nil_conv)

declare sub_words_loop.simps [simp del]

definition sub_words_unsigned :: "ob_number \<Rightarrow> ob_number \<Rightarrow> ob_number \<Rightarrow> ob_number option" where
  "sub_words_unsigned n1 n2 res = do {
     ob_assert (nwords n1 \<le> MAX_NWORDS);
     ob_assert (nwords n2 \<le> MAX_NWORDS);
     Some (res\<lparr>num_words := sub_words_loop (num_words n1) (num_words n2) 0\<rparr>)
   }"

text \<open>Storing a word at an index; an index outside the valid words is undefined.\<close>

definition set_word :: "ob_number \<Rightarrow> int \<Rightarrow> u32 \<Rightarrow> ob_number option" where
  "set_word n i w = do {
     ob_assert (0 \<le> i \<and> i < nwords n);
     Some (n\<lparr>num_words := (num_words n)[nat i := w]\<rparr>)
   }"

text \<open>
  The correction loop of \<^verbatim>\<open>knuth_div_unsigned\<close>, \<open>k\<close> iterations to go, with the trial quotient \<open>q\<close>,
  its number \<^verbatim>\<open>Q\<close> and the product \<^verbatim>\<open>T\<close>.
\<close>

fun knuth_correct ::
  "ob_number \<Rightarrow> ob_number \<Rightarrow> nat \<Rightarrow> u64 \<Rightarrow> ob_number \<Rightarrow> ob_number \<Rightarrow> (ob_number \<times> ob_number) option" where
  "knuth_correct cdividend divisor 0 q Q T = Some (Q, T)"
| "knuth_correct cdividend divisor (Suc k) q Q T = do {
     cmp \<leftarrow> compare_words_unsigned T cdividend;
     if cmp > 0
     then do {
       Q \<leftarrow> from_int64 (q - 1);
       T \<leftarrow> sub_words_unsigned T divisor T;
       knuth_correct cdividend divisor k (q - 1) Q T
     }
     else Some (Q, T)
   }"

text \<open>
  \<^verbatim>\<open>knuth_div_unsigned\<close>: the function calls itself at most once, \<open>fuel\<close> bounds the depth. \<open>dividend\<close>
  is the memory behind the pointer argument.
\<close>

fun knuth_div_unsigned ::
  "nat \<Rightarrow> u32 list \<Rightarrow> ob_number \<Rightarrow> ob_number \<Rightarrow> int \<Rightarrow> ob_number \<Rightarrow> (ob_number \<times> ob_number) option" where
  "knuth_div_unsigned 0 dividend divisor quot qidx remainder = None"
| "knuth_div_unsigned (Suc fuel) dividend divisor quot qidx remainder = do {
     ob_assert (num_words divisor \<noteq> []);
     ob_assert (uint (last (num_words divisor)) \<ge> HALF_BASE);
     ob_assert (0 \<le> qidx \<and> qidx < MAX_NWORDS);
     let n = length (num_words divisor);
     ob_assert (n + 1 \<le> length dividend \<and> n + 1 \<le> nat MAX_NWORDS);
     let cdividend = new_number\<lparr>num_words := take (n + 1) dividend\<rparr>;
     base \<leftarrow> from_int64 (word_of_int BASE);
     (ret, p) \<leftarrow> mul_words base divisor new_number;
     ob_assert (ret = Ok ());
     let p = remove_leading_zeroes_unsigned p;
     cmp \<leftarrow> compare_words_unsigned cdividend p;
     if cmp \<ge> 0
     then do {
       cdividend \<leftarrow> sub_words_unsigned cdividend p cdividend;
       (quot, remainder) \<leftarrow> knuth_div_unsigned fuel (num_words cdividend) divisor quot qidx remainder;
       quot \<leftarrow> set_word quot (qidx + 1) 1;
       Some (quot, remainder)
     }
     else do {
       let q = (BASE * uint (dividend ! n) + uint (dividend ! (n - 1))) div uint (last (num_words divisor));
       let q = (if q \<ge> BASE then BASE - 1 else q);
       Q \<leftarrow> from_int64 (word_of_int q);
       (ret, T) \<leftarrow> mul_words Q divisor new_number;
       ob_assert (ret = Ok ());
       let T = remove_leading_zeroes_unsigned T;
       (Q, T) \<leftarrow> knuth_correct cdividend divisor 2 (word_of_int q) Q T;
       quot \<leftarrow> (if nwords Q = 1 then set_word quot qidx (hd (num_words Q))
               else do { ob_assert (is_zero Q); set_word quot qidx 0 });
       remainder \<leftarrow> sub_words_unsigned cdividend T remainder;
       Some (quot, remainder)
     }
   }"

text \<open>The loop over the quotient digits, \<open>i\<close> digits to go, with the running dividend.\<close>

fun div_words_loop ::
  "ob_number \<Rightarrow> nat \<Rightarrow> ob_number \<Rightarrow> ob_number \<Rightarrow> ob_number \<Rightarrow> (ob_number \<times> ob_number) option" where
  "div_words_loop cdivisor 0 cdividend quot remainder = Some (quot, remainder)"
| "div_words_loop cdivisor (Suc i) cdividend quot remainder = do {
     (quot, remainder) \<leftarrow> knuth_div_unsigned 2 (drop i (num_words cdividend)) cdivisor quot (int i) remainder;
     let n = length (num_words cdivisor);
     ob_assert (n \<le> length (num_words remainder));
     let ws = num_words cdividend;
     let cdividend = cdividend\<lparr>num_words := take i ws @ take n (num_words remainder) @ drop (i + n) ws\<rparr>;
     div_words_loop cdivisor i cdividend quot remainder
   }"

text \<open>The final step: a result whose top bit is set gets a zero word, so that it reads as positive.\<close>

definition make_positive :: "ob_number \<Rightarrow> ob_number option" where
  "make_positive n =
     (if num_words n \<noteq> [] \<and> uint (last (num_words n)) \<ge> HALF_BASE
      then do { ob_assert (nwords n < MAX_NWORDS); Some (n\<lparr>num_words := num_words n @ [0]\<rparr>) }
      else Some n)"

definition div_words ::
  "ob_number \<Rightarrow> ob_number \<Rightarrow> ob_number \<Rightarrow> ob_number \<Rightarrow> (ob_number \<times> ob_number) option" where
  "div_words dividend divisor quot remainder = do {
     ob_assert (\<not> is_zero dividend);
     ob_assert (\<not> is_zero divisor);
     ob_assert (0 < nwords dividend \<and> nwords dividend \<le> MAX_NWORDS);
     ob_assert (0 < nwords divisor \<and> nwords divisor \<le> MAX_NWORDS);
     (quot, remainder) \<leftarrow>
       (if nwords divisor = 1 then div_uint32 dividend (hd (num_words divisor)) quot remainder
        else do {
          (cdivisor, cdividend) \<leftarrow>
            (if uint (last (num_words divisor)) < HALF_BASE
             then do {
               let factor = word_of_int (BASE div (uint (last (num_words divisor)) + 1));
               (_, cdivisor) \<leftarrow> mul_uint32 divisor factor new_number True;
               (_, cdividend) \<leftarrow> mul_uint32 dividend factor new_number True;
               ob_assert (uint (last (num_words cdivisor)) \<ge> HALF_BASE);
               Some (cdivisor, cdividend)
             }
             else Some (divisor, dividend));
          if nwords cdividend < nwords cdivisor then Some (set_zero quot, dividend)
          else if nwords cdividend = nwords cdivisor
          then do {
            cmp \<leftarrow> compare_words_unsigned cdividend cdivisor;
            if cmp < 0 then Some (set_zero quot, dividend)
            else do {
              remainder \<leftarrow> sub_words_unsigned cdividend cdivisor remainder;
              Some (quot\<lparr>num_words := [1]\<rparr>, remainder)
            }
          }
          else do {
            let k = length (num_words cdividend) - length (num_words cdivisor);
            div_words_loop cdivisor k cdividend (quot\<lparr>num_words := replicate (k + 1) 0\<rparr>) remainder
          }
        });
     quot \<leftarrow> make_positive quot;
     remainder \<leftarrow> make_positive remainder;
     Some (quot, remainder)
   }"

definition num_div :: "ob_number \<Rightarrow> ob_number \<Rightarrow> ob_number \<Rightarrow> num_op" where
  "num_div this other res =
     (let res = set_zero res in
      if is_zero other then Some (Err OB_DIVISION_BY_ZERO, res)
      else if is_zero this then Some (Ok (), res)
      else do {
        let res = res\<lparr>num_vscale := QUOTIENT_SCALE\<rparr>;
        dividend \<leftarrow> (if is_negative this then negate_words this else Some this);
        dividend \<leftarrow> (if num_vscale dividend > DOUBLE_PRECISION_NDIGITS
          then round_fraction_part dividend DOUBLE_PRECISION_NDIGITS else Some dividend);
        divisor \<leftarrow> (if num_vscale other > SINGLE_PRECISION_NDIGITS
          then round_fraction_part other SINGLE_PRECISION_NDIGITS else Some other);
        (ret, dividend) \<leftarrow>
          (if num_vscale dividend < num_vscale divisor
              \<or> num_vscale res > num_vscale dividend - num_vscale divisor
           then left_shift dividend
                  (wrap8 (num_vscale res + num_vscale divisor - num_vscale dividend)) True
           else Some (Ok (), dividend));
        case ret of
          Err e \<Rightarrow> Some (Err e, res)
        | Ok _ \<Rightarrow> do {
            let res_is_neg = (is_negative this \<noteq> is_negative divisor);
            divisor \<leftarrow> (if is_negative divisor then negate_words divisor else Some divisor);
            let divisor = remove_leading_zeroes_unsigned divisor;
            (res, _) \<leftarrow> div_words dividend divisor res new_number;
            res \<leftarrow> (if res_is_neg then negate_words res else Some res);
            Some (Ok (), remove_leading_zeroes res)
          }
      })"

section \<open>Digits: rounding to a precision, casting and parsing\<close>

text \<open>The digit-counting loop of \<^verbatim>\<open>round_to\<close>; \<^verbatim>\<open>vprec\<close> is an \<^verbatim>\<open>int8_t\<close>.\<close>

partial_function (option) count_digits :: "ob_number \<Rightarrow> int \<Rightarrow> int option" where
  "count_digits n vprec =
     (if is_zero n then Some vprec
      else Option.bind (div_uint32 n 10 n new_number)
             (\<lambda>qr. count_digits (remove_leading_zeroes (fst qr)) (wrap8 (vprec + 1))))"

text \<open>On success the words, their number and the scale that are handed to the caller.\<close>

declare count_digits.simps [code]

definition round_to :: "ob_number \<Rightarrow> int \<Rightarrow> int \<Rightarrow> ob_number result option" where
  "round_to this precision scale = do {
     ob_assert (precision \<ge> scale \<and> 0 \<le> scale);
     clone \<leftarrow> (if is_negative this then negate_words this else Some this);
     clone \<leftarrow> (if num_vscale clone > scale
        then do { c \<leftarrow> right_shift clone (wrap8 (num_vscale clone - scale)); Some (remove_leading_zeroes c) }
        else Some clone);
     vprec \<leftarrow> count_digits clone 0;
     if vprec > precision then Some (Err OB_VALUE_OUT_OF_RANGE)
     else do {
       clone \<leftarrow> (if is_negative this then negate_words clone else Some clone);
       Some (Ok clone)
     }
   }"

text \<open>
  The digit loop of \<^verbatim>\<open>cast_to_int64\<close>: the first \<^verbatim>\<open>vscale\<close> digits are dropped, the others are
  stored from the end of the array backwards. \<open>ds\<close> holds the digits stored so far.
\<close>

partial_function (option) cast_digits :: "ob_number \<Rightarrow> int \<Rightarrow> int list \<Rightarrow> int list option" where
  "cast_digits n vscale ds =
     (if is_zero n then Some ds
      else Option.bind (div_uint32 n 10 n new_number) (\<lambda>qr.
             if vscale > 0 then cast_digits (fst qr) (vscale - 1) ds
             else Option.bind (ob_assert (int (length ds) < DOUBLE_PRECISION_NDIGITS)) (\<lambda>_.
                    cast_digits (fst qr) vscale (uint (hd (num_words (snd qr))) # ds))))"

declare cast_digits.simps [code]

definition cast_to_int64 :: "ob_number \<Rightarrow> int option" where
  "cast_to_int64 this = do {
     pos_clone \<leftarrow> (if is_negative this then negate_words this else Some this);
     ds \<leftarrow> cast_digits pos_clone (num_vscale this) [];
     let i64 = fold (\<lambda>d acc. wrap64 (wrap64 (acc * 10) + d)) ds 0;
     Some (if is_negative this then wrap64 (- i64) else i64)
   }"

text \<open>The loop of \<^verbatim>\<open>from(const char *, int64_t)\<close> over the characters, with the number built so far,
  the sign seen and \<^verbatim>\<open>vscale\<close>.\<close>

fun from_str_loop :: "char list \<Rightarrow> ob_number \<Rightarrow> bool \<Rightarrow> int \<Rightarrow> (unit result \<times> ob_number \<times> bool \<times> int) option" where
  "from_str_loop [] n neg vscale = Some (Ok (), n, neg, vscale)"
| "from_str_loop (c # cs) n neg vscale =
     (if CHR ''0'' = c \<or> c \<in> set ''123456789''
      then case mul_uint32 n 10 n True of
             None \<Rightarrow> None
           | Some (Err e, n) \<Rightarrow> Some (Err e, n, neg, vscale)
           | Some (Ok _, n) \<Rightarrow>
               (case add_uint32 n (of_char c - 48) of
                  None \<Rightarrow> None
                | Some (Err e, n) \<Rightarrow> Some (Err e, n, neg, vscale)
                | Some (Ok _, n) \<Rightarrow>
                    from_str_loop cs n neg (if 0 \<le> vscale then wrap8 (vscale + 1) else vscale))
      else if c = CHR ''-'' then from_str_loop cs n True vscale
      else if c = CHR ''.'' then from_str_loop cs n neg 0
      else Some (Err OB_ERR_UNEXPECTED, n, neg, vscale))"

definition from_str :: "char list \<Rightarrow> num_op" where
  "from_str str = do {
     (ret, n, neg, vscale) \<leftarrow> from_str_loop str \<lparr>num_vscale = 0, num_words = replicate 4 0\<rparr> False (- 1);
     if SINGLE_PRECISION_NDIGITS < vscale then Some (Err OB_VALUE_OUT_OF_RANGE, set_zero n)
     else case ret of
       Err e \<Rightarrow> Some (Err e, set_zero n)
     | Ok _ \<Rightarrow> do {
         let n = (if 0 < vscale then n\<lparr>num_vscale := vscale\<rparr> else n);
         n \<leftarrow> (if neg then negate_words n else Some n);
         Some (Ok (), remove_leading_zeroes n)
       }
   }"

end
