(* ===== verification/Ob_Number_Values.thy ===== *)
theory Ob_Number_Values
  imports Ob_Number
begin

text \<open>
  What the words of an \<^verbatim>\<open>ObNumber\<close> stand for, as an unsigned (\<open>uval\<close>) and as a two's complement
  (\<open>sval\<close>) integer, and what negation, normalisation, sign extension and the addition of words
  do to these values.
\<close>

unbundle bit_operations_syntax

lemma mod_add_multiple: "x = y + k * m \<Longrightarrow> x mod m = y mod (m :: int)"
  by simp

section \<open>Values of word lists\<close>

fun uval :: "u32 list \<Rightarrow> int" where
  "uval [] = 0"
| "uval (w # ws) = uint w + 2 ^ 32 * uval ws"

abbreviation modulus :: "u32 list \<Rightarrow> int" where
  "modulus ws \<equiv> 2 ^ (32 * length ws)"

definition top_bit :: "u32 list \<Rightarrow> bool" where
  "top_bit ws \<longleftrightarrow> ws \<noteq> [] \<and> last ws AND SIGN_MASK \<noteq> 0"

text \<open>The two's complement reading.\<close>

definition sval :: "u32 list \<Rightarrow> int" where
  "sval ws = uval ws - (if top_bit ws then modulus ws else 0)"

lemma uint32_less: "uint (w :: u32) < 2 ^ 32"
  using unsigned_less [of w, where 'a = int] by simp

lemma uval_nonneg [simp]: "0 \<le> uval ws"
  by (induction ws) simp_all

lemma uval_less: "uval ws < modulus ws"
proof (induction ws)
  case (Cons w ws)
  then have "2 ^ 32 * (uval ws + 1) \<le> 2 ^ 32 * modulus ws" by simp
  with uint32_less [of w] show ?case by (simp add: power_add algebra_simps)
qed simp

lemma uval_append: "uval (xs @ ys) = uval xs + modulus xs * uval ys"
  by (induction xs) (simp_all add: power_add algebra_simps)

lemma uval_replicate_0 [simp]: "uval (replicate n 0) = 0"
  by (induction n) simp_all

lemma uval_replicate_max: "uval (replicate n 0xffffffff) = 2 ^ (32 * n) - 1"
  by (induction n) (simp_all add: power_add)

lemma sign_mask_iff: "w AND SIGN_MASK \<noteq> 0 \<longleftrightarrow> 2 ^ 31 \<le> uint (w :: u32)"
proof -
  have "w AND SIGN_MASK \<noteq> 0 \<longleftrightarrow> bit w 31"
    using bit_iff_and_push_bit_not_eq_0 [of w 31] by (simp add: SIGN_MASK_def)
  also have "\<dots> \<longleftrightarrow> odd (uint w div 2 ^ 31)"
    using bit_uint_iff [of w 31] by (simp add: bit_iff_odd [of "uint w"])
  also have "uint w div 2 ^ 31 = (if uint w < 2 ^ 31 then 0 else 1)"
    using uint32_less [of w] by (auto intro!: int_div_pos_eq [where r = "uint w - 2 ^ 31"])
  finally show ?thesis by auto
qed

lemma half_mult_iff:
  fixes M u x :: int
  assumes "0 \<le> u" "u < M"
  shows "2 ^ 31 \<le> x \<longleftrightarrow> 2 ^ 32 * M \<le> 2 * (u + M * x)"
proof
  assume "2 ^ 31 \<le> x"
  then obtain y where y: "x = 2147483648 + y" "0 \<le> y"
    by (intro that [of "x - 2147483648"]) simp_all
  have "0 \<le> M * y" using assms y by simp
  with assms(1) show "2 ^ 32 * M \<le> 2 * (u + M * x)" by (simp add: y distrib_left)
next
  assume a: "2 ^ 32 * M \<le> 2 * (u + M * x)"
  show "2 ^ 31 \<le> x"
  proof (rule ccontr)
    assume "\<not> 2 ^ 31 \<le> x"
    then obtain y where y: "x = 2147483647 - y" "0 \<le> y"
      by (intro that [of "2147483647 - x"]) simp_all
    have "0 \<le> M * y" using assms y by simp
    with a assms show False by (simp add: y right_diff_distrib)
  qed
qed

lemma top_bit_iff:
  assumes "ws \<noteq> []"
  shows "top_bit ws \<longleftrightarrow> modulus ws \<le> 2 * uval ws"
proof -
  obtain us w where ws: "ws = us @ [w]" using assms by (metis rev_exhaust)
  have "modulus ws = 2 ^ 32 * modulus us" by (simp add: ws power_add)
  then show ?thesis
    using half_mult_iff [OF uval_nonneg uval_less [of us], of "uint w"]
    by (simp add: top_bit_def ws sign_mask_iff uval_append del: power_numeral)
qed

lemma sval_range:
  assumes "ws \<noteq> []"
  shows "- modulus ws \<le> 2 * sval ws" "2 * sval ws < modulus ws"
proof -
  have "0 < modulus ws" "0 \<le> uval ws" by simp_all
  then have "- modulus ws \<le> 2 * uval ws" by linarith
  then have "- modulus ws \<le> 2 * sval ws \<and> 2 * sval ws < modulus ws"
    using uval_less [of ws] top_bit_iff [OF assms] unfolding sval_def by (cases "top_bit ws") auto
  then show "- modulus ws \<le> 2 * sval ws" "2 * sval ws < modulus ws" by simp_all
qed

lemma sval_uval: "\<exists>k. sval ws = uval ws + k * modulus ws"
  by (rule exI [of _ "if top_bit ws then - 1 else 0"]) (simp add: sval_def)

lemma sval_mod: "sval ws mod modulus ws = uval ws"
proof -
  have "sval ws mod modulus ws = uval ws mod modulus ws"
    by (simp add: sval_def mod_diff_eq [symmetric])
  then show ?thesis using uval_less [of ws] by simp
qed

text \<open>A number in the signed range is determined by its residue.\<close>

lemma sval_unique:
  assumes "ws \<noteq> []" "x mod modulus ws = uval ws" "- modulus ws \<le> 2 * x" "2 * x < modulus ws"
  shows "sval ws = x"
proof -
  have "(sval ws - x) mod modulus ws = 0"
    using assms(2) by (metis sval_mod mod_diff_cong diff_self mod_0)
  then obtain k where k: "sval ws - x = modulus ws * k" by (metis mod_0_imp_dvd dvdE)
  have "\<bar>sval ws - x\<bar> < modulus ws" using sval_range [OF assms(1)] assms(3,4) by linarith
  then have "\<bar>k\<bar> < 1" by (simp add: k abs_mult)
  then show ?thesis using k by simp
qed

lemma is_negative_iff: "is_negative n \<longleftrightarrow> top_bit (num_words n)"
  by (simp add: is_negative_def top_bit_def)

lemma top_bit_sval: "top_bit ws \<longleftrightarrow> sval ws < 0"
  using uval_less [of ws] by (auto simp: sval_def not_less)

lemma sval_zero_iff: "ws \<noteq> [] \<Longrightarrow> sval ws = 0 \<longleftrightarrow> uval ws = 0"
  using sval_mod [of ws] top_bit_iff [of ws] by (auto simp: sval_def split: if_splits)

section \<open>Words of carries\<close>

lemma uint_of_int32: "0 \<le> x \<Longrightarrow> x < 2 ^ 32 \<Longrightarrow> uint (word_of_int x :: u32) = x"
  by (simp add: uint_word_of_int)

lemma uint_carry_sub: "BASE \<le> x \<Longrightarrow> x < 2 * BASE \<Longrightarrow> uint (word_of_int (x - BASE) :: u32) = x - BASE"
  by (rule uint_of_int32) (simp_all add: BASE_def)

lemma wrap64_id: "- (2 ^ 63) \<le> x \<Longrightarrow> x < 2 ^ 63 \<Longrightarrow> wrap64 x = x"
  by (simp add: wrap64_def signed_of_int signed_take_bit_int_eq_self)

lemma wrap8_id: "- 128 \<le> x \<Longrightarrow> x < 128 \<Longrightarrow> wrap8 x = x"
  by (simp add: wrap8_def signed_of_int signed_take_bit_int_eq_self)

section \<open>Negation\<close>

lemma length_negate_loop [simp]: "length (negate_loop ws c) = length ws"
  by (induction ws c rule: negate_loop.induct) (simp_all add: Let_def)

lemma negate_loop_uval:
  "c \<in> {0, 1} \<Longrightarrow> \<exists>d \<in> {0, 1}. uval (negate_loop ws c) + d * modulus ws = uval ws + c"
proof (induction ws arbitrary: c)
  case (Cons w ws)
  show ?case
  proof (cases "c + uint w \<ge> BASE")
    case True
    obtain d where d: "d \<in> {0, 1}" "uval (negate_loop ws 1) + d * modulus ws = uval ws + 1"
      using Cons.IH [of 1] by blast
    have "uint (word_of_int (c + uint w - BASE) :: u32) = c + uint w - BASE"
      using True Cons.prems uint32_less [of w] by (intro uint_carry_sub) (auto simp: BASE_def)
    with True d show ?thesis
      by (intro bexI [of _ d]) (simp_all add: Let_def BASE_def power_add algebra_simps)
  next
    case False
    obtain d where d: "d \<in> {0, 1}" "uval (negate_loop ws 0) + d * modulus ws = uval ws"
      using Cons.IH [of 0] by fastforce
    have "uint (word_of_int (c + uint w) :: u32) = c + uint w"
      using False Cons.prems by (intro uint_of_int32) (auto simp: BASE_def)
    with False d show ?thesis
      by (intro bexI [of _ d]) (simp_all add: Let_def BASE_def power_add algebra_simps)
  qed
qed auto

lemma uval_map_NOT: "uval (map (\<lambda>w. NOT w) ws) = modulus ws - 1 - uval ws"
proof (induction ws)
  case (Cons w ws)
  have "w \<le> - 1" by simp
  then have "uint (- 1 - w) = uint (- 1 :: u32) - uint w" by (simp add: uint_sub_lem word_le_def)
  moreover have "NOT w = - 1 - w" by (simp add: not_eq_complement)
  ultimately have "uint (NOT w) = uint (- 1 :: u32) - uint w" by (simp only:)
  then have "uint (NOT w) = 2 ^ 32 - 1 - uint w"
    by (simp add: unsigned_minus_1_eq_mask mask_eq_exp_minus_1)
  with Cons show ?case by (simp add: power_add algebra_simps)
qed simp

lemma negate_loop_mod: "uval (negate_loop (map (\<lambda>w. NOT w) ws) 1) = (- uval ws) mod modulus ws"
proof -
  obtain d where d: "uval (negate_loop (map (\<lambda>w. NOT w) ws) 1) + d * modulus ws = modulus ws - uval ws"
    using negate_loop_uval [of 1 "map (\<lambda>w. NOT w) ws"] by (auto simp: uval_map_NOT)
  have "uval (negate_loop (map (\<lambda>w. NOT w) ws) 1) mod modulus ws = (- uval ws) mod modulus ws"
    by (rule mod_add_multiple [where k = "1 - d"]) (use d in \<open>simp add: algebra_simps\<close>)
  then show ?thesis using uval_less [of "negate_loop (map (\<lambda>w. NOT w) ws) 1"] by simp
qed

text \<open>A number that every operation accepts: one to nine words.\<close>

definition num_ok :: "ob_number \<Rightarrow> bool" where
  "num_ok n \<longleftrightarrow> num_words n \<noteq> [] \<and> length (num_words n) \<le> 9"

abbreviation nval :: "ob_number \<Rightarrow> int" where
  "nval n \<equiv> sval (num_words n)"

lemma negate_words_ok:
  assumes "num_ok n"
  obtains n' where "negate_words n = Some n'" "length (num_words n') = length (num_words n)"
    "num_vscale n' = num_vscale n" "uval (num_words n') = (- nval n) mod modulus (num_words n)"
proof
  show "negate_words n = Some \<lparr>num_vscale = num_vscale n,
      num_words = negate_loop (map (\<lambda>w. NOT w) (num_words n)) 1\<rparr>"
    using assms by (simp add: negate_words_def num_ok_def ob_assert_def MAX_NWORDS_def)
  obtain k where "nval n = uval (num_words n) + k * modulus (num_words n)"
    using sval_uval by blast
  then have "(- nval n) mod modulus (num_words n) = (- uval (num_words n)) mod modulus (num_words n)"
    by (intro mod_add_multiple [where k = "- k"]) simp
  then show "uval (num_words \<lparr>num_vscale = num_vscale n,
      num_words = negate_loop (map (\<lambda>w. NOT w) (num_words n)) 1\<rparr>) = (- nval n) mod modulus (num_words n)"
    by (simp add: negate_loop_mod)
qed simp_all

text \<open>Negation is exact except on the least value of its width.\<close>

lemma negate_words_exact:
  assumes "num_ok n" "2 * nval n \<noteq> - modulus (num_words n)"
  obtains n' where "negate_words n = Some n'" "length (num_words n') = length (num_words n)"
    "num_vscale n' = num_vscale n" "nval n' = - nval n"
proof -
  obtain n' where n': "negate_words n = Some n'" "length (num_words n') = length (num_words n)"
    "num_vscale n' = num_vscale n" "uval (num_words n') = (- nval n) mod modulus (num_words n)"
    using negate_words_ok [OF assms(1)] .
  have ne: "num_words n \<noteq> []" "num_words n' \<noteq> []" using assms(1) n'(2) by (auto simp: num_ok_def)
  have "nval n' = - nval n"
    using sval_range [OF ne(1)] assms(2) n'(2,4) by (intro sval_unique ne) auto
  with n' that show thesis by blast
qed

lemma not_least: "0 \<le> x \<Longrightarrow> 2 * x \<noteq> - modulus ws"
  using zero_less_power [of "2 :: int" "32 * length ws"] by linarith

section \<open>Normalisation\<close>

lemma sval_snoc_zero:
  "us \<noteq> [] \<Longrightarrow> \<not> top_bit us \<Longrightarrow> sval (us @ [0]) = sval us"
  by (simp add: sval_def top_bit_def uval_append)

lemma sval_snoc_ones:
  "us \<noteq> [] \<Longrightarrow> top_bit us \<Longrightarrow> sval (us @ [0xffffffff]) = sval us"
  by (simp add: sval_def top_bit_def uval_append SIGN_MASK_def power_add)

lemma sval_extend:
  "us \<noteq> [] \<Longrightarrow> sval (us @ replicate k (if top_bit us then 0xffffffff else 0)) = sval us"
proof (induction k)
  case (Suc k)
  define vs where "vs = us @ replicate k (if top_bit us then 0xffffffff else (0 :: u32))"
  have "vs \<noteq> []" "sval vs = sval us" "top_bit vs = top_bit us"
    using Suc by (simp_all add: vs_def top_bit_sval)
  moreover have "us @ replicate (Suc k) (if top_bit us then 0xffffffff else 0)
      = vs @ [if top_bit us then 0xffffffff else 0]"
    by (simp add: vs_def replicate_append_same)
  ultimately show ?case
    using sval_snoc_zero [of vs] sval_snoc_ones [of vs] by (cases "top_bit us") simp_all
qed simp

lemma remove_leading_loop_sval:
  "ws \<noteq> [] \<Longrightarrow> remove_leading_loop ws \<noteq> [] \<and> length (remove_leading_loop ws) \<le> length ws \<and>
     sval (rev (remove_leading_loop ws)) = sval (rev ws)"
proof (induction ws rule: remove_leading_loop.induct)
  case (1 a b ws)
  have t: "top_bit (rev (b # ws)) \<longleftrightarrow> b AND SIGN_MASK \<noteq> 0" by (simp add: top_bit_def)
  show ?case
    using 1 t sval_snoc_ones [of "rev (b # ws)"] sval_snoc_zero [of "rev (b # ws)"]
    by (auto simp: le_SucI)
qed simp_all

lemma remove_leading_zeroes_ok:
  assumes "num_words n \<noteq> []"
  shows "num_words (remove_leading_zeroes n) \<noteq> []"
    "length (num_words (remove_leading_zeroes n)) \<le> length (num_words n)"
    "nval (remove_leading_zeroes n) = nval n"
    "num_vscale (remove_leading_zeroes n) = num_vscale n"
  using remove_leading_loop_sval [of "rev (num_words n)"] assms
  by (simp_all add: remove_leading_zeroes_def)

lemma uval_0_iff: "uval ws = 0 \<longleftrightarrow> (\<forall>w \<in> set ws. w = 0)"
proof (induction ws)
  case (Cons w ws)
  have "uint w + 4294967296 * uval ws = 0 \<longleftrightarrow> uint w = 0 \<and> uval ws = 0"
    using uval_nonneg [of ws] by (simp add: add_nonneg_eq_0_iff)
  with Cons show ?case by (simp add: uint_0_iff)
qed simp

lemma remove_leading_loop_zeroes:
  "ws \<noteq> [] \<Longrightarrow> (\<forall>w \<in> set ws. w = 0) \<Longrightarrow> remove_leading_loop ws = [0]"
  by (induction ws rule: remove_leading_loop.induct) auto

text \<open>After normalisation zero is recognised.\<close>

lemma is_zero_remove_leading:
  assumes "num_words n \<noteq> []"
  shows "is_zero (remove_leading_zeroes n) \<longleftrightarrow> nval n = 0"
proof
  assume "is_zero (remove_leading_zeroes n)"
  then have "nval (remove_leading_zeroes n) = 0"
    by (simp add: is_zero_def sval_def top_bit_def)
  with remove_leading_zeroes_ok [OF assms] show "nval n = 0" by simp
next
  assume "nval n = 0"
  then have "\<forall>w \<in> set (num_words n). w = 0" using assms by (simp add: sval_zero_iff uval_0_iff)
  then have "remove_leading_loop (rev (num_words n)) = [0]"
    using assms by (intro remove_leading_loop_zeroes) auto
  then show "is_zero (remove_leading_zeroes n)"
    by (simp add: is_zero_def remove_leading_zeroes_def)
qed

lemma extend_words_ok:
  assumes "num_ok n" "nwords n < k" "k \<le> 9"
  obtains n' where "extend_words n k = Some n'" "length (num_words n') = nat k"
    "num_vscale n' = num_vscale n" "nval n' = nval n"
proof
  show "extend_words n k = Some (n\<lparr>num_words := num_words n @
       replicate (nat (k - nwords n)) (if is_negative n then 0xffffffff else 0)\<rparr>)"
    using assms by (simp add: extend_words_def ob_assert_def MAX_NWORDS_def)
qed (use assms sval_extend in \<open>auto simp: num_ok_def is_negative_iff nat_diff_distrib\<close>)

section \<open>Addition of words\<close>

lemma length_add_words_loop: "length as = length bs \<Longrightarrow> length (add_words_loop as bs c) = length as"
  by (induction as bs c rule: add_words_loop.induct) (simp_all add: Let_def)

lemma add_words_loop_uval:
  "length as = length bs \<Longrightarrow> c \<in> {0, 1} \<Longrightarrow>
   \<exists>d \<in> {0, 1}. uval (add_words_loop as bs c) + d * modulus as = uval as + uval bs + c"
proof (induction as bs arbitrary: c rule: list_induct2)
  case (Cons a as b bs)
  define s where "s = c + (uint a + uint b)"
  have s: "0 \<le> s" "s < 2 * BASE" using Cons.prems uint32_less [of a] uint32_less [of b] by (auto simp: s_def BASE_def)
  show ?case
  proof (cases "s \<ge> BASE")
    case True
    obtain d where d: "d \<in> {0, 1}" "uval (add_words_loop as bs 1) + d * modulus as = uval as + uval bs + 1"
      using Cons.IH [of 1] by blast
    have "uint (word_of_int (s - BASE) :: u32) = s - BASE" using True s by (intro uint_carry_sub)
    with True d show ?thesis
      by (intro bexI [of _ d]) (simp_all add: Let_def BASE_def power_add algebra_simps s_def [symmetric], simp add: s_def)
  next
    case False
    obtain d where d: "d \<in> {0, 1}" "uval (add_words_loop as bs 0) + d * modulus as = uval as + uval bs"
      using Cons.IH [of 0] by fastforce
    have "uint (word_of_int s :: u32) = s" using False s by (intro uint_of_int32) (auto simp: BASE_def)
    with False d show ?thesis
      by (intro bexI [of _ d]) (simp_all add: Let_def BASE_def power_add algebra_simps s_def [symmetric], simp add: s_def)
  qed
qed auto

lemma add_words_loop_mod:
  assumes "length as = length bs"
  shows "uval (add_words_loop as bs 0) = (uval as + uval bs) mod modulus as"
proof -
  obtain d where "uval (add_words_loop as bs 0) + d * modulus as = uval as + uval bs + 0"
    using add_words_loop_uval [OF assms, of 0] by blast
  then have "uval (add_words_loop as bs 0) mod modulus as = (uval as + uval bs) mod modulus as"
    by (intro mod_add_multiple [where k = "- d"]) simp
  then show ?thesis
    using uval_less [of "add_words_loop as bs 0"] by (simp add: length_add_words_loop [OF assms])
qed

lemma add_words_ok:
  assumes "num_ok n1" "length (num_words n2) = length (num_words n1)" "num_vscale n1 = num_vscale n2"
  obtains n where "add_words n1 n2 = Some n" "length (num_words n) = length (num_words n1)"
    "num_vscale n = num_vscale n1"
    "uval (num_words n) = (nval n1 + nval n2) mod modulus (num_words n1)"
proof -
  define ws where "ws = add_words_loop (num_words n1) (num_words n2) 0"
  have l: "length ws = length (num_words n1)" using assms(2) by (simp add: ws_def length_add_words_loop)
  obtain k1 k2 where "nval n1 = uval (num_words n1) + k1 * modulus (num_words n1)"
    "nval n2 = uval (num_words n2) + k2 * modulus (num_words n1)"
    using sval_uval [of "num_words n1"] sval_uval [of "num_words n2"] assms(2) by metis
  then have "(nval n1 + nval n2) mod modulus (num_words n1)
      = (uval (num_words n1) + uval (num_words n2)) mod modulus (num_words n1)"
    by (intro mod_add_multiple [where k = "k1 + k2"]) (simp add: algebra_simps)
  also have "\<dots> = uval ws" using assms(2) by (simp add: ws_def add_words_loop_mod)
  finally have "uval ws = (nval n1 + nval n2) mod modulus (num_words n1)" by simp
  moreover have "add_words n1 n2 = Some \<lparr>num_vscale = num_vscale n1, num_words = ws\<rparr>"
    using assms(1-3) by (simp add: add_words_def ob_assert_def num_ok_def MAX_NWORDS_def ws_def)
  ultimately show thesis using that l by fastforce
qed

end
