(* ===== verification/Ob_Number_Arith.thy ===== *)
theory Ob_Number_Arith
  imports Ob_Number_Values
begin

text \<open>
  Multiplication by a word, scaling by powers of ten, and on top of them \<^verbatim>\<open>ObNumber::add\<close>,
  \<^verbatim>\<open>sub\<close>, \<^verbatim>\<open>negate\<close> and \<^verbatim>\<open>compare\<close> related to the values of their operands.
\<close>

unbundle bit_operations_syntax

section \<open>Multiplication by a word\<close>

lemma sdiv_nonneg: "0 \<le> x \<Longrightarrow> 0 < y \<Longrightarrow> x sdiv y = x div (y :: int)"
  by (simp add: signed_divide_int_def sgn_if)

lemma BASE_pos: "0 < BASE"
  by (simp add: BASE_def)

lemma mul_step:
  fixes c :: int and m w :: u32
  assumes "uint m \<le> 2 ^ 31" "0 \<le> c" "c < uint m"
  defines "t \<equiv> c + uint m * uint w"
  shows "wrap64 (c + wrap64 (uint m * uint w)) = t" "0 \<le> t" "t div BASE < uint m"
proof -
  have w: "uint w \<le> 2 ^ 32 - 1" using uint32_less [of w] by simp
  have p: "0 \<le> uint m * uint w" "uint m * uint w \<le> uint m * (2 ^ 32 - 1)"
    using w by (auto intro: mult_left_mono)
  then have u: "t < uint m * 2 ^ 32" using assms(3) by (simp add: t_def algebra_simps)
  have l: "t < 2 ^ 63" using u assms(1) by simp
  show "0 \<le> t" using p assms(2) by (simp add: t_def)
  have "wrap64 (uint m * uint w) = uint m * uint w"
    using p(1) l assms(2) unfolding t_def by (intro wrap64_id) linarith+
  then show "wrap64 (c + wrap64 (uint m * uint w)) = t"
    using \<open>0 \<le> t\<close> l by (simp add: t_def wrap64_id)
  show "t div BASE < uint m" using u by (simp add: BASE_def div_less_iff_less_mult)
qed

lemma mul_uint32_loop_uval:
  assumes "0 < uint m" "uint m \<le> 2 ^ 31"
  shows "0 \<le> c \<Longrightarrow> c < uint m \<Longrightarrow> mul_uint32_loop m ws c = (rs, d) \<Longrightarrow>
     length rs = length ws \<and> 0 \<le> d \<and> d < uint m \<and> uval rs + d * modulus ws = uint m * uval ws + c"
proof (induction ws arbitrary: c rs)
  case (Cons w ws)
  define t where "t = c + uint m * uint w"
  note t = mul_step [OF assms(2) Cons.prems(1,2), of w, folded t_def]
  define k where "k = (if t \<ge> BASE then t div BASE else 0)"
  have k: "0 \<le> k" "k < uint m" "t = t mod BASE + BASE * k"
    using t assms(1) by (auto simp: k_def BASE_def pos_imp_zdiv_nonneg_iff)
  have "t - t sdiv BASE * BASE = t mod BASE" "t sdiv BASE = t div BASE" "t < BASE \<Longrightarrow> t mod BASE = t"
    using t(2) by (simp_all add: sdiv_nonneg BASE_pos minus_div_mult_eq_mod)
  then have step: "(if t \<ge> BASE then (word_of_int (t - t sdiv BASE * BASE), t sdiv BASE) else (word_of_int t, 0))
      = (word_of_int (t mod BASE) :: u32, k)"
    by (simp add: k_def)
  obtain rs' where rs: "mul_uint32_loop m ws k = (rs', d)" "rs = word_of_int (t mod BASE) # rs'"
    using Cons.prems(3) unfolding mul_uint32_loop.simps Let_def t(1) step by (auto split: prod.splits)
  have "uint (word_of_int (t mod BASE) :: u32) = t mod BASE"
    by (rule uint_of_int32) (simp_all add: BASE_def)
  with Cons.IH [OF k(1,2) rs(1)] k(3) show ?case
    by (simp add: rs(2) power_add algebra_simps) (simp add: t_def BASE_def algebra_simps)
qed (use assms in auto)

lemma mul_uint32_nocarry:
  assumes "num_ok n" "0 < uint m" "uint m \<le> 2 ^ 31"
  obtains n' where "mul_uint32 n m n False = Some (Ok (), n')" "length (num_words n') = length (num_words n)"
    "num_vscale n' = num_vscale n" "uval (num_words n') = (uint m * uval (num_words n)) mod modulus (num_words n)"
proof -
  obtain rs d where r: "mul_uint32_loop m (num_words n) 0 = (rs, d)" by fastforce
  have u: "length rs = length (num_words n)" "uval rs + d * modulus rs = uint m * uval (num_words n)"
    using mul_uint32_loop_uval [OF assms(2,3) _ _ r] assms(2) by auto
  have "uval rs mod modulus rs = (uint m * uval (num_words n)) mod modulus rs"
    by (rule mod_add_multiple [where k = "- d"]) (use u(2) in simp)
  then have "uval rs = (uint m * uval (num_words n)) mod modulus (num_words n)"
    using uval_less [of rs] u(1) by simp
  moreover have "mul_uint32 n m n False = Some (Ok (), n\<lparr>num_words := rs\<rparr>)"
    using assms(1) by (simp add: mul_uint32_def ob_assert_def num_ok_def MAX_NWORDS_def r)
  ultimately show thesis using that [of "n\<lparr>num_words := rs\<rparr>"] u(1) by simp
qed

section \<open>Shifts by powers of ten\<close>

lemma uint_POWER10: "0 \<le> i \<Longrightarrow> i \<le> 9 \<Longrightarrow> uint (POWER10 i) = 10 ^ nat i"
proof -
  assume i: "0 \<le> i" "i \<le> 9"
  then have "(10 :: int) ^ nat i \<le> 10 ^ 9" by (intro power_increasing) auto
  moreover have "POWER10 i = word_of_int (10 ^ nat i)" by (simp add: POWER10_def)
  ultimately show ?thesis by (simp add: uint_of_int32 del: of_int_power)
qed

lemma POWER10_bounds: "0 \<le> i \<Longrightarrow> i \<le> 9 \<Longrightarrow> 0 < uint (POWER10 i) \<and> uint (POWER10 i) \<le> 2 ^ 31"
proof -
  assume i: "0 \<le> i" "i \<le> 9"
  then have "(10 :: int) ^ nat i \<le> 10 ^ 9" by (intro power_increasing) auto
  with i show ?thesis by (simp add: uint_POWER10)
qed

lemma left_shift_loop_nocarry:
  "num_ok n \<Longrightarrow> 0 \<le> i \<Longrightarrow> \<exists>n'. left_shift_loop n i False = Some (Ok (), n') \<and>
     length (num_words n') = length (num_words n) \<and> num_vscale n' = num_vscale n \<and>
     uval (num_words n') = (10 ^ nat i * uval (num_words n)) mod modulus (num_words n)"
proof (induction "nat i" arbitrary: n i rule: less_induct)
  case less
  show ?case
  proof (cases "9 < i")
    case True
    obtain n1 where n1: "mul_uint32 n (POWER10 9) n False = Some (Ok (), n1)"
      "length (num_words n1) = length (num_words n)" "num_vscale n1 = num_vscale n"
      "uval (num_words n1) = (uint (POWER10 9) * uval (num_words n)) mod modulus (num_words n)"
      using mul_uint32_nocarry [OF less.prems(1), of "POWER10 9"] POWER10_bounds [of 9] by auto
    have "num_ok n1" using less.prems(1) n1(2) by (simp add: num_ok_def flip: length_greater_0_conv)
    then obtain n2 where n2: "left_shift_loop n1 (i - 9) False = Some (Ok (), n2)"
      "length (num_words n2) = length (num_words n1)" "num_vscale n2 = num_vscale n1"
      "uval (num_words n2) = (10 ^ nat (i - 9) * uval (num_words n1)) mod modulus (num_words n1)"
      using less.hyps [of "i - 9" n1] True by auto
    have "nat i = nat (i - 9) + 9" using True by simp
    then have p: "(10 :: int) ^ nat i = 10 ^ nat (i - 9) * 10 ^ 9" by (metis power_add)
    have "uval (num_words n2) = (10 ^ nat i * uval (num_words n)) mod modulus (num_words n)"
      using uint_POWER10 [of 9]
      by (simp add: n2(4) n1(2,4) p mod_mult_right_eq mult.assoc)
    then show ?thesis
      using True n1 n2 by (subst left_shift_loop.simps) simp
  next
    case False
    obtain n1 where n1: "mul_uint32 n (POWER10 i) n False = Some (Ok (), n1)"
      "length (num_words n1) = length (num_words n)" "num_vscale n1 = num_vscale n"
      "uval (num_words n1) = (uint (POWER10 i) * uval (num_words n)) mod modulus (num_words n)"
      using mul_uint32_nocarry [OF less.prems(1), of "POWER10 i"] POWER10_bounds [of i] False less.prems by auto
    then show ?thesis
      using False less.prems by (subst left_shift_loop.simps) (simp add: uint_POWER10)
  qed
qed

text \<open>Scaling up inside a fixed number of words multiplies modulo the width.\<close>

lemma left_shift_nocarry:
  assumes "num_ok n" "0 < i" "i < 76" "0 \<le> num_vscale n" "num_vscale n + i \<le> 127"
  obtains n' where "left_shift n i False = Some (Ok (), n')" "length (num_words n') = length (num_words n)"
    "num_vscale n' = num_vscale n + i"
    "nval n' mod modulus (num_words n) = (nval n * 10 ^ nat i) mod modulus (num_words n)"
proof -
  define m where "m = n\<lparr>num_vscale := wrap8 (num_vscale n + i)\<rparr>"
  have m: "num_ok m" "num_words m = num_words n" "num_vscale m = num_vscale n + i"
    using assms(1-5) by (simp_all add: m_def num_ok_def wrap8_id)
  obtain n' where n': "left_shift_loop m i False = Some (Ok (), n')"
    "length (num_words n') = length (num_words n)" "num_vscale n' = num_vscale n + i"
    "uval (num_words n') = (10 ^ nat i * uval (num_words n)) mod modulus (num_words n)"
    using left_shift_loop_nocarry [OF m(1), of i] assms(2) m by auto
  obtain k where "nval n = uval (num_words n) + k * modulus (num_words n)" using sval_uval by blast
  then have "(nval n * 10 ^ nat i) mod modulus (num_words n)
      = (10 ^ nat i * uval (num_words n)) mod modulus (num_words n)"
    by (intro mod_add_multiple [where k = "k * 10 ^ nat i"]) (simp add: algebra_simps)
  then have "nval n' mod modulus (num_words n) = (nval n * 10 ^ nat i) mod modulus (num_words n)"
    using sval_mod [of "num_words n'"] n'(2,4) by simp
  moreover have "left_shift n i False = Some (Ok (), n')"
    using assms(2,3) n'(1) by (simp add: left_shift_def ob_assert_def DOUBLE_PRECISION_NDIGITS_def m_def)
  ultimately show thesis using that n' by blast
qed

section \<open>Addition, subtraction and comparison\<close>

text \<open>A number no operation has to round: one to nine words and a scale of at most 38.\<close>

definition num_wf :: "ob_number \<Rightarrow> bool" where
  "num_wf n \<longleftrightarrow> num_ok n \<and> 0 \<le> num_vscale n \<and> num_vscale n \<le> SINGLE_PRECISION_NDIGITS"

text \<open>The value of a number in units of \<open>10\<^sup>-\<^sup>s\<close>, and the range of \<open>k\<close> words.\<close>

definition scaled :: "int \<Rightarrow> ob_number \<Rightarrow> int" where
  "scaled s n = nval n * 10 ^ nat (s - num_vscale n)"

definition fits :: "nat \<Rightarrow> int \<Rightarrow> bool" where
  "fits k x \<longleftrightarrow> - (2 ^ (32 * k)) \<le> 2 * x \<and> 2 * x < 2 ^ (32 * k)"

abbreviation sum_words :: "ob_number \<Rightarrow> ob_number \<Rightarrow> nat" where
  "sum_words a b \<equiv> max (length (num_words a)) (length (num_words b)) + 1"

abbreviation sum_scale :: "ob_number \<Rightarrow> ob_number \<Rightarrow> int" where
  "sum_scale a b \<equiv> max (num_vscale a) (num_vscale b)"

lemma align_scale:
  assumes "num_ok n" "0 \<le> num_vscale n" "num_vscale n \<le> s" "s \<le> 38"
  obtains n' where
    "(if num_vscale n < s then left_shift n (wrap8 (s - num_vscale n)) False else Some (Ok (), n)) = Some (Ok (), n')"
    "length (num_words n') = length (num_words n)" "num_vscale n' = s"
    "nval n' mod modulus (num_words n) = scaled s n mod modulus (num_words n)"
proof (cases "num_vscale n < s")
  case True
  then obtain n' where "left_shift n (s - num_vscale n) False = Some (Ok (), n')"
    "length (num_words n') = length (num_words n)" "num_vscale n' = s"
    "nval n' mod modulus (num_words n) = scaled s n mod modulus (num_words n)"
    using assms left_shift_nocarry [of n "s - num_vscale n"] by (auto simp: scaled_def)
  with True assms that show thesis by (simp add: wrap8_id)
next
  case False
  with assms that [of n] show thesis by (simp add: scaled_def)
qed

lemma num_add_mod:
  assumes "num_wf a" "num_wf b" "sum_words a b \<le> 9"
  obtains n where "num_add a b res = Some (Ok (), remove_leading_zeroes n)"
    "length (num_words n) = sum_words a b" "num_vscale n = sum_scale a b"
    "uval (num_words n) = (scaled (sum_scale a b) a + scaled (sum_scale a b) b) mod 2 ^ (32 * sum_words a b)"
proof -
  define k where "k = sum_words a b"
  define s where "s = sum_scale a b"
  define M where "M = (2 :: int) ^ (32 * k)"
  have ok: "num_ok a" "num_ok b" using assms(1,2) by (simp_all add: num_wf_def)
  have sc: "0 \<le> num_vscale a" "num_vscale a \<le> s" "0 \<le> num_vscale b" "num_vscale b \<le> s" "s \<le> 38"
    using assms(1,2) by (auto simp: num_wf_def s_def SINGLE_PRECISION_NDIGITS_def)
  have k: "wrap8 (max (nwords a) (nwords b) + 1) = int k" "nwords a < int k" "nwords b < int k" "int k \<le> 9"
  proof -
    have "max (nwords a) (nwords b) + 1 = int k" by (simp add: k_def of_nat_max)
    then show "wrap8 (max (nwords a) (nwords b) + 1) = int k" using assms(3) by (simp add: k_def wrap8_id)
  qed (use assms(3) in \<open>auto simp: k_def\<close>)
  obtain a1 where a1: "extend_words a (int k) = Some a1" "length (num_words a1) = k"
    "num_vscale a1 = num_vscale a" "nval a1 = nval a"
    using extend_words_ok [OF ok(1) k(2,4)] by auto
  obtain b1 where b1: "extend_words b (int k) = Some b1" "length (num_words b1) = k"
    "num_vscale b1 = num_vscale b" "nval b1 = nval b"
    using extend_words_ok [OF ok(2) k(3,4)] by auto
  have ok1: "num_ok a1" "num_ok b1" using a1(2) b1(2) k by (auto simp: num_ok_def)
  obtain a2 where a2: "(if num_vscale a1 < s then left_shift a1 (wrap8 (s - num_vscale a1)) False
      else Some (Ok (), a1)) = Some (Ok (), a2)"
    "length (num_words a2) = k" "num_vscale a2 = s" "nval a2 mod M = scaled s a mod M"
    using align_scale [OF ok1(1), of s] sc a1 by (auto simp: M_def scaled_def)
  obtain b2 where b2: "(if num_vscale b1 < s then left_shift b1 (wrap8 (s - num_vscale b1)) False
      else Some (Ok (), b1)) = Some (Ok (), b2)"
    "length (num_words b2) = k" "num_vscale b2 = s" "nval b2 mod M = scaled s b mod M"
    using align_scale [OF ok1(2), of s] sc b1 by (auto simp: M_def scaled_def)
  have "num_ok a2" using a2(2) k by (auto simp: num_ok_def)
  then obtain n where n: "add_words a2 b2 = Some n" "length (num_words n) = k" "num_vscale n = s"
    "uval (num_words n) = (nval a2 + nval b2) mod M"
    using add_words_ok [of a2 b2] a2 b2 by (auto simp: M_def)
  have "uval (num_words n) = (scaled s a + scaled s b) mod M"
    using a2(4) b2(4) n(4) by (metis mod_add_cong)
  moreover have "num_add a b res = Some (Ok (), remove_leading_zeroes n)"
    using sc a1(1,3) b1(1,3) a2(1) b2(1) n(1) k
    by (auto simp: num_add_def SINGLE_PRECISION_NDIGITS_def MAX_NWORDS_def s_def split: if_splits)
  ultimately show thesis using that n by (simp add: k_def s_def M_def)
qed

text \<open>Addition is exact whenever the sum, in the finer of the two scales, fits in one word more
  than the longer operand.\<close>

lemma num_add_value:
  assumes "num_wf a" "num_wf b" "sum_words a b \<le> 9"
    and "fits (sum_words a b) (scaled (sum_scale a b) a + scaled (sum_scale a b) b)"
  obtains n where "num_add a b res = Some (Ok (), n)" "num_ok n" "num_vscale n = sum_scale a b"
    "nval n = scaled (sum_scale a b) a + scaled (sum_scale a b) b" "is_zero n \<longleftrightarrow> nval n = 0"
proof -
  obtain n where n: "num_add a b res = Some (Ok (), remove_leading_zeroes n)"
    "length (num_words n) = sum_words a b" "num_vscale n = sum_scale a b"
    "uval (num_words n) = (scaled (sum_scale a b) a + scaled (sum_scale a b) b) mod 2 ^ (32 * sum_words a b)"
    using num_add_mod [OF assms(1-3)] by metis
  have ne: "num_words n \<noteq> []" using n(2) by auto
  have v: "nval n = scaled (sum_scale a b) a + scaled (sum_scale a b) b"
    using n assms(4) by (intro sval_unique ne) (simp_all add: fits_def)
  show thesis
    using remove_leading_zeroes_ok [OF ne] is_zero_remove_leading [OF ne] n(2,3) v assms(3)
    by (intro that [OF n(1)]) (auto simp: num_ok_def intro: order_trans)
qed

text \<open>The negated operand of a subtraction.\<close>

definition neg_norm :: "ob_number \<Rightarrow> ob_number" where
  "neg_norm b = (case do { n \<leftarrow> extend_words b (wrap8 (nwords b + 1)); negate_words n } of
     None \<Rightarrow> b | Some n \<Rightarrow> remove_leading_zeroes n)"

lemma neg_norm:
  assumes "num_ok b" "length (num_words b) \<le> 8"
  shows "num_sub a b res = num_add a (neg_norm b) res" "num_ok (neg_norm b)"
    "num_negate b res = Some (Ok (), neg_norm b)"
    "nval (neg_norm b) = - nval b" "num_vscale (neg_norm b) = num_vscale b"
    "length (num_words (neg_norm b)) \<le> length (num_words b) + 1"
proof -
  have w: "wrap8 (nwords b + 1) = nwords b + 1" using assms(2) by (intro wrap8_id) auto
  obtain n1 where n1: "extend_words b (nwords b + 1) = Some n1" "length (num_words n1) = length (num_words b) + 1"
    "num_vscale n1 = num_vscale b" "nval n1 = nval b"
    using extend_words_ok [OF assms(1), of "nwords b + 1"] assms(2) by (auto simp: nat_add_distrib)
  have ok: "num_ok n1" using n1(2) assms(2) by (auto simp: num_ok_def)
  have m: "modulus (num_words n1) = 2 ^ 32 * modulus (num_words b)" by (simp add: n1(2) power_add)
  have "2 * nval n1 \<noteq> - modulus (num_words n1)"
    using sval_range [of "num_words b"] assms(1) unfolding m n1(4)
    by (auto simp: num_ok_def)
  then obtain n2 where n2: "negate_words n1 = Some n2" "length (num_words n2) = length (num_words n1)"
    "num_vscale n2 = num_vscale n1" "nval n2 = - nval n1"
    using negate_words_exact [OF ok] by metis
  have nn: "neg_norm b = remove_leading_zeroes n2" by (simp add: neg_norm_def w n1(1) n2(1))
  have ne: "num_words n2 \<noteq> []" using n2(2) n1(2) by auto
  note r = remove_leading_zeroes_ok [OF ne]
  show "num_sub a b res = num_add a (neg_norm b) res" "num_negate b res = Some (Ok (), neg_norm b)"
    using assms(2) by (simp_all add: num_sub_def num_negate_def MAX_NWORDS_def w n1(1) n2(1) nn)
  show "num_ok (neg_norm b)" "nval (neg_norm b) = - nval b" "num_vscale (neg_norm b) = num_vscale b"
    "length (num_words (neg_norm b)) \<le> length (num_words b) + 1"
    using r n1 n2 assms(2) by (auto simp: nn num_ok_def)
qed

lemma scaled_neg_norm:
  "num_ok b \<Longrightarrow> length (num_words b) \<le> 8 \<Longrightarrow> scaled s (neg_norm b) = - scaled s b"
  by (simp add: scaled_def neg_norm)

lemma num_compare_value:
  assumes "num_wf a" "num_wf b" "length (num_words a) \<le> 8" "length (num_words b) \<le> 7"
    and "fits (sum_words a (neg_norm b)) (scaled (sum_scale a b) a - scaled (sum_scale a b) b)"
  shows "num_compare a b = Some (sgn (scaled (sum_scale a b) a - scaled (sum_scale a b) b))"
proof -
  have b: "num_ok b" "length (num_words b) \<le> 8" using assms(2,4) by (simp_all add: num_wf_def)
  note nb = neg_norm [OF b] scaled_neg_norm [OF b]
  have w: "num_wf (neg_norm b)" using assms(2) nb by (simp add: num_wf_def)
  have l: "sum_words a (neg_norm b) \<le> 9" using nb(6) assms(3,4) by simp
  have f: "fits (sum_words a (neg_norm b))
      (scaled (sum_scale a (neg_norm b)) a + scaled (sum_scale a (neg_norm b)) (neg_norm b))"
    using assms(5) nb by simp
  obtain n where "num_add a (neg_norm b) new_number = Some (Ok (), n)"
    "nval n = scaled (sum_scale a (neg_norm b)) a + scaled (sum_scale a (neg_norm b)) (neg_norm b)"
    "is_zero n \<longleftrightarrow> nval n = 0"
    by (rule num_add_value [OF assms(1) w l f])
  then show ?thesis
    by (auto simp: num_compare_def nb is_negative_iff top_bit_sval sgn_if)
qed

lemma nval_fits: "num_ok n \<Longrightarrow> fits (length (num_words n)) (nval n)"
  using sval_range [of "num_words n"] by (simp add: fits_def num_ok_def)

lemma fits_add:
  assumes "fits i x" "fits j y"
  shows "fits (max i j + 1) (x + y)"
proof -
  define M where "M = (2 :: int) ^ (32 * max i j)"
  have M: "(2 :: int) ^ (32 * i) \<le> M" "(2 :: int) ^ (32 * j) \<le> M" "0 < M"
    by (simp_all add: M_def power_increasing)
  have e: "(2 :: int) ^ (32 * (max i j + 1)) = 4294967296 * M" by (simp add: M_def power_add)
  have "- M \<le> 2 * x" "2 * x < M" "- M \<le> 2 * y" "2 * y < M"
    using assms M unfolding fits_def by linarith+
  then show ?thesis using M(3) unfolding fits_def e by auto
qed

lemma same_scale_fits:
  assumes "num_ok a" "num_ok b" "num_vscale a = num_vscale b"
  shows "fits (sum_words a b) (scaled (sum_scale a b) a + scaled (sum_scale a b) b)"
  using fits_add [OF nval_fits [OF assms(1)] nval_fits [OF assms(2)]] assms(3) by (simp add: scaled_def)

lemma num_compare_same_scale:
  assumes "num_wf a" "num_wf b" "length (num_words a) \<le> 8" "length (num_words b) \<le> 7"
    and "num_vscale a = num_vscale b"
  shows "num_compare a b = Some (sgn (nval a - nval b))"
proof -
  have b: "num_ok b" "length (num_words b) \<le> 8" "num_ok a" using assms by (simp_all add: num_wf_def)
  have "fits (sum_words a (neg_norm b)) (scaled (sum_scale a b) a - scaled (sum_scale a b) b)"
    using same_scale_fits [OF b(3) neg_norm(2) [OF b(1,2)]] assms(5) neg_norm [OF b(1,2)]
    by (simp add: scaled_def)
  from num_compare_value [OF assms(1-4) this] assms(5) show ?thesis by (simp add: scaled_def)
qed

end
