(* ===== verification/Ob_Number_Muldiv.thy ===== *)
theory Ob_Number_Muldiv
  imports Ob_Number_Arith
begin

text \<open>
  \<^verbatim>\<open>ObNumber::mul\<close>, division by a word, scaling down and rounding, and the conversions to and
  from 64-bit integers, related to the values of their operands.
\<close>

unbundle bit_operations_syntax

section \<open>Multiplication\<close>

lemma mul_row_step:
  fixes c :: int and m w r :: u32
  assumes "0 \<le> c" "c < BASE"
  defines "t \<equiv> c + uint w * uint m + uint r"
  shows "t mod 2 ^ 64 = t" "0 \<le> t" "t div BASE < BASE"
proof -
  have b: "uint w \<le> 2 ^ 32 - 1" "uint m \<le> 2 ^ 32 - 1" "uint r \<le> 2 ^ 32 - 1"
    using uint32_less [of w] uint32_less [of m] uint32_less [of r] by simp_all
  have "uint w * uint m \<le> (2 ^ 32 - 1) * (2 ^ 32 - 1)" using b by (intro mult_mono) auto
  then have u: "t < 2 ^ 64" using assms(2) b(3) by (simp add: t_def BASE_def)
  show "0 \<le> t" using assms(1) by (simp add: t_def)
  with u show "t mod 2 ^ 64 = t" by simp
  show "t div BASE < BASE" using u by (simp add: BASE_def div_less_iff_less_mult)
qed

lemma mul_words_row_uval:
  "length ws < length rs \<Longrightarrow> rs ! length ws = 0 \<Longrightarrow> 0 \<le> c \<Longrightarrow> c < BASE \<Longrightarrow>
   length (mul_words_row m ws c rs) = length rs \<and>
   uval (mul_words_row m ws c rs) = uval rs + uint m * uval ws + c \<and>
   (\<forall>j > length ws. mul_words_row m ws c rs ! j = rs ! j)"
proof (induction ws arbitrary: c rs)
  case Nil
  then obtain rs' where rs: "rs = 0 # rs'" by (cases rs) auto
  have "c = 0 \<or> c > 0" "uint (word_of_int c :: u32) = c"
    using Nil by (auto simp: BASE_def uint_of_int32)
  then show ?case by (auto simp: rs nth_Cons')
next
  case (Cons w ws)
  then obtain r rs' where rs: "rs = r # rs'" "length ws < length rs'" "rs' ! length ws = 0"
    by (cases rs) auto
  define t where "t = c + uint w * uint m + uint r"
  note t = mul_row_step [OF Cons.prems(3,4), of w m r, folded t_def]
  define k where "k = (if t \<ge> BASE then t div BASE else 0)"
  have k: "0 \<le> k" "k < BASE" "t = t mod BASE + BASE * k"
    using t by (auto simp: k_def BASE_def pos_imp_zdiv_nonneg_iff)
  have "t - t div BASE * BASE = t mod BASE" "t < BASE \<Longrightarrow> t mod BASE = t"
    using t(2) by (simp_all add: minus_div_mult_eq_mod)
  then have step: "mul_words_row m (w # ws) c rs = word_of_int (t mod BASE) # mul_words_row m ws k rs'"
    using t(1) unfolding rs(1) by (simp add: Let_def t_def [symmetric] k_def del: of_int_diff of_int_mult)
  have "uint (word_of_int (t mod BASE) :: u32) = t mod BASE"
    by (rule uint_of_int32) (simp_all add: BASE_def)
  moreover have "t = uint (r :: u32) + uint m * uint w + c" by (simp add: t_def)
  moreover have "t = t mod 4294967296 + 4294967296 * k" using k(3) by (simp add: BASE_def)
  ultimately show ?case
    using Cons.IH [OF rs(2,3) k(1,2)] unfolding step
    by (auto simp: rs(1) nth_Cons' BASE_def distrib_left)
qed

lemma mul_words_loop_uval:
  "length ws + length ms \<le> length rs \<Longrightarrow> (\<And>j. length ws \<le> j \<Longrightarrow> j < length rs \<Longrightarrow> rs ! j = 0) \<Longrightarrow>
   length (mul_words_loop ws ms rs) = length rs \<and>
   uval (mul_words_loop ws ms rs) = uval rs + uval ws * uval ms"
proof (induction ms arbitrary: rs)
  case (Cons m ms)
  have "length ws < length rs" "rs ! length ws = 0" using Cons.prems by auto
  define qs where "qs = mul_words_row m ws 0 rs"
  have q: "length qs = length rs" "uval qs = uval rs + uint m * uval ws"
    "\<And>j. length ws < j \<Longrightarrow> qs ! j = rs ! j"
    using mul_words_row_uval [OF \<open>length ws < length rs\<close> \<open>rs ! length ws = 0\<close>, of 0 m]
    by (simp_all add: qs_def BASE_pos)
  obtain r rs' where rs: "qs = r # rs'" using q(1) Cons.prems(1) by (cases qs) auto
  have "length ws + length ms \<le> length rs'" using Cons.prems(1) q(1) rs by simp
  moreover have "rs' ! j = 0" if "length ws \<le> j" "j < length rs'" for j
    using q(3) [of "Suc j"] Cons.prems(2) [of "Suc j"] that q(1) rs by simp
  ultimately have "length (mul_words_loop ws ms rs') = length rs'"
    "uval (mul_words_loop ws ms rs') = uval rs' + uval ws * uval ms"
    using Cons.IH [of rs'] by auto
  then show ?case using q(1,2) rs by (simp add: qs_def [symmetric] algebra_simps)
qed simp

lemma half_less: "0 \<le> u \<Longrightarrow> u < N \<Longrightarrow> 2 * u < 2 ^ 32 * (N :: int)"
  by auto

lemma mul_words_ok:
  assumes "num_words a \<noteq> []" "num_words b \<noteq> []" "length (num_words a) + length (num_words b) \<le> 8"
  obtains n where "mul_words a b res = Some (Ok (), n)" "num_ok n" "num_vscale n = num_vscale res"
    "nval n = uval (num_words a) * uval (num_words b)"
proof -
  define k where "k = length (num_words a) + length (num_words b)"
  define ws where "ws = mul_words_loop (num_words a) (num_words b) (replicate (k + 1) 0)"
  have ws: "length ws = k + 1" "uval ws = uval (num_words a) * uval (num_words b)"
    using mul_words_loop_uval [of "num_words a" "num_words b" "replicate (k + 1) 0"]
    by (simp_all add: ws_def k_def del: replicate.simps)
  have "uval ws < modulus (num_words a) * modulus (num_words b)"
    unfolding ws(2) by (intro mult_strict_mono) (auto simp: uval_less)
  also have "\<dots> = 2 ^ (32 * k)" by (simp add: k_def power_add distrib_left)
  finally have "uval ws < 2 ^ (32 * k)" .
  from half_less [OF uval_nonneg this] have "2 * uval ws < modulus ws"
    unfolding ws(1) by (simp add: power_add)
  moreover have ne: "ws \<noteq> []" using ws(1) by auto
  ultimately have "sval ws = uval ws" using top_bit_iff [of ws] by (simp add: sval_def)
  moreover have "wrap8 (nwords a + nwords b + 1) = int (k + 1)"
    using assms(3) by (simp add: k_def wrap8_id)
  then have "mul_words a b res = Some (Ok (), res\<lparr>num_words := ws\<rparr>)"
    using assms by (simp add: mul_words_def ob_assert_def ws_def MAX_NWORDS_def k_def nat_add_distrib)
  ultimately show thesis
    using that [of "res\<lparr>num_words := ws\<rparr>"] ws ne assms(3) by (auto simp: num_ok_def k_def)
qed

lemma magnitude_ok:
  assumes "num_ok n"
  obtains p where "(if is_negative n then negate_words n else Some n) = Some p"
    "length (num_words p) = length (num_words n)" "num_vscale p = num_vscale n"
    "uval (num_words p) = \<bar>nval n\<bar>"
proof (cases "is_negative n")
  case True
  then have neg: "nval n < 0" by (simp add: is_negative_iff top_bit_sval)
  obtain p where p: "negate_words n = Some p" "length (num_words p) = length (num_words n)"
    "num_vscale p = num_vscale n" "uval (num_words p) = (- nval n) mod modulus (num_words n)"
    using negate_words_ok [OF assms] .
  have "- nval n < modulus (num_words n)"
    using sval_range(1) [of "num_words n"] assms neg by (auto simp: num_ok_def)
  then have "uval (num_words p) = \<bar>nval n\<bar>" using p(4) neg by simp
  with p True that show thesis by simp
next
  case False
  then have "nval n = uval (num_words n)" by (simp add: is_negative_iff sval_def)
  with False that [of n] show thesis by simp
qed

lemma num_mul_value:
  assumes "num_wf a" "num_wf b" "length (num_words a) + length (num_words b) \<le> 8"
  obtains n where "num_mul a b res = Some (Ok (), n)" "num_ok n" "nval n = nval a * nval b"
    "num_vscale n = (if is_zero a \<or> is_zero b then num_vscale res else num_vscale a + num_vscale b)"
proof (cases "is_zero a \<or> is_zero b")
  case True
  then have "nval a * nval b = 0" by (auto simp: is_zero_def sval_def top_bit_def)
  with True that [of "set_zero res"] show thesis
    by (simp add: num_mul_def set_zero_def num_ok_def sval_def top_bit_def)
next
  case False
  have ok: "num_ok a" "num_ok b" "num_vscale a \<le> 38" "num_vscale b \<le> 38" "0 \<le> num_vscale a" "0 \<le> num_vscale b"
    using assms(1,2) by (simp_all add: num_wf_def SINGLE_PRECISION_NDIGITS_def)
  obtain p where p: "(if is_negative a then negate_words a else Some a) = Some p"
    "length (num_words p) = length (num_words a)" "num_vscale p = num_vscale a" "uval (num_words p) = \<bar>nval a\<bar>"
    using magnitude_ok [OF ok(1)] .
  obtain q where q: "(if is_negative b then negate_words b else Some b) = Some q"
    "length (num_words q) = length (num_words b)" "num_vscale q = num_vscale b" "uval (num_words q) = \<bar>nval b\<bar>"
    using magnitude_ok [OF ok(2)] .
  have ne: "num_words p \<noteq> []" "num_words q \<noteq> []" using ok p(2) q(2) by (auto simp: num_ok_def)
  define res1 where "res1 = (set_zero res)\<lparr>num_vscale := num_vscale a + num_vscale b\<rparr>"
  obtain r where r: "mul_words p q res1 = Some (Ok (), r)" "num_ok r" "num_vscale r = num_vscale a + num_vscale b"
    "nval r = \<bar>nval a\<bar> * \<bar>nval b\<bar>"
    using mul_words_ok [OF ne, of res1] assms(3) p(2,4) q(2,4) by (auto simp: res1_def)
  define r1 where "r1 = remove_leading_zeroes r"
  have ner: "num_words r \<noteq> []" using r(2) by (simp add: num_ok_def)
  have r1: "num_ok r1" "num_vscale r1 = num_vscale a + num_vscale b" "nval r1 = \<bar>nval a * nval b\<bar>"
    using remove_leading_zeroes_ok [OF ner] r(2-4) by (auto simp: r1_def num_ok_def abs_mult)
  define neg where "neg \<longleftrightarrow> is_negative a \<noteq> is_negative b"
  have "2 * nval r1 \<noteq> - modulus (num_words r1)" using r1(3) by (intro not_least) simp
  then obtain m where m: "negate_words r1 = Some m" "length (num_words m) = length (num_words r1)"
    "num_vscale m = num_vscale r1" "nval m = - nval r1"
    using negate_words_exact [OF r1(1)] by metis
  have "num_words m \<noteq> []" using m(2) r1(1) by (auto simp: num_ok_def)
  moreover have "num_mul a b res = do { n \<leftarrow> (if neg then negate_words r1 else Some r1); Some (Ok (), n) }"
    using False p(1,3) q(1,3) ok r(1)
    by (simp add: num_mul_def SINGLE_PRECISION_NDIGITS_def wrap8_id res1_def r1_def neg_def Let_def)
  moreover have "nval a * nval b = (if neg then - nval r1 else nval r1)"
    unfolding r1(3) neg_def is_negative_iff top_bit_sval by (auto simp: abs_if mult_less_0_iff)
  ultimately show thesis
    using False r1 m that [of "if neg then m else r1"] by (cases neg) (auto simp: num_ok_def)
qed

section \<open>Division by a word\<close>

lemma smod_nonneg: "0 \<le> x \<Longrightarrow> 0 < y \<Longrightarrow> x smod y = x mod (y :: int)"
  by (simp add: signed_modulo_int_def sgn_if)

lemma div_step:
  fixes c :: int and d w :: u32
  assumes "0 < uint d" "uint d \<le> 2 ^ 31" "0 \<le> c" "c < uint d"
  defines "t \<equiv> c * BASE + uint w"
  shows "wrap64 (wrap64 (c * BASE) + uint w) = t" "0 \<le> t" "t div uint d < BASE"
proof -
  have "(c + 1) * BASE \<le> uint d * BASE" using assms by (intro mult_right_mono) (simp_all add: BASE_def)
  then have u: "t < uint d * BASE" using uint32_less [of w] by (simp add: t_def BASE_def distrib_right)
  have l: "t < 2 ^ 63" using u assms(2) by (simp add: BASE_def)
  have z: "0 \<le> c * BASE" using assms(3) by (simp add: BASE_def)
  show "0 \<le> t" using z by (simp add: t_def)
  have "wrap64 (c * BASE) = c * BASE" using z l unfolding t_def
    by (intro wrap64_id) (simp_all add: order.strict_trans1 [of "c * BASE" "c * BASE + uint w"])
  then show "wrap64 (wrap64 (c * BASE) + uint w) = t" using \<open>0 \<le> t\<close> l by (simp add: t_def wrap64_id)
  have "t div uint d * uint d \<le> t" using assms(1) by (simp add: minus_mod_eq_div_mult [symmetric])
  with u have "t div uint d * uint d < BASE * uint d" by (simp add: mult.commute)
  then show "t div uint d < BASE" using assms(1) by (metis mult_less_cancel_right_pos)
qed

lemma split_step: "t = d * q + k \<Longrightarrow> t * M + u = d * q * M + (k * M + u)" for t :: int
  by (simp add: distrib_right)

lemma div_uint32_loop_uval:
  assumes "0 < uint d" "uint d \<le> 2 ^ 31"
  shows "0 \<le> c \<Longrightarrow> c < uint d \<Longrightarrow> div_uint32_loop d ws c = (qs, r) \<Longrightarrow>
    length qs = length ws \<and> 0 \<le> r \<and> r < uint d \<and>
    c * modulus ws + uval (rev ws) = uint d * uval (rev qs) + r"
proof (induction ws arbitrary: c qs)
  case (Cons w ws)
  define t where "t = c * BASE + uint w"
  note t = div_step [OF assms Cons.prems(1,2), of w, folded t_def]
  have k: "0 \<le> t mod uint d" "t mod uint d < uint d" using assms(1) by simp_all
  have q: "uint (word_of_int (t div uint d) :: u32) = t div uint d"
    using t assms(1) by (intro uint_of_int32) (simp_all add: pos_imp_zdiv_nonneg_iff BASE_def)
  obtain qs' where qs: "div_uint32_loop d ws (t mod uint d) = (qs', r)" "qs = word_of_int (t div uint d) # qs'"
    using Cons.prems(3) t(1,2) assms(1)
    by (auto simp: Let_def sdiv_nonneg smod_nonneg split: prod.splits)
  note IH = Cons.IH [OF k qs(1)]
  have "c * modulus (w # ws) + uval (rev (w # ws)) = t * modulus ws + uval (rev ws)"
    by (simp add: t_def BASE_def uval_append power_add distrib_right)
  also have "\<dots> = uint d * (t div uint d) * modulus ws + (t mod uint d * modulus ws + uval (rev ws))"
    by (rule split_step) simp
  also have "\<dots> = uint d * uval (rev qs) + r"
    using IH q by (simp add: qs(2) uval_append algebra_simps)
  finally show ?case using IH by (simp add: qs(2))
qed simp

lemma div_uint32_value:
  assumes "num_ok n" "2 \<le> uint d" "uint d \<le> 2 ^ 31"
  obtains q' where "div_uint32 n d q r = Some (q', r\<lparr>num_words := [word_of_int (uval (num_words n) mod uint d)]\<rparr>)"
    "num_ok q'" "length (num_words q') \<le> length (num_words n)" "num_vscale q' = num_vscale q"
    "nval q' = uval (num_words n) div uint d" "is_zero q' \<longleftrightarrow> nval q' = 0"
proof -
  define ws where "ws = num_words n"
  obtain qs c where l: "div_uint32_loop d (rev ws) 0 = (qs, c)" by fastforce
  have v: "length qs = length ws" "0 \<le> c" "c < uint d" "uval ws = uint d * uval (rev qs) + c"
    using div_uint32_loop_uval [OF _ assms(3) _ _ l] assms(2) by auto
  have dm: "uval (rev qs) = uval ws div uint d" "c = uval ws mod uint d"
    using v(2-4) assms(2) by (simp_all add: int_div_pos_eq int_mod_pos_eq)
  define q1 where "q1 = q\<lparr>num_words := rev qs\<rparr>"
  have ne: "num_words q1 \<noteq> []" using v(1) assms(1) by (auto simp: q1_def ws_def num_ok_def)
  have "2 * uval (rev qs) \<le> uint d * uval (rev qs)" using assms(2) by (intro mult_right_mono) simp_all
  then have "2 * uval (rev qs) < modulus (rev qs)" using v uval_less [of ws] by simp
  then have nv: "nval q1 = uval ws div uint d"
    using top_bit_iff [OF ne] dm(1) by (simp add: q1_def sval_def)
  have "div_uint32 n d q r = Some (remove_leading_zeroes q1, r\<lparr>num_words := [word_of_int c]\<rparr>)"
    using assms l
    by (auto simp: div_uint32_def ob_assert_def num_ok_def MAX_NWORDS_def ws_def q1_def set_zero_def word_less_def)
  then show thesis
    using that [of "remove_leading_zeroes q1"] remove_leading_zeroes_ok [OF ne] is_zero_remove_leading [OF ne]
      nv dm(2) v(1) assms(1) ne
    by (simp add: ws_def q1_def num_ok_def)
qed

section \<open>Scaling down\<close>

lemma uval_nval: "0 \<le> nval n \<Longrightarrow> uval (num_words n) = nval n"
  by (metis top_bit_sval linorder_not_le sval_def diff_zero)

lemma right_shift_loop_value:
  "num_ok n \<Longrightarrow> 0 < i \<Longrightarrow> \<exists>n'. right_shift_loop n i = Some n' \<and> num_ok n' \<and>
     length (num_words n') \<le> length (num_words n) \<and> num_vscale n' = num_vscale n \<and>
     nval n' = uval (num_words n) div 10 ^ nat i"
proof (induction "nat i" arbitrary: n i rule: less_induct)
  case less
  have b: "2 \<le> uint (POWER10 j)" "uint (POWER10 j) \<le> 2 ^ 31" if "0 < j" "j \<le> 9" for j
  proof -
    have "(10 :: int) ^ 1 \<le> 10 ^ nat j" using that by (intro power_increasing) auto
    then show "2 \<le> uint (POWER10 j)" using that by (simp add: uint_POWER10)
  qed (use POWER10_bounds [of j] that in simp)
  show ?case
  proof (cases "9 < i")
    case True
    obtain n1 where n1: "div_uint32 n (POWER10 9) n new_number = Some (n1, new_number\<lparr>num_words :=
        [word_of_int (uval (num_words n) mod uint (POWER10 9))]\<rparr>)"
      "num_ok n1" "length (num_words n1) \<le> length (num_words n)" "num_vscale n1 = num_vscale n"
      "nval n1 = uval (num_words n) div uint (POWER10 9)"
      using div_uint32_value [OF less.prems(1) b [of 9], of n new_number] by auto
    have "0 \<le> nval n1" using n1(5) b(1) [of 9] by (simp add: pos_imp_zdiv_nonneg_iff)
    then have u: "uval (num_words n1) = uval (num_words n) div 10 ^ 9"
      using n1(5) uval_nval [of n1] uint_POWER10 [of 9] by simp
    obtain n2 where n2: "right_shift_loop n1 (i - 9) = Some n2" "num_ok n2"
      "length (num_words n2) \<le> length (num_words n1)" "num_vscale n2 = num_vscale n1"
      "nval n2 = uval (num_words n1) div 10 ^ nat (i - 9)"
      using less.hyps [of "i - 9" n1] True n1(2) by auto
    have "nat i = 9 + nat (i - 9)" using True by simp
    then have "nval n2 = uval (num_words n) div 10 ^ nat i"
      unfolding n2(5) u by (metis power_add zdiv_zmult2_eq zero_le_numeral zero_le_power)
    with True n1 n2 show ?thesis
      by (subst right_shift_loop.simps) auto
  next
    case False
    obtain n1 where "div_uint32 n (POWER10 i) n new_number = Some (n1, new_number\<lparr>num_words :=
        [word_of_int (uval (num_words n) mod uint (POWER10 i))]\<rparr>)"
      "num_ok n1" "length (num_words n1) \<le> length (num_words n)" "num_vscale n1 = num_vscale n"
      "nval n1 = uval (num_words n) div uint (POWER10 i)"
      using div_uint32_value [OF less.prems(1) b [of i], of n new_number] False less.prems(2) by auto
    with False less.prems(2) show ?thesis
      by (subst right_shift_loop.simps) (auto simp: uint_POWER10)
  qed
qed

lemma right_shift_value:
  assumes "num_ok n" "0 < i" "i \<le> num_vscale n" "num_vscale n \<le> 127"
  obtains n' where "right_shift n i = Some n'" "num_ok n'" "num_vscale n' = num_vscale n - i"
    "length (num_words n') \<le> length (num_words n)"
    "nval n' = uval (num_words n) div 10 ^ nat i"
proof -
  have w: "wrap8 (num_vscale n - i) = num_vscale n - i" using assms by (intro wrap8_id) auto
  have "num_ok (n\<lparr>num_vscale := num_vscale n - i\<rparr>)" using assms(1) by (simp add: num_ok_def)
  from right_shift_loop_value [OF this assms(2)] that assms(2,3) show thesis
    by (auto simp: right_shift_def ob_assert_def w)
qed

text \<open>\<^verbatim>\<open>round_fraction_part\<close> drops digits: it truncates towards zero.\<close>

lemma round_fraction_part_value:
  assumes "num_ok n" "0 \<le> s" "s < num_vscale n" "num_vscale n \<le> 127"
  obtains n' where "round_fraction_part n s = Some n'" "num_ok n'" "num_vscale n' = s"
    "nval n' = sgn (nval n) * (\<bar>nval n\<bar> div 10 ^ nat (num_vscale n - s))"
proof -
  define d where "d = (10 :: int) ^ nat (num_vscale n - s)"
  have w: "wrap8 (num_vscale n - s) = num_vscale n - s" using assms by (intro wrap8_id) auto
  obtain p where p: "(if is_negative n then negate_words n else Some n) = Some p"
    "length (num_words p) = length (num_words n)" "num_vscale p = num_vscale n"
    "uval (num_words p) = \<bar>nval n\<bar>"
    using magnitude_ok [OF assms(1)] .
  have "num_ok p" using p(2) assms(1) by (auto simp: num_ok_def)
  then obtain q where q: "right_shift p (num_vscale n - s) = Some q" "num_ok q" "num_vscale q = s"
    "nval q = \<bar>nval n\<bar> div d"
    using right_shift_value [of p "num_vscale n - s"] p(3,4) assms by (auto simp: d_def)
  have nn: "0 \<le> nval q" by (simp add: q(4) d_def pos_imp_zdiv_nonneg_iff)
  then have "2 * nval q \<noteq> - modulus (num_words q)" by (rule not_least)
  then obtain m where m: "negate_words q = Some m" "length (num_words m) = length (num_words q)"
    "num_vscale m = s" "nval m = - nval q"
    using negate_words_exact [OF q(2)] q(3) by metis
  define r where "r = (if is_negative n then m else q)"
  have r: "num_ok r" "num_vscale r = s" "nval r = sgn (nval n) * (\<bar>nval n\<bar> div d)"
    using m q nn by (auto simp: r_def num_ok_def is_negative_iff top_bit_sval sgn_if not_less)
  have "round_fraction_part n s = Some (remove_leading_zeroes r)"
    using p(1) q(1) m(1) assms(3) w by (cases "is_negative n") (auto simp: round_fraction_part_def r_def Let_def)
  moreover have "num_words r \<noteq> []" using r(1) by (simp add: num_ok_def)
  note remove_leading_zeroes_ok [OF this]
  ultimately show thesis using that [of "remove_leading_zeroes r"] r by (auto simp: num_ok_def d_def)
qed

section \<open>Conversions to and from 64-bit integers\<close>

lemma wrap64_cong: "x mod 2 ^ 64 = y mod 2 ^ 64 \<Longrightarrow> wrap64 x = wrap64 y"
proof -
  assume "x mod 2 ^ 64 = y mod 2 ^ 64"
  then have "(word_of_int x :: i64) = word_of_int y" by (simp add: word_of_int_eq_iff take_bit_eq_mod)
  then show ?thesis by (simp add: wrap64_def)
qed

lemma wrap64_mod: "wrap64 x mod 2 ^ 64 = x mod 2 ^ 64"
proof -
  have "take_bit 64 (wrap64 x) = take_bit 64 x"
    by (simp add: wrap64_def signed_of_int take_bit_signed_take_bit)
  then show ?thesis by (simp add: take_bit_eq_mod)
qed

lemma wrap64_add: "wrap64 (wrap64 x + y) = wrap64 (x + y)"
  by (rule wrap64_cong) (rule mod_add_cong [OF wrap64_mod refl])

lemma wrap64_mult: "wrap64 (wrap64 x * y) = wrap64 (x * y)"
  by (rule wrap64_cong) (rule mod_mult_cong [OF wrap64_mod refl])

lemma wrap64_minus: "wrap64 (- wrap64 x) = wrap64 (- x)"
  using mod_diff_cong [OF refl wrap64_mod, of 0 x] by (intro wrap64_cong) simp

lemma to_int64_loop_value:
  "to_int64_loop ws (wrap64 v) = wrap64 (v * modulus ws + uval (rev ws))"
proof (induction ws arbitrary: v)
  case (Cons w ws)
  have "to_int64_loop (w # ws) (wrap64 v) = to_int64_loop ws (wrap64 (v * BASE + uint w))"
    by (simp add: wrap64_add wrap64_mult)
  also have "\<dots> = wrap64 ((v * BASE + uint w) * modulus ws + uval (rev ws))" by (rule Cons.IH)
  finally show ?case by (simp add: BASE_def uval_append power_add algebra_simps)
qed simp

lemma to_int64_value:
  assumes "can_convert_to_int64 n"
  shows "to_int64 n = Some (Ok (nval n))"
proof (cases "num_words n = []")
  case True
  then show ?thesis
    using assms by (simp add: to_int64_def is_negative_def ob_assert_def sval_def top_bit_def)
next
  case False
  have l: "length (num_words n) \<le> 2" using assms by (simp add: can_convert_to_int64_def)
  then have ok: "num_ok n" using False by (simp add: num_ok_def)
  obtain p where p: "(if is_negative n then negate_words n else Some n) = Some p"
    "length (num_words p) = length (num_words n)" "uval (num_words p) = \<bar>nval n\<bar>"
    using magnitude_ok [OF ok] by metis
  have v: "to_int64_loop (rev (num_words p)) 0 = wrap64 \<bar>nval n\<bar>"
    using to_int64_loop_value [of "rev (num_words p)" 0] wrap64_id [of 0] p(3) by simp
  have "modulus (num_words n) \<le> 2 ^ 64" using power_increasing [of "32 * length (num_words n)" 64 "2 :: int"] l by simp
  then have r: "- (2 ^ 63) \<le> nval n" "nval n < 2 ^ 63"
    using sval_range [OF False] by simp_all
  have "to_int64 n = Some (Ok (if is_negative n then wrap64 (- wrap64 \<bar>nval n\<bar>) else wrap64 \<bar>nval n\<bar>))"
    using assms p(1,2) l v by (simp add: to_int64_def Let_def ob_assert_def)
  also have "(if is_negative n then wrap64 (- wrap64 \<bar>nval n\<bar>) else wrap64 \<bar>nval n\<bar>) = wrap64 (nval n)"
  proof (cases "is_negative n")
    case True
    then have "nval n < 0" by (simp add: is_negative_iff top_bit_sval)
    then show ?thesis using True wrap64_minus [of "- nval n"] by simp
  qed (simp add: is_negative_iff top_bit_sval)
  also have "\<dots> = nval n" using r by (rule wrap64_id)
  finally show ?thesis .
qed

text \<open>The words of a non-negative number, and their count.\<close>

lemma from_int64_loop_uval: "0 \<le> v \<Longrightarrow> uval (from_int64_loop v) = v"
proof (induction "nat v" arbitrary: v rule: less_induct)
  case less
  show ?case
  proof (cases "v = 0")
    case False
    have d: "v sdiv BASE = v div BASE" using less.prems BASE_pos by (rule sdiv_nonneg)
    have "nat (v div BASE) < nat v" using False less.prems by (simp add: BASE_def)
    then have "uval (from_int64_loop (v div BASE)) = v div BASE"
      using less.hyps less.prems by (simp add: pos_imp_zdiv_nonneg_iff BASE_def)
    moreover have "v - BASE * (v div BASE) = v mod BASE" by (simp add: minus_mult_div_eq_mod)
    then have "from_int64_loop v = word_of_int (v mod BASE) # from_int64_loop (v div BASE)"
      using False by (subst from_int64_loop.simps) (simp add: d Let_def del: of_int_diff of_int_mult)
    moreover have "uint (word_of_int (v mod BASE) :: u32) = v mod BASE"
      by (rule uint_of_int32) (simp_all add: BASE_def)
    ultimately show ?thesis by (simp add: BASE_def)
  qed (simp add: from_int64_loop.simps)
qed

lemma from_int64_loop_length:
  assumes "0 < v" "v < 2 ^ 63"
  shows "length (from_int64_loop v) = (if v < 2 ^ 32 then 1 else 2)"
proof -
  have d: "v sdiv BASE = v div BASE" using assms BASE_pos by (intro sdiv_nonneg) auto
  have z: "from_int64_loop 0 = []" by (subst from_int64_loop.simps) simp
  have small: "length (from_int64_loop u) = 1" if "0 < u" "u < 2 ^ 32" for u
    using that by (subst from_int64_loop.simps) (simp add: Let_def sdiv_nonneg BASE_def z)
  show ?thesis
  proof (cases "v < 2 ^ 32")
    case False
    then have "0 < v div BASE" "v div BASE < 2 ^ 32" using assms
      by (simp_all add: BASE_def pos_imp_zdiv_pos_iff)
    then have "length (from_int64_loop (v div BASE)) = 1" by (rule small)
    then show ?thesis
      using False assms d by (subst from_int64_loop.simps) (simp add: Let_def)
  qed (use small assms in simp)
qed


lemma sint_inverse: "word_of_int (sint w) = (w :: i64)"
  by (rule bit_word_eqI) (auto simp: bit_simps)

lemma from_int64_negative:
  fixes v :: i64
  assumes "sint v < 0" "sint v \<noteq> - (2 ^ 63)"
  shows "sint (- v) = - sint v"
proof -
  have "word_of_int (- sint v) = - v" by (simp only: of_int_minus sint_inverse)
  then have "sint (- v) = wrap64 (- sint v)" by (simp only: wrap64_def)
  moreover have "- (2 ^ 63) \<le> sint v" using sint_greater_eq [of v] by simp
  ultimately show ?thesis using assms by (simp add: wrap64_id)
qed

lemma from_int64_positive:
  assumes "0 < sint v"
  shows "\<exists>n. from_int64 v = Some n \<and> num_ok n \<and> num_vscale n = 0 \<and>
    (nval n = sint v \<longleftrightarrow> sint v < 2 ^ 31 \<or> 2 ^ 32 \<le> sint v)"
proof -
  define ws where "ws = from_int64_loop (sint v)"
  have v: "sint v < 2 ^ 63" using sint_less [of v] by simp
  have l: "length ws = (if sint v < 2 ^ 32 then 1 else 2)" "uval ws = sint v"
    using assms v by (simp_all add: ws_def from_int64_loop_length from_int64_loop_uval)
  then have ne: "ws \<noteq> []" by auto
  have "top_bit ws \<longleftrightarrow> 2 ^ 31 \<le> sint v \<and> sint v < 2 ^ 32"
    using top_bit_iff [OF ne] l v by auto
  then have "sval ws = sint v \<longleftrightarrow> sint v < 2 ^ 31 \<or> 2 ^ 32 \<le> sint v" using l by (auto simp: sval_def)
  moreover have "from_int64 v = Some \<lparr>num_vscale = 0, num_words = ws\<rparr>"
    using assms ne by (simp add: from_int64_def ws_def Let_def)
  ultimately show ?thesis using l ne by (simp add: num_ok_def)
qed

lemma from_int64_min: "from_int64 (- (2 ^ 63)) = Some \<lparr>num_vscale = 0, num_words = [0, 0x80000000]\<rparr>"
  by code_simp

lemma from_int64_below:
  assumes "sint v < 0" "sint v \<noteq> - (2 ^ 63)"
  shows "\<exists>n. from_int64 v = Some n \<and> num_ok n \<and> num_vscale n = 0 \<and>
    (nval n = sint v \<longleftrightarrow> - (2 ^ 31) \<le> sint v \<or> sint v \<le> - (2 ^ 32))"
proof -
  define m where "m = - sint v"
  have m: "0 < m" "m < 2 ^ 63" "sint (- v) = m"
    using assms sint_greater_eq [of v] from_int64_negative [OF assms] by (simp_all add: m_def)
  define p where "p = \<lparr>num_vscale = 0, num_words = from_int64_loop m\<rparr>"
  have l: "length (num_words p) = (if m < 2 ^ 32 then 1 else 2)" "uval (num_words p) = m"
    using m by (simp_all add: p_def from_int64_loop_length from_int64_loop_uval)
  define M where "M = modulus (num_words p)"
  have M: "m < M" "M = (if m < 2 ^ 32 then 2 ^ 32 else 2 ^ 64)" using l m(2) by (simp_all add: M_def)
  have "num_ok p" using l by (auto simp: num_ok_def)
  then obtain n where n: "negate_words p = Some n" "length (num_words n) = length (num_words p)"
    "num_vscale n = num_vscale p" "uval (num_words n) = (- nval p) mod M"
    using negate_words_ok [of p] by (auto simp: M_def)
  obtain k where "nval p = m + k * M" using sval_uval [of "num_words p"] l by (auto simp: M_def)
  then have "(- nval p) mod M = (M - m) mod M" by (intro mod_add_multiple [where k = "- k - 1"]) (simp add: algebra_simps)
  then have u: "uval (num_words n) = M - m" using n(4) M(1) m(1) mod_pos_pos_trivial [of "M - m" M] by simp
  have ne: "num_words n \<noteq> []" using n(2) l by auto
  have "top_bit (num_words n) \<longleftrightarrow> M \<le> 2 * (M - m)" using top_bit_iff [OF ne] u n(2) by (simp add: M_def)
  then have "nval n = - m \<longleftrightarrow> 2 * m \<le> M" using u n(2) m(1) M(1) by (auto simp: sval_def M_def)
  also have "\<dots> \<longleftrightarrow> m \<le> 2 ^ 31 \<or> 2 ^ 32 \<le> m" using M(2) m(2) by auto
  finally have "nval n = - m \<longleftrightarrow> m \<le> 2 ^ 31 \<or> 2 ^ 32 \<le> m" .
  moreover have "from_int64_loop m \<noteq> []" using l by (auto simp: p_def)
  then have "from_int64 v = Some n" using assms(1) m(3) n(1) by (simp add: from_int64_def p_def Let_def)
  moreover have "num_ok n" using ne n(2) \<open>num_ok p\<close> by (simp add: num_ok_def)
  ultimately show ?thesis using n(3) by (auto simp: p_def m_def)
qed

text \<open>
  \<^verbatim>\<open>from(int64_t)\<close> stores the magnitude in as few words as possible. The words read back as the
  number unless the magnitude needs the top bit of a single word.
\<close>

lemma from_int64_value:
  "\<exists>n. from_int64 v = Some n \<and> num_ok n \<and> num_vscale n = 0 \<and>
    (nval n = sint v \<longleftrightarrow> \<bar>sint v\<bar> < 2 ^ 31 \<or> sint v = - (2 ^ 31) \<or> 2 ^ 32 \<le> \<bar>sint v\<bar>)"
proof (cases "sint v" "0 :: int" rule: linorder_cases)
  case less
  show ?thesis
  proof (cases "sint v = - (2 ^ 63)")
    case True
    then have "v = word_of_int (- (2 ^ 63))" using sint_inverse [of v] by (simp only:)
    then have "v = - (2 ^ 63)" by simp
    with True from_int64_min show ?thesis
      by (simp add: num_ok_def sval_def top_bit_def SIGN_MASK_def)
  next
    case False
    from from_int64_below [OF less this] less show ?thesis by auto
  qed
next
  case equal
  then have "v = 0" by (metis of_int_0 sint_inverse)
  then show ?thesis
    by (simp add: from_int64_def from_int64_loop.simps num_ok_def sval_def top_bit_def Let_def)
next
  case greater
  from from_int64_positive [OF this] greater show ?thesis by auto
qed

end
