(* ===== verification/Ob_Crc64.thy ===== *)
theory Ob_Crc64
  imports Serialization_Obj "HOL-Library.Monad_Syntax"
begin

text \<open>
  The checksum of \<^verbatim>\<open>src/oceanbase/src/common/ob_crc64.{h,cpp}\<close>: the two lookup tables, the routine
  that consumes eight bytes at a time (its portable C form), and the buffered \<^verbatim>\<open>ObBatchChecksum\<close>. The reference is
  the shift register of the file's comment, one bit at a time; the table, the eight-byte step, the
  blocked loop and the buffered accumulator are all shown equal to it.
\<close>

unbundle bit_operations_syntax

section \<open>Tables\<close>

definition OB_DEFAULT_CRC64_POLYNOM :: u64 where "OB_DEFAULT_CRC64_POLYNOM = 0xD800000000000000"

definition CRC64_TABLE_SIZE :: nat where "CRC64_TABLE_SIZE = 256"

definition crc_shift :: "u64 \<Rightarrow> u64 \<Rightarrow> u64" where
  "crc_shift polynom shift =
     (if shift AND 1 \<noteq> 0 then drop_bit 1 shift XOR polynom else drop_bit 1 shift)"

definition ob_init_crc64_table :: "u64 \<Rightarrow> u64 list \<times> 16 word list" where
  "ob_init_crc64_table polynom =
     (let table = map (\<lambda>i. (crc_shift polynom ^^ 8) (of_nat i)) [0..<CRC64_TABLE_SIZE]
      in (table, map (\<lambda>shift. ucast (drop_bit 48 shift AND 0xffff)) table))"

definition s_crc64_table :: "u64 list" where
  "s_crc64_table = fst (ob_init_crc64_table OB_DEFAULT_CRC64_POLYNOM)"

definition s_optimized_crc64_table :: "16 word list" where
  "s_optimized_crc64_table = snd (ob_init_crc64_table OB_DEFAULT_CRC64_POLYNOM)"

section \<open>The routine\<close>

definition DO_1_STEP :: "u64 \<Rightarrow> u8 \<Rightarrow> u64" where
  "DO_1_STEP uCRC64 b = s_crc64_table ! unat ((uCRC64 XOR ucast b) AND 0xff) XOR drop_bit 8 uCRC64"

definition opt_entry :: "u8 \<Rightarrow> u64" where
  "opt_entry b = ucast (s_optimized_crc64_table ! unat b)"

definition DO_1_OPTIMIZED_STEP :: "u64 \<Rightarrow> u8 list \<Rightarrow> u64" where
  "DO_1_OPTIMIZED_STEP uCRC64 pu8 =
     (let u_data = uCRC64 XOR le_val (take 8 pu8);
          table_result0 = opt_entry (ucast u_data);
          operand1 = push_bit 40 (opt_entry (ucast (drop_bit 48 u_data)))
                  OR push_bit 24 (opt_entry (ucast (drop_bit 32 u_data)))
                  OR push_bit 8 (opt_entry (ucast (drop_bit 16 u_data)))
                  OR drop_bit 8 table_result0;
          operand2 = push_bit 48 (opt_entry (ucast (drop_bit 56 u_data) XOR ucast table_result0))
                  OR push_bit 32 (opt_entry (ucast (drop_bit 40 u_data)))
                  OR push_bit 16 (opt_entry (ucast (drop_bit 24 u_data)))
                  OR opt_entry (ucast (drop_bit 8 u_data))
      in operand1 XOR operand2)"

text \<open>The eight steps of one iteration, each followed by \<^verbatim>\<open>pu8 += 8\<close>.\<close>

primrec optimized_steps :: "nat \<Rightarrow> u64 \<Rightarrow> u8 list \<Rightarrow> u64" where
  "optimized_steps 0 uCRC64 pu8 = uCRC64"
| "optimized_steps (Suc n) uCRC64 pu8 = optimized_steps n (DO_1_OPTIMIZED_STEP uCRC64 pu8) (drop 8 pu8)"

function crc64_loop :: "u64 \<Rightarrow> u8 list \<Rightarrow> u64" where
  "crc64_loop uCRC64 pu8 =
     (if length pu8 \<ge> 64 then crc64_loop (optimized_steps 8 uCRC64 pu8) (drop 64 pu8)
      else foldl DO_1_STEP uCRC64 pu8)"
  by pat_completeness auto
termination by (relation "measure (\<lambda>(c, bs). length bs)") auto

declare crc64_loop.simps [simp del]

text \<open>\<open>pv\<close> is the memory behind the pointer; a count that is negative or exceeds it reads outside.\<close>

definition ob_crc64_optimized :: "u64 \<Rightarrow> u8 list option \<Rightarrow> int \<Rightarrow> u64 option" where
  "ob_crc64_optimized uCRC64 pv cb =
     (case pv of
        None \<Rightarrow> Some uCRC64
      | Some bs \<Rightarrow>
          if cb = 0 then Some uCRC64
          else if 0 < cb \<and> cb \<le> int (length bs) then Some (crc64_loop uCRC64 (take (nat cb) bs))
          else None)"

definition ob_crc64 :: "u64 \<Rightarrow> u8 list option \<Rightarrow> int \<Rightarrow> u64 option" where
  "ob_crc64 uCRC64 pv cb = ob_crc64_optimized uCRC64 pv cb"

definition ob_crc64_block :: "u8 list option \<Rightarrow> int \<Rightarrow> u64 option" where
  "ob_crc64_block pv cb = ob_crc64 0 pv cb"

section \<open>ObBatchChecksum\<close>

definition BUFFER_SIZE :: int where "BUFFER_SIZE = 65536"

record batch_checksum =
  bc_buffer :: "u8 list"
  bc_pos :: int
  bc_base :: u64

definition bc_reset :: "batch_checksum \<Rightarrow> batch_checksum" where
  "bc_reset bc = bc\<lparr>bc_pos := 0, bc_base := 0\<rparr>"

definition bc_set_base :: "u64 \<Rightarrow> batch_checksum \<Rightarrow> batch_checksum" where
  "bc_set_base base bc = bc\<lparr>bc_base := base\<rparr>"

text \<open>\<^verbatim>\<open>memcpy(&buffer_[pos_], src, n)\<close>, undefined when it would leave the buffer.\<close>

definition buffer_copy :: "u8 list \<Rightarrow> int \<Rightarrow> u8 list \<Rightarrow> u8 list option" where
  "buffer_copy buf p src =
     (if 0 \<le> p \<and> p + int (length src) \<le> int (length buf)
      then Some (take (nat p) buf @ src @ drop (nat p + length src) buf) else None)"

partial_function (option) bc_fill_loop :: "u8 list \<Rightarrow> batch_checksum \<Rightarrow> batch_checksum option" where
  "bc_fill_loop src bc =
     (if src = [] then Some bc
      else do {
        let size2copy = min (BUFFER_SIZE - bc_pos bc) (int (length src));
        buf \<leftarrow> buffer_copy (bc_buffer bc) (bc_pos bc) (take (nat size2copy) src);
        let bc = bc\<lparr>bc_buffer := buf, bc_pos := bc_pos bc + size2copy\<rparr>;
        bc \<leftarrow> (if bc_pos bc \<ge> BUFFER_SIZE
             then do {
               base \<leftarrow> ob_crc64 (bc_base bc) (Some (bc_buffer bc)) BUFFER_SIZE;
               Some (bc\<lparr>bc_base := base, bc_pos := 0\<rparr>)
             }
             else Some bc);
        bc_fill_loop (drop (nat size2copy) src) bc
      })"

declare bc_fill_loop.simps [code]

definition bc_fill :: "u8 list option \<Rightarrow> int \<Rightarrow> batch_checksum \<Rightarrow> batch_checksum option" where
  "bc_fill pv cb bc =
     (case pv of
        None \<Rightarrow> Some bc
      | Some bs \<Rightarrow>
          if 0 < cb
          then (if cb \<le> int (length bs) then bc_fill_loop (take (nat cb) bs) bc else None)
          else Some bc)"

definition bc_calc :: "batch_checksum \<Rightarrow> (u64 \<times> batch_checksum) option" where
  "bc_calc bc =
     (if 0 < bc_pos bc
      then do {
        base \<leftarrow> ob_crc64 (bc_base bc) (Some (bc_buffer bc)) (bc_pos bc);
        Some (base, bc\<lparr>bc_base := base, bc_pos := 0\<rparr>)
      }
      else Some (bc_base bc, bc))"

section \<open>The reference: one shift register\<close>

text \<open>A message is fed byte by byte, lowest bit first.\<close>

abbreviation shift :: "u64 \<Rightarrow> u64" where "shift \<equiv> crc_shift OB_DEFAULT_CRC64_POLYNOM"

definition crc_ref :: "u64 \<Rightarrow> u8 list \<Rightarrow> u64" where
  "crc_ref c bs = foldl (\<lambda>c b. (shift ^^ 8) (c XOR ucast b)) c bs"

lemma and_1_bit: "(x :: u64) AND 1 \<noteq> 0 \<longleftrightarrow> bit x 0"
  by (simp add: and_one_eq odd_iff_mod_2_eq_one bit_0)

lemma crc_shift_xor: "crc_shift p (a XOR b) = crc_shift p a XOR crc_shift p b"
  by (intro bit_word_eqI) (auto simp: crc_shift_def and_1_bit bit_simps)

lemma crc_shift_pow_xor: "(crc_shift p ^^ n) (a XOR b) = (crc_shift p ^^ n) a XOR (crc_shift p ^^ n) b"
  by (induction n) (simp_all add: crc_shift_xor)

lemma bit_word64D: "bit (x :: u64) n \<Longrightarrow> n < 64"
  by (drule bit_imp_le_length) simp

lemma bit_crc_shift: "bit (crc_shift p x) j \<longleftrightarrow> bit x (Suc j) \<noteq> (bit x 0 \<and> bit p j)"
  by (auto simp: crc_shift_def and_1_bit bit_simps)

lemma crc_shift_even: "\<not> bit x 0 \<Longrightarrow> crc_shift p x = drop_bit 1 x"
  by (simp add: crc_shift_def and_1_bit)

lemma crc_shift_pow_push:
  "(\<And>j. j < n \<Longrightarrow> \<not> bit x j) \<Longrightarrow> (crc_shift p ^^ n) x = drop_bit n x"
proof (induction n)
  case (Suc n)
  then have "(crc_shift p ^^ n) x = drop_bit n x" "\<not> bit x n" by auto
  then show ?case by (simp add: crc_shift_even bit_simps)
qed simp

text \<open>The polynomial has no bit below 59, so a table entry has none below 52.\<close>

lemma bit_polynom: "bit OB_DEFAULT_CRC64_POLYNOM n \<Longrightarrow> 59 \<le> n"
proof -
  assume "bit OB_DEFAULT_CRC64_POLYNOM n"
  moreover have "OB_DEFAULT_CRC64_POLYNOM = push_bit 59 27" by (simp add: OB_DEFAULT_CRC64_POLYNOM_def)
  ultimately have "bit (push_bit 59 27 :: u64) n" by simp
  then show ?thesis unfolding bit_push_bit_iff by (rule conjunct1)
qed

lemma shift_pow_gap:
  assumes "\<And>j. 8 \<le> j \<Longrightarrow> \<not> bit x j"
  shows "k \<le> 8 \<Longrightarrow> 8 - k \<le> j \<Longrightarrow> j < 60 - k \<Longrightarrow> \<not> bit ((shift ^^ k) x) j"
proof (induction k arbitrary: j)
  case 0
  then show ?case using assms by simp
next
  case (Suc k)
  have "\<not> bit ((shift ^^ k) x) (Suc j)" "\<not> bit OB_DEFAULT_CRC64_POLYNOM j"
    using Suc.prems Suc.IH [of "Suc j"] bit_polynom [of j] by auto
  then show ?case by (simp add: bit_crc_shift)
qed

definition shift8 :: "u64 \<Rightarrow> u64" where
  "shift8 = shift ^^ 8"

lemma shift8_xor: "shift8 (a XOR b) = shift8 a XOR shift8 b"
  by (simp add: shift8_def crc_shift_pow_xor)

lemma shift8_pow_xor: "(shift8 ^^ n) (a XOR b) = (shift8 ^^ n) a XOR (shift8 ^^ n) b"
  by (induction n) (simp_all add: shift8_xor)

lemma shift8_push: "(\<And>j. j < 8 \<Longrightarrow> \<not> bit x j) \<Longrightarrow> shift8 x = drop_bit 8 x"
  by (simp add: shift8_def crc_shift_pow_push)

lemma shift8_byte_gap: "j < 52 \<Longrightarrow> \<not> bit (shift8 (ucast (b :: u8))) j"
  unfolding shift8_def by (rule shift_pow_gap) (auto simp: bit_simps dest: bit_imp_le_length)

lemma table_entry: "s_crc64_table ! unat b = shift8 (ucast (b :: u8))"
proof -
  have "unat b < 256" using unsigned_less [of b, where 'a = nat] by simp
  then show ?thesis
    by (simp add: s_crc64_table_def ob_init_crc64_table_def Let_def CRC64_TABLE_SIZE_def shift8_def)
qed

lemma opt_entry_eq: "opt_entry b = drop_bit 48 (shift8 (ucast b))"
proof -
  have "unat b < 256" using unsigned_less [of b, where 'a = nat] by simp
  then have "opt_entry b = ucast (ucast (drop_bit 48 (shift8 (ucast b)) AND 0xffff) :: 16 word)"
    by (simp add: opt_entry_def s_optimized_crc64_table_def ob_init_crc64_table_def Let_def
        CRC64_TABLE_SIZE_def shift8_def)
  also have "(0xffff :: u64) = mask 16" by (simp add: mask_eq_exp_minus_1)
  also have "ucast (ucast (drop_bit 48 (shift8 (ucast b)) AND mask 16) :: 16 word) = drop_bit 48 (shift8 (ucast b))"
    using bit_word64D [of "shift8 (ucast b)" "48 + n" for n] by (auto intro!: bit_word_eqI simp: bit_simps)
  finally show ?thesis .
qed

lemma opt_entry_bit: "bit (opt_entry b) j \<Longrightarrow> j < 16"
  by (auto simp: opt_entry_eq bit_simps dest: bit_imp_le_length)

lemma push_opt_entry: "push_bit 48 (opt_entry b) = shift8 (ucast b)"
proof (rule bit_word_eqI)
  fix n
  show "bit (push_bit 48 (opt_entry b)) n = bit (shift8 (ucast b)) n"
    using shift8_byte_gap [of n b] by (cases "48 \<le> n") (auto simp: opt_entry_eq bit_simps dest: bit_imp_le_length)
qed

lemma shift8_pow_push_opt:
  "k \<le> 6 \<Longrightarrow> (shift8 ^^ k) (push_bit 48 (opt_entry b)) = push_bit (48 - 8 * k) (opt_entry b)"
proof (induction k)
  case (Suc k)
  have "shift8 (push_bit (48 - 8 * k) (opt_entry b)) = drop_bit 8 (push_bit (48 - 8 * k) (opt_entry b))"
    using Suc.prems by (intro shift8_push) (auto simp: bit_simps)
  also have "\<dots> = push_bit (48 - 8 * Suc k) (opt_entry b)"
    using Suc.prems by (intro bit_word_eqI) (auto simp: bit_simps dest: opt_entry_bit)
  finally show ?case using Suc by simp
qed simp

text \<open>Eight shifts look at the low byte only.\<close>

lemma shift8_split: "shift8 c = shift8 (ucast (ucast c :: u8)) XOR drop_bit 8 c"
proof -
  have "c = ucast (ucast c :: u8) XOR (push_bit 8 (drop_bit 8 c))"
    by (intro bit_word_eqI) (auto simp: bit_simps)
  then have "shift8 c = shift8 (ucast (ucast c :: u8)) XOR shift8 (push_bit 8 (drop_bit 8 c))"
    by (metis shift8_xor)
  moreover have "shift8 (push_bit 8 (drop_bit 8 c)) = drop_bit 8 (push_bit 8 (drop_bit 8 c))"
    by (rule shift8_push) (simp add: bit_simps)
  moreover have "\<dots> = drop_bit 8 c"
    by (intro bit_word_eqI) (auto simp: bit_simps dest: bit_imp_le_length)
  ultimately show ?thesis by simp
qed

lemma low_byte: "unat ((x :: u64) AND 0xff) = unat (ucast x :: u8)"
proof -
  have "x AND 0xff = ucast (ucast x :: u8)"
    using bit_mask_iff [of 8, where 'a = u64]
    by (intro bit_word_eqI) (auto simp: bit_simps mask_eq_exp_minus_1)
  then show ?thesis by (simp add: unsigned_ucast_eq unsigned_take_bit_eq)
qed

lemma DO_1_STEP_eq: "DO_1_STEP c b = shift8 (c XOR ucast b)"
proof -
  have "drop_bit 8 (c XOR ucast b) = drop_bit 8 c"
    by (intro bit_word_eqI) (auto simp: bit_simps dest: bit_imp_le_length)
  then show ?thesis
    unfolding DO_1_STEP_def low_byte table_entry by (subst (2) shift8_split) simp
qed

lemma crc_ref_steps: "foldl DO_1_STEP c bs = crc_ref c bs"
proof -
  have "DO_1_STEP = (\<lambda>c b. shift8 (c XOR ucast b))" by (intro ext) (rule DO_1_STEP_eq)
  then show ?thesis by (simp add: crc_ref_def shift8_def)
qed

lemma crc_ref_simps [simp]:
  "crc_ref c [] = c" "crc_ref c (b # bs) = crc_ref (shift8 (c XOR ucast b)) bs"
  "crc_ref c (bs @ ds) = crc_ref (crc_ref c bs) ds"
  by (simp_all add: crc_ref_def shift8_def)

section \<open>The eight-byte step\<close>

lemma crc_ref_word: "length bs \<le> 8 \<Longrightarrow> crc_ref c bs = (shift8 ^^ length bs) (c XOR le_val bs)"
proof (induction bs arbitrary: c)
  case (Cons b bs)
  have "c XOR le_val (b # bs) = (c XOR ucast b) XOR push_bit 8 (le_val bs)"
    by (intro bit_word_eqI) (auto simp: bit_simps dest: bit_imp_le_length)
  moreover have "shift8 (push_bit 8 (le_val bs)) = drop_bit 8 (push_bit 8 (le_val bs))"
    by (rule shift8_push) (simp add: bit_simps)
  moreover have "\<dots> = le_val bs"
    using Cons.prems le_val_bit [of bs] by (intro bit_word_eqI) (fastforce simp: bit_simps)
  ultimately have "shift8 (c XOR le_val (b # bs)) = shift8 (c XOR ucast b) XOR le_val bs"
    by (simp only: shift8_xor)
  then show ?case using Cons by (simp add: funpow_swap1)
qed simp

lemma shift8_pow_split:
  "(shift8 ^^ Suc n) u = (shift8 ^^ n) (push_bit 48 (opt_entry (ucast u))) XOR (shift8 ^^ n) (drop_bit 8 u)"
  by (subst funpow_Suc_right) (simp add: shift8_split [of u] push_opt_entry flip: shift8_pow_xor)

lemma or_xor: "a AND b = 0 \<Longrightarrow> a OR b = a XOR (b :: u64)"
  by (simp add: bit_eq_iff bit_simps) blast

lemma shift8_pow_8:
  "(shift8 ^^ 8) u = shift8 (opt_entry (ucast u))
     XOR (opt_entry (ucast (drop_bit 8 u)) XOR (push_bit 8 (opt_entry (ucast (drop_bit 16 u)))
     XOR (push_bit 16 (opt_entry (ucast (drop_bit 24 u))) XOR (push_bit 24 (opt_entry (ucast (drop_bit 32 u)))
     XOR (push_bit 32 (opt_entry (ucast (drop_bit 40 u))) XOR (push_bit 40 (opt_entry (ucast (drop_bit 48 u)))
     XOR push_bit 48 (opt_entry (ucast (drop_bit 56 u)))))))))"
proof -
  have "(shift8 ^^ 7) (push_bit 48 (opt_entry b)) = shift8 (opt_entry b)" for b
    using shift8_pow_push_opt [of 6 b] by (simp add: numeral_eq_Suc)
  moreover have "drop_bit 64 u = 0" by (intro bit_word_eqI) (auto simp: bit_simps dest: bit_word64D)
  moreover have "(shift8 ^^ Suc n) (drop_bit k u) =
      (shift8 ^^ n) (push_bit 48 (opt_entry (ucast (drop_bit k u)))) XOR (shift8 ^^ n) (drop_bit (k + 8) u)" for n k
    using shift8_pow_split [of n "drop_bit k u"] by (simp add: add.commute)
  note this [of 7 0] this [of 6 8] this [of 5 16] this [of 4 24] this [of 3 32] this [of 2 40]
    this [of 1 48] this [of 0 56]
  moreover have "(shift8 ^^ 2) x = shift8 (shift8 x)" for x by (simp add: numeral_2_eq_2)
  ultimately show ?thesis using shift8_pow_push_opt [of 1] shift8_pow_push_opt [of 2] by (simp add: shift8_pow_push_opt)
qed

lemma or_4_xor:
  fixes a b c d :: u64
  assumes "a AND b = 0" "a AND c = 0" "a AND d = 0" "b AND c = 0" "b AND d = 0" "c AND d = 0"
  shows "a OR b OR c OR d = a XOR b XOR c XOR d"
  using assms by (simp add: or_xor bit.conj_disj_distrib bit.conj_xor_distrib bit.conj_xor_distrib2)

lemma opt_disjoint:
  "i + 16 \<le> j \<Longrightarrow> push_bit j (opt_entry a) AND push_bit i (opt_entry b) = 0"
  "16 \<le> j \<Longrightarrow> push_bit j (opt_entry a) AND opt_entry b = 0"
  "8 \<le> j \<Longrightarrow> push_bit j (opt_entry a) AND drop_bit 8 (opt_entry b) = 0"
  by (intro bit_word_eqI; fastforce simp: bit_simps dest: opt_entry_bit)+

lemma xor_regroup:
  fixes a b c d e f g h i j :: u64
  assumes "e XOR d = f XOR g"
  shows "(a XOR b XOR c XOR d) XOR (e XOR h XOR i XOR j) =
     g XOR (j XOR (c XOR (i XOR (b XOR (h XOR (a XOR f))))))"
proof -
  have "(a XOR b XOR c XOR d) XOR (e XOR h XOR i XOR j) = (e XOR d) XOR (a XOR b XOR c XOR h XOR i XOR j)"
    by (simp add: ac_simps)
  then show ?thesis unfolding assms by (simp add: ac_simps)
qed

lemma DO_1_OPTIMIZED_STEP_eq:
  assumes "8 \<le> length bs"
  shows "DO_1_OPTIMIZED_STEP c bs = crc_ref c (take 8 bs)"
proof -
  define u where "u = c XOR le_val (take 8 bs)"
  define t0 where "t0 = opt_entry (ucast u)"
  have "push_bit 48 (opt_entry (ucast (drop_bit 56 u) XOR ucast t0)) =
      push_bit 48 (opt_entry (ucast (drop_bit 56 u))) XOR shift8 (ucast (ucast t0 :: u8))"
    by (simp only: push_opt_entry flip: shift8_xor) (simp add: unsigned_xor_eq)
  then have "push_bit 48 (opt_entry (ucast (drop_bit 56 u) XOR ucast t0)) XOR drop_bit 8 t0 =
      push_bit 48 (opt_entry (ucast (drop_bit 56 u))) XOR shift8 t0"
    by (simp add: shift8_split [of t0] xor.assoc)
  note regroup = xor_regroup [OF this]
  have "DO_1_OPTIMIZED_STEP c bs = (shift8 ^^ 8) u"
    unfolding DO_1_OPTIMIZED_STEP_def Let_def u_def [symmetric] t0_def [symmetric] shift8_pow_8
    by (simp add: or_4_xor opt_disjoint t0_def regroup [unfolded t0_def])
  then show ?thesis using assms by (simp add: crc_ref_word u_def)
qed

section \<open>The blocked loop and the buffered accumulator\<close>

lemma optimized_steps_eq: "8 * n \<le> length bs \<Longrightarrow> optimized_steps n c bs = crc_ref c (take (8 * n) bs)"
proof (induction n arbitrary: c bs)
  case (Suc n)
  then have "take (8 * Suc n) bs = take 8 bs @ take (8 * n) (drop 8 bs)"
    by (simp flip: take_add)
  with Suc show ?case by (simp add: DO_1_OPTIMIZED_STEP_eq)
qed simp

lemma crc64_loop_eq: "crc64_loop c bs = crc_ref c bs"
proof (induction c bs rule: crc64_loop.induct)
  case (1 c bs)
  show ?case
  proof (cases "64 \<le> length bs")
    case True
    have "crc64_loop c bs = crc_ref (crc_ref c (take 64 bs)) (drop 64 bs)"
      using 1 True optimized_steps_eq [of 8 bs c] by (simp add: crc64_loop.simps [of c bs])
    also have "\<dots> = crc_ref c (take 64 bs @ drop 64 bs)" by (simp only: crc_ref_simps)
    finally show ?thesis by simp
  next
    case False
    then show ?thesis by (simp add: crc64_loop.simps [of c bs] crc_ref_steps)
  qed
qed

lemma ob_crc64_eq:
  "0 \<le> cb \<Longrightarrow> cb \<le> int (length bs) \<Longrightarrow> ob_crc64 c (Some bs) cb = Some (crc_ref c (take (nat cb) bs))"
  by (auto simp: ob_crc64_def ob_crc64_optimized_def crc64_loop_eq)

text \<open>The accumulator's state: what it has taken in so far is the value it would return.\<close>

definition bc_ok :: "batch_checksum \<Rightarrow> bool" where
  "bc_ok bc \<longleftrightarrow> int (length (bc_buffer bc)) = BUFFER_SIZE \<and> 0 \<le> bc_pos bc \<and> bc_pos bc < BUFFER_SIZE"

definition bc_value :: "batch_checksum \<Rightarrow> u64" where
  "bc_value bc = crc_ref (bc_base bc) (take (nat (bc_pos bc)) (bc_buffer bc))"

lemma bc_fill_loop_ok:
  "bc_ok bc \<Longrightarrow> \<exists>bc'. bc_fill_loop src bc = Some bc' \<and> bc_ok bc' \<and> bc_value bc' = crc_ref (bc_value bc) src"
proof (induction "length src" arbitrary: src bc rule: less_induct)
  case less
  show ?case
  proof (cases "src = []")
    case True
    then show ?thesis using less.prems by (simp add: bc_fill_loop.simps)
  next
    case False
    define n where "n = min (BUFFER_SIZE - bc_pos bc) (int (length src))"
    define src1 where "src1 = take (nat n) src"
    have n: "0 < n" "nat n \<le> length src" "bc_pos bc + n \<le> BUFFER_SIZE" "length src1 = nat n"
      using False less.prems by (auto simp: n_def bc_ok_def src1_def)
    define buf where "buf = take (nat (bc_pos bc)) (bc_buffer bc) @ src1 @ drop (nat (bc_pos bc) + length src1) (bc_buffer bc)"
    have c: "buffer_copy (bc_buffer bc) (bc_pos bc) src1 = Some buf" "int (length buf) = BUFFER_SIZE"
      "take (nat (bc_pos bc + n)) buf = take (nat (bc_pos bc)) (bc_buffer bc) @ src1"
      using n less.prems by (auto simp: buffer_copy_def buf_def bc_ok_def nat_add_distrib)
    define bc1 where "bc1 = (if bc_pos bc + n \<ge> BUFFER_SIZE
      then bc\<lparr>bc_buffer := buf, bc_base := crc_ref (bc_base bc) buf, bc_pos := 0\<rparr>
      else bc\<lparr>bc_buffer := buf, bc_pos := bc_pos bc + n\<rparr>)"
    have "bc_ok bc1" "bc_value bc1 = crc_ref (bc_value bc) src1"
      using n c less.prems by (auto simp: bc1_def bc_ok_def bc_value_def BUFFER_SIZE_def)
    moreover have "bc_fill_loop src bc = bc_fill_loop (drop (nat n) src) bc1"
    proof -
      have "ob_crc64 (bc_base bc) (Some buf) BUFFER_SIZE = Some (crc_ref (bc_base bc) buf)"
        using c(2) by (subst ob_crc64_eq) (auto simp: BUFFER_SIZE_def)
      then show ?thesis
        unfolding bc_fill_loop.simps [of src bc] Let_def n_def [symmetric] src1_def [symmetric] bc1_def
        using False c(1) by simp
    qed
    moreover have "crc_ref (crc_ref x src1) (drop (nat n) src) = crc_ref x src" for x
      by (simp add: src1_def flip: crc_ref_simps(3))
    ultimately show ?thesis
      using less.hyps [of "drop (nat n) src" bc1] n False by auto
  qed
qed

lemma bc_fill_ok:
  assumes "bc_ok bc"
  shows "\<exists>bc'. bc_fill (Some bs) (int (length bs)) bc = Some bc' \<and> bc_ok bc' \<and> bc_value bc' = crc_ref (bc_value bc) bs"
  using bc_fill_loop_ok [OF assms, of bs] assms by (auto simp: bc_fill_def)

lemma bc_calc_ok:
  "bc_ok bc \<Longrightarrow> \<exists>bc'. bc_calc bc = Some (bc_value bc, bc') \<and> bc_ok bc' \<and> bc_value bc' = bc_value bc"
  by (auto simp: bc_calc_def bc_value_def bc_ok_def ob_crc64_eq BUFFER_SIZE_def)

text \<open>What a client of an accumulator relies on: feeding it pieces is feeding it their concatenation.\<close>

primrec fill_seq :: "('b \<Rightarrow> 's \<Rightarrow> 's option) \<Rightarrow> 'b list \<Rightarrow> 's \<Rightarrow> 's option" where
  "fill_seq fill [] s = Some s"
| "fill_seq fill (b # bs) s = Option.bind (fill b s) (fill_seq fill bs)"

locale accumulator =
  fixes ok :: "'s \<Rightarrow> bool" and val :: "'s \<Rightarrow> u64"
    and fill :: "u8 list \<Rightarrow> 's \<Rightarrow> 's option" and calc :: "'s \<Rightarrow> (u64 \<times> 's) option"
  assumes fill_value: "ok s \<Longrightarrow> \<exists>s'. fill bs s = Some s' \<and> ok s' \<and> val s' = crc_ref (val s) bs"
    and calc_value: "ok s \<Longrightarrow> \<exists>s'. calc s = Some (val s, s') \<and> ok s' \<and> val s' = val s"
begin

lemma fill_seq_value:
  "ok s \<Longrightarrow> \<exists>s'. fill_seq fill bss s = Some s' \<and> ok s' \<and> val s' = crc_ref (val s) (concat bss)"
proof (induction bss arbitrary: s)
  case (Cons bs bss)
  from fill_value [OF Cons.prems, of bs] obtain s' where
    s': "fill bs s = Some s'" "ok s'" "val s' = crc_ref (val s) bs" by blast
  from Cons.IH [OF s'(2)] s' show ?case by simp
qed simp

lemma stream_value:
  assumes "ok s"
  shows "\<exists>s'. Option.bind (fill_seq fill bss s) calc = Some (crc_ref (val s) (concat bss), s')"
proof -
  from fill_seq_value [OF assms, of bss] obtain s1 where
    s1: "fill_seq fill bss s = Some s1" "ok s1" "val s1 = crc_ref (val s) (concat bss)" by blast
  from calc_value [OF s1(2)] s1 show ?thesis by auto
qed

end

definition bc_fill_bytes :: "u8 list \<Rightarrow> batch_checksum \<Rightarrow> batch_checksum option" where
  "bc_fill_bytes bs = bc_fill (Some bs) (int (length bs))"

interpretation batch: accumulator bc_ok bc_value bc_fill_bytes bc_calc
  by unfold_locales (simp_all add: bc_fill_bytes_def bc_fill_ok bc_calc_ok)

end
