(* ===== verification/Murmur_Hash.thy ===== *)
theory Murmur_Hash
  imports Serialization_Obj
begin

text \<open>
  The hash functions of \<^verbatim>\<open>src/oceanbase/src/common/murmur_hash.cpp\<close> on the bytes of a key. Their
  arithmetic is on machine words, so it wraps around as in the source. On keys of one block each of
  the two Murmur functions is shown to be a bijection of the block, for every seed.
\<close>

unbundle bit_operations_syntax

section \<open>The functions\<close>

definition MURMUR_M :: u32 where "MURMUR_M = 0x5bd1e995"
definition MURMUR_M64 :: u64 where "MURMUR_M64 = 0xc6a4a7935bd1e995"

definition mix_word :: "u32 \<Rightarrow> u32" where
  "mix_word k = (let k = k * MURMUR_M; k = k XOR drop_bit 24 k in k * MURMUR_M)"

fun murmur2_loop :: "u32 \<Rightarrow> u8 list \<Rightarrow> u32" where
  "murmur2_loop h (a # b # c # d # data) =
     (let k = ucast a OR push_bit 8 (ucast b) OR push_bit 16 (ucast c) OR push_bit 24 (ucast d)
      in murmur2_loop (h * MURMUR_M XOR mix_word k) data)"
| "murmur2_loop h [a, b, c] =
     (h XOR push_bit 16 (ucast c) XOR push_bit 8 (ucast b) XOR ucast a) * MURMUR_M"
| "murmur2_loop h [a, b] = (h XOR push_bit 8 (ucast b) XOR ucast a) * MURMUR_M"
| "murmur2_loop h [a] = (h XOR ucast a) * MURMUR_M"
| "murmur2_loop h [] = h"

definition murmur2_final :: "u32 \<Rightarrow> u32" where
  "murmur2_final h =
     (let h = h XOR drop_bit 13 h; h = h * MURMUR_M in h XOR drop_bit 15 h)"

definition murmurhash2 :: "u8 list \<Rightarrow> u32 \<Rightarrow> u32" where
  "murmurhash2 key seed =
     murmur2_final (murmur2_loop (seed XOR of_nat (length key)) key)"

definition mix_word64 :: "u64 \<Rightarrow> u64" where
  "mix_word64 k = (let k = k * MURMUR_M64; k = k XOR drop_bit 47 k in k * MURMUR_M64)"

text \<open>The \<^verbatim>\<open>switch (len & 7)\<close> falls through from the last byte to the first.\<close>

definition murmur64_tail :: "u64 \<Rightarrow> u8 list \<Rightarrow> u64" where
  "murmur64_tail h data2 =
     (if data2 = [] then h
      else foldr (\<lambda>i h. h XOR push_bit (8 * i) (ucast (data2 ! i))) [0..<length data2] h * MURMUR_M64)"

function murmur64_loop :: "u64 \<Rightarrow> u8 list \<Rightarrow> u64" where
  "murmur64_loop h data =
     (if 8 \<le> length data
      then murmur64_loop ((h XOR mix_word64 (le_val (take 8 data))) * MURMUR_M64) (drop 8 data)
      else murmur64_tail h data)"
  by pat_completeness auto
termination by (relation "measure (\<lambda>(h, data). length data)") auto

declare murmur64_loop.simps [simp del]

definition murmur64_final :: "u64 \<Rightarrow> u64" where
  "murmur64_final h =
     (let h = h XOR drop_bit 47 h; h = h * MURMUR_M64 in h XOR drop_bit 47 h)"

definition murmurhash64A :: "u8 list \<Rightarrow> u64 \<Rightarrow> u64" where
  "murmurhash64A key seed =
     murmur64_final (murmur64_loop (seed XOR (of_nat (length key) * MURMUR_M64)) key)"

text \<open>\<^verbatim>\<open>data[i]\<close> is a signed char; \<^verbatim>\<open>hash\<close> is a signed integer, so its right shifts are arithmetic.\<close>

definition fnv_hash2 :: "u8 list \<Rightarrow> u32 \<Rightarrow> u32" where
  "fnv_hash2 key seed =
     (let h = foldl (\<lambda>(h :: i32) b. (h XOR scast b) * 16777619) 2166136261 key;
          h = h + push_bit 13 h;
          h = h XOR signed_drop_bit 7 h;
          h = h + push_bit 3 h;
          h = h XOR signed_drop_bit 17 h;
          h = h + push_bit 5 h
      in h XOR seed)"

section \<open>One-block keys do not collide\<close>

lemma odd_mult_inj: "inj (\<lambda>x :: 'a :: len word. x * m)" if "m * n = 1" for m n
proof (rule injI)
  fix x y assume "x * m = y * m"
  then have "x * m * n = y * m * n" by simp
  then show "x = y" using that by (simp add: mult.assoc)
qed

lemma xorshift_inj:
  assumes "0 < r"
  shows "inj (\<lambda>x :: 'a :: len word. x XOR drop_bit r x)"
proof (rule injI)
  fix x y :: "'a word" assume eq: "x XOR drop_bit r x = y XOR drop_bit r y"
  have "bit x i = bit y i" for i
  proof (induction "LENGTH('a) - i" arbitrary: i rule: less_induct)
    case less
    show ?case
    proof (cases "i < LENGTH('a)")
      case True
      then have "bit x (r + i) = bit y (r + i)" using less [of "r + i"] assms by simp
      moreover have "bit (x XOR drop_bit r x) i = bit (y XOR drop_bit r y) i" by (simp only: eq)
      ultimately show ?thesis by (auto simp: bit_simps)
    qed (auto dest: bit_imp_le_length)
  qed
  then show "x = y" by (intro bit_word_eqI)
qed

lemma xor_inj: "inj (\<lambda>x :: 'a :: len word. h XOR x)"
  by (rule injI) (metis bit.xor_left_self)

lemma MURMUR_inverse: "MURMUR_M * 0xe59b19bd = 1" "MURMUR_M64 * 0x5f7a0ea7e59b19bd = 1"
  by (simp_all add: MURMUR_M_def MURMUR_M64_def)

lemmas murmur_inj = odd_mult_inj [OF MURMUR_inverse(1)] odd_mult_inj [OF MURMUR_inverse(2)]

lemma mix_word_inj: "inj mix_word"
proof -
  have eq: "mix_word = (\<lambda>k. k * MURMUR_M) \<circ> (\<lambda>k. k XOR drop_bit 24 k) \<circ> (\<lambda>k. k * MURMUR_M)"
    by (simp add: fun_eq_iff mix_word_def Let_def)
  show ?thesis unfolding eq by (intro inj_compose murmur_inj xorshift_inj) simp_all
qed

lemma murmur2_final_inj: "inj murmur2_final"
proof -
  have eq: "murmur2_final = (\<lambda>k. k XOR drop_bit 15 k) \<circ> (\<lambda>k. k * MURMUR_M) \<circ> (\<lambda>k. k XOR drop_bit 13 k)"
    by (simp add: fun_eq_iff murmur2_final_def Let_def)
  show ?thesis unfolding eq by (intro inj_compose murmur_inj xorshift_inj) simp_all
qed

lemma mix_word64_inj: "inj mix_word64"
proof -
  have eq: "mix_word64 = (\<lambda>k. k * MURMUR_M64) \<circ> (\<lambda>k. k XOR drop_bit 47 k) \<circ> (\<lambda>k. k * MURMUR_M64)"
    by (simp add: fun_eq_iff mix_word64_def Let_def)
  show ?thesis unfolding eq by (intro inj_compose murmur_inj xorshift_inj) simp_all
qed

lemma murmur64_final_inj: "inj murmur64_final"
proof -
  have eq: "murmur64_final = (\<lambda>k. k XOR drop_bit 47 k) \<circ> (\<lambda>k. k * MURMUR_M64) \<circ> (\<lambda>k. k XOR drop_bit 47 k)"
    by (simp add: fun_eq_iff murmur64_final_def Let_def)
  show ?thesis unfolding eq by (intro inj_compose murmur_inj xorshift_inj) simp_all
qed

lemma murmurhash2_block:
  "murmurhash2 [a, b, c, d] seed =
     murmur2_final ((seed XOR 4) * MURMUR_M
       XOR mix_word (ucast a OR push_bit 8 (ucast b) OR push_bit 16 (ucast c) OR push_bit 24 (ucast d)))"
  by (simp add: murmurhash2_def Let_def)

lemma block_word: "(ucast a OR push_bit 8 (ucast b) OR push_bit 16 (ucast c) OR push_bit 24 (ucast d) :: u32) =
    ucast (le_val [a, b, c, d])"
  by (rule bit_word_eqI) (auto simp: bit_simps)

lemma block_word_inj:
  assumes "(ucast (le_val as) :: u32) = ucast (le_val bs)" "length as = 4" "length bs = 4"
  shows "as = bs"
proof (rule le_val_inj)
  show "le_val as = le_val bs"
  proof (rule bit_word_eqI)
    fix n show "bit (le_val as) n = bit (le_val bs) n"
      using arg_cong [OF assms(1), of "\<lambda>w. bit w n"] le_val_bit [of as n] le_val_bit [of bs n] assms(2,3)
      by (auto simp: bit_simps)
  qed
qed (use assms in auto)

lemma murmurhash2_inj:
  assumes "length as = 4" "length bs = 4" "murmurhash2 as seed = murmurhash2 bs seed"
  shows "as = bs"
proof -
  have block: "murmurhash2 cs seed = murmur2_final ((seed XOR 4) * MURMUR_M XOR mix_word (ucast (le_val cs)))"
    if "length cs = 4" for cs
  proof -
    from that obtain a b c d where "cs = [a, b, c, d]" by (auto simp: numeral_eq_Suc length_Suc_conv)
    then show ?thesis by (simp only: murmurhash2_block block_word)
  qed
  show ?thesis
    using assms(3) unfolding block [OF assms(1)] block [OF assms(2)]
    by (intro block_word_inj assms) (auto dest!: injD [OF murmur2_final_inj] injD [OF xor_inj] injD [OF mix_word_inj])
qed

lemma murmurhash64A_block:
  "length bs = 8 \<Longrightarrow> murmurhash64A bs seed =
     murmur64_final (((seed XOR (8 * MURMUR_M64)) XOR mix_word64 (le_val bs)) * MURMUR_M64)"
  by (simp add: murmurhash64A_def murmur64_loop.simps [of _ bs] murmur64_loop.simps [of _ "[]"] murmur64_tail_def)

lemma murmurhash64A_inj:
  assumes "length as = 8" "length bs = 8" "murmurhash64A as seed = murmurhash64A bs seed"
  shows "as = bs"
  using assms(3) unfolding murmurhash64A_block [OF assms(1)] murmurhash64A_block [OF assms(2)]
  by (intro le_val_inj) (use assms in \<open>auto dest!: injD [OF murmur64_final_inj] injD [OF murmur_inj(2)]
    injD [OF xor_inj] injD [OF mix_word64_inj]\<close>)

end
