(* ===== verification/Ob_Object.thy ===== *)
theory Ob_Object
  imports Serialization_Types Ob_Number_Muldiv Ob_Crc64 Murmur_Hash
begin

text \<open>
  \<^verbatim>\<open>ObObj\<close> of \<^verbatim>\<open>src/oceanbase/src/common/ob_object.{h,cpp}\<close>: the tagged value that every cell,
  row key and message is made of. The bit fields of \<^verbatim>\<open>ObObjMeta\<close> are integers, the union
  \<^verbatim>\<open>value_\<close> is a datatype that records which member was stored last; reading a member that was not
  stored (other than through the raw eight bytes) is undefined. Arithmetic on floats and doubles is
  the parameter \<open>fp_ops\<close>, over their bit patterns.
\<close>

unbundle bit_operations_syntax

section \<open>Types and constants\<close>

abbreviation (input) ObMinType :: int where "ObMinType \<equiv> - 1"
abbreviation (input) ObNullType :: int where "ObNullType \<equiv> 0"
abbreviation (input) ObIntType :: int where "ObIntType \<equiv> 1"
abbreviation (input) ObFloatType :: int where "ObFloatType \<equiv> 2"
abbreviation (input) ObDoubleType :: int where "ObDoubleType \<equiv> 3"
abbreviation (input) ObDateTimeType :: int where "ObDateTimeType \<equiv> 4"
abbreviation (input) ObPreciseDateTimeType :: int where "ObPreciseDateTimeType \<equiv> 5"
abbreviation (input) ObVarcharType :: int where "ObVarcharType \<equiv> 6"
abbreviation (input) ObSeqType :: int where "ObSeqType \<equiv> 7"
abbreviation (input) ObCreateTimeType :: int where "ObCreateTimeType \<equiv> 8"
abbreviation (input) ObModifyTimeType :: int where "ObModifyTimeType \<equiv> 9"
abbreviation (input) ObExtendType :: int where "ObExtendType \<equiv> 10"
abbreviation (input) ObBoolType :: int where "ObBoolType \<equiv> 11"
abbreviation (input) ObDecimalType :: int where "ObDecimalType \<equiv> 12"
abbreviation (input) ObMaxType :: int where "ObMaxType \<equiv> 13"

abbreviation (input) OP_DEL_ROW :: int where "OP_DEL_ROW \<equiv> 8"
abbreviation (input) OP_ROW_DOES_NOT_EXIST :: int where "OP_ROW_DOES_NOT_EXIST \<equiv> 11"
abbreviation (input) OP_DEL_TABLE :: int where "OP_DEL_TABLE \<equiv> 14"
abbreviation (input) OP_NOP :: int where "OP_NOP \<equiv> 15"

text \<open>\<^verbatim>\<open>UINT64_MAX - 2\<close> and \<^verbatim>\<open>UINT64_MAX - 1\<close>, stored in an \<^verbatim>\<open>int64_t\<close>.\<close>

definition MIN_OBJECT_VALUE :: i64 where "MIN_OBJECT_VALUE = - 3"
definition MAX_OBJECT_VALUE :: i64 where "MAX_OBJECT_VALUE = - 2"

definition INVALID_OP_FLAG :: int where "INVALID_OP_FLAG = 0"
definition ADD :: int where "ADD = 1"

text \<open>
  The union: an eight-byte member, a float, a bool, the memory behind \<^verbatim>\<open>varchar_val\<close>, the second and
  third word of a decimal stored in place, and the memory behind \<^verbatim>\<open>dec_words_\<close>.
\<close>

datatype ob_value =
    RawV u64
  | FloatV u32
  | BoolV bool
  | StrV "u8 list option"
  | DecV "u32 list"
  | WordsPtrV "u32 list"

record ob_obj =
  o_type :: int
  o_vscale :: int
  o_op_flag :: int
  o_precision :: int
  o_scale :: int
  o_nwords :: int
  o_val_len :: i32
  o_value :: ob_value

record fp_ops =
  f_zero :: u32
  f_add :: "u32 \<Rightarrow> u32 \<Rightarrow> u32"
  f_sub :: "u32 \<Rightarrow> u32 \<Rightarrow> u32"
  f_abs :: "u32 \<Rightarrow> u32"
  f_less :: "u32 \<Rightarrow> u32 \<Rightarrow> bool"
  f_epsilon :: u32
  d_zero :: u64
  d_add :: "u64 \<Rightarrow> u64 \<Rightarrow> u64"
  d_sub :: "u64 \<Rightarrow> u64 \<Rightarrow> u64"
  d_abs :: "u64 \<Rightarrow> u64"
  d_less :: "u64 \<Rightarrow> u64 \<Rightarrow> bool"
  d_epsilon :: u64

section \<open>Members of the union\<close>

fun raw_val :: "ob_value \<Rightarrow> u64 option" where
  "raw_val (RawV b) = Some b"
| "raw_val _ = None"

fun float_val :: "ob_value \<Rightarrow> u32 option" where
  "float_val (FloatV f) = Some f"
| "float_val (RawV b) = Some (ucast b)"
| "float_val _ = None"

fun bool_val :: "ob_value \<Rightarrow> bool option" where
  "bool_val (BoolV b) = Some b"
| "bool_val (RawV b) = Some (b AND 0xff \<noteq> 0)"
| "bool_val _ = None"

fun varchar_val :: "ob_value \<Rightarrow> u8 list option option" where
  "varchar_val (StrV p) = Some p"
| "varchar_val (RawV b) = (if b = 0 then Some None else None)"
| "varchar_val _ = None"

text \<open>The words a decimal has in place, \<^verbatim>\<open>reinterpret_cast<const uint32_t*>(&val_len_)\<close>.\<close>

fun value_words :: "ob_value \<Rightarrow> u32 list" where
  "value_words (RawV b) = [ucast b, ucast (drop_bit 32 b)]"
| "value_words (DecV ws) = ws"
| "value_words _ = []"

definition inline_words :: "ob_obj \<Rightarrow> u32 list" where
  "inline_words o1 = o_val_len o1 # value_words (o_value o1)"

definition ptr_words :: "ob_obj \<Rightarrow> u32 list option" where
  "ptr_words o1 = (case o_value o1 of WordsPtrV ws \<Rightarrow> Some ws | RawV b \<Rightarrow> if b = 0 then None else Some [] | _ \<Rightarrow> Some [])"

section \<open>Setters and getters\<close>

definition obj_reset :: ob_obj where
  "obj_reset = \<lparr>o_type = 0, o_vscale = 0, o_op_flag = 0, o_precision = 0, o_scale = 0, o_nwords = 0,
     o_val_len = 0, o_value = RawV 0\<rparr>"

definition new_obj :: "int \<Rightarrow> int \<Rightarrow> i32 \<Rightarrow> i64 \<Rightarrow> ob_obj" where
  "new_obj type flag val_len val =
     \<lparr>o_type = type mod 256, o_vscale = 0, o_op_flag = flag mod 4, o_precision = 0, o_scale = 0,
      o_nwords = 0, o_val_len = val_len, o_value = RawV val\<rparr>"

definition set_flag :: "bool \<Rightarrow> ob_obj \<Rightarrow> ob_obj" where
  "set_flag is_add o1 = o1\<lparr>o_op_flag := (if is_add then ADD else INVALID_OP_FLAG)\<rparr>"

definition get_ext :: "ob_obj \<Rightarrow> i64 option" where
  "get_ext o1 = (if o_type o1 = ObExtendType then raw_val (o_value o1) else Some 0)"

definition get_ext_checked :: "ob_obj \<Rightarrow> i64 result option" where
  "get_ext_checked o1 =
     (if o_type o1 = ObExtendType then map_option Ok (raw_val (o_value o1)) else Some (Err OB_OBJ_TYPE_ERROR))"

definition reset_op_flag :: "ob_obj \<Rightarrow> ob_obj" where
  "reset_op_flag o1 =
     (let o1 = (if o_type o1 = ObExtendType \<and> raw_val (o_value o1) = Some (word_of_int OP_NOP)
               then o1\<lparr>o_type := ObNullType\<rparr> else o1)
      in o1\<lparr>o_op_flag := INVALID_OP_FLAG\<rparr>)"

definition get_add :: "ob_obj \<Rightarrow> bool" where
  "get_add o1 \<longleftrightarrow>
     (if o_type o1 \<in> {ObIntType, ObDateTimeType, ObPreciseDateTimeType} then o_op_flag o1 = ADD else False)"

definition get_add_fast :: "ob_obj \<Rightarrow> bool" where
  "get_add_fast o1 \<longleftrightarrow> o_op_flag o1 = ADD"

definition set_add :: "bool \<Rightarrow> ob_obj \<Rightarrow> unit result \<times> ob_obj" where
  "set_add is_add o1 =
     (if o_type o1 \<in> {ObIntType, ObDateTimeType, ObPreciseDateTimeType, ObDecimalType, ObFloatType, ObDoubleType}
      then (Ok (), set_flag is_add o1) else (Err OB_ERROR, o1))"

definition set_type :: "int \<Rightarrow> ob_obj \<Rightarrow> ob_obj" where
  "set_type t o1 = o1\<lparr>o_type := t mod 256\<rparr>"

definition set_int :: "i64 \<Rightarrow> bool \<Rightarrow> ob_obj \<Rightarrow> ob_obj" where
  "set_int v is_add o1 = (set_flag is_add o1)\<lparr>o_type := ObIntType, o_value := RawV v\<rparr>"

definition set_float :: "u32 \<Rightarrow> bool \<Rightarrow> ob_obj \<Rightarrow> ob_obj" where
  "set_float v is_add o1 = (set_flag is_add o1)\<lparr>o_type := ObFloatType, o_value := FloatV v\<rparr>"

definition set_double :: "u64 \<Rightarrow> bool \<Rightarrow> ob_obj \<Rightarrow> ob_obj" where
  "set_double v is_add o1 = (set_flag is_add o1)\<lparr>o_type := ObDoubleType, o_value := RawV v\<rparr>"

definition set_datetime :: "i64 \<Rightarrow> bool \<Rightarrow> ob_obj \<Rightarrow> ob_obj" where
  "set_datetime v is_add o1 = (set_flag is_add o1)\<lparr>o_type := ObDateTimeType, o_value := RawV v\<rparr>"

definition set_precise_datetime :: "i64 \<Rightarrow> bool \<Rightarrow> ob_obj \<Rightarrow> ob_obj" where
  "set_precise_datetime v is_add o1 = (set_flag is_add o1)\<lparr>o_type := ObPreciseDateTimeType, o_value := RawV v\<rparr>"

text \<open>The argument is the \<^verbatim>\<open>ObString\<close>: its memory and its length.\<close>

definition set_varchar :: "u8 list option \<Rightarrow> i32 \<Rightarrow> ob_obj \<Rightarrow> ob_obj" where
  "set_varchar p len o1 =
     o1\<lparr>o_type := ObVarcharType, o_op_flag := INVALID_OP_FLAG, o_value := StrV p, o_val_len := len\<rparr>"

definition set_seq :: "ob_obj \<Rightarrow> ob_obj" where
  "set_seq o1 = o1\<lparr>o_type := ObSeqType, o_op_flag := INVALID_OP_FLAG\<rparr>"

definition set_modifytime :: "i64 \<Rightarrow> ob_obj \<Rightarrow> ob_obj" where
  "set_modifytime v o1 = o1\<lparr>o_type := ObModifyTimeType, o_op_flag := INVALID_OP_FLAG, o_value := RawV v\<rparr>"

definition set_createtime :: "i64 \<Rightarrow> ob_obj \<Rightarrow> ob_obj" where
  "set_createtime v o1 = o1\<lparr>o_type := ObCreateTimeType, o_op_flag := INVALID_OP_FLAG, o_value := RawV v\<rparr>"

definition set_bool :: "bool \<Rightarrow> ob_obj \<Rightarrow> ob_obj" where
  "set_bool v o1 = o1\<lparr>o_type := ObBoolType, o_op_flag := INVALID_OP_FLAG, o_value := BoolV v\<rparr>"

definition set_null :: "ob_obj \<Rightarrow> ob_obj" where
  "set_null o1 = o1\<lparr>o_type := ObNullType, o_op_flag := INVALID_OP_FLAG\<rparr>"

definition is_null :: "ob_obj \<Rightarrow> bool" where
  "is_null o1 \<longleftrightarrow> o_type o1 = ObNullType"

definition set_ext :: "i64 \<Rightarrow> ob_obj \<Rightarrow> ob_obj" where
  "set_ext v o1 = o1\<lparr>o_type := ObExtendType, o_op_flag := INVALID_OP_FLAG, o_value := RawV v\<rparr>"

definition set_min_value :: "ob_obj \<Rightarrow> ob_obj" where
  "set_min_value = set_ext MIN_OBJECT_VALUE"

definition set_max_value :: "ob_obj \<Rightarrow> ob_obj" where
  "set_max_value = set_ext MAX_OBJECT_VALUE"

definition is_valid_type :: "ob_obj \<Rightarrow> bool" where
  "is_valid_type o1 \<longleftrightarrow> \<not> (o_type o1 \<le> ObMinType \<or> o_type o1 \<ge> ObMaxType)"

definition is_min_value :: "ob_obj \<Rightarrow> bool" where
  "is_min_value o1 \<longleftrightarrow> o_type o1 = ObExtendType \<and> raw_val (o_value o1) = Some MIN_OBJECT_VALUE"

definition is_max_value :: "ob_obj \<Rightarrow> bool" where
  "is_max_value o1 \<longleftrightarrow> o_type o1 = ObExtendType \<and> raw_val (o_value o1) = Some MAX_OBJECT_VALUE"

text \<open>The checked getters; the flag is the value of \<^verbatim>\<open>is_add\<close>.\<close>

definition get_typed :: "int \<Rightarrow> (ob_value \<Rightarrow> 'a option) \<Rightarrow> ob_obj \<Rightarrow> ('a \<times> bool) result option" where
  "get_typed t member o1 =
     (if o_type o1 = t then map_option (\<lambda>v. Ok (v, o_op_flag o1 = ADD)) (member (o_value o1))
      else Some (Err OB_OBJ_TYPE_ERROR))"

definition get_int :: "ob_obj \<Rightarrow> (i64 \<times> bool) result option" where
  "get_int = get_typed ObIntType raw_val"

definition get_float :: "ob_obj \<Rightarrow> (u32 \<times> bool) result option" where
  "get_float = get_typed ObFloatType float_val"

definition get_double :: "ob_obj \<Rightarrow> (u64 \<times> bool) result option" where
  "get_double = get_typed ObDoubleType raw_val"

definition get_datetime :: "ob_obj \<Rightarrow> (i64 \<times> bool) result option" where
  "get_datetime = get_typed ObDateTimeType raw_val"

definition get_precise_datetime :: "ob_obj \<Rightarrow> (i64 \<times> bool) result option" where
  "get_precise_datetime = get_typed ObPreciseDateTimeType raw_val"

text \<open>These three return no flag.\<close>

definition get_plain :: "int \<Rightarrow> (ob_value \<Rightarrow> 'a option) \<Rightarrow> ob_obj \<Rightarrow> 'a result option" where
  "get_plain t member o1 =
     (if o_type o1 = t then map_option Ok (member (o_value o1)) else Some (Err OB_OBJ_TYPE_ERROR))"

definition get_createtime :: "ob_obj \<Rightarrow> i64 result option" where
  "get_createtime = get_plain ObCreateTimeType raw_val"

definition get_modifytime :: "ob_obj \<Rightarrow> i64 result option" where
  "get_modifytime = get_plain ObModifyTimeType raw_val"

definition get_bool :: "ob_obj \<Rightarrow> bool result option" where
  "get_bool = get_plain ObBoolType bool_val"

definition need_deep_copy :: "ob_obj \<Rightarrow> bool" where
  "need_deep_copy o1 \<longleftrightarrow> o_type o1 = ObVarcharType"

text \<open>\<^verbatim>\<open>get_varchar\<close>: the string's memory and length; \<^verbatim>\<open>assign_ptr\<close> makes the length zero for null.\<close>

definition get_varchar :: "ob_obj \<Rightarrow> (u8 list option \<times> i32) result option" where
  "get_varchar o1 =
     (if o_type o1 = ObVarcharType
      then map_option (\<lambda>p. Ok (p, if p = None then 0 else o_val_len o1)) (varchar_val (o_value o1))
      else Some (Err OB_OBJ_TYPE_ERROR))"

definition get_timestamp :: "ob_obj \<Rightarrow> i64 result option" where
  "get_timestamp o1 =
     (if o_type o1 = ObDateTimeType then map_option (\<lambda>v. Ok (v * 1000 * 1000)) (raw_val (o_value o1))
      else if o_type o1 \<in> {ObPreciseDateTimeType, ObModifyTimeType, ObCreateTimeType}
      then map_option Ok (raw_val (o_value o1))
      else Some (Err OB_OBJ_TYPE_ERROR))"

definition get_decimal :: "ob_obj \<Rightarrow> (ob_number \<times> bool) result option" where
  "get_decimal o1 =
     (if o_type o1 = ObDecimalType
      then do {
        let nw = o_nwords o1 + 1;
        num \<leftarrow> (if nw \<le> 3 then from_words (o_vscale o1) nw (inline_words o1)
               else do { ws \<leftarrow> ptr_words o1; from_words (o_vscale o1) nw ws });
        Some (Ok (num, o_op_flag o1 = ADD))
      }
      else Some (Err OB_OBJ_TYPE_ERROR))"

definition set_decimal :: "ob_number \<Rightarrow> int \<Rightarrow> int \<Rightarrow> bool \<Rightarrow> ob_obj \<Rightarrow> (unit result \<times> ob_obj) option" where
  "set_decimal num precision scale is_add o1 = do {
     let o1 = (set_flag is_add o1)\<lparr>o_type := ObDecimalType,
       o_precision := precision mod 128, o_scale := scale mod 64\<rparr>;
     r \<leftarrow> round_to num precision scale;
     case r of
       Err e \<Rightarrow> Some (Err e, o1)
     | Ok n \<Rightarrow>
         if nwords n \<le> 3
         then Some (Ok (), o1\<lparr>o_nwords := (nwords n - 1) mod 8, o_vscale := num_vscale n mod 64,
                o_val_len := hd (num_words n),
                o_value := (if nwords n = 1 then o_value o1 else DecV (tl (num_words n)))\<rparr>)
         else Some (Err OB_NOT_IMPLEMENT, o1)
   }"

definition is_true :: "fp_ops \<Rightarrow> ob_obj \<Rightarrow> bool option" where
  "is_true fp o1 =
     (if o_type o1 = ObBoolType then bool_val (o_value o1)
      else if o_type o1 = ObVarcharType then Some (sint (o_val_len o1) > 0)
      else if o_type o1 = ObIntType then map_option (\<lambda>v. v \<noteq> 0) (raw_val (o_value o1))
      else if o_type o1 = ObDecimalType
      then map_option (\<lambda>r. case r of Ok (n, _) \<Rightarrow> \<not> is_zero n | Err _ \<Rightarrow> False) (get_decimal o1)
      else if o_type o1 = ObFloatType
      then map_option (\<lambda>v. f_less fp (f_epsilon fp) (f_abs fp v)) (float_val (o_value o1))
      else if o_type o1 = ObDoubleType
      then map_option (\<lambda>v. d_less fp (d_epsilon fp) (d_abs fp v)) (raw_val (o_value o1))
      else if o_type o1 \<in> {ObDateTimeType, ObPreciseDateTimeType, ObCreateTimeType, ObModifyTimeType}
      then map_option (\<lambda>r. case r of Ok ts \<Rightarrow> ts \<noteq> 0 | Err _ \<Rightarrow> False) (get_timestamp o1)
      else Some False)"

section \<open>Comparison\<close>

text \<open>\<^verbatim>\<open>memcmp\<close> on unsigned bytes, by its sign.\<close>

fun memcmp :: "u8 list \<Rightarrow> u8 list \<Rightarrow> int" where
  "memcmp (a # as) (b # bs) = (if a < b then - 1 else if a > b then 1 else memcmp as bs)"
| "memcmp _ _ = 0"

text \<open>\<^verbatim>\<open>ObString::compare\<close> on the bytes of two strings.\<close>

definition string_compare :: "u8 list \<Rightarrow> u8 list \<Rightarrow> int" where
  "string_compare as bs =
     (let n = min (length as) (length bs); ret = memcmp (take n as) (take n bs)
      in if ret = 0 then int (length as) - int (length bs) else ret)"

definition cmp3 :: "i64 \<Rightarrow> i64 \<Rightarrow> int" where
  "cmp3 a b = (if sint a < sint b then - 1 else if a = b then 0 else 1)"

text \<open>The bytes of a string: the first \<^verbatim>\<open>data_length_\<close> of its memory, which must have that many.\<close>

definition string_bytes :: "u8 list option \<times> i32 \<Rightarrow> u8 list option" where
  "string_bytes = (\<lambda>(p, len).
     let bs = (case p of None \<Rightarrow> [] | Some bs \<Rightarrow> bs) in
     if 0 \<le> sint len \<and> sint len \<le> int (length bs) then Some (take (nat (sint len)) bs) else None)"

definition compare_same_type :: "fp_ops \<Rightarrow> ob_obj \<Rightarrow> ob_obj \<Rightarrow> int option" where
  "compare_same_type fp a b =
     (if o_type a = ObIntType
      then do { x \<leftarrow> raw_val (o_value a); y \<leftarrow> raw_val (o_value b); Some (cmp3 x y) }
      else if o_type a = ObDecimalType
      then do {
        r1 \<leftarrow> get_decimal a;
        r2 \<leftarrow> get_decimal b;
        let n1 = (case r1 of Ok (n, _) \<Rightarrow> n | Err _ \<Rightarrow> new_number);
        let n2 = (case r2 of Ok (n, _) \<Rightarrow> n | Err _ \<Rightarrow> new_number);
        num_compare n1 n2
      }
      else if o_type a = ObVarcharType
      then do {
        r1 \<leftarrow> get_varchar a;
        r2 \<leftarrow> get_varchar b;
        s1 \<leftarrow> string_bytes (case r1 of Ok s \<Rightarrow> s | Err _ \<Rightarrow> (None, 0));
        s2 \<leftarrow> string_bytes (case r2 of Ok s \<Rightarrow> s | Err _ \<Rightarrow> (None, 0));
        Some (string_compare s1 s2)
      }
      else if o_type a = ObFloatType
      then do {
        x \<leftarrow> float_val (o_value a);
        y \<leftarrow> float_val (o_value b);
        Some (if f_less fp (f_abs fp (f_sub fp x y)) (f_epsilon fp) then 0
              else if f_less fp x y then - 1 else 1)
      }
      else if o_type a = ObDoubleType
      then do {
        x \<leftarrow> raw_val (o_value a);
        y \<leftarrow> raw_val (o_value b);
        Some (if d_less fp (d_abs fp (d_sub fp x y)) (d_epsilon fp) then 0
              else if d_less fp x y then - 1 else 1)
      }
      else if o_type a \<in> {ObDateTimeType, ObPreciseDateTimeType, ObCreateTimeType, ObModifyTimeType}
      then do {
        r1 \<leftarrow> get_timestamp a;
        r2 \<leftarrow> get_timestamp b;
        Some (cmp3 (case r1 of Ok t \<Rightarrow> t | Err _ \<Rightarrow> 0) (case r2 of Ok t \<Rightarrow> t | Err _ \<Rightarrow> 0))
      }
      else if o_type a = ObBoolType
      then do {
        x \<leftarrow> bool_val (o_value a);
        y \<leftarrow> bool_val (o_value b);
        Some ((if x then 1 else 0) - (if y then 1 else 0))
      }
      else Some 0)"

definition is_datetime :: "ob_obj \<Rightarrow> bool" where
  "is_datetime o1 \<longleftrightarrow> o_type o1 = ObDateTimeType \<or> o_type o1 = ObPreciseDateTimeType
     \<or> o_type o1 = ObCreateTimeType \<or> o_type o1 = ObModifyTimeType"

definition can_compare :: "ob_obj \<Rightarrow> ob_obj \<Rightarrow> bool" where
  "can_compare a b \<longleftrightarrow>
     o_type a = ObNullType \<or> o_type b = ObNullType \<or> is_min_value a \<or> is_max_value a
     \<or> is_min_value b \<or> is_max_value b \<or> o_type a = o_type b \<or> is_datetime a \<and> is_datetime b"

definition obj_compare :: "fp_ops \<Rightarrow> ob_obj \<Rightarrow> ob_obj \<Rightarrow> int option" where
  "obj_compare fp a b =
     (if \<not> can_compare a b then Some (o_type a - o_type b)
      else if is_min_value a then Some (if is_min_value b then 0 else - 1)
      else if is_max_value a then Some (if is_max_value b then 0 else 1)
      else if o_type a = ObNullType
      then Some (if is_min_value b then 1 else if o_type b = ObNullType then 0 else - 1)
      else if is_min_value b \<or> o_type b = ObNullType then Some 1
      else if is_max_value b then Some (- 1)
      else compare_same_type fp a b)"

definition obj_lt :: "fp_ops \<Rightarrow> ob_obj \<Rightarrow> ob_obj \<Rightarrow> bool option" where
  "obj_lt fp a b = map_option (\<lambda>c. c < 0) (obj_compare fp a b)"

definition obj_gt :: "fp_ops \<Rightarrow> ob_obj \<Rightarrow> ob_obj \<Rightarrow> bool option" where
  "obj_gt fp a b = map_option (\<lambda>c. c > 0) (obj_compare fp a b)"

definition obj_ge :: "fp_ops \<Rightarrow> ob_obj \<Rightarrow> ob_obj \<Rightarrow> bool option" where
  "obj_ge fp a b = map_option (\<lambda>c. c \<ge> 0) (obj_compare fp a b)"

definition obj_le :: "fp_ops \<Rightarrow> ob_obj \<Rightarrow> ob_obj \<Rightarrow> bool option" where
  "obj_le fp a b = map_option (\<lambda>c. c \<le> 0) (obj_compare fp a b)"

definition obj_eq :: "fp_ops \<Rightarrow> ob_obj \<Rightarrow> ob_obj \<Rightarrow> bool option" where
  "obj_eq fp a b = map_option (\<lambda>c. c = 0) (obj_compare fp a b)"

definition obj_ne :: "fp_ops \<Rightarrow> ob_obj \<Rightarrow> ob_obj \<Rightarrow> bool option" where
  "obj_ne fp a b = map_option (\<lambda>c. c \<noteq> 0) (obj_compare fp a b)"

section \<open>Applying a mutation\<close>

text \<open>
  \<^verbatim>\<open>apply\<close> merges a mutation into a cell. The cases of the five types that carry an \<^verbatim>\<open>is_add\<close> flag have
  one shape: a cell that may change type is first set to zero, then the mutation is added or stored.
  \<open>put\<close> is the setter, \<open>add\<close> the addition and \<open>fresh\<close> the test \<^verbatim>\<open>ext_val_can_change || org_is_nop\<close>.
\<close>

type_synonym apply_res = "(unit result \<times> ob_obj) option"

definition apply_sum ::
  "(ob_obj \<Rightarrow> ('a \<times> bool) result option) \<Rightarrow> ('a \<Rightarrow> bool \<Rightarrow> ob_obj \<Rightarrow> ob_obj) \<Rightarrow> ('a \<Rightarrow> 'a \<Rightarrow> 'a) \<Rightarrow> 'a \<Rightarrow>
   bool \<Rightarrow> bool \<Rightarrow> ob_obj \<Rightarrow> ob_obj \<Rightarrow> apply_res" where
  "apply_sum get put add zero fresh org_is_nop mutation o1 = do {
     let o1 = (if fresh then put zero False o1 else o1);
     r \<leftarrow> get o1;
     case r of
       Err e \<Rightarrow> Some (Err e, o1)
     | Ok (v, org_is_add) \<Rightarrow> do {
         m \<leftarrow> get mutation;
         case m of
           Err e \<Rightarrow> Some (Err e, o1)
         | Ok (w, is_add) \<Rightarrow>
             Some (Ok (), put (if is_add then add v w else w) ((org_is_add \<or> org_is_nop) \<and> is_add) o1)
       }
   }"

definition apply_int :: "bool \<Rightarrow> bool \<Rightarrow> ob_obj \<Rightarrow> ob_obj \<Rightarrow> apply_res" where
  "apply_int = apply_sum get_int set_int (+) 0"

definition apply_float :: "fp_ops \<Rightarrow> bool \<Rightarrow> bool \<Rightarrow> ob_obj \<Rightarrow> ob_obj \<Rightarrow> apply_res" where
  "apply_float fp = apply_sum get_float set_float (f_add fp) (f_zero fp)"

definition apply_double :: "fp_ops \<Rightarrow> bool \<Rightarrow> bool \<Rightarrow> ob_obj \<Rightarrow> ob_obj \<Rightarrow> apply_res" where
  "apply_double fp = apply_sum get_double set_double (d_add fp) (d_zero fp)"

definition apply_datetime :: "bool \<Rightarrow> bool \<Rightarrow> ob_obj \<Rightarrow> ob_obj \<Rightarrow> apply_res" where
  "apply_datetime = apply_sum get_datetime set_datetime (+) 0"

definition apply_precise_datetime :: "bool \<Rightarrow> bool \<Rightarrow> ob_obj \<Rightarrow> ob_obj \<Rightarrow> apply_res" where
  "apply_precise_datetime = apply_sum get_precise_datetime set_precise_datetime (+) 0"

definition apply_extend :: "int \<Rightarrow> ob_obj \<Rightarrow> ob_obj \<Rightarrow> apply_res" where
  "apply_extend org_ext mutation o1 = do {
     e \<leftarrow> get_ext mutation;
     if sint e = OP_DEL_ROW \<or> sint e = OP_DEL_TABLE then Some (Ok (), set_null o1)
     else if sint e = OP_ROW_DOES_NOT_EXIST then Some (Ok (), o1)
     else if sint e = OP_NOP
     then Some (Ok (), if org_ext = OP_ROW_DOES_NOT_EXIST \<or> org_ext = OP_DEL_ROW then set_null o1 else o1)
     else Some (Err OB_INVALID_ARGUMENT, o1)
   }"

text \<open>\<open>best\<close> is \<^verbatim>\<open>std::min\<close> for the create time and \<^verbatim>\<open>std::max\<close> for the modify time.\<close>

definition apply_time ::
  "(ob_obj \<Rightarrow> i64 result option) \<Rightarrow> (i64 \<Rightarrow> ob_obj \<Rightarrow> ob_obj) \<Rightarrow> (i64 \<Rightarrow> i64 \<Rightarrow> i64) \<Rightarrow>
   bool \<Rightarrow> ob_obj \<Rightarrow> ob_obj \<Rightarrow> apply_res" where
  "apply_time get put best fresh mutation o1 = do {
     m \<leftarrow> get mutation;
     case m of
       Err e \<Rightarrow> Some (Err e, o1)
     | Ok t \<Rightarrow> do {
         let o1 = (if fresh then put t o1 else o1);
         r \<leftarrow> get o1;
         case r of
           Err e \<Rightarrow> Some (Err e, o1)
         | Ok v \<Rightarrow> Some (Ok (), put (best v t) o1)
       }
   }"

definition smin :: "i64 \<Rightarrow> i64 \<Rightarrow> i64" where
  "smin a b = (if sint b < sint a then b else a)"

definition smax :: "i64 \<Rightarrow> i64 \<Rightarrow> i64" where
  "smax a b = (if sint a < sint b then b else a)"

definition apply_createtime :: "bool \<Rightarrow> ob_obj \<Rightarrow> ob_obj \<Rightarrow> apply_res" where
  "apply_createtime = apply_time get_createtime set_createtime smin"

definition apply_modifytime :: "bool \<Rightarrow> ob_obj \<Rightarrow> ob_obj \<Rightarrow> apply_res" where
  "apply_modifytime = apply_time get_modifytime set_modifytime smax"

text \<open>The code \<^verbatim>\<open>set_decimal\<close> returns is dropped, as in the source.\<close>

definition apply_decimal :: "bool \<Rightarrow> bool \<Rightarrow> ob_obj \<Rightarrow> ob_obj \<Rightarrow> apply_res" where
  "apply_decimal fresh org_is_nop mutation o1 = do {
     r \<leftarrow> (if fresh then Some (Ok (set_zero new_number, False)) else get_decimal o1);
     case r of
       Err e \<Rightarrow> Some (Err e, o1)
     | Ok (num, org_is_add) \<Rightarrow> do {
         m \<leftarrow> get_decimal mutation;
         case m of
           Err e \<Rightarrow> Some (Err e, o1)
         | Ok (mutation_num, is_add) \<Rightarrow> do {
             (err, res) \<leftarrow> (if is_add then num_add num mutation_num new_number
                          else Some (Ok (), mutation_num));
             case err of
               Err e \<Rightarrow> Some (Err e, o1)
             | Ok _ \<Rightarrow> do {
                 (_, o2) \<leftarrow> set_decimal res (o_precision o1) (o_scale o1)
                   ((org_is_add \<or> org_is_nop) \<and> is_add) o1;
                 Some (Ok (), o2)
               }
           }
       }
   }"

definition obj_apply :: "fp_ops \<Rightarrow> ob_obj \<Rightarrow> ob_obj \<Rightarrow> apply_res" where
  "obj_apply fp mutation o1 = do {
     let org_type = o_type o1;
     ext \<leftarrow> get_ext o1;
     let org_ext = sint (ucast ext :: i32);
     let mut_type = o_type mutation;
     if mut_type = ObSeqType \<or> ObMinType \<ge> mut_type \<or> ObMaxType \<le> mut_type
     then Some (Err OB_INVALID_ARGUMENT, o1)
     else if ObExtendType \<noteq> org_type \<and> ObNullType \<noteq> org_type \<and> ObExtendType \<noteq> mut_type
       \<and> ObNullType \<noteq> mut_type \<and> org_type \<noteq> mut_type
     then Some (Err OB_INVALID_ARGUMENT, o1)
     else do {
       let ext_val_can_change = (OP_ROW_DOES_NOT_EXIST = org_ext \<or> ObNullType = org_type);
       let org_is_nop = (OP_NOP = org_ext);
       let fresh = (ext_val_can_change \<or> org_is_nop);
       if mut_type = ObNullType then Some (Ok (), set_null o1)
       else if mut_type = ObVarcharType then Some (Ok (), mutation)
       else if mut_type = ObBoolType then Some (Ok (), mutation)
       else if mut_type = ObIntType then apply_int fresh org_is_nop mutation o1
       else if mut_type = ObFloatType then apply_float fp fresh org_is_nop mutation o1
       else if mut_type = ObDoubleType then apply_double fp fresh org_is_nop mutation o1
       else if mut_type = ObDateTimeType then apply_datetime fresh org_is_nop mutation o1
       else if mut_type = ObPreciseDateTimeType then apply_precise_datetime fresh org_is_nop mutation o1
       else if mut_type = ObExtendType then apply_extend org_ext mutation o1
       else if mut_type = ObCreateTimeType then apply_createtime fresh mutation o1
       else if mut_type = ObModifyTimeType then apply_modifytime fresh mutation o1
       else if mut_type = ObDecimalType then apply_decimal fresh org_is_nop mutation o1
       else Some (Err OB_INVALID_ARGUMENT, o1)
     }
   }"

section \<open>Serialisation\<close>

text \<open>A member that was not stored makes the whole run undefined.\<close>

definition with_member :: "'a option \<Rightarrow> ('a \<Rightarrow> 'b run) \<Rightarrow> 'b run" where
  "with_member v k s = (case v of None \<Rightarrow> None | Some x \<Rightarrow> k x s)"

definition obj_serialize :: "ob_obj \<Rightarrow> unit run" where
  "obj_serialize o1 = tmp_pos
     (let add = (o_op_flag o1 = ADD); v = o_value o1; t = o_type o1 in
      if t = ObNullType then encode_null
      else if t = ObIntType then with_member (raw_val v) (\<lambda>v. encode_int v add)
      else if t = ObVarcharType then with_member (varchar_val v) (\<lambda>p. encode_str p (sint (o_val_len o1)))
      else if t = ObFloatType then with_member (float_val v) (\<lambda>v. encode_float_type v add)
      else if t = ObDoubleType then with_member (raw_val v) (\<lambda>v. encode_double_type v add)
      else if t = ObDateTimeType then with_member (raw_val v) (\<lambda>v. encode_datetime_type v add)
      else if t = ObPreciseDateTimeType then with_member (raw_val v) (\<lambda>v. encode_precise_datetime_type v add)
      else if t = ObModifyTimeType then with_member (raw_val v) encode_modifytime_type
      else if t = ObCreateTimeType then with_member (raw_val v) encode_createtime_type
      else if t = ObSeqType then ret ()
      else if t = ObExtendType then with_member (raw_val v) encode_extend_type
      else if t = ObBoolType then with_member (bool_val v) encode_bool_type
      else if t = ObDecimalType
      then encode_decimal_type add (word_of_int (o_precision o1)) (word_of_int (o_scale o1))
             (word_of_int (o_vscale o1)) (word_of_int (o_nwords o1 + 1))
             (if o_nwords o1 + 1 \<le> 3 then Some (inline_words o1) else ptr_words o1)
      else fail OB_ERR_UNEXPECTED)"

text \<open>
  \<open>deserialize\<close> starts from the reset object; a failed run leaves the object partly filled, which the
  callers do not look at and the model does not return.
\<close>

definition deserialize_decimal :: "ob_obj run" where
  "deserialize_decimal =
     Ob_Prelude.bind (decode_decimal_type (Some (nat MAX_NWORDS))) (\<lambda>(add, p, sc, vs, n, words).
       if sint n > 3 then fail OB_NOT_IMPLEMENT
       else if sint n < 0 then (\<lambda>s. None)
       else ret (obj_reset\<lparr>o_type := ObDecimalType,
         o_op_flag := (if add then ADD else INVALID_OP_FLAG),
         o_precision := uint p mod 128, o_scale := uint sc mod 64, o_vscale := uint vs mod 64,
         o_nwords := (sint n - 1) mod 8,
         o_val_len := (if words = [] then 0 else hd words),
         o_value := (if length words \<le> 1 then RawV 0 else DecV (tl words))\<rparr>))"

text \<open>The pointer \<^verbatim>\<open>decode_str\<close> returns refers to the \<^verbatim>\<open>val_len_\<close> bytes behind it.\<close>

definition deserialize_str :: "i8 \<Rightarrow> ob_obj run" where
  "deserialize_str first_byte s =
     Ob_Prelude.bind (decode_str first_byte) (\<lambda>(p, len) s'.
       case p of
         None \<Rightarrow> fail OB_ERROR s'
       | Some from \<Rightarrow>
           let val_len = (case len of None \<Rightarrow> 0 | Some l \<Rightarrow> l) in
           (case mem_slice s' from (sint val_len) of
              None \<Rightarrow> None
            | Some bs \<Rightarrow> ret (obj_reset\<lparr>o_type := ObVarcharType, o_val_len := val_len, o_value := StrV (Some bs)\<rparr>) s')) s"

definition flagged :: "int \<Rightarrow> ('a \<Rightarrow> ob_value) \<Rightarrow> ('a \<times> bool) run \<Rightarrow> ob_obj run" where
  "flagged t inject m =
     Ob_Prelude.bind m (\<lambda>(v, add). ret (obj_reset\<lparr>o_type := t, o_op_flag := (if add then ADD else INVALID_OP_FLAG),
       o_value := inject v\<rparr>))"

definition unflagged :: "int \<Rightarrow> ('a \<Rightarrow> ob_value) \<Rightarrow> 'a run \<Rightarrow> ob_obj run" where
  "unflagged t inject m = Ob_Prelude.bind m (\<lambda>v. ret (obj_reset\<lparr>o_type := t, o_value := inject v\<rparr>))"

definition deserialize_body :: "i8 \<Rightarrow> ob_obj run" where
  "deserialize_body first_byte =
     (if first_byte = OB_EXTEND_TYPE then unflagged ObExtendType RawV decode_vi64
      else
        let type = drop_bit 6 (first_byte AND 0xc0);
            sub_type = drop_bit 4 (first_byte AND 0x30);
            sub_sub_type = drop_bit 2 (first_byte AND 0x0c);
            sub_sub_sub_type = first_byte AND 0x03
        in if type = 0 \<or> type = 1 then flagged ObIntType RawV (decode_int first_byte)
           else if type = 2 then deserialize_str first_byte
           else if sub_type = 0 then ret obj_reset
           else if sub_type = 1 then flagged ObDateTimeType RawV (decode_datetime_type first_byte)
           else if sub_type = 2 then flagged ObPreciseDateTimeType RawV (decode_precise_datetime_type first_byte)
           else if sub_sub_type = 0 then unflagged ObModifyTimeType RawV (decode_modifytime_type first_byte)
           else if sub_sub_type = 1 then unflagged ObCreateTimeType RawV (decode_createtime_type first_byte)
           else if sub_sub_type = 2
           then (if first_byte AND 0x02 \<noteq> 0 then flagged ObDoubleType RawV (decode_double_type first_byte)
                 else flagged ObFloatType FloatV (decode_float_type first_byte))
           else if sub_sub_sub_type = 0 then ret obj_reset
           else if sub_sub_sub_type = 1 then unflagged ObBoolType BoolV (decode_bool_type first_byte)
           else if sub_sub_sub_type = 3 then deserialize_decimal
           else fail OB_ERR_UNEXPECTED)"

definition obj_deserialize :: "ob_obj run" where
  "obj_deserialize = tmp_pos (Ob_Prelude.bind decode_i8 deserialize_body)"

definition obj_get_serialize_size :: "ob_obj \<Rightarrow> int option" where
  "obj_get_serialize_size o1 =
     (let v = o_value o1; t = o_type o1 in
      if t = ObNullType then Some encoded_length_null
      else if t = ObIntType then map_option encoded_length_int (raw_val v)
      else if t = ObVarcharType then Some (encoded_length_str (sint (o_val_len o1)))
      else if t = ObFloatType then Some encoded_length_float_type
      else if t = ObDoubleType then Some encoded_length_double_type
      else if t = ObDateTimeType then map_option encoded_length_datetime (raw_val v)
      else if t = ObPreciseDateTimeType then map_option encoded_length_precise_datetime (raw_val v)
      else if t = ObModifyTimeType then map_option encoded_length_modifytime (raw_val v)
      else if t = ObCreateTimeType then map_option encoded_length_createtime (raw_val v)
      else if t = ObSeqType then Some 0
      else if t = ObExtendType then map_option encoded_length_extend (raw_val v)
      else if t = ObBoolType then map_option encoded_length_bool_type (bool_val v)
      else if t = ObDecimalType
      then (if o_nwords o1 + 1 \<le> 3
            then encoded_length_decimal_type (word_of_int (o_nwords o1)) (Some (inline_words o1))
            else encoded_length_decimal_type (word_of_int (o_nwords o1 + 1)) (ptr_words o1))
      else Some 0)"

section \<open>Hashes and checksums\<close>

text \<open>
  The four bytes of an \<^verbatim>\<open>ObObjMeta\<close> that is zero but for its type and flag: bit fields are laid out from
  the low bit up.
\<close>

definition meta_bytes :: "int \<Rightarrow> int \<Rightarrow> u8 list" where
  "meta_bytes type op_flag = [word_of_int type, push_bit 6 (word_of_int op_flag), 0, 0]"

text \<open>
  What is hashed after the meta data: nothing, or the memory behind a pointer and a length. The two
  hash functions and the two checksums make the same choice. The result is \<open>None\<close> when a member that was
  not stored is read.
\<close>

definition payload :: "ob_obj \<Rightarrow> (u8 list option \<times> int) option option" where
  "payload o1 =
     (let v = o_value o1; t = o_type o1 in
      if t = ObNullType \<or> t = ObSeqType then Some None
      else if t = ObVarcharType
      then map_option (\<lambda>p. Some (p, sint (o_val_len o1))) (varchar_val v)
      else if t = ObFloatType then map_option (\<lambda>f. Some (Some (le_bytes 4 (ucast f)), 4)) (float_val v)
      else if t = ObBoolType then map_option (\<lambda>b. Some (Some [if b then 1 else 0], 1)) (bool_val v)
      else if t = ObDecimalType
      then Some (Some (map_option (\<lambda>ws. concat (map (\<lambda>w. le_bytes 4 (ucast w)) ws))
             (if o_nwords o1 + 1 \<le> 3 then Some (inline_words o1) else ptr_words o1), 4 * (o_nwords o1 + 1)))
      else map_option (\<lambda>w. Some (Some (le_bytes 8 w), 8)) (raw_val v))"

definition mem_bytes :: "u8 list option \<times> int \<Rightarrow> u8 list option" where
  "mem_bytes = (\<lambda>(p, len).
     let bs = (case p of None \<Rightarrow> [] | Some bs \<Rightarrow> bs) in
     if 0 \<le> len \<and> len \<le> int (length bs) then Some (take (nat len) bs) else None)"

definition hash_with :: "(u8 list \<Rightarrow> 'h \<Rightarrow> 'h) \<Rightarrow> 'h \<Rightarrow> ob_obj \<Rightarrow> 'h \<Rightarrow> 'h option" where
  "hash_with h invalid o1 hash =
     (let result = h (meta_bytes (o_type o1) (o_op_flag o1)) hash in
      if \<not> is_valid_type o1 then Some invalid
      else case payload o1 of
             None \<Rightarrow> None
           | Some None \<Rightarrow> Some result
           | Some (Some m) \<Rightarrow> map_option (\<lambda>bs. h bs result) (mem_bytes m))"

definition obj_murmurhash2 :: "ob_obj \<Rightarrow> u32 \<Rightarrow> u32 option" where
  "obj_murmurhash2 = hash_with murmurhash2 0"

definition obj_murmurhash64A :: "ob_obj \<Rightarrow> u64 \<Rightarrow> u64 option" where
  "obj_murmurhash64A = hash_with murmurhash64A 0"

definition obj_hash :: "ob_obj \<Rightarrow> i64 option" where
  "obj_hash o1 = map_option ucast (obj_murmurhash2 o1 0)"

text \<open>
  The checksums assign the local meta data to itself, \<^verbatim>\<open>meta.type_ = meta.type_\<close>, so four zero bytes go in.
\<close>

definition obj_checksum :: "ob_obj \<Rightarrow> i64 \<Rightarrow> i64 option" where
  "obj_checksum o1 current = do {
     r \<leftarrow> ob_crc64 current (Some (meta_bytes 0 0)) 4;
     if \<not> is_valid_type o1 then Some 0
     else do {
       p \<leftarrow> payload o1;
       case p of None \<Rightarrow> Some r | Some (ptr, len) \<Rightarrow> ob_crc64 r ptr len
     }
   }"

definition obj_checksum_batch :: "ob_obj \<Rightarrow> batch_checksum \<Rightarrow> batch_checksum option" where
  "obj_checksum_batch o1 bc = do {
     bc \<leftarrow> bc_fill (Some (meta_bytes 0 0)) 4 bc;
     if \<not> is_valid_type o1 then Some bc
     else do {
       p \<leftarrow> payload o1;
       case p of None \<Rightarrow> Some bc | Some (ptr, len) \<Rightarrow> bc_fill ptr len bc
     }
   }"

end
