(* ===== verification/Ob_Object_Codec.thy ===== *)
theory Ob_Object_Codec
  imports Ob_Object
begin

text \<open>
  Serialisation of objects. The values an object can stand for are the datatype \<open>scalar\<close>; \<open>obj_abs\<close>
  reads a scalar off an object and \<open>obj_rep\<close> is the object that deserialisation builds for it. Every
  object is written as the bytes of its scalar, and reading those bytes gives the representative back,
  so the two routines form a codec.
\<close>

unbundle bit_operations_syntax

section \<open>The value of an object\<close>

datatype scalar =
    NullS
  | IntS i64 bool
  | FloatS u32 bool
  | DoubleS u64 bool
  | DateTimeS i64 bool
  | PreciseS i64 bool
  | StrS "u8 list"
  | CreateS i64
  | ModifyS i64
  | ExtS i64
  | BoolS bool
  | DecS bool int int int "u32 list"

definition flag_of :: "bool \<Rightarrow> int" where
  "flag_of add = (if add then ADD else INVALID_OP_FLAG)"

fun obj_rep :: "scalar \<Rightarrow> ob_obj" where
  "obj_rep NullS = obj_reset"
| "obj_rep (IntS v add) = obj_reset\<lparr>o_type := ObIntType, o_op_flag := flag_of add, o_value := RawV v\<rparr>"
| "obj_rep (FloatS v add) = obj_reset\<lparr>o_type := ObFloatType, o_op_flag := flag_of add, o_value := FloatV v\<rparr>"
| "obj_rep (DoubleS v add) = obj_reset\<lparr>o_type := ObDoubleType, o_op_flag := flag_of add, o_value := RawV v\<rparr>"
| "obj_rep (DateTimeS v add) = obj_reset\<lparr>o_type := ObDateTimeType, o_op_flag := flag_of add, o_value := RawV v\<rparr>"
| "obj_rep (PreciseS v add) = obj_reset\<lparr>o_type := ObPreciseDateTimeType, o_op_flag := flag_of add, o_value := RawV v\<rparr>"
| "obj_rep (StrS bs) = obj_reset\<lparr>o_type := ObVarcharType, o_val_len := of_nat (length bs), o_value := StrV (Some bs)\<rparr>"
| "obj_rep (CreateS v) = obj_reset\<lparr>o_type := ObCreateTimeType, o_value := RawV v\<rparr>"
| "obj_rep (ModifyS v) = obj_reset\<lparr>o_type := ObModifyTimeType, o_value := RawV v\<rparr>"
| "obj_rep (ExtS v) = obj_reset\<lparr>o_type := ObExtendType, o_value := RawV v\<rparr>"
| "obj_rep (BoolS b) = obj_reset\<lparr>o_type := ObBoolType, o_value := BoolV b\<rparr>"
| "obj_rep (DecS add p sc vs ws) = obj_reset\<lparr>o_type := ObDecimalType, o_op_flag := flag_of add,
     o_precision := p, o_scale := sc, o_vscale := vs, o_nwords := int (length ws) - 1,
     o_val_len := hd ws, o_value := (if length ws \<le> 1 then RawV 0 else DecV (tl ws))\<rparr>"

fun scalar_good :: "scalar \<Rightarrow> bool" where
  "scalar_good (StrS bs) \<longleftrightarrow> length bs < 2 ^ 31"
| "scalar_good (CreateS v) \<longleftrightarrow> 0 \<le> sint v"
| "scalar_good (ModifyS v) \<longleftrightarrow> 0 \<le> sint v"
| "scalar_good (DecS add p sc vs ws) \<longleftrightarrow>
     0 \<le> p \<and> p < 128 \<and> 0 \<le> sc \<and> sc < 64 \<and> 0 \<le> vs \<and> vs < 64 \<and> 1 \<le> length ws \<and> length ws \<le> 3"
| "scalar_good _ \<longleftrightarrow> True"

definition obj_abs :: "ob_obj \<Rightarrow> scalar option" where
  "obj_abs o1 =
     (let add = (o_op_flag o1 = ADD); v = o_value o1; t = o_type o1 in
      if t = ObNullType then Some NullS
      else if t = ObIntType then map_option (\<lambda>v. IntS v add) (raw_val v)
      else if t = ObFloatType then map_option (\<lambda>v. FloatS v add) (float_val v)
      else if t = ObDoubleType then map_option (\<lambda>v. DoubleS v add) (raw_val v)
      else if t = ObDateTimeType then map_option (\<lambda>v. DateTimeS v add) (raw_val v)
      else if t = ObPreciseDateTimeType then map_option (\<lambda>v. PreciseS v add) (raw_val v)
      else if t = ObVarcharType
      then (case v of StrV (Some bs) \<Rightarrow> if sint (o_val_len o1) = int (length bs) then Some (StrS bs) else None
            | _ \<Rightarrow> None)
      else if t = ObCreateTimeType then map_option CreateS (raw_val v)
      else if t = ObModifyTimeType then map_option ModifyS (raw_val v)
      else if t = ObExtendType then map_option ExtS (raw_val v)
      else if t = ObBoolType then map_option BoolS (bool_val v)
      else if t = ObDecimalType
      then (let n = nat (o_nwords o1 + 1) in
            if 1 \<le> n \<and> n \<le> 3 \<and> n \<le> length (inline_words o1)
            then Some (DecS add (o_precision o1) (o_scale o1) (o_vscale o1) (take n (inline_words o1)))
            else None)
      else None)"

fun scalar_bytes :: "scalar \<Rightarrow> u8 list" where
  "scalar_bytes NullS = [OB_NULL_TYPE]"
| "scalar_bytes (IntS v add) = int_bytes (v, add)"
| "scalar_bytes (FloatS v add) = float_head OB_FLOAT_TYPE add # be_bytes 4 v"
| "scalar_bytes (DoubleS v add) = float_head OB_DOUBLE_TYPE add # be_bytes 8 v"
| "scalar_bytes (DateTimeS v add) = datetime_bytes OB_DATETIME_TYPE (v, add)"
| "scalar_bytes (PreciseS v add) = datetime_bytes OB_PRECISE_DATETIME_TYPE (v, add)"
| "scalar_bytes (StrS bs) = str_bytes bs"
| "scalar_bytes (CreateS v) = time_bytes OB_CREATETIME_TYPE v"
| "scalar_bytes (ModifyS v) = time_bytes OB_MODIFYTIME_TYPE v"
| "scalar_bytes (ExtS v) = OB_EXTEND_TYPE # vi_bytes (unat v)"
| "scalar_bytes (BoolS b) = [OB_BOOL_TYPE, if b then 1 else 0]"
| "scalar_bytes (DecS add p sc vs ws) = OB_DECIMAL_TYPE #
     decimal_bytes (add, word_of_int p, word_of_int sc, word_of_int vs, of_nat (length ws), ws)"

definition obj_bytes :: "ob_obj \<Rightarrow> u8 list" where
  "obj_bytes o1 = (case obj_abs o1 of None \<Rightarrow> [] | Some x \<Rightarrow> scalar_bytes x)"

text \<open>The objects whose value is one deserialisation accepts.\<close>

definition obj_good :: "ob_obj \<Rightarrow> bool" where
  "obj_good o1 \<longleftrightarrow> (case obj_abs o1 of None \<Rightarrow> False | Some x \<Rightarrow> scalar_good x)"

lemma flag_of_simps [simp]:
  "flag_of add = 1 \<longleftrightarrow> add" "ADD = 1" "INVALID_OP_FLAG = 0"
  by (simp_all add: flag_of_def ADD_def INVALID_OP_FLAG_def)

lemma length_obj_rep_words: "length ws = 1 \<Longrightarrow> [hd ws] = ws"
  by (cases ws) auto

lemma obj_abs_rep: "scalar_good x \<Longrightarrow> obj_abs (obj_rep x) = Some x"
  by (cases x)
    (auto simp: obj_abs_def obj_reset_def inline_words_def Let_def Suc_le_eq length_obj_rep_words le_Suc_eq)

section \<open>Writing\<close>

fun scalar_enc :: "scalar \<Rightarrow> unit run" where
  "scalar_enc NullS = encode_null"
| "scalar_enc (IntS v add) = encode_int v add"
| "scalar_enc (FloatS v add) = encode_float_type v add"
| "scalar_enc (DoubleS v add) = encode_double_type v add"
| "scalar_enc (DateTimeS v add) = encode_datetime_type v add"
| "scalar_enc (PreciseS v add) = encode_precise_datetime_type v add"
| "scalar_enc (StrS bs) = encode_str (Some bs) (int (length bs))"
| "scalar_enc (CreateS v) = encode_createtime_type v"
| "scalar_enc (ModifyS v) = encode_modifytime_type v"
| "scalar_enc (ExtS v) = encode_extend_type v"
| "scalar_enc (BoolS b) = encode_bool_type b"
| "scalar_enc (DecS add p sc vs ws) = encode_decimal_type add (word_of_int p) (word_of_int sc) (word_of_int vs)
     (of_nat (length ws)) (Some ws)"

lemma encode_decimal_type_take:
  "nat (sint n) \<le> length ws \<Longrightarrow>
   encode_decimal_type add p sc vs n (Some ws) = encode_decimal_type add p sc vs n (Some (take (nat (sint n)) ws))"
  by (rule ext) (simp add: encode_decimal_type_def)

lemma with_member_Some [simp]: "with_member (Some v) k = k v"
  by (rule ext) (simp add: with_member_def)

lemma small_nat_word: "n \<le> 3 \<Longrightarrow> nat (sint (of_nat n :: i8)) = n"
  by (simp add: numeral_eq_Suc le_Suc_eq) auto

lemma obj_serialize_decimal:
  assumes "o_type o1 = ObDecimalType" "obj_abs o1 = Some x"
  shows "obj_serialize o1 = tmp_pos (scalar_enc x)"
proof -
  define n where "n = nat (o_nwords o1 + 1)"
  have n: "1 \<le> n" "n \<le> 3" "n \<le> length (inline_words o1)" "o_nwords o1 + 1 = int n"
    and x: "x = DecS (o_op_flag o1 = ADD) (o_precision o1) (o_scale o1) (o_vscale o1) (take n (inline_words o1))"
    using assms by (auto simp: obj_abs_def Let_def n_def split: if_splits)
  have "encode_decimal_type a p sc vs (of_nat n) (Some (inline_words o1)) =
      encode_decimal_type a p sc vs (of_nat n) (Some (take n (inline_words o1)))" for a p sc vs
    using encode_decimal_type_take [of "of_nat n" "inline_words o1"] n by (simp add: small_nat_word)
  then show ?thesis using assms(1) n by (simp add: obj_serialize_def Let_def x)
qed

lemma obj_serialize_eq:
  assumes "obj_abs o1 = Some x"
  shows "obj_serialize o1 = tmp_pos (scalar_enc x)"
proof (cases "o_type o1 = ObDecimalType")
  case True
  then show ?thesis using assms by (rule obj_serialize_decimal)
next
  case False
  then show ?thesis
    using assms by (auto simp: obj_abs_def obj_serialize_def Let_def split: if_splits option.splits ob_value.splits)
qed

lemma scalar_enc_spec:
  assumes "scalar_good x"
  shows "emits (scalar_enc x) (scalar_bytes x) \<and> refuses (scalar_enc x) (length (scalar_bytes x))"
proof (cases x)
  case (IntS v add)
  then show ?thesis using int.enc_emits [of "(v, add)"] int.enc_refuses [of "(v, add)"] assms by simp
next
  case (FloatS v add)
  then show ?thesis using float_type.enc_emits [of "(v, add)"] float_type.enc_refuses [of "(v, add)"] assms by simp
next
  case (DoubleS v add)
  then show ?thesis using double_type.enc_emits [of "(v, add)"] double_type.enc_refuses [of "(v, add)"] assms by simp
next
  case (DateTimeS v add)
  then show ?thesis using datetime.enc_emits [of "(v, add)"] datetime.enc_refuses [of "(v, add)"] assms by simp
next
  case (PreciseS v add)
  then show ?thesis using precise_datetime.enc_emits [of "(v, add)"] precise_datetime.enc_refuses [of "(v, add)"] assms by simp
next
  case (CreateS v)
  then show ?thesis using createtime.enc_emits [of v] createtime.enc_refuses [of v] assms by simp
next
  case (ModifyS v)
  then show ?thesis using modifytime.enc_emits [of v] modifytime.enc_refuses [of v] assms by simp
next
  case (ExtS v)
  then show ?thesis using extend.enc_emits [of v] extend.enc_refuses [of v] assms by simp
next
  case (BoolS b)
  then show ?thesis using bool_type.enc_emits [of b] bool_type.enc_refuses [of b] assms by simp
next
  case NullS
  then show ?thesis using null.enc_emits null.enc_refuses assms by simp
next
  case (StrS bs)
  then show ?thesis using encode_str_emits [of bs] encode_str_refuses [of bs] assms by simp
next
  case (DecS add p sc vs ws)
  then show ?thesis
    using encode_decimal_type_emits [of "of_nat (length ws)" ws add "word_of_int p" "word_of_int sc" "word_of_int vs"]
      encode_decimal_type_refuses [of "of_nat (length ws)" ws add "word_of_int p" "word_of_int sc" "word_of_int vs"] assms
    by (simp add: small_nat_word)
qed

section \<open>Reading\<close>

lemma reads_then: "reads m bs v \<Longrightarrow> f v = ret w \<Longrightarrow> reads (Ob_Prelude.bind m f) bs w"
  by (simp add: reads_def Ob_Prelude.bind_def ret_def)

lemma flagged_reads:
  "reads m bs (v, add) \<Longrightarrow>
   reads (flagged t inject m) bs (obj_reset\<lparr>o_type := t, o_op_flag := flag_of add, o_value := inject v\<rparr>)"
  unfolding flagged_def flag_of_def
  using reads_bind_ret [of m bs "(v, add)"
      "\<lambda>(v, add). obj_reset\<lparr>o_type := t, o_op_flag := (if add then ADD else INVALID_OP_FLAG), o_value := inject v\<rparr>"]
  by (simp add: case_prod_beta')

lemma unflagged_reads:
  "reads m bs v \<Longrightarrow> reads (unflagged t inject m) bs (obj_reset\<lparr>o_type := t, o_value := inject v\<rparr>)"
  unfolding unflagged_def by (rule reads_bind_ret)

text \<open>How the first byte selects the reader.\<close>

lemma top_bits: "drop_bit 6 (fb AND 0xc0) = drop_bit 6 (fb :: u8)"
proof -
  have eq: "(0xc0 :: u8) = NOT (mask 6)" by (simp add: mask_eq_exp_minus_1)
  show ?thesis
    unfolding eq by (intro bit_word_eqI) (auto simp: bit_simps dest: bit_imp_le_length)
qed

lemma top_bits_value: "drop_bit 6 (fb :: u8) = (if bit fb 7 then 2 else 0) + (if bit fb 6 then 1 else 0)"
proof -
  have "drop_bit 6 fb = (if bit fb 7 then 2 else 0) OR (if bit fb 6 then 1 else 0)"
    by (intro bit_word_eqI) (auto simp: bit_simps less_Suc_eq numeral_eq_Suc dest: bit_imp_le_length)
  then show ?thesis by simp
qed

lemma deserialize_body_int:
  assumes "\<not> bit fb 7"
  shows "deserialize_body fb = flagged ObIntType RawV (decode_int fb)"
proof -
  have "fb \<noteq> OB_EXTEND_TYPE" using assms by (auto simp: OB_EXTEND_TYPE_def)
  then show ?thesis using assms by (simp add: deserialize_body_def Let_def top_bits top_bits_value)
qed

lemma deserialize_body_str:
  assumes "bit fb 7" "\<not> bit fb 6"
  shows "deserialize_body fb = deserialize_str fb"
proof -
  have "fb \<noteq> OB_EXTEND_TYPE" using assms by (auto simp: OB_EXTEND_TYPE_def)
  then show ?thesis using assms by (simp add: deserialize_body_def Let_def top_bits top_bits_value)
qed

lemma deserialize_body_datetime:
  "deserialize_body (time_head (dt_head OB_DATETIME_TYPE neg add) a) =
     flagged ObDateTimeType RawV (decode_datetime_type (time_head (dt_head OB_DATETIME_TYPE neg add) a))"
  "deserialize_body (time_head (dt_head OB_PRECISE_DATETIME_TYPE neg add) a) =
     flagged ObPreciseDateTimeType RawV
       (decode_precise_datetime_type (time_head (dt_head OB_PRECISE_DATETIME_TYPE neg add) a))"
  by (simp_all add: deserialize_body_def Let_def time_head_def dt_head_def set_bit8_def OB_BIT_defs OB_TYPE_defs)

lemma deserialize_body_time:
  "deserialize_body (time_head OB_MODIFYTIME_TYPE a) =
     unflagged ObModifyTimeType RawV (decode_modifytime_type (time_head OB_MODIFYTIME_TYPE a))"
  "deserialize_body (time_head OB_CREATETIME_TYPE a) =
     unflagged ObCreateTimeType RawV (decode_createtime_type (time_head OB_CREATETIME_TYPE a))"
  by (simp_all add: deserialize_body_def Let_def time_head_def OB_TYPE_defs)

lemma deserialize_body_float:
  "deserialize_body (float_head OB_FLOAT_TYPE add) =
     flagged ObFloatType FloatV (decode_float_type (float_head OB_FLOAT_TYPE add))"
  "deserialize_body (float_head OB_DOUBLE_TYPE add) =
     flagged ObDoubleType RawV (decode_double_type (float_head OB_DOUBLE_TYPE add))"
  by (simp_all add: deserialize_body_def Let_def float_head_def set_bit8_def OB_BIT_defs OB_TYPE_defs)

lemma deserialize_body_other:
  "deserialize_body OB_NULL_TYPE = ret obj_reset"
  "deserialize_body OB_EXTEND_TYPE = unflagged ObExtendType RawV decode_vi64"
  "deserialize_body OB_BOOL_TYPE = unflagged ObBoolType BoolV (decode_bool_type OB_BOOL_TYPE)"
  "deserialize_body OB_DECIMAL_TYPE = deserialize_decimal"
  by (simp_all add: deserialize_body_def Let_def OB_TYPE_defs)

lemma int_head_bit7: "m < 32 \<Longrightarrow> \<not> bit (int_head neg add m) 7"
proof -
  assume "m < 32"
  then have "\<not> bit (of_nat m :: u8) 7"
    using bit_take_bit_iff [of 5 m 7] by (simp add: bit_simps take_bit_nat_eq_self)
  then show ?thesis by (simp add: int_head_def bit_simps)
qed

lemma str_head_bits:
  assumes "m \<le> 63"
  shows "bit (0x80 OR of_nat m :: u8) 7" "\<not> bit (0x80 OR of_nat m :: u8) 6"
  using less_64_bits [of m 6] assms by (auto simp: bit_simps)

lemma mem_slice_holds:
  "holds (as @ bs) s \<Longrightarrow> mem_slice s (pos s + int (length as)) (int (length bs)) = Some bs"
proof -
  assume h: "holds (as @ bs) s"
  obtain m p where "mem s = Some m" "blen s = int (length m)" "pos s = int p"
      "p + length as + length bs \<le> length m"
    using holds_room [OF h] by (auto elim!: roomE)
  moreover have "holds bs (adv (length as) s)" using h by (simp add: holds_append)
  ultimately show ?thesis by (simp add: mem_slice_def holds_def rest_def nat_add_distrib)
qed

lemma deserialize_str_reads:
  assumes "length bs < 2 ^ 31" "str_bytes bs = fb # ds"
  shows "reads (deserialize_str fb) ds (obj_rep (StrS bs))"
proof (rule readsI)
  fix s assume h: "holds ds s"
  obtain as where ds: "ds = as @ bs" using assms(2) by (auto simp: str_bytes_def Let_def)
  have "mem_slice (adv (length ds) s) (pos s + int (length as)) (int (length bs)) = Some bs"
    using mem_slice_holds [of as bs s] h ds by (simp add: mem_slice_def adv_def)
  moreover have "sint (of_nat (length bs) :: i32) = int (length bs)"
    using assms(1) by simp
  ultimately show "deserialize_str fb s = Some (Ok (obj_rep (StrS bs)), adv (length ds) s)"
    using decode_str_holds [OF assms h] ds
    by (simp add: deserialize_str_def Ob_Prelude.bind_def ret_def)
qed

lemma deserialize_decimal_reads:
  assumes "scalar_good (DecS add p sc vs ws)"
  shows "reads deserialize_decimal
     (decimal_bytes (add, word_of_int p, word_of_int sc, word_of_int vs, of_nat (length ws), ws))
     (obj_rep (DecS add p sc vs ws))"
proof -
  define n where "n = length ws"
  have n: "1 \<le> n" "n \<le> 3" "sint (of_nat n :: i8) = int n" "nat (sint (of_nat n :: i8)) = n"
    using assms by (auto simp: n_def le_Suc_eq numeral_eq_Suc)
  have f: "uint (word_of_int p :: i8) mod 128 = p" "uint (word_of_int sc :: i8) mod 64 = sc"
    "uint (word_of_int vs :: i8) mod 64 = vs"
    using assms by (auto simp: unsigned_of_int take_bit_eq_mod)
  have "reads (decode_decimal_type (Some (nat MAX_NWORDS)))
     (decimal_bytes (add, word_of_int p, word_of_int sc, word_of_int vs, of_nat n, ws))
     (add, word_of_int p, word_of_int sc, word_of_int vs, of_nat n, ws)"
    by (rule decode_decimal_type_reads) (use n in \<open>auto simp: n_def MAX_NWORDS_def\<close>)
  then show ?thesis
    unfolding deserialize_decimal_def n_def [symmetric]
    by (rule reads_then) (use n in \<open>auto simp: f n_def flag_of_def intro!: arg_cong [of _ _ ret]\<close>)
qed

lemma deserialize_body_reads:
  assumes "scalar_good x" "scalar_bytes x = fb # ds"
  shows "reads (deserialize_body fb) ds (obj_rep x)"
proof (cases x)
  case NullS
  then show ?thesis using assms by (auto simp: deserialize_body_other reads_ret)
next
  case (IntS v add)
  moreover from this have "\<not> bit fb 7"
    using assms int_head_bit7 [OF int_mark_less] by (auto simp: int_bytes_def Let_def)
  ultimately show ?thesis
    using assms flagged_reads [OF decode_int_reads [of v add fb ds], of ObIntType RawV] by (simp add: deserialize_body_int)
next
  case (FloatS v add)
  then show ?thesis
    using assms flagged_reads [OF decode_float_type_reads [of add v], of ObFloatType FloatV]
    by (auto simp: deserialize_body_float)
next
  case (DoubleS v add)
  then show ?thesis
    using assms flagged_reads [OF decode_double_type_reads [of add v], of ObDoubleType RawV]
    by (auto simp: deserialize_body_float)
next
  case (DateTimeS v add)
  then show ?thesis
    using assms flagged_reads [OF decode_datetime_type_reads [of v add fb ds], of ObDateTimeType RawV]
    by (auto simp: datetime_bytes_def time_bytes_def Let_def deserialize_body_datetime)
next
  case (PreciseS v add)
  then show ?thesis
    using assms flagged_reads [OF decode_precise_datetime_type_reads [of v add fb ds], of ObPreciseDateTimeType RawV]
    by (auto simp: datetime_bytes_def time_bytes_def Let_def deserialize_body_datetime)
next
  case (StrS bs)
  moreover from this have "bit fb 7 \<and> \<not> bit fb 6"
    using assms str_head_bits [of "if length bs \<le> 55 then length bs else 55 + str_len_width (length bs)"]
      str_len_width_facts(1) [of "length bs"]
    by (auto simp: str_bytes_def Let_def split: if_splits)
  ultimately show ?thesis
    using assms deserialize_str_reads [of bs fb ds] by (simp add: deserialize_body_str)
next
  case (CreateS v)
  then show ?thesis
    using assms unflagged_reads [OF decode_createtime_type_reads [of v fb ds], of ObCreateTimeType RawV]
    by (auto simp: time_bytes_def Let_def deserialize_body_time)
next
  case (ModifyS v)
  then show ?thesis
    using assms unflagged_reads [OF decode_modifytime_type_reads [of v fb ds], of ObModifyTimeType RawV]
    by (auto simp: time_bytes_def Let_def deserialize_body_time)
next
  case (ExtS v)
  then show ?thesis
    using assms unflagged_reads [OF vi64.dec_reads [of v], of ObExtendType RawV] by (auto simp: deserialize_body_other)
next
  case (BoolS b)
  then show ?thesis
    using assms unflagged_reads [OF decode_bool_type_reads [of OB_BOOL_TYPE b], of ObBoolType BoolV]
    by (auto simp: deserialize_body_other)
next
  case (DecS add p sc vs ws)
  then show ?thesis
    using assms deserialize_decimal_reads [of add p sc vs ws] by (auto simp: deserialize_body_other)
qed

lemma scalar_bytes_Cons: "\<exists>fb ds. scalar_bytes x = fb # ds"
  by (cases x) (auto simp: int_bytes_def datetime_bytes_def time_bytes_def str_bytes_def Let_def)

section \<open>The codec\<close>

lemma obj_emits:
  "obj_abs o1 = Some x \<Longrightarrow> scalar_good x \<Longrightarrow> emits (obj_serialize o1) (scalar_bytes x)"
  by (simp add: obj_serialize_eq emits_tmp_pos scalar_enc_spec)

lemma obj_refuses:
  "obj_abs o1 = Some x \<Longrightarrow> scalar_good x \<Longrightarrow> refuses (obj_serialize o1) (length (scalar_bytes x))"
  by (simp add: obj_serialize_eq refuses_tmp_pos scalar_enc_spec)

lemma obj_reads: "scalar_good x \<Longrightarrow> reads obj_deserialize (scalar_bytes x) (obj_rep x)"
  using scalar_bytes_Cons [of x] deserialize_body_reads [of x]
  by (auto simp: obj_deserialize_def intro!: reads_tmp_pos reads_first)

text \<open>The objects that deserialisation builds: a codec on objects, up to nothing.\<close>

definition obj_canonical :: "ob_obj \<Rightarrow> bool" where
  "obj_canonical o1 \<longleftrightarrow> (case obj_abs o1 of None \<Rightarrow> False | Some x \<Rightarrow> scalar_good x \<and> obj_rep x = o1)"

interpretation obj: codec obj_serialize obj_deserialize obj_bytes obj_canonical
proof
  fix o1 assume "obj_canonical o1"
  then obtain x where x: "obj_abs o1 = Some x" "scalar_good x" "obj_rep x = o1" "obj_bytes o1 = scalar_bytes x"
    by (auto simp: obj_canonical_def obj_bytes_def split: option.splits)
  then show "emits (obj_serialize o1) (obj_bytes o1)" "refuses (obj_serialize o1) (length (obj_bytes o1))"
    "reads obj_deserialize (obj_bytes o1) o1"
    using obj_emits obj_refuses obj_reads [of x] by simp_all
qed

section \<open>The announced size\<close>

lemma obj_size:
  assumes "obj_abs o1 = Some x" "scalar_good x" "o_type o1 \<noteq> ObDecimalType"
  shows "obj_get_serialize_size o1 = Some (int (length (scalar_bytes x)))"
  using assms
  by (auto simp: obj_abs_def obj_get_serialize_size_def Let_def encoded_length_null_def encoded_length_bool_type_def
      encoded_length_float_type_def encoded_length_double_type_def encoded_length_precise_datetime_def
      encoded_length_modifytime_def encoded_length_createtime_def encoded_length_datetime_eq [where fb = 0] encoded_length_bool_def
      encoded_length_int_eq [where add = "o_op_flag o1 = 1"] encoded_length_extend_eq encoded_length_str_eq datetime_bytes_def
      split: if_splits option.splits ob_value.splits)

text \<open>For a decimal the number of words is passed one too small: the last word is left out.\<close>

lemma obj_size_decimal:
  assumes "obj_abs o1 = Some (DecS add p sc vs ws)"
  shows "obj_get_serialize_size o1 =
    Some (int (length (scalar_bytes (DecS add p sc vs ws))) - int (length (vi_bytes (unat (last ws)))))"
proof -
  define k where "k = nat (o_nwords o1)"
  have t: "o_type o1 = ObDecimalType" and k: "k \<le> 2" "k < length (inline_words o1)"
    "o_nwords o1 = int k" "ws = take (Suc k) (inline_words o1)"
    using assms by (auto simp: obj_abs_def Let_def k_def nat_add_distrib split: if_splits option.splits ob_value.splits)
  have len: "encoded_length_decimal_type (of_nat k) (Some (inline_words o1)) =
     Some (6 + int (length (concat (map (\<lambda>w. vi_bytes (unat w)) (take k (inline_words o1))))))"
    using encoded_length_decimal_type_eq [of "of_nat k" "inline_words o1"] k
    by (simp add: small_nat_word decimal_bytes_def)
  have ws: "ws = take k (inline_words o1) @ [inline_words o1 ! k]"
    using k by (simp add: take_Suc_conv_app_nth)
  show ?thesis
    using len t k(1,3) unfolding ws
    by (simp add: obj_get_serialize_size_def Let_def decimal_bytes_def)
qed

end
