(* ===== verification/Ob_Object_Apply.thy ===== *)
theory Ob_Object_Apply
  imports Ob_Object_Codec
begin

text \<open>
  \<^verbatim>\<open>ObObj::apply\<close> refines a merge of abstract values: \<open>merge_result fp c x\<close> is what a cell of value \<open>c\<close> becomes under the mutation \<open>x\<close>, or
  the error the code returns. A mutation that is a decimal is left out: the code drops the error of storing it. On the
  types whose addition is exact, merging is associative, so mutations may be combined before they are applied to the cell, which is what
  the update server does when it compacts the changes of a row.
\<close>

section \<open>The merge\<close>

text \<open>The code of an extend value as \<^verbatim>\<open>apply\<close> keeps it, in an \<^verbatim>\<open>int\<close>, and the cells that have no value yet.\<close>

definition ext_code :: "scalar \<Rightarrow> int" where
  "ext_code c = sint (ucast (case c of ExtS e \<Rightarrow> e | _ \<Rightarrow> 0) :: i32)"

definition nop_cell :: "scalar \<Rightarrow> bool" where
  "nop_cell c \<longleftrightarrow> ext_code c = OP_NOP"

definition unset_cell :: "scalar \<Rightarrow> bool" where
  "unset_cell c \<longleftrightarrow> c = NullS \<or> ext_code c = OP_ROW_DOES_NOT_EXIST \<or> nop_cell c"

text \<open>What a value becomes in such a cell: under \<^verbatim>\<open>NOP\<close> an increment stays an increment, otherwise it is counted from zero.\<close>

fun begin_value :: "fp_ops \<Rightarrow> bool \<Rightarrow> scalar \<Rightarrow> scalar" where
  "begin_value fp nop (IntS v add) = IntS v (nop \<and> add)"
| "begin_value fp nop (FloatS v add) = FloatS (if add then f_add fp (f_zero fp) v else v) (nop \<and> add)"
| "begin_value fp nop (DoubleS v add) = DoubleS (if add then d_add fp (d_zero fp) v else v) (nop \<and> add)"
| "begin_value fp nop (DateTimeS v add) = DateTimeS v (nop \<and> add)"
| "begin_value fp nop (PreciseS v add) = PreciseS v (nop \<and> add)"
| "begin_value fp nop x = x"

text \<open>What it becomes in a cell that has a value of its type.\<close>

definition join_value :: "fp_ops \<Rightarrow> scalar \<Rightarrow> scalar \<Rightarrow> scalar result" where
  "join_value fp c x =
     (case (c, x) of
        (IntS v f, IntS w add) \<Rightarrow> Ok (IntS (if add then v + w else w) (f \<and> add))
      | (FloatS v f, FloatS w add) \<Rightarrow> Ok (FloatS (if add then f_add fp v w else w) (f \<and> add))
      | (DoubleS v f, DoubleS w add) \<Rightarrow> Ok (DoubleS (if add then d_add fp v w else w) (f \<and> add))
      | (DateTimeS v f, DateTimeS w add) \<Rightarrow> Ok (DateTimeS (if add then v + w else w) (f \<and> add))
      | (PreciseS v f, PreciseS w add) \<Rightarrow> Ok (PreciseS (if add then v + w else w) (f \<and> add))
      | (CreateS v, CreateS w) \<Rightarrow> Ok (CreateS (smin v w))
      | (ModifyS v, ModifyS w) \<Rightarrow> Ok (ModifyS (smax v w))
      | (StrS v, StrS w) \<Rightarrow> Ok (StrS w)
      | (BoolS v, BoolS w) \<Rightarrow> Ok (BoolS w)
      | _ \<Rightarrow> Err OB_INVALID_ARGUMENT)"

text \<open>A cell with another extend code takes strings and Booleans and refuses all other values.\<close>

fun over_extend :: "scalar \<Rightarrow> scalar result" where
  "over_extend (StrS w) = Ok (StrS w)"
| "over_extend (BoolS w) = Ok (BoolS w)"
| "over_extend x = Err OB_OBJ_TYPE_ERROR"

definition merge_result :: "fp_ops \<Rightarrow> scalar \<Rightarrow> scalar \<Rightarrow> scalar result" where
  "merge_result fp c x =
     (case x of
        NullS \<Rightarrow> Ok NullS
      | ExtS e \<Rightarrow>
          if sint e = OP_DEL_ROW \<or> sint e = OP_DEL_TABLE then Ok NullS
          else if sint e = OP_ROW_DOES_NOT_EXIST then Ok c
          else if sint e = OP_NOP
          then Ok (if ext_code c = OP_ROW_DOES_NOT_EXIST \<or> ext_code c = OP_DEL_ROW then NullS else c)
          else Err OB_INVALID_ARGUMENT
      | _ \<Rightarrow>
          if unset_cell c then Ok (begin_value fp (nop_cell c) x)
          else (case c of ExtS e \<Rightarrow> over_extend x | _ \<Rightarrow> join_value fp c x))"

section \<open>Refinement\<close>

fun scalar_type :: "scalar \<Rightarrow> int" where
  "scalar_type NullS = ObNullType"
| "scalar_type (IntS v add) = ObIntType"
| "scalar_type (FloatS v add) = ObFloatType"
| "scalar_type (DoubleS v add) = ObDoubleType"
| "scalar_type (DateTimeS v add) = ObDateTimeType"
| "scalar_type (PreciseS v add) = ObPreciseDateTimeType"
| "scalar_type (StrS bs) = ObVarcharType"
| "scalar_type (CreateS v) = ObCreateTimeType"
| "scalar_type (ModifyS v) = ObModifyTimeType"
| "scalar_type (ExtS e) = ObExtendType"
| "scalar_type (BoolS b) = ObBoolType"
| "scalar_type (DecS add p sc vs ws) = ObDecimalType"

lemma obj_abs_type: "obj_abs o1 = Some x \<Longrightarrow> o_type o1 = scalar_type x"
  by (auto simp: obj_abs_def Let_def split: if_splits ob_value.splits option.splits)

lemma obj_abs_get_ext: "obj_abs o1 = Some x \<Longrightarrow> get_ext o1 = Some (case x of ExtS e \<Rightarrow> e | _ \<Rightarrow> 0)"
  by (auto simp: obj_abs_def get_ext_def Let_def split: if_splits ob_value.splits option.splits)

lemma obj_abs_iff:
  "obj_abs o1 = Some NullS \<longleftrightarrow> o_type o1 = ObNullType"
  "obj_abs o1 = Some (IntS v f) \<longleftrightarrow> o_type o1 = ObIntType \<and> raw_val (o_value o1) = Some v \<and> f = (o_op_flag o1 = 1)"
  "obj_abs o1 = Some (DateTimeS v f) \<longleftrightarrow> o_type o1 = ObDateTimeType \<and> raw_val (o_value o1) = Some v \<and> f = (o_op_flag o1 = 1)"
  "obj_abs o1 = Some (PreciseS v f) \<longleftrightarrow>
     o_type o1 = ObPreciseDateTimeType \<and> raw_val (o_value o1) = Some v \<and> f = (o_op_flag o1 = 1)"
  "obj_abs o1 = Some (CreateS v) \<longleftrightarrow> o_type o1 = ObCreateTimeType \<and> raw_val (o_value o1) = Some v"
  "obj_abs o1 = Some (ModifyS v) \<longleftrightarrow> o_type o1 = ObModifyTimeType \<and> raw_val (o_value o1) = Some v"
  "obj_abs o1 = Some (ExtS v) \<longleftrightarrow> o_type o1 = ObExtendType \<and> raw_val (o_value o1) = Some v"
  by (auto simp: obj_abs_def Let_def split: if_splits ob_value.splits option.splits)

lemma obj_abs_iff_float:
  "obj_abs o1 = Some (FloatS v32 f) \<longleftrightarrow> o_type o1 = ObFloatType \<and> float_val (o_value o1) = Some v32 \<and> f = (o_op_flag o1 = 1)"
  "obj_abs o1 = Some (DoubleS v f) \<longleftrightarrow> o_type o1 = ObDoubleType \<and> raw_val (o_value o1) = Some v \<and> f = (o_op_flag o1 = 1)"
  by (auto simp: obj_abs_def Let_def split: if_splits ob_value.splits option.splits)

lemmas get_defs = get_int_def get_float_def get_double_def get_datetime_def get_precise_datetime_def get_createtime_def get_modifytime_def
  get_typed_def get_plain_def
lemmas set_defs = set_int_def set_float_def set_double_def set_datetime_def set_precise_datetime_def set_createtime_def set_modifytime_def
  set_null_def set_flag_def

text \<open>The types with an increment: a constructor with its getter and setter.\<close>

locale flagged_type =
  fixes mk :: "'v \<Rightarrow> bool \<Rightarrow> scalar" and get :: "ob_obj \<Rightarrow> ('v \<times> bool) result option"
    and put :: "'v \<Rightarrow> bool \<Rightarrow> ob_obj \<Rightarrow> ob_obj"
  assumes get_abs: "obj_abs o1 = Some (mk v f) \<Longrightarrow> get o1 = Some (Ok (v, f))"
    and put_abs: "obj_abs (put v f o1) = Some (mk v f)"
    and get_other: "o_type o1 = ObExtendType \<Longrightarrow> get o1 = Some (Err OB_OBJ_TYPE_ERROR)"
begin

lemma apply_fresh:
  assumes "obj_abs m = Some (mk w add)"
  shows "\<exists>o2. apply_sum get put pl z True nop m o1 = Some (Ok (), o2) \<and> obj_abs o2 = Some (mk (if add then pl z w else w) (nop \<and> add))"
  using get_abs [OF assms] get_abs [OF put_abs, of z False o1] by (simp add: apply_sum_def put_abs)

lemma apply_value:
  assumes "obj_abs m = Some (mk w add)" "obj_abs o1 = Some (mk v f)"
  shows "\<exists>o2. apply_sum get put pl z False False m o1 = Some (Ok (), o2) \<and>
     obj_abs o2 = Some (mk (if add then pl v w else w) (f \<and> add))"
  using get_abs [OF assms(1)] get_abs [OF assms(2)] by (simp add: apply_sum_def put_abs)

lemma apply_other: "o_type o1 = ObExtendType \<Longrightarrow> apply_sum get put pl z False nop m o1 = Some (Err OB_OBJ_TYPE_ERROR, o1)"
  by (simp add: apply_sum_def get_other)

end

interpretation int_cell: flagged_type IntS get_int set_int
  by unfold_locales (auto simp: obj_abs_iff get_defs set_defs)
interpretation float_cell: flagged_type FloatS get_float set_float
  by unfold_locales (auto simp: obj_abs_iff_float get_defs set_defs)
interpretation double_cell: flagged_type DoubleS get_double set_double
  by unfold_locales (auto simp: obj_abs_iff_float get_defs set_defs)
interpretation datetime_cell: flagged_type DateTimeS get_datetime set_datetime
  by unfold_locales (auto simp: obj_abs_iff get_defs set_defs)
interpretation precise_cell: flagged_type PreciseS get_precise_datetime set_precise_datetime
  by unfold_locales (auto simp: obj_abs_iff get_defs set_defs)

text \<open>The two system times, which keep the better of cell and mutation.\<close>

locale timed_type =
  fixes mk :: "i64 \<Rightarrow> scalar" and get :: "ob_obj \<Rightarrow> i64 result option"
    and put :: "i64 \<Rightarrow> ob_obj \<Rightarrow> ob_obj" and best :: "i64 \<Rightarrow> i64 \<Rightarrow> i64"
  assumes get_abs: "obj_abs o1 = Some (mk v) \<Longrightarrow> get o1 = Some (Ok v)"
    and put_abs: "obj_abs (put v o1) = Some (mk v)"
    and best_idem: "best v v = v"
    and get_other: "o_type o1 = ObExtendType \<Longrightarrow> get o1 = Some (Err OB_OBJ_TYPE_ERROR)"
begin

lemma apply_fresh:
  assumes "obj_abs m = Some (mk w)"
  shows "\<exists>o2. apply_time get put best True m o1 = Some (Ok (), o2) \<and> obj_abs o2 = Some (mk w)"
  using get_abs [OF assms] get_abs [OF put_abs, of w o1] by (simp add: apply_time_def put_abs best_idem)

lemma apply_value:
  assumes "obj_abs m = Some (mk w)" "obj_abs o1 = Some (mk v)"
  shows "\<exists>o2. apply_time get put best False m o1 = Some (Ok (), o2) \<and> obj_abs o2 = Some (mk (best v w))"
  using get_abs [OF assms(1)] get_abs [OF assms(2)] by (simp add: apply_time_def put_abs)

lemma apply_other:
  assumes "obj_abs m = Some (mk w)" "o_type o1 = ObExtendType"
  shows "apply_time get put best False m o1 = Some (Err OB_OBJ_TYPE_ERROR, o1)"
  using get_abs [OF assms(1)] get_other [OF assms(2)] by (simp add: apply_time_def)

end

interpretation create_cell: timed_type CreateS get_createtime set_createtime smin
  by unfold_locales (auto simp: obj_abs_iff get_defs set_defs smin_def)
interpretation modify_cell: timed_type ModifyS get_modifytime set_modifytime smax
  by unfold_locales (auto simp: obj_abs_iff get_defs set_defs smax_def)

text \<open>The cases of \<^verbatim>\<open>apply\<close> by the value of the mutation, once the types match.\<close>

definition types_match :: "scalar \<Rightarrow> scalar \<Rightarrow> bool" where
  "types_match c x \<longleftrightarrow> scalar_type c = ObExtendType \<or> scalar_type c = ObNullType \<or> scalar_type x = ObExtendType \<or> scalar_type x = ObNullType \<or>
     scalar_type c = scalar_type x"

lemma unset_cell_ext:
  "unset_cell c \<longleftrightarrow> OP_ROW_DOES_NOT_EXIST = ext_code c \<or> ObNullType = scalar_type c \<or> OP_NOP = ext_code c"
  by (cases c) (auto simp: unset_cell_def nop_cell_def)

lemma apply_dispatch:
  assumes "obj_abs o1 = Some c" "obj_abs m = Some x" "types_match c x"
  shows "obj_apply fp m o1 =
    (let fresh = unset_cell c; nop = nop_cell c in
     case x of
       NullS \<Rightarrow> Some (Ok (), set_null o1)
     | IntS _ _ \<Rightarrow> apply_int fresh nop m o1
     | FloatS _ _ \<Rightarrow> apply_float fp fresh nop m o1
     | DoubleS _ _ \<Rightarrow> apply_double fp fresh nop m o1
     | DateTimeS _ _ \<Rightarrow> apply_datetime fresh nop m o1
     | PreciseS _ _ \<Rightarrow> apply_precise_datetime fresh nop m o1
     | ExtS _ \<Rightarrow> apply_extend (ext_code c) m o1
     | CreateS _ \<Rightarrow> apply_createtime fresh m o1
     | ModifyS _ \<Rightarrow> apply_modifytime fresh m o1
     | DecS _ _ _ _ _ \<Rightarrow> apply_decimal fresh nop m o1
     | _ \<Rightarrow> Some (Ok (), m))"
  using assms(3) obj_abs_type [OF assms(1)] obj_abs_type [OF assms(2)] obj_abs_get_ext [OF assms(1)]
  by (cases x) (auto simp: obj_apply_def Let_def ext_code_def [symmetric] types_match_def unset_cell_ext nop_cell_def)

lemma apply_mismatch:
  assumes "obj_abs o1 = Some c" "obj_abs m = Some x" "\<not> types_match c x"
  shows "obj_apply fp m o1 = Some (Err OB_INVALID_ARGUMENT, o1)"
  using assms(3) obj_abs_type [OF assms(1)] obj_abs_type [OF assms(2)] obj_abs_get_ext [OF assms(1)]
  by (auto simp: obj_apply_def Let_def types_match_def)

lemma merge_mismatch:
  assumes "\<not> types_match c x"
  shows "merge_result fp c x = Err OB_INVALID_ARGUMENT"
proof -
  have "\<not> unset_cell c" using assms by (cases c) (auto simp: unset_cell_def nop_cell_def types_match_def ext_code_def)
  then show ?thesis using assms by (cases c; cases x) (simp_all add: merge_result_def join_value_def types_match_def)
qed

text \<open>What the code does is what the merge says.\<close>

definition does :: "apply_res \<Rightarrow> scalar result \<Rightarrow> ob_obj \<Rightarrow> bool" where
  "does a r o1 \<longleftrightarrow> (case r of Ok v \<Rightarrow> \<exists>o2. a = Some (Ok (), o2) \<and> obj_abs o2 = Some v | Err e \<Rightarrow> a = Some (Err e, o1))"

lemma apply_extend_does:
  assumes "obj_abs o1 = Some c" "obj_abs m = Some (ExtS e)"
  shows "does (apply_extend (ext_code c) m o1) (merge_result fp c (ExtS e)) o1"
proof -
  have "obj_abs (set_null o1) = Some NullS" by (simp add: obj_abs_iff set_null_def)
  then show ?thesis
    using assms(1) obj_abs_get_ext [OF assms(2)] by (simp add: does_def merge_result_def apply_extend_def)
qed

lemma apply_unset:
  assumes "obj_abs o1 = Some c" "obj_abs m = Some x" "unset_cell c" "x \<noteq> NullS" "scalar_type x \<noteq> ObExtendType" "scalar_type x \<noteq> ObDecimalType"
  shows "does (obj_apply fp m o1) (Ok (begin_value fp (nop_cell c) x)) o1"
proof -
  have "types_match c x" using assms(3) by (cases c) (auto simp: unset_cell_def nop_cell_def types_match_def ext_code_def)
  note d = apply_dispatch [OF assms(1,2) this, of fp]
  show ?thesis
    using assms(2-)
    by (cases x) (auto simp: does_def d apply_int_def apply_float_def apply_double_def apply_datetime_def apply_precise_datetime_def
      apply_createtime_def apply_modifytime_def
      dest: int_cell.apply_fresh [of m _ _ "(+)" 0 "nop_cell c" o1]
        float_cell.apply_fresh [of m _ _ "f_add fp" "f_zero fp" "nop_cell c" o1]
        double_cell.apply_fresh [of m _ _ "d_add fp" "d_zero fp" "nop_cell c" o1]
        datetime_cell.apply_fresh [of m _ _ "(+)" 0 "nop_cell c" o1]
        precise_cell.apply_fresh [of m _ _ "(+)" 0 "nop_cell c" o1]
        create_cell.apply_fresh [of m _ o1] modify_cell.apply_fresh [of m _ o1])
qed

lemma apply_over_extend:
  assumes "obj_abs o1 = Some (ExtS e)" "obj_abs m = Some x" "\<not> unset_cell (ExtS e)" "x \<noteq> NullS"
    "scalar_type x \<noteq> ObExtendType" "scalar_type x \<noteq> ObDecimalType"
  shows "does (obj_apply fp m o1) (over_extend x) o1"
proof -
  have d: "types_match (ExtS e) x" by (simp add: types_match_def)
  have t: "o_type o1 = ObExtendType" using obj_abs_type [OF assms(1)] by simp
  show ?thesis
    using assms(2-) apply_dispatch [OF assms(1,2) d, of fp]
    by (cases x) (simp_all add: does_def apply_int_def apply_float_def apply_double_def apply_datetime_def
      apply_precise_datetime_def apply_createtime_def apply_modifytime_def int_cell.apply_other [OF t] float_cell.apply_other [OF t]
      double_cell.apply_other [OF t] datetime_cell.apply_other [OF t] precise_cell.apply_other [OF t]
      create_cell.apply_other [OF _ t] modify_cell.apply_other [OF _ t])
qed

lemma set_cell:
  assumes "\<not> unset_cell c"
  shows "c \<noteq> NullS" "\<not> nop_cell c"
  using assms by (auto simp: unset_cell_def)

lemma apply_join:
  assumes "obj_abs o1 = Some c" "obj_abs m = Some x" "\<not> unset_cell c" "scalar_type c = scalar_type x"
    "scalar_type x \<noteq> ObExtendType" "scalar_type x \<noteq> ObDecimalType"
  shows "does (obj_apply fp m o1) (join_value fp c x) o1"
proof -
  have t: "types_match c x" using assms(4) by (simp add: types_match_def)
  note d = apply_dispatch [OF assms(1,2) t, of fp]
  show ?thesis
    using assms(1-2,4-) set_cell [OF assms(3)] assms(3)
    by (cases x; cases c) (simp_all add: does_def d join_value_def apply_int_def apply_float_def apply_double_def apply_datetime_def
      apply_precise_datetime_def apply_createtime_def apply_modifytime_def int_cell.apply_value float_cell.apply_value
      double_cell.apply_value datetime_cell.apply_value precise_cell.apply_value create_cell.apply_value modify_cell.apply_value)
qed

theorem apply_does:
  assumes "obj_abs o1 = Some c" "obj_abs m = Some x" "scalar_type x \<noteq> ObDecimalType"
  shows "does (obj_apply fp m o1) (merge_result fp c x) o1"
proof -
  consider "x = NullS" | e where "x = ExtS e" | "\<not> types_match c x"
    | "x \<noteq> NullS" "scalar_type x \<noteq> ObExtendType" "unset_cell c"
    | e where "x \<noteq> NullS" "scalar_type x \<noteq> ObExtendType" "\<not> unset_cell c" "c = ExtS e"
    | "x \<noteq> NullS" "scalar_type x \<noteq> ObExtendType" "\<not> unset_cell c" "scalar_type c \<noteq> ObExtendType" "scalar_type c = scalar_type x"
    by (cases x; cases c) (auto simp: types_match_def unset_cell_def)
  then show ?thesis
  proof cases
    case 1
    then show ?thesis
      using apply_dispatch [OF assms(1,2), of fp] by (simp add: does_def types_match_def merge_result_def obj_abs_iff set_null_def)
  next
    case 2
    then show ?thesis
      using apply_dispatch [OF assms(1,2), of fp] apply_extend_does [OF assms(1), of m e fp] assms(2) by (simp add: types_match_def)
  next
    case 3
    then show ?thesis using apply_mismatch [OF assms(1,2) 3, of fp] merge_mismatch [OF 3, of fp] by (simp add: does_def)
  next
    case 4
    then show ?thesis
      using apply_unset [OF assms(1,2) 4(3,1,2) assms(3), of fp] by (cases x) (simp_all add: merge_result_def)
  next
    case 5
    then show ?thesis
      using apply_over_extend [OF assms(1) [unfolded 5(4)] assms(2), of fp] assms(3) by (cases x) (simp_all add: merge_result_def)
  next
    case 6
    then show ?thesis
      using apply_join [OF assms(1,2) 6(3,5,2) assms(3), of fp] by (cases x; cases c) (simp_all add: merge_result_def)
  qed
qed

section \<open>The exact types\<close>

text \<open>
  The values whose addition is exact and the extend codes \<^verbatim>\<open>NOP\<close> and \<^verbatim>\<open>ROW_DOES_NOT_EXIST\<close>. On them the merge
  does not depend on the floating point operations.
\<close>

definition NOT_EXIST :: i64 where "NOT_EXIST = 11"
definition NOP :: i64 where "NOP = 15"

lemmas ext_consts = NOT_EXIST_def NOP_def

fun start :: "bool \<Rightarrow> scalar \<Rightarrow> scalar" where
  "start nop (IntS v add) = IntS v (nop \<and> add)"
| "start nop (DateTimeS v add) = DateTimeS v (nop \<and> add)"
| "start nop (PreciseS v add) = PreciseS v (nop \<and> add)"
| "start nop x = x"

definition combine :: "scalar \<Rightarrow> scalar \<Rightarrow> scalar option" where
  "combine c x =
     (case c of
        IntS v f \<Rightarrow> (case x of IntS w add \<Rightarrow> Some (IntS (if add then v + w else w) (f \<and> add)) | _ \<Rightarrow> None)
      | DateTimeS v f \<Rightarrow>
          (case x of DateTimeS w add \<Rightarrow> Some (DateTimeS (if add then v + w else w) (f \<and> add)) | _ \<Rightarrow> None)
      | PreciseS v f \<Rightarrow>
          (case x of PreciseS w add \<Rightarrow> Some (PreciseS (if add then v + w else w) (f \<and> add)) | _ \<Rightarrow> None)
      | CreateS v \<Rightarrow> (case x of CreateS w \<Rightarrow> Some (CreateS (smin v w)) | _ \<Rightarrow> None)
      | ModifyS v \<Rightarrow> (case x of ModifyS w \<Rightarrow> Some (ModifyS (smax v w)) | _ \<Rightarrow> None)
      | StrS v \<Rightarrow> (case x of StrS w \<Rightarrow> Some (StrS w) | _ \<Rightarrow> None)
      | BoolS v \<Rightarrow> (case x of BoolS w \<Rightarrow> Some (BoolS w) | _ \<Rightarrow> None)
      | _ \<Rightarrow> None)"

definition scalar_merge :: "scalar \<Rightarrow> scalar \<Rightarrow> scalar option" where
  "scalar_merge c x =
     (case x of
        NullS \<Rightarrow> Some NullS
      | ExtS e \<Rightarrow>
          if e = NOP then Some (if c = ExtS NOT_EXIST then NullS else c)
          else if e = NOT_EXIST then Some c else None
      | _ \<Rightarrow>
          (case c of
             NullS \<Rightarrow> Some (start False x)
           | ExtS e \<Rightarrow>
               if e = NOP then Some (start True x) else if e = NOT_EXIST then Some (start False x) else None
           | _ \<Rightarrow> combine c x))"

text \<open>The scalars whose merge is described here.\<close>

fun mergeable :: "scalar \<Rightarrow> bool" where
  "mergeable (FloatS v add) = False"
| "mergeable (DoubleS v add) = False"
| "mergeable (DecS add p sc vs ws) = False"
| "mergeable (ExtS e) = (e = NOP \<or> e = NOT_EXIST)"
| "mergeable _ = True"

definition fresh_cell :: "scalar \<Rightarrow> bool" where
  "fresh_cell c \<longleftrightarrow> c = NullS \<or> c = ExtS NOT_EXIST \<or> c = ExtS NOP"

lemma sint_ext: "sint (ucast NOP :: i32) = OP_NOP" "sint (ucast NOT_EXIST :: i32) = OP_ROW_DOES_NOT_EXIST"
  "sint NOP = OP_NOP" "sint NOT_EXIST = OP_ROW_DOES_NOT_EXIST"
  by (simp_all add: ext_consts)

lemma cells_mergeable:
  assumes "mergeable c"
  shows "unset_cell c = fresh_cell c" "nop_cell c = (c = ExtS NOP)" "ext_code c \<noteq> OP_DEL_ROW"
    "ext_code c = OP_ROW_DOES_NOT_EXIST \<longleftrightarrow> c = ExtS NOT_EXIST"
  using assms by (cases c; auto simp: unset_cell_def nop_cell_def ext_code_def fresh_cell_def ext_consts)+

lemma begin_start: "mergeable x \<Longrightarrow> begin_value fp nop x = start nop x"
  by (cases x) simp_all

lemma join_combine:
  "mergeable x \<Longrightarrow> join_value fp c x = (case combine c x of Some r \<Rightarrow> Ok r | None \<Rightarrow> Err OB_INVALID_ARGUMENT)"
  by (cases x; cases c) (simp_all add: join_value_def combine_def)

lemma merge_mergeable_result:
  assumes "mergeable c" "mergeable x"
  shows "merge_result fp c x = (case scalar_merge c x of Some r \<Rightarrow> Ok r | None \<Rightarrow> Err OB_INVALID_ARGUMENT)"
proof (cases "scalar_type x = ObNullType \<or> scalar_type x = ObExtendType")
  case True
  then show ?thesis
    using assms(2) cells_mergeable [OF assms(1)] by (cases x) (auto simp: merge_result_def scalar_merge_def sint_ext)
next
  case False
  then show ?thesis
    using assms cells_mergeable [OF assms(1)] begin_start [OF assms(2)] join_combine [OF assms(2)]
    by (cases x; cases c) (auto simp: merge_result_def scalar_merge_def fresh_cell_def)
qed

lemma mergeable_not_decimal: "mergeable x \<Longrightarrow> scalar_type x \<noteq> ObDecimalType"
  by (cases x) simp_all

lemma apply_refines:
  assumes "obj_abs o1 = Some c" "obj_abs m = Some x" "mergeable c" "mergeable x" "scalar_merge c x = Some r"
  shows "\<exists>o2. obj_apply fp m o1 = Some (Ok (), o2) \<and> obj_abs o2 = Some r"
  using apply_does [OF assms(1,2) mergeable_not_decimal [OF assms(4)], of fp] merge_mergeable_result [OF assms(3,4), of fp] assms(5)
  by (simp add: does_def)

section \<open>Associativity\<close>

text \<open>
  The cells and mutations of one column. A system time is never set to null by a mutation: null would forget
  the cell's time while the merge of null and a time keeps it.
\<close>

definition system_time :: "scalar \<Rightarrow> bool" where
  "system_time x \<longleftrightarrow> scalar_type x = ObCreateTimeType \<or> scalar_type x = ObModifyTimeType"

definition is_mutation :: "scalar \<Rightarrow> bool" where
  "is_mutation x \<longleftrightarrow> mergeable x \<and> x \<noteq> ExtS NOT_EXIST"

lemma smin_assoc: "smin (smin a b) c = smin a (smin b c)"
  by (auto simp: smin_def)

lemma smax_assoc: "smax (smax a b) c = smax a (smax b c)"
  by (auto simp: smax_def)

lemma combine_type: "combine c x = Some r \<Longrightarrow> scalar_type c = scalar_type x \<and> scalar_type r = scalar_type x"
  by (cases c; cases x) (auto simp: combine_def)

lemma combine_start: "combine x y = Some z \<Longrightarrow> combine (start nop x) y = Some (start nop z)"
  by (cases x; cases y) (auto simp: combine_def)

lemma combine_assoc: "combine c x = Some c1 \<Longrightarrow> combine c1 y = Some r \<Longrightarrow> \<exists>z. combine x y = Some z \<and> combine c z = Some r"
  by (cases x) (auto simp: combine_def smin_assoc smax_assoc add.assoc split: scalar.splits)

lemma combine_start_False:
  "combine c y \<noteq> None \<Longrightarrow> \<not> system_time y \<Longrightarrow> combine c (start False y) = Some (start False y)"
  by (cases c; cases y) (auto simp: combine_def system_time_def)

definition is_value :: "scalar \<Rightarrow> bool" where
  "is_value x \<longleftrightarrow> x \<noteq> NullS \<and> scalar_type x \<noteq> ObExtendType"

lemma scalar_type_ext: "scalar_type x = ObExtendType \<longleftrightarrow> (\<exists>e. x = ExtS e)"
  by (cases x) auto

lemma start_True [simp]: "start True x = x"
  by (cases x) auto

lemma start_start [simp]: "start nop (start False x) = start False x"
  by (cases x) auto

lemma NOP_neq [simp]: "NOP \<noteq> NOT_EXIST" "NOT_EXIST \<noteq> NOP"
  by (simp_all add: ext_consts)

lemma is_value_start [simp]: "is_value (start nop x) = is_value x"
  by (cases x) (auto simp: is_value_def)

lemma combine_is_value: "combine x y = Some z \<Longrightarrow> is_value x \<and> is_value y \<and> is_value z"
  by (cases x; cases y) (auto simp: combine_def is_value_def)

lemma combine_start_iff: "combine (start nop x) y = None \<longleftrightarrow> combine x y = None"
  by (cases x; cases y) (auto simp: combine_def)

lemma merge_simps:
  "scalar_merge c NullS = Some NullS"
  "scalar_merge c (ExtS NOP) = Some (if c = ExtS NOT_EXIST then NullS else c)"
  "is_value x \<Longrightarrow> fresh_cell c \<Longrightarrow> scalar_merge c x = Some (start (c = ExtS NOP) x)"
  "is_value x \<Longrightarrow> is_value c \<Longrightarrow> scalar_merge c x = combine c x"
  by (cases x; cases c; auto simp: scalar_merge_def is_value_def fresh_cell_def ext_consts)+

lemma mergeable_cases: "mergeable c \<Longrightarrow> fresh_cell c \<or> is_value c"
  by (cases c) (auto simp: fresh_cell_def is_value_def)

lemma mutation_cases: "is_mutation x \<Longrightarrow> x = NullS \<or> x = ExtS NOP \<or> is_value x"
  by (cases x) (auto simp: is_mutation_def is_value_def)

lemma value_not_special: "is_value c \<Longrightarrow> c \<noteq> NullS \<and> c \<noteq> ExtS e"
  by (auto simp: is_value_def)

lemma combine_not_ext [simp]: "combine c x \<noteq> Some (ExtS e)"
  using combine_is_value [of c x "ExtS e"] by (auto simp: is_value_def)

lemma merge_mergeable: "mergeable c \<Longrightarrow> mergeable x \<Longrightarrow> scalar_merge c x = Some r \<Longrightarrow> mergeable r"
  by (cases x; cases c) (auto simp: scalar_merge_def combine_def split: if_splits)

lemma merge_assoc_value:
  assumes "mergeable c" "is_value x" "is_value y" "scalar_merge c x = Some c1" "scalar_merge c1 y = Some r"
  shows "\<exists>z. scalar_merge x y = Some z \<and> scalar_merge c z = Some r"
  using mergeable_cases [OF assms(1)]
proof
  assume "fresh_cell c"
  then have "combine (start (c = ExtS NOP) x) y = Some r"
    using assms is_value_start [of "c = ExtS NOP" x] merge_simps(3) [of x c] merge_simps(4) [of y c1] by simp
  moreover from this obtain z where z: "combine x y = Some z"
    using combine_start_iff [of "c = ExtS NOP" x y] by fastforce
  ultimately show ?thesis
    using combine_start [OF z, of "c = ExtS NOP"] combine_is_value [OF z] \<open>fresh_cell c\<close> assms(2,3)
    by (simp add: merge_simps)
next
  assume c: "is_value c"
  then have "combine c x = Some c1" "combine c1 y = Some r"
    using assms combine_is_value by (auto simp: merge_simps)
  from combine_assoc [OF this] c assms(2,3) show ?thesis
    using combine_is_value by (fastforce simp: merge_simps)
qed

lemma merge_assoc:
  assumes "mergeable c" "is_mutation x" "is_mutation y" "x = NullS \<Longrightarrow> \<not> system_time y" "scalar_merge c y \<noteq> None"
    and "scalar_merge c x = Some c1" "scalar_merge c1 y = Some r"
  shows "\<exists>z. scalar_merge x y = Some z \<and> scalar_merge c z = Some r"
proof (cases "is_value y")
  case y: True
  consider "x = NullS" | "x = ExtS NOP" | "is_value x" using mutation_cases [OF assms(2)] by blast
  then show ?thesis
  proof cases
    case 1
    then show ?thesis
      using assms y mergeable_cases [OF assms(1)] combine_start_False [of c y]
      by (auto simp: merge_simps fresh_cell_def)
  next
    case 2
    then show ?thesis using assms y by (auto simp: merge_simps fresh_cell_def split: if_splits)
  next
    case 3
    then show ?thesis using merge_assoc_value assms y by blast
  qed
next
  case False
  then have "y = NullS \<or> y = ExtS NOP" using mutation_cases [OF assms(3)] by blast
  then show ?thesis
  proof
    assume "y = ExtS NOP"
    moreover have "c1 \<noteq> ExtS NOT_EXIST" 
      using assms mutation_cases [OF assms(2)] mergeable_cases [OF assms(1)] value_not_special combine_is_value
      by (auto simp: merge_simps split: if_splits)
    ultimately show ?thesis using assms by (auto simp: merge_simps is_mutation_def)
  qed (use assms in \<open>auto simp: merge_simps\<close>)
qed

end
