(* ===== verification/Ob_Object_Order.thy ===== *)
theory Ob_Object_Order
  imports Ob_Object_Codec "HOL-Library.Product_Lexorder" "HOL-Library.List_Lexorder"
begin

text \<open>
  The order of objects. A three-way comparison that follows a linear order of keys is the locale
  \<open>comparison\<close>; its laws (it is defined, reflexive, antisymmetric and transitive) are proved there once.
  The objects a column can hold, with null and the two border values, form such a comparison.
\<close>

section \<open>Comparisons by key\<close>

definition sign_of :: "'k :: linorder \<Rightarrow> 'k \<Rightarrow> int" where
  "sign_of x y = (if x < y then - 1 else if x = y then 0 else 1)"

lemma sign_of_simps [simp]:
  "sign_of x x = 0"
  "sign_of x y < 0 \<longleftrightarrow> x < y" "sign_of x y = 0 \<longleftrightarrow> x = y" "0 < sign_of x y \<longleftrightarrow> y < x"
  "sign_of x y \<le> 0 \<longleftrightarrow> x \<le> y"
  by (auto simp: sign_of_def)

lemma sign_of_eq: "sign_of x y = - 1 \<longleftrightarrow> x < y" "sign_of x y = 1 \<longleftrightarrow> y < x"
  by (auto simp: sign_of_def)

lemma sign_of_swap: "sign_of y x = - sign_of x y"
  by (auto simp: sign_of_def)

lemma sign_of_int: "sign_of x y = sgn (x - y :: int)"
  by (auto simp: sign_of_def sgn_if)

lemma sign_of_Pair: "sign_of (a, b) (c, d) = (if a = c then sign_of b d else sign_of a c)"
  by (auto simp: sign_of_def)

lemma sign_of_list:
  "sign_of [] [] = 0" "sign_of [] (y # ys) = - 1" "sign_of (x # xs) [] = 1"
  "sign_of (x # xs) (y # ys) = (if x = y then sign_of xs ys else sign_of x y)"
  by (auto simp: sign_of_def)

locale comparison =
  fixes carrier :: "'a \<Rightarrow> bool" and cmp :: "'a \<Rightarrow> 'a \<Rightarrow> int option" and key :: "'a \<Rightarrow> 'k :: linorder"
  assumes cmp_key: "carrier x \<Longrightarrow> carrier y \<Longrightarrow> \<exists>c. cmp x y = Some c \<and> sgn c = sign_of (key x) (key y)"
begin

lemma cmp_defined: "carrier x \<Longrightarrow> carrier y \<Longrightarrow> cmp x y \<noteq> None"
  using cmp_key by fastforce

lemma cmp_less: "carrier x \<Longrightarrow> carrier y \<Longrightarrow> (\<exists>c<0. cmp x y = Some c) \<longleftrightarrow> key x < key y"
  using cmp_key [of x y] by (auto simp: sign_of_def sgn_if split: if_splits)

lemma cmp_equal: "carrier x \<Longrightarrow> carrier y \<Longrightarrow> cmp x y = Some 0 \<longleftrightarrow> key x = key y"
  using cmp_key [of x y] by (auto simp: sign_of_def sgn_if split: if_splits)

lemma cmp_greater: "carrier x \<Longrightarrow> carrier y \<Longrightarrow> (\<exists>c>0. cmp x y = Some c) \<longleftrightarrow> key y < key x"
  using cmp_key [of x y] by (auto simp: sign_of_def sgn_if split: if_splits)

lemma cmp_refl: "carrier x \<Longrightarrow> cmp x x = Some 0"
  by (simp add: cmp_equal)

lemma cmp_antisym:
  "carrier x \<Longrightarrow> carrier y \<Longrightarrow> map_option sgn (cmp y x) = map_option (\<lambda>c. - sgn c) (cmp x y)"
  using cmp_key [of x y] cmp_key [of y x] sign_of_swap [of "key y" "key x"] by auto

lemma cmp_trans:
  assumes "carrier x" "carrier y" "carrier z" "cmp x y = Some c" "cmp y z = Some d" "c \<le> 0" "d \<le> 0"
  shows "\<exists>e. cmp x z = Some e \<and> e \<le> 0 \<and> (e = 0 \<longrightarrow> c = 0 \<and> d = 0)"
proof -
  have "key x \<le> key y" "key y \<le> key z"
    using cmp_greater [of x y] cmp_greater [of y z] assms by (auto simp: not_less [symmetric])
  then show ?thesis
    using cmp_less [of x y] cmp_equal [of x y] cmp_less [of y z] cmp_equal [of y z] cmp_less [of x z]
      cmp_equal [of x z] assms by fastforce
qed

end

section \<open>Strings\<close>

lemma Nil_less: "[] \<noteq> ys \<Longrightarrow> [] < ys"
  by (cases ys) auto

lemma memcmp_take:
  "memcmp (take (min (length as) (length bs)) as) (take (min (length as) (length bs)) bs) = memcmp as bs"
  by (induction as bs rule: memcmp.induct) auto

lemma string_compare_sign: "sgn (string_compare as bs) = sign_of as bs"
proof -
  have "sgn (if memcmp as bs = 0 then int (length as) - int (length bs) else memcmp as bs) = sign_of as bs"
    by (induction as bs rule: memcmp.induct)
      (auto simp: sign_of_list(4) sign_of_def sgn_if neq_Nil_conv Nil_less split: if_splits)
  then show ?thesis
    by (cases "memcmp as bs = 0") (simp_all add: string_compare_def Let_def memcmp_take)
qed

section \<open>The objects of a column\<close>

text \<open>Four ranks: the minimum, null, ordinary values, the maximum.\<close>

definition obj_rank :: "ob_obj \<Rightarrow> nat" where
  "obj_rank o1 = (if is_min_value o1 then 0 else if is_max_value o1 then 3 else if is_null o1 then 1 else 2)"

fun scalar_key :: "scalar \<Rightarrow> int \<times> u8 list" where
  "scalar_key (IntS v add) = (sint v, [])"
| "scalar_key (DateTimeS v add) = (sint (v * 1000 * 1000), [])"
| "scalar_key (PreciseS v add) = (sint v, [])"
| "scalar_key (CreateS v) = (sint v, [])"
| "scalar_key (ModifyS v) = (sint v, [])"
| "scalar_key (BoolS b) = (if b then 1 else 0, [])"
| "scalar_key (StrS bs) = (0, bs)"
| "scalar_key _ = (0, [])"

definition obj_key :: "ob_obj \<Rightarrow> nat \<times> int \<times> u8 list" where
  "obj_key o1 = (obj_rank o1, if obj_rank o1 = 2 then case obj_abs o1 of None \<Rightarrow> (0, []) | Some x \<Rightarrow> scalar_key x else (0, []))"

text \<open>
  The objects of a column of type \<open>t\<close>: its own values (the four time types are one family), null and the borders. Floats,
  doubles and decimals are left out: their comparison is not a comparison by key.
\<close>

definition same_family :: "int \<Rightarrow> int \<Rightarrow> bool" where
  "same_family t u \<longleftrightarrow> t = u \<and> t \<in> {ObIntType, ObVarcharType, ObBoolType}
     \<or> t \<in> {ObDateTimeType, ObPreciseDateTimeType, ObCreateTimeType, ObModifyTimeType}
       \<and> u \<in> {ObDateTimeType, ObPreciseDateTimeType, ObCreateTimeType, ObModifyTimeType}"

definition obj_column :: "int \<Rightarrow> ob_obj \<Rightarrow> bool" where
  "obj_column t o1 \<longleftrightarrow> obj_rank o1 \<noteq> 2 \<or> same_family t (o_type o1) \<and> obj_abs o1 \<noteq> None"

lemma obj_compare_rank:
  assumes "obj_rank a \<noteq> obj_rank b"
  shows "obj_compare fp a b = Some (sign_of (obj_rank a) (obj_rank b))"
  using assms
  by (auto simp: obj_rank_def obj_compare_def can_compare_def is_null_def sign_of_def is_min_value_def is_max_value_def
      split: if_splits)

lemma obj_compare_special:
  assumes "obj_rank a = obj_rank b" "obj_rank a \<noteq> 2"
  shows "obj_compare fp a b = Some 0"
  using assms
  by (auto simp: obj_rank_def obj_compare_def can_compare_def is_null_def is_min_value_def is_max_value_def
      split: if_splits)

lemma obj_compare_ordinary:
  assumes "obj_rank a = 2" "obj_rank b = 2"
  shows "obj_compare fp a b =
    (if o_type a = o_type b \<or> is_datetime a \<and> is_datetime b then compare_same_type fp a b else Some (o_type a - o_type b))"
  using assms by (auto simp: obj_rank_def obj_compare_def can_compare_def is_null_def split: if_splits)

lemma cmp3_sign: "cmp3 a b = sign_of (sint a) (sint b)"
proof -
  have "sint a = sint b \<longleftrightarrow> a = b" by (auto intro: signed_word_eqI)
  then show ?thesis by (simp add: cmp3_def sign_of_def)
qed

lemma timestamp_key:
  assumes "is_datetime o1" "obj_abs o1 = Some x"
  shows "\<exists>t. get_timestamp o1 = Some (Ok t) \<and> scalar_key x = (sint t, [])"
  using assms by (auto simp: is_datetime_def obj_abs_def get_timestamp_def)

lemma compare_same_type_key:
  assumes "same_family t (o_type a)" "same_family t (o_type b)" "obj_abs a = Some x" "obj_abs b = Some y"
  shows "\<exists>c. compare_same_type fp a b = Some c \<and> sgn c = sign_of (scalar_key x) (scalar_key y)"
proof (cases "is_datetime a")
  case True
  then have "is_datetime b" using assms(1,2) by (auto simp: same_family_def is_datetime_def)
  with True obtain u v where "get_timestamp a = Some (Ok u)" "get_timestamp b = Some (Ok v)"
      "scalar_key x = (sint u, [])" "scalar_key y = (sint v, [])"
    using timestamp_key assms(3,4) by blast
  with True show ?thesis
    by (auto simp: compare_same_type_def is_datetime_def cmp3_sign sign_of_Pair sign_of_int)
next
  case False
  then have "o_type a = o_type b" "o_type a \<in> {ObIntType, ObVarcharType, ObBoolType}"
    using assms(1,2) by (auto simp: same_family_def is_datetime_def)
  then show ?thesis
    using assms(3,4) string_compare_sign
    by (auto simp: obj_abs_def compare_same_type_def cmp3_sign sign_of_Pair sign_of_int get_varchar_def string_bytes_def
        split: ob_value.splits option.splits if_splits)
qed

interpretation column: comparison "obj_column t" "obj_compare fp" obj_key for t fp
proof
  fix a b assume ab: "obj_column t a" "obj_column t b"
  show "\<exists>c. obj_compare fp a b = Some c \<and> sgn c = sign_of (obj_key a) (obj_key b)"
  proof (cases "obj_rank a = 2 \<and> obj_rank b = 2")
    case True
    with ab obtain x y where xy: "obj_abs a = Some x" "obj_abs b = Some y"
        "same_family t (o_type a)" "same_family t (o_type b)"
      by (auto simp: obj_column_def)
    then have "o_type a = o_type b \<or> is_datetime a \<and> is_datetime b"
      by (auto simp: same_family_def is_datetime_def)
    with True xy compare_same_type_key [OF xy(3,4,1,2)] show ?thesis
      by (auto simp: obj_compare_ordinary obj_key_def sign_of_Pair)
  next
    case False
    then show ?thesis
      using obj_compare_rank [of a b fp] obj_compare_special [of a b fp]
      by (cases "obj_rank a = obj_rank b") (auto simp: obj_key_def sign_of_Pair sign_of_def)
  qed
qed

end
