(* ===== verification/Ob_Object_Hash.thy ===== *)
theory Ob_Object_Hash
  imports Ob_Object_Codec
begin

text \<open>
  Checksums of objects: what is fed to them is a piece of readable memory for every object that has a value, and
  the buffered checksum of an object advances an accumulator as the direct one does.
\<close>

lemma obj_abs_valid: "obj_abs o1 = Some x \<Longrightarrow> is_valid_type o1"
  by (auto simp: obj_abs_def is_valid_type_def Let_def split: if_splits)

lemma length_words_bytes: "length (concat (map (\<lambda>w. le_bytes 4 (f w)) ws)) = 4 * length ws"
  by (induction ws) auto

lemma payload_readable:
  assumes "obj_abs o1 = Some x"
  shows "payload o1 = Some None \<or>
    (\<exists>bs len. payload o1 = Some (Some (Some bs, len)) \<and> 0 \<le> len \<and> len \<le> int (length bs))"
proof (cases "o_type o1 = ObBoolType")
  case True
  then obtain b where "bool_val (o_value o1) = Some b" using assms by (auto simp: obj_abs_def)
  with True have "payload o1 = Some (Some (Some [if b then 1 else 0], 1))" by (simp add: payload_def)
  then show ?thesis by (cases b) auto
next
  case False
  then show ?thesis
    using assms
    by (auto simp: obj_abs_def payload_def Let_def length_words_bytes split: if_splits ob_value.splits option.splits)
qed

lemma bc_fill_value:
  assumes "bc_ok bc" "0 \<le> len" "len \<le> int (length bs)"
  shows "\<exists>bc'. bc_fill (Some bs) len bc = Some bc' \<and> bc_ok bc' \<and> ob_crc64 (bc_value bc) (Some bs) len = Some (bc_value bc')"
  using bc_fill_loop_ok [OF assms(1), of "take (nat len) bs"] assms by (auto simp: bc_fill_def ob_crc64_eq)

lemma obj_checksum_batch_value:
  assumes "bc_ok bc" "obj_abs o1 = Some x"
  shows "\<exists>bc'. obj_checksum_batch o1 bc = Some bc' \<and> bc_ok bc' \<and> obj_checksum o1 (bc_value bc) = Some (bc_value bc')"
proof -
  from bc_fill_value [OF assms(1), of 4 "meta_bytes 0 0"] obtain bc1 where
    bc1: "bc_fill (Some (meta_bytes 0 0)) 4 bc = Some bc1" "bc_ok bc1"
      "ob_crc64 (bc_value bc) (Some (meta_bytes 0 0)) 4 = Some (bc_value bc1)"
    by (auto simp: meta_bytes_def)
  from payload_readable [OF assms(2)] show ?thesis
    using bc1 bc_fill_value [OF bc1(2)] obj_abs_valid [OF assms(2)]
    by (auto simp: obj_checksum_batch_def obj_checksum_def)
qed

end
