(* ===== verification/Ob_Rowkey.thy ===== *)
theory Ob_Rowkey
  imports Ob_Object_Order Ob_Object_Hash
begin

text \<open>
  Row keys (\<^verbatim>\<open>common/ob_rowkey.h\<close>, \<^verbatim>\<open>ob_rowkey.cpp\<close>) and the description of their columns, \<^verbatim>\<open>ObRowkeyInfo\<close>
  of \<^verbatim>\<open>common/ob_schema.h\<close>. A key is a pointer to an array of objects and a count; an index outside the array is
  undefined behaviour.
\<close>

section \<open>Columns of a row key\<close>

definition ASC :: i32 where "ASC = 1"
definition DESC :: i32 where "DESC = - 1"

record rowkey_column =
  rc_length :: i64
  rc_column_id :: u64
  rc_type :: i32
  rc_order :: i32

definition OB_MAX_ROWKEY_COLUMN_NUMBER :: int where "OB_MAX_ROWKEY_COLUMN_NUMBER = 16"

record rowkey_info =
  ri_columns :: "rowkey_column list"
  ri_size :: int

definition new_rowkey_info :: rowkey_info where
  "new_rowkey_info =
     \<lparr>ri_columns = replicate 16 \<lparr>rc_length = 0, rc_column_id = 0, rc_type = 0, rc_order = 0\<rparr>, ri_size = 0\<rparr>"

text \<open>The array has 16 places; \<open>columns_at\<close> is \<^verbatim>\<open>columns_[index]\<close>.\<close>

definition columns_at :: "rowkey_info \<Rightarrow> int \<Rightarrow> rowkey_column option" where
  "columns_at ri i = (if 0 \<le> i \<and> i < int (length (ri_columns ri)) then Some (ri_columns ri ! nat i) else None)"

definition ri_get_column :: "rowkey_info \<Rightarrow> int \<Rightarrow> rowkey_column result option" where
  "ri_get_column ri index =
     (if index < 0 \<or> index > ri_size ri - 1 then Some (Err OB_INVALID_INDEX)
      else map_option Ok (columns_at ri index))"

text \<open>The overload that returns a pointer: the inner \<open>None\<close> is \<^verbatim>\<open>NULL\<close>.\<close>

definition ri_get_column_ptr :: "rowkey_info \<Rightarrow> int \<Rightarrow> rowkey_column option option" where
  "ri_get_column_ptr ri index =
     (if 0 > index \<or> ri_size ri \<le> index then Some None else map_option Some (columns_at ri index))"

definition ri_get_column_id :: "rowkey_info \<Rightarrow> int \<Rightarrow> u64 result option" where
  "ri_get_column_id ri index =
     map_option (\<lambda>r. case r of Ok c \<Rightarrow> Ok (rc_column_id c) | Err e \<Rightarrow> Err e) (ri_get_column ri index)"

fun binary_length_loop :: "rowkey_info \<Rightarrow> int \<Rightarrow> nat \<Rightarrow> i64 \<Rightarrow> i64 option" where
  "binary_length_loop ri i 0 len = Some len"
| "binary_length_loop ri i (Suc n) len = do {
     c \<leftarrow> columns_at ri i;
     binary_length_loop ri (i + 1) n (len + rc_length c)
   }"

definition ri_get_binary_rowkey_length :: "rowkey_info \<Rightarrow> i64 option" where
  "ri_get_binary_rowkey_length ri = binary_length_loop ri 0 (nat (ri_size ri)) 0"

fun get_index_loop :: "rowkey_info \<Rightarrow> u64 \<Rightarrow> int \<Rightarrow> nat \<Rightarrow> (int \<times> rowkey_column) result option" where
  "get_index_loop ri column_id i 0 = Some (Err OB_ENTRY_NOT_EXIST)"
| "get_index_loop ri column_id i (Suc n) = do {
     c \<leftarrow> columns_at ri i;
     if rc_column_id c = column_id then Some (Ok (i, c)) else get_index_loop ri column_id (i + 1) n
   }"

definition ri_get_index :: "rowkey_info \<Rightarrow> u64 \<Rightarrow> (int \<times> rowkey_column) result option" where
  "ri_get_index ri column_id = get_index_loop ri column_id 0 (nat (ri_size ri))"

definition is_rowkey_column :: "rowkey_info \<Rightarrow> u64 \<Rightarrow> bool option" where
  "is_rowkey_column ri column_id =
     map_option (\<lambda>r. case r of Ok (index, c) \<Rightarrow> index \<ge> 0 | Err e \<Rightarrow> False) (ri_get_index ri column_id)"

text \<open>A full description is left as it is, and the call still returns \<^verbatim>\<open>OB_SUCCESS\<close>.\<close>

definition ri_add_column :: "rowkey_column \<Rightarrow> rowkey_info \<Rightarrow> (unit result \<times> rowkey_info) option" where
  "ri_add_column column ri =
     (if ri_size ri \<ge> OB_MAX_ROWKEY_COLUMN_NUMBER then Some (Ok (), ri)
      else if columns_at ri (ri_size ri) = None then None
      else Some (Ok (), ri\<lparr>ri_columns := (ri_columns ri)[nat (ri_size ri) := column], ri_size := ri_size ri + 1\<rparr>))"

definition ri_set_column :: "int \<Rightarrow> rowkey_column \<Rightarrow> rowkey_info \<Rightarrow> (unit result \<times> rowkey_info) option" where
  "ri_set_column idx column ri =
     (if 0 > idx \<or> OB_MAX_ROWKEY_COLUMN_NUMBER \<le> idx then Some (Err OB_SIZE_OVERFLOW, ri)
      else if columns_at ri idx = None then None
      else
        let ri = ri\<lparr>ri_columns := (ri_columns ri)[nat idx := column]\<rparr>
        in Some (Ok (), if ri_size ri \<le> idx then ri\<lparr>ri_size := 1 + idx\<rparr> else ri))"

definition rc_serialize :: "rowkey_column \<Rightarrow> unit run" where
  "rc_serialize c = tmp_pos
     (Ob_Prelude.bind (encode_vi64 (rc_length c)) (\<lambda>_.
      Ob_Prelude.bind (encode_vi64 (rc_column_id c)) (\<lambda>_.
      Ob_Prelude.bind (encode_vi32 (rc_type c)) (\<lambda>_. encode_vi32 (rc_order c)))))"

definition rc_deserialize :: "rowkey_column run" where
  "rc_deserialize = tmp_pos
     (Ob_Prelude.bind decode_vi64 (\<lambda>len.
      Ob_Prelude.bind decode_vi64 (\<lambda>cid.
      Ob_Prelude.bind decode_vi32 (\<lambda>type.
      Ob_Prelude.bind decode_vi32 (\<lambda>order.
      ret \<lparr>rc_length = len, rc_column_id = cid, rc_type = type, rc_order = order\<rparr>)))))"

definition rc_get_serialize_size :: "rowkey_column \<Rightarrow> int" where
  "rc_get_serialize_size c = encoded_length_vi64 (rc_length c) + encoded_length_vi64 (rc_column_id c)
     + encoded_length_vi32 (rc_type c) + encoded_length_vi32 (rc_order c)"

fun ri_serialize_loop :: "rowkey_info \<Rightarrow> int \<Rightarrow> nat \<Rightarrow> unit run" where
  "ri_serialize_loop ri index 0 = ret ()"
| "ri_serialize_loop ri index (Suc n) = with_member (columns_at ri index)
     (\<lambda>c. Ob_Prelude.bind (rc_serialize c) (\<lambda>_. ri_serialize_loop ri (index + 1) n))"

definition ri_serialize :: "rowkey_info \<Rightarrow> unit run" where
  "ri_serialize ri = tmp_pos
     (Ob_Prelude.bind (encode_vi64 (word_of_int (ri_size ri))) (\<lambda>_. ri_serialize_loop ri 0 (nat (ri_size ri))))"

fun ri_deserialize_loop :: "int \<Rightarrow> nat \<Rightarrow> rowkey_info \<Rightarrow> rowkey_info run" where
  "ri_deserialize_loop index 0 ri = ret ri"
| "ri_deserialize_loop index (Suc n) ri = with_member (columns_at ri index)
     (\<lambda>_. Ob_Prelude.bind rc_deserialize (\<lambda>c.
        ri_deserialize_loop (index + 1) n (ri\<lparr>ri_columns := (ri_columns ri)[nat index := c]\<rparr>)))"

definition ri_deserialize :: "rowkey_info \<Rightarrow> rowkey_info run" where
  "ri_deserialize ri = tmp_pos
     (Ob_Prelude.bind decode_vi64 (\<lambda>size. ri_deserialize_loop 0 (nat (sint size)) (ri\<lparr>ri_size := sint size\<rparr>)))"

fun ri_size_loop :: "rowkey_info \<Rightarrow> int \<Rightarrow> nat \<Rightarrow> int \<Rightarrow> int option" where
  "ri_size_loop ri index 0 len = Some len"
| "ri_size_loop ri index (Suc n) len = do {
     c \<leftarrow> columns_at ri index;
     ri_size_loop ri (index + 1) n (len + rc_get_serialize_size c)
   }"

definition ri_get_serialize_size :: "rowkey_info \<Rightarrow> int option" where
  "ri_get_serialize_size ri = ri_size_loop ri 0 (nat (ri_size ri)) (encoded_length_vi64 (word_of_int (ri_size ri)))"

section \<open>Row keys\<close>

record ob_rowkey =
  obj_ptr :: "ob_obj list option"
  obj_cnt :: int

definition rowkey_assign :: "ob_obj list option \<Rightarrow> int \<Rightarrow> ob_rowkey" where
  "rowkey_assign p cnt = \<lparr>obj_ptr = p, obj_cnt = cnt\<rparr>"

definition MIN_OBJECT :: ob_obj where "MIN_OBJECT = new_obj ObExtendType 0 0 MIN_OBJECT_VALUE"
definition MAX_OBJECT :: ob_obj where "MAX_OBJECT = new_obj ObExtendType 0 0 MAX_OBJECT_VALUE"
definition MIN_ROWKEY :: ob_rowkey where "MIN_ROWKEY = rowkey_assign (Some [MIN_OBJECT]) 1"
definition MAX_ROWKEY :: ob_rowkey where "MAX_ROWKEY = rowkey_assign (Some [MAX_OBJECT]) 1"

definition set_min_row :: "ob_rowkey \<Rightarrow> ob_rowkey" where
  "set_min_row rk = MIN_ROWKEY"

definition set_max_row :: "ob_rowkey \<Rightarrow> ob_rowkey" where
  "set_max_row rk = MAX_ROWKEY"

definition rowkey_at :: "ob_rowkey \<Rightarrow> int \<Rightarrow> ob_obj option" where
  "rowkey_at rk i =
     (case obj_ptr rk of
        None \<Rightarrow> None
      | Some os \<Rightarrow> if 0 \<le> i \<and> i < int (length os) then Some (os ! nat i) else None)"

definition is_empty_row :: "ob_rowkey \<Rightarrow> bool" where
  "is_empty_row rk \<longleftrightarrow> obj_ptr rk = None \<and> obj_cnt rk = 0"

text \<open>The factor of column \<open>i\<close>: 1 without a description; a missing column is a null pointer.\<close>

definition order_factor :: "rowkey_info option \<Rightarrow> int \<Rightarrow> int option" where
  "order_factor info i =
     (case info of
        None \<Rightarrow> Some 1
      | Some ri \<Rightarrow> (case ri_get_column_ptr ri i of Some (Some c) \<Rightarrow> Some (sint (rc_order c)) | _ \<Rightarrow> None))"

text \<open>The loop of \<^verbatim>\<open>compare\<close>, \<open>n\<close> objects of the left key to go; it returns \<open>cmp\<close> and \<open>i\<close>.\<close>

fun rowkey_compare_loop ::
  "fp_ops \<Rightarrow> rowkey_info option \<Rightarrow> ob_rowkey \<Rightarrow> ob_rowkey \<Rightarrow> nat \<Rightarrow> int \<Rightarrow> int \<Rightarrow> (int \<times> int) option" where
  "rowkey_compare_loop fp info lhs rhs 0 i cmp = Some (cmp, i)"
| "rowkey_compare_loop fp info lhs rhs (Suc n) i cmp =
     (if cmp \<noteq> 0 then Some (cmp, i)
      else if i < obj_cnt rhs
      then do {
        x \<leftarrow> rowkey_at lhs i;
        y \<leftarrow> rowkey_at rhs i;
        c \<leftarrow> obj_compare fp x y;
        f \<leftarrow> order_factor info i;
        rowkey_compare_loop fp info lhs rhs n (i + 1) (c * f)
      }
      else Some (1, i))"

definition rowkey_compare_info :: "fp_ops \<Rightarrow> rowkey_info option \<Rightarrow> ob_rowkey \<Rightarrow> ob_rowkey \<Rightarrow> int option" where
  "rowkey_compare_info fp info lhs rhs = do {
     border \<leftarrow> (if obj_cnt lhs > 0 \<and> obj_cnt rhs > 0
               then do {
                 x \<leftarrow> rowkey_at lhs 0;
                 y \<leftarrow> rowkey_at rhs 0;
                 Some (is_min_value x \<and> is_min_value y \<or> is_max_value x \<and> is_max_value y)
               }
               else Some False);
     if border then Some 0
     else do {
       (cmp, i) \<leftarrow> rowkey_compare_loop fp info lhs rhs (nat (obj_cnt lhs)) 0 0;
       Some (if cmp = 0 \<and> i < obj_cnt rhs then - 1 else cmp)
     }
   }"

definition rowkey_compare :: "fp_ops \<Rightarrow> ob_rowkey \<Rightarrow> ob_rowkey \<Rightarrow> int option" where
  "rowkey_compare fp lhs rhs = rowkey_compare_info fp None lhs rhs"

definition rowkey_lt :: "fp_ops \<Rightarrow> ob_rowkey \<Rightarrow> ob_rowkey \<Rightarrow> bool option" where
  "rowkey_lt fp lhs rhs = map_option (\<lambda>c. c < 0) (rowkey_compare fp lhs rhs)"

definition rowkey_le :: "fp_ops \<Rightarrow> ob_rowkey \<Rightarrow> ob_rowkey \<Rightarrow> bool option" where
  "rowkey_le fp lhs rhs = map_option (\<lambda>c. c \<le> 0) (rowkey_compare fp lhs rhs)"

definition rowkey_gt :: "fp_ops \<Rightarrow> ob_rowkey \<Rightarrow> ob_rowkey \<Rightarrow> bool option" where
  "rowkey_gt fp lhs rhs = map_option (\<lambda>c. c > 0) (rowkey_compare fp lhs rhs)"

definition rowkey_ge :: "fp_ops \<Rightarrow> ob_rowkey \<Rightarrow> ob_rowkey \<Rightarrow> bool option" where
  "rowkey_ge fp lhs rhs = map_option (\<lambda>c. c \<ge> 0) (rowkey_compare fp lhs rhs)"

definition rowkey_eq :: "fp_ops \<Rightarrow> ob_rowkey \<Rightarrow> ob_rowkey \<Rightarrow> bool option" where
  "rowkey_eq fp lhs rhs = map_option (\<lambda>c. c = 0) (rowkey_compare fp lhs rhs)"

definition rowkey_ne :: "fp_ops \<Rightarrow> ob_rowkey \<Rightarrow> ob_rowkey \<Rightarrow> bool option" where
  "rowkey_ne fp lhs rhs = map_option (\<lambda>c. c \<noteq> 0) (rowkey_compare fp lhs rhs)"

definition is_min_row :: "fp_ops \<Rightarrow> ob_rowkey \<Rightarrow> bool option" where
  "is_min_row fp rk = rowkey_eq fp rk MIN_ROWKEY"

definition is_max_row :: "fp_ops \<Rightarrow> ob_rowkey \<Rightarrow> bool option" where
  "is_max_row fp rk = rowkey_eq fp rk MAX_ROWKEY"

text \<open>The function object \<^verbatim>\<open>ObRowkeyLess\<close> with the description it holds.\<close>

definition less_call :: "fp_ops \<Rightarrow> rowkey_info option \<Rightarrow> ob_rowkey \<Rightarrow> ob_rowkey \<Rightarrow> bool option" where
  "less_call fp info lhs rhs = map_option (\<lambda>c. c < 0) (rowkey_compare_info fp info lhs rhs)"

definition less_compare :: "fp_ops \<Rightarrow> rowkey_info option \<Rightarrow> ob_rowkey \<Rightarrow> ob_rowkey \<Rightarrow> int option" where
  "less_compare fp info lhs rhs = rowkey_compare_info fp info lhs rhs"

text \<open>
  The loops \<^verbatim>\<open>for (i = 0; i < obj_cnt_; ++i)\<close> that fold a value over the objects, \<open>n\<close> of them to go.
\<close>

fun rowkey_fold :: "(ob_obj \<Rightarrow> 's \<Rightarrow> 's option) \<Rightarrow> ob_rowkey \<Rightarrow> int \<Rightarrow> nat \<Rightarrow> 's \<Rightarrow> 's option" where
  "rowkey_fold f rk i 0 s = Some s"
| "rowkey_fold f rk i (Suc n) s = do {
     o1 \<leftarrow> rowkey_at rk i;
     s \<leftarrow> f o1 s;
     rowkey_fold f rk (i + 1) n s
   }"

definition for_objs :: "(ob_obj \<Rightarrow> 's \<Rightarrow> 's option) \<Rightarrow> ob_rowkey \<Rightarrow> 's \<Rightarrow> 's option" where
  "for_objs f rk s = rowkey_fold f rk 0 (nat (obj_cnt rk)) s"

definition get_binary_key_length :: "ob_rowkey \<Rightarrow> i64 option" where
  "get_binary_key_length rk = for_objs (\<lambda>o1 len. Some (len + scast (o_val_len o1))) rk 0"

definition get_deep_copy_size :: "ob_rowkey \<Rightarrow> i64 option" where
  "get_deep_copy_size rk =
     for_objs (\<lambda>o1 len. Some (if o_type o1 = ObVarcharType then len + scast (o_val_len o1) else len))
       rk (word_of_int (obj_cnt rk * 16))"

definition get_serialize_objs_size :: "ob_rowkey \<Rightarrow> int option" where
  "get_serialize_objs_size rk =
     for_objs (\<lambda>o1 size. map_option (\<lambda>n. size + n) (obj_get_serialize_size o1)) rk 0"

definition rowkey_get_serialize_size :: "ob_rowkey \<Rightarrow> int option" where
  "rowkey_get_serialize_size rk =
     map_option (\<lambda>n. encoded_length_vi64 (word_of_int (obj_cnt rk)) + n) (get_serialize_objs_size rk)"

definition rowkey_checksum :: "ob_rowkey \<Rightarrow> u64 \<Rightarrow> u64 option" where
  "rowkey_checksum rk current =
     (if 0 < obj_cnt rk \<and> obj_ptr rk \<noteq> None then for_objs obj_checksum rk current else Some current)"

definition rowkey_checksum_batch :: "ob_rowkey \<Rightarrow> batch_checksum \<Rightarrow> batch_checksum option" where
  "rowkey_checksum_batch rk bc =
     (if 0 < obj_cnt rk \<and> obj_ptr rk \<noteq> None then for_objs obj_checksum_batch rk bc else Some bc)"

definition rowkey_murmurhash2 :: "ob_rowkey \<Rightarrow> u32 \<Rightarrow> u32 option" where
  "rowkey_murmurhash2 rk hash =
     (if 0 < obj_cnt rk \<and> obj_ptr rk \<noteq> None then for_objs obj_murmurhash2 rk hash else Some hash)"

definition rowkey_murmurhash64A :: "ob_rowkey \<Rightarrow> u64 \<Rightarrow> u64 option" where
  "rowkey_murmurhash64A rk hash =
     (if 0 < obj_cnt rk \<and> obj_ptr rk \<noteq> None then for_objs obj_murmurhash64A rk hash else Some hash)"

definition rowkey_hash :: "ob_rowkey \<Rightarrow> i64 option" where
  "rowkey_hash rk = map_option ucast (rowkey_murmurhash2 rk 0)"

section \<open>Row keys on the wire\<close>

fun serialize_objs_loop :: "ob_rowkey \<Rightarrow> int \<Rightarrow> nat \<Rightarrow> unit run" where
  "serialize_objs_loop rk i 0 = ret ()"
| "serialize_objs_loop rk i (Suc n) = with_member (rowkey_at rk i)
     (\<lambda>o1. Ob_Prelude.bind (obj_serialize o1) (\<lambda>_. serialize_objs_loop rk (i + 1) n))"

definition serialize_objs :: "ob_rowkey \<Rightarrow> unit run" where
  "serialize_objs rk = serialize_objs_loop rk 0 (nat (obj_cnt rk))"

definition rowkey_serialize :: "ob_rowkey \<Rightarrow> unit run" where
  "rowkey_serialize rk =
     Ob_Prelude.bind (encode_vi64 (word_of_int (obj_cnt rk))) (\<lambda>_. serialize_objs rk)"

text \<open>Reading fills the objects of an array the caller has attached to the key.\<close>

definition set_obj :: "int \<Rightarrow> ob_obj \<Rightarrow> ob_rowkey \<Rightarrow> ob_rowkey" where
  "set_obj i o1 rk = rk\<lparr>obj_ptr := map_option (\<lambda>os. os[nat i := o1]) (obj_ptr rk)\<rparr>"

fun deserialize_objs_loop :: "int \<Rightarrow> nat \<Rightarrow> ob_rowkey \<Rightarrow> ob_rowkey run" where
  "deserialize_objs_loop i 0 rk = ret rk"
| "deserialize_objs_loop i (Suc n) rk = with_member (rowkey_at rk i)
     (\<lambda>_. Ob_Prelude.bind obj_deserialize (\<lambda>o1. deserialize_objs_loop (i + 1) n (set_obj i o1 rk)))"

definition deserialize_objs :: "ob_rowkey \<Rightarrow> ob_rowkey run" where
  "deserialize_objs rk =
     (if obj_ptr rk = None then fail OB_ERR_UNEXPECTED else deserialize_objs_loop 0 (nat (obj_cnt rk)) rk)"

text \<open>
  A call whose return code the caller overwrites: where it fails, the variable it should set keeps its initial value \<open>v\<close>.
\<close>

definition unverified :: "'a \<Rightarrow> 'a run \<Rightarrow> 'a run" where
  "unverified v m s = map_option (\<lambda>(r, s). (Ok (case r of Ok x \<Rightarrow> x | Err e \<Rightarrow> v), s)) (m s)"

definition rowkey_deserialize :: "ob_rowkey \<Rightarrow> ob_rowkey run" where
  "rowkey_deserialize rk =
     Ob_Prelude.bind (unverified 0 decode_vi64) (\<lambda>cnt.
       if obj_cnt rk < sint cnt then fail OB_BUF_NOT_ENOUGH
       else deserialize_objs (rk\<lparr>obj_cnt := sint cnt\<rparr>))"

text \<open>The loop that reads until the stream ends; it returns the key and the number of objects read.\<close>

fun from_stream_loop :: "int \<Rightarrow> nat \<Rightarrow> ob_rowkey \<Rightarrow> (ob_rowkey \<times> int) run" where
  "from_stream_loop i 0 rk = ret (rk, i)"
| "from_stream_loop i (Suc n) rk = (\<lambda>s.
     if pos s < blen s
     then with_member (rowkey_at rk i)
       (\<lambda>_. Ob_Prelude.bind obj_deserialize (\<lambda>o1. from_stream_loop (i + 1) n (set_obj i o1 rk))) s
     else ret (rk, i) s)"

definition deserialize_from_stream :: "ob_rowkey \<Rightarrow> ob_rowkey run" where
  "deserialize_from_stream rk s =
     Ob_Prelude.bind (from_stream_loop 0 (nat (obj_cnt rk)) rk) (\<lambda>(rk, i) s.
       if pos s \<noteq> blen s then fail OB_SIZE_OVERFLOW s else ret (rk\<lparr>obj_cnt := i\<rparr>) s) (s\<lparr>pos := 0\<rparr>)"

section \<open>Copies\<close>

text \<open>
  A copy keeps the objects and gives the strings memory of their own: the bytes up to the length. \<open>alloc\<close> says whether
  the allocator has memory for a request.
\<close>

definition copy_obj :: "ob_obj \<Rightarrow> ob_obj option" where
  "copy_obj o1 =
     (if o_type o1 = ObVarcharType
      then do {
        p \<leftarrow> varchar_val (o_value o1);
        bs \<leftarrow> mem_bytes (p, sint (o_val_len o1));
        Some (set_varchar (Some bs) (o_val_len o1) o1)
      }
      else Some o1)"

definition deep_copy :: "(i64 \<Rightarrow> bool) \<Rightarrow> ob_rowkey \<Rightarrow> ob_rowkey \<Rightarrow> (unit result \<times> ob_rowkey) option" where
  "deep_copy alloc rk rhs =
     (if obj_cnt rk > 0 \<and> obj_ptr rk \<noteq> None
      then do {
        total_len \<leftarrow> get_deep_copy_size rk;
        if \<not> alloc total_len then Some (Err OB_ALLOCATE_MEMORY_FAILED, rhs)
        else do {
          os \<leftarrow> for_objs (\<lambda>o1 os. map_option (\<lambda>c. os @ [c]) (copy_obj o1)) rk [];
          Some (Ok (), rowkey_assign (Some os) (obj_cnt rk))
        }
      }
      else Some (Ok (), rowkey_assign None 0))"

definition ob_write_rowkey :: "(i64 \<Rightarrow> bool) \<Rightarrow> ob_rowkey \<Rightarrow> ob_rowkey \<Rightarrow> (unit result \<times> ob_rowkey) option" where
  "ob_write_rowkey alloc src dst = deep_copy alloc src dst"

text \<open>\<^verbatim>\<open>ObStringBuf::write_string\<close> on keys: it reserves the size and copies into the reserved piece.\<close>

definition write_string_rowkey :: "(i64 \<Rightarrow> bool) \<Rightarrow> ob_rowkey \<Rightarrow> ob_rowkey \<Rightarrow> (unit result \<times> ob_rowkey) option" where
  "write_string_rowkey alloc rk stored =
     (if obj_cnt rk = 0 \<or> obj_ptr rk = None then Some (Ok (), rowkey_assign None 0)
      else do {
        len \<leftarrow> get_deep_copy_size rk;
        if \<not> alloc len then Some (Err OB_ALLOCATE_MEMORY_FAILED, stored)
        else do {
          (_, stored) \<leftarrow> deep_copy (\<lambda>n. n \<le>s len) rk stored;
          Some (Ok (), stored)
        }
      })"

end
