(* ===== verification/Ob_Rowkey_Order.thy ===== *)
theory Ob_Rowkey_Order
  imports Ob_Rowkey
begin

text \<open>
  The order of row keys. \<open>three_way\<close> states the laws of a three-way comparison without a key; comparisons by key have
  them, turning a comparison around keeps them, and so does the lexicographic order of lists over a comparison for each
  position. The comparison of keys is such an order of normalised lists: a key that starts with a border value counts as
  the border value alone.
\<close>

section \<open>Three-way comparisons\<close>

definition cmp_le :: "('a \<Rightarrow> 'a \<Rightarrow> int option) \<Rightarrow> 'a \<Rightarrow> 'a \<Rightarrow> bool" where
  "cmp_le cmp x y \<longleftrightarrow> (\<exists>c. cmp x y = Some c \<and> c \<le> 0)"

locale three_way =
  fixes carrier :: "'a \<Rightarrow> bool" and cmp :: "'a \<Rightarrow> 'a \<Rightarrow> int option"
  assumes total: "carrier x \<Longrightarrow> carrier y \<Longrightarrow> \<exists>c. cmp x y = Some c"
    and swap: "carrier x \<Longrightarrow> carrier y \<Longrightarrow> cmp x y = Some c \<Longrightarrow> cmp y x = Some d \<Longrightarrow> sgn d = - sgn c"
    and trans: "carrier x \<Longrightarrow> carrier y \<Longrightarrow> carrier z \<Longrightarrow> cmp x y = Some c \<Longrightarrow> cmp y z = Some d \<Longrightarrow>
      cmp x z = Some e \<Longrightarrow> c \<le> 0 \<Longrightarrow> d \<le> 0 \<Longrightarrow> e \<le> 0 \<and> (e = 0 \<longrightarrow> c = 0 \<and> d = 0)"
begin

lemma self: "carrier x \<Longrightarrow> cmp x x = Some 0"
  using total [of x x] swap [of x x] by (auto simp: sgn_if split: if_splits)

lemma not_le: "carrier x \<Longrightarrow> carrier y \<Longrightarrow> cmp x y = Some c \<Longrightarrow> cmp y x = Some d \<Longrightarrow> c \<le> 0 \<longleftrightarrow> 0 \<le> d"
  using swap [of x y c d] by (auto simp: sgn_if split: if_splits)

lemma not_ge: "carrier x \<Longrightarrow> carrier y \<Longrightarrow> cmp x y = Some c \<Longrightarrow> cmp y x = Some d \<Longrightarrow> 0 \<le> c \<longleftrightarrow> d \<le> 0"
  using swap [of x y c d] by (auto simp: sgn_if split: if_splits)

text \<open>The order the comparison gives.\<close>

lemma le_trans: "carrier x \<Longrightarrow> carrier y \<Longrightarrow> carrier z \<Longrightarrow> cmp_le cmp x y \<Longrightarrow> cmp_le cmp y z \<Longrightarrow> cmp_le cmp x z"
  using trans total [of x z] by (fastforce simp: cmp_le_def)

lemma le_linear: "carrier x \<Longrightarrow> carrier y \<Longrightarrow> cmp_le cmp x y \<or> cmp_le cmp y x"
  using total [of x y] total [of y x] not_le [of x y] by (fastforce simp: cmp_le_def)

lemma cmp_iff:
  assumes "carrier x" "carrier y" "cmp x y = Some c"
  shows "c \<le> 0 \<longleftrightarrow> cmp_le cmp x y" "0 \<le> c \<longleftrightarrow> cmp_le cmp y x"
proof -
  obtain d where "cmp y x = Some d" using total assms by blast
  then show "c \<le> 0 \<longleftrightarrow> cmp_le cmp x y" "0 \<le> c \<longleftrightarrow> cmp_le cmp y x"
    using not_ge [OF assms] assms(3) by (simp_all add: cmp_le_def)
qed

text \<open>Equal elements compare alike with every other.\<close>

lemma equal_left:
  assumes "carrier x" "carrier y" "carrier z" "cmp x y = Some 0" "cmp x z = Some c" "cmp y z = Some d"
  shows "sgn c = sgn d"
proof -
  obtain a where a: "cmp y x = Some a" using total assms by blast
  then have "a = 0" using swap [OF assms(1,2,4) a] by (simp add: sgn_if split: if_splits)
  obtain p q where pq: "cmp z x = Some p" "cmp z y = Some q"
    using total [OF assms(3,1)] total [OF assms(3,2)] by blast
  have "c \<le> 0 \<Longrightarrow> d \<le> 0" "d \<le> 0 \<Longrightarrow> c \<le> 0"
    using trans [OF assms(2,1,3) a assms(5,6)] trans [OF assms(1,2,3) assms(4,6,5)] \<open>a = 0\<close> by simp_all
  moreover have "p \<le> 0 \<Longrightarrow> q \<le> 0" "q \<le> 0 \<Longrightarrow> p \<le> 0"
    using trans [OF assms(3,1,2) pq(1) assms(4) pq(2)] trans [OF assms(3,2,1) pq(2) a pq(1)] \<open>a = 0\<close> by simp_all
  moreover have "p \<le> 0 \<longleftrightarrow> 0 \<le> c" "q \<le> 0 \<longleftrightarrow> 0 \<le> d"
    using not_le [OF assms(3,1) pq(1) assms(5)] not_le [OF assms(3,2) pq(2) assms(6)] by simp_all
  ultimately have "c < 0 \<longleftrightarrow> d < 0" "0 < c \<longleftrightarrow> 0 < d" by linarith+
  then show ?thesis by (cases c "0 :: int" rule: linorder_cases) auto
qed

lemma equal_right:
  assumes "carrier x" "carrier y" "carrier z" "cmp y z = Some 0" "cmp x y = Some c" "cmp x z = Some d"
  shows "sgn c = sgn d"
proof -
  obtain p q where pq: "cmp y x = Some p" "cmp z x = Some q"
    using total [OF assms(2,1)] total [OF assms(3,1)] by blast
  have "sgn p = sgn q" using equal_left [OF assms(2,3,1,4) pq] .
  then show ?thesis using swap [OF assms(2,1) pq(1) assms(5)] swap [OF assms(3,1) pq(2) assms(6)] by simp
qed

end

sublocale comparison \<subseteq> three_way carrier cmp
proof
  fix x y z c d e
  show "carrier x \<Longrightarrow> carrier y \<Longrightarrow> \<exists>c. cmp x y = Some c" using cmp_key by blast
  show "carrier x \<Longrightarrow> carrier y \<Longrightarrow> cmp x y = Some c \<Longrightarrow> cmp y x = Some d \<Longrightarrow> sgn d = - sgn c"
    using cmp_antisym [of x y] by simp
  show "carrier x \<Longrightarrow> carrier y \<Longrightarrow> carrier z \<Longrightarrow> cmp x y = Some c \<Longrightarrow> cmp y z = Some d \<Longrightarrow> cmp x z = Some e \<Longrightarrow>
      c \<le> 0 \<Longrightarrow> d \<le> 0 \<Longrightarrow> e \<le> 0 \<and> (e = 0 \<longrightarrow> c = 0 \<and> d = 0)"
    using cmp_trans [of x y z c d] by auto
qed

text \<open>The comparison of a descending column.\<close>

lemma three_way_reversed:
  assumes "three_way P C"
  shows "three_way P (\<lambda>x y. map_option (\<lambda>c. c * - 1) (C x y))"
proof
  note total = three_way.total [OF assms] and swap = three_way.swap [OF assms] and trans = three_way.trans [OF assms]
    and ge = three_way.not_ge [OF assms]
  fix x y z c d e
  show "P x \<Longrightarrow> P y \<Longrightarrow> \<exists>c. map_option (\<lambda>c. c * - 1) (C x y) = Some c" using total by fastforce
  show "P x \<Longrightarrow> P y \<Longrightarrow> map_option (\<lambda>c. c * - 1) (C x y) = Some c \<Longrightarrow> map_option (\<lambda>c. c * - 1) (C y x) = Some d \<Longrightarrow>
      sgn d = - sgn c"
    by (auto dest: swap)
  assume a: "P x" "P y" "P z" "map_option (\<lambda>c. c * - 1) (C x y) = Some c" "map_option (\<lambda>c. c * - 1) (C y z) = Some d"
    "map_option (\<lambda>c. c * - 1) (C x z) = Some e" "c \<le> 0" "d \<le> 0"
  then have b: "C x y = Some (- c)" "C y z = Some (- d)" "C x z = Some (- e)" by auto
  obtain p q r where c: "C y x = Some p" "C z y = Some q" "C z x = Some r" using total [OF a(2,1)] total [OF a(3,2)] total [OF a(3,1)] by blast
  have "p \<le> 0" "q \<le> 0" "0 \<le> - e \<longleftrightarrow> r \<le> 0"
    using ge [OF a(1,2) b(1) c(1)] ge [OF a(2,3) b(2) c(2)] ge [OF a(1,3) b(3) c(3)] a(7,8) by simp_all
  moreover have "sgn p = sgn c" "sgn q = sgn d" "sgn r = sgn e"
    using swap [OF a(1,2) b(1) c(1)] swap [OF a(2,3) b(2) c(2)] swap [OF a(1,3) b(3) c(3)] by simp_all
  ultimately show "e \<le> 0 \<and> (e = 0 \<longrightarrow> c = 0 \<and> d = 0)"
    using trans [OF a(3,2,1) c(2,1,3)] by (metis neg_0_le_iff_le sgn_0_0)
qed

section \<open>Lexicographic order\<close>

fun lex_cmp :: "(nat \<Rightarrow> 'a \<Rightarrow> 'a \<Rightarrow> int option) \<Rightarrow> 'a list \<Rightarrow> 'a list \<Rightarrow> int option" where
  "lex_cmp C [] [] = Some 0"
| "lex_cmp C [] (y # ys) = Some (- 1)"
| "lex_cmp C (x # xs) [] = Some 1"
| "lex_cmp C (x # xs) (y # ys) =
     (case C 0 x y of None \<Rightarrow> None | Some c \<Rightarrow> if c = 0 then lex_cmp (\<lambda>i. C (Suc i)) xs ys else Some c)"

fun lex_carrier :: "(nat \<Rightarrow> 'a \<Rightarrow> bool) \<Rightarrow> 'a list \<Rightarrow> bool" where
  "lex_carrier P [] \<longleftrightarrow> True"
| "lex_carrier P (x # xs) \<longleftrightarrow> P 0 x \<and> lex_carrier (\<lambda>i. P (Suc i)) xs"

lemma lex_total:
  assumes "\<And>i. three_way (P i) (C i)" "lex_carrier P xs" "lex_carrier P ys"
  shows "\<exists>c. lex_cmp C xs ys = Some c"
  using assms
proof (induction C xs ys arbitrary: P rule: lex_cmp.induct)
  case (4 C x xs y ys)
  then obtain c where c: "C 0 x y = Some c" using three_way.total [OF 4(2)] by fastforce
  show ?case using 4(1) [OF c _ 4(2)] 4(3,4) c by simp
qed simp_all

lemma lex_swap:
  assumes "\<And>i. three_way (P i) (C i)" "lex_carrier P xs" "lex_carrier P ys"
    and "lex_cmp C xs ys = Some c" "lex_cmp C ys xs = Some d"
  shows "sgn d = - sgn c"
  using assms
proof (induction C xs ys arbitrary: P rule: lex_cmp.induct)
  case (4 C x xs y ys)
  then obtain a b where ab: "C 0 x y = Some a" "C 0 y x = Some b"
    using three_way.total [OF 4(2), of 0 x y] three_way.total [OF 4(2), of 0 y x] by auto
  moreover have "sgn b = - sgn a" using three_way.swap [OF 4(2) _ _ ab] 4(3,4) by simp
  moreover have "a = 0 \<longleftrightarrow> b = 0" using \<open>sgn b = - sgn a\<close> by (auto simp: sgn_if split: if_splits)
  ultimately show ?case
    using 4(1) [OF ab(1) _ 4(2)] 4(3-6) by (cases "a = 0") auto
qed auto

lemma lex_trans:
  assumes "\<And>i. three_way (P i) (C i)" "lex_carrier P xs" "lex_carrier P ys" "lex_carrier P zs"
    and "lex_cmp C xs ys = Some c" "lex_cmp C ys zs = Some d" "lex_cmp C xs zs = Some e" "c \<le> 0" "d \<le> 0"
  shows "e \<le> 0 \<and> (e = 0 \<longrightarrow> c = 0 \<and> d = 0)"
  using assms
proof (induction C xs ys arbitrary: P zs rule: lex_cmp.induct)
  case (4 C x xs y ys)
  from 4(7,10) obtain z zs' where zs: "zs = z # zs'" by (cases zs) auto
  have P: "P 0 x" "P 0 y" "P 0 z" using 4(3-5) zs by simp_all
  then obtain c1 d1 e1 where C: "C 0 x y = Some c1" "C 0 y z = Some d1" "C 0 x z = Some e1"
    using three_way.total [OF 4(2) P(1,2)] three_way.total [OF 4(2) P(2,3)] three_way.total [OF 4(2) P(1,3)] by blast
  note T = three_way.trans [OF 4(2) P C] and L = three_way.equal_left [OF 4(2) P _ C(3,2)]
  show ?case
  proof (cases "c1 = 0 \<and> d1 = 0")
    case True
    then have "e1 = 0" using L C by (simp add: sgn_if split: if_splits)
    with True C zs show ?thesis using 4(1) [OF C(1) _ 4(2)] 4(3-) by auto
  next
    case False
    have "c1 \<le> 0" using C 4(6,9) by (auto split: if_splits)
    moreover have "c1 = 0 \<Longrightarrow> d1 \<le> 0" using C zs 4(7,10) by (auto split: if_splits)
    moreover have "d1 \<le> 0" using C zs 4(7,10) by (auto split: if_splits)
    ultimately have "e1 < 0" using T False by fastforce
    then show ?thesis using C zs 4(8) by auto
  qed
next
  case (1 C)
  then show ?case by (cases zs) auto
next
  case (2 C y ys)
  then show ?case by (cases zs) auto
qed auto

lemma three_way_lex:
  assumes "\<And>i. three_way (P i) (C i)"
  shows "three_way (lex_carrier P) (lex_cmp C)"
  by unfold_locales (rule lex_total [OF assms] lex_swap [OF assms] lex_trans [OF assms]; assumption)+

section \<open>Row keys as lists\<close>

definition rowkey_objs :: "ob_rowkey \<Rightarrow> ob_obj list option" where
  "rowkey_objs rk =
     (if obj_cnt rk \<le> 0 then Some []
      else case obj_ptr rk of
             None \<Rightarrow> None
           | Some os \<Rightarrow> if obj_cnt rk \<le> int (length os) then Some (take (nat (obj_cnt rk)) os) else None)"

lemma rowkey_objs_cnt: "rowkey_objs rk = Some os \<Longrightarrow> length os = nat (obj_cnt rk)"
  by (auto simp: rowkey_objs_def split: if_splits option.splits)

lemma rowkey_objs_at:
  assumes "rowkey_objs rk = Some os" "i < length os"
  shows "rowkey_at rk (int i) = Some (os ! i)"
  using assms by (auto simp: rowkey_objs_def rowkey_at_def split: if_splits option.splits)

lemma rowkey_objs_assign [simp]: "rowkey_objs (rowkey_assign (Some os) (int (length os))) = Some os"
  by (auto simp: rowkey_objs_def rowkey_assign_def)

fun fold_option :: "('a \<Rightarrow> 's \<Rightarrow> 's option) \<Rightarrow> 'a list \<Rightarrow> 's \<Rightarrow> 's option" where
  "fold_option f [] s = Some s"
| "fold_option f (x # xs) s = Option.bind (f x s) (fold_option f xs)"

lemma for_objs_fold:
  assumes "rowkey_objs rk = Some os"
  shows "for_objs f rk s = fold_option f os s"
proof -
  have "i \<le> length os \<Longrightarrow> rowkey_fold f rk (int i) (length os - i) s = fold_option f (drop i os) s" for i s
  proof (induction "length os - i" arbitrary: i s)
    case (Suc n)
    then have "length os - i = Suc (length os - Suc i)" "drop i os = os ! i # drop (Suc i) os"
      by (simp_all add: Cons_nth_drop_Suc)
    moreover have "rowkey_fold f rk (int i + 1) (length os - Suc i) s = fold_option f (drop (Suc i) os) s" for s
      using Suc(1) [of "Suc i" s] Suc(2) by (simp add: add.commute)
    then have "rowkey_fold f rk (int i + 1) (length os - Suc i) = fold_option f (drop (Suc i) os)" by (rule ext)
    ultimately show ?case using Suc(2) rowkey_objs_at [OF assms, of i] by simp
  qed simp
  from this [of 0] show ?thesis using rowkey_objs_cnt [OF assms] by (simp add: for_objs_def)
qed

section \<open>The order of row keys\<close>

definition factor_cmp :: "fp_ops \<Rightarrow> rowkey_info option \<Rightarrow> nat \<Rightarrow> ob_obj \<Rightarrow> ob_obj \<Rightarrow> int option" where
  "factor_cmp fp info i x y =
     Option.bind (obj_compare fp x y) (\<lambda>c. map_option (\<lambda>f. c * f) (order_factor info (int i)))"

lemma compare_loop_lex:
  assumes "rowkey_objs lhs = Some xs" "rowkey_objs rhs = Some ys" "i \<le> length xs" "i \<le> length ys"
  shows "Option.bind (rowkey_compare_loop fp info lhs rhs (length xs - i) (int i) 0)
      (\<lambda>(cmp, j). Some (if cmp = 0 \<and> j < obj_cnt rhs then - 1 else cmp))
    = lex_cmp (\<lambda>k. factor_cmp fp info (i + k)) (drop i xs) (drop i ys)"
  using assms(3,4)
proof (induction "length xs - i" arbitrary: i)
  case 0
  then have "drop i xs = []" "length xs - i = 0" by simp_all
  with 0 rowkey_objs_cnt [OF assms(2)] show ?case by (cases "drop i ys") (auto dest: arg_cong [of _ _ length])
next
  case (Suc n)
  then have x: "length xs - i = Suc (length xs - Suc i)" "drop i xs = xs ! i # drop (Suc i) xs" "i < length xs"
    by (simp_all add: Cons_nth_drop_Suc)
  show ?case
  proof (cases "i < length ys")
    case True
    then have y: "drop i ys = ys ! i # drop (Suc i) ys" "int i < obj_cnt rhs"
      using rowkey_objs_cnt [OF assms(2)] by (simp_all add: Cons_nth_drop_Suc)
    have IH: "Option.bind (rowkey_compare_loop fp info lhs rhs (length xs - Suc i) (int i + 1) 0)
        (\<lambda>(cmp, j). Some (if cmp = 0 \<and> j < obj_cnt rhs then - 1 else cmp))
      = lex_cmp (\<lambda>k. factor_cmp fp info (Suc i + k)) (drop (Suc i) xs) (drop (Suc i) ys)"
      using Suc(1) [of "Suc i"] Suc(2-) True x(3) by (simp add: add.commute)
    have R: "c \<noteq> 0 \<Longrightarrow> rowkey_compare_loop fp info lhs rhs n j c = Some (c, j)" for n j c by (cases n) auto
    show ?thesis
      unfolding x(1,2) y(1)
      using rowkey_objs_at [OF assms(1) x(3)] rowkey_objs_at [OF assms(2) True] y(2) IH R
      by (auto simp: factor_cmp_def split: Option.bind_splits)
  next
    case False
    with Suc x rowkey_objs_cnt [OF assms(2)] show ?thesis by simp
  qed
qed

text \<open>A key that starts with a border value counts as that value alone.\<close>

fun border_norm :: "ob_obj list \<Rightarrow> ob_obj list" where
  "border_norm [] = []"
| "border_norm (x # xs) = (if is_min_value x \<or> is_max_value x then [x] else x # xs)"

lemma rowkey_compare_lex:
  assumes "rowkey_objs lhs = Some xs" "rowkey_objs rhs = Some ys"
    and "xs \<noteq> [] \<Longrightarrow> ys \<noteq> [] \<Longrightarrow> \<exists>f. order_factor info 0 = Some f \<and> f \<noteq> 0"
  shows "rowkey_compare_info fp info lhs rhs = lex_cmp (factor_cmp fp info) (border_norm xs) (border_norm ys)"
proof (cases "xs = [] \<or> ys = []")
  case True
  then show ?thesis
    using compare_loop_lex [OF assms(1,2), of 0 fp info] rowkey_objs_cnt [OF assms(1)] rowkey_objs_cnt [OF assms(2)]
    by (cases xs; cases ys) (auto simp: rowkey_compare_info_def)
next
  case False
  then obtain x xs' y ys' where l: "xs = x # xs'" "ys = y # ys'" by (auto simp: neq_Nil_conv)
  obtain f where f: "order_factor info 0 = Some f" "f \<noteq> 0" using assms(3) False by blast
  have c: "obj_cnt lhs > 0" "obj_cnt rhs > 0" "nat (obj_cnt lhs) = length xs"
    using rowkey_objs_cnt [OF assms(1)] rowkey_objs_cnt [OF assms(2)] l by auto
  have at: "rowkey_at lhs 0 = Some x" "rowkey_at rhs 0 = Some y"
    using rowkey_objs_at [OF assms(1), of 0] rowkey_objs_at [OF assms(2), of 0] l by simp_all
  have s: "obj_rank x = obj_rank y \<Longrightarrow> obj_rank x \<noteq> 2 \<Longrightarrow> factor_cmp fp info 0 x y = Some 0"
    using f by (simp add: factor_cmp_def obj_compare_special)
  have d: "obj_rank x \<noteq> obj_rank y \<Longrightarrow> \<exists>c. c \<noteq> 0 \<and> factor_cmp fp info 0 x y = Some c"
    using f by (simp add: factor_cmp_def obj_compare_rank)
  have m: "is_min_value x \<longleftrightarrow> obj_rank x = 0" "is_max_value x \<longleftrightarrow> obj_rank x = 3" for x
    by (auto simp: obj_rank_def is_min_value_def is_max_value_def MIN_OBJECT_VALUE_def MAX_OBJECT_VALUE_def)
  have lex: "rowkey_compare_info fp info lhs rhs =
      (if is_min_value x \<and> is_min_value y \<or> is_max_value x \<and> is_max_value y then Some 0
       else lex_cmp (factor_cmp fp info) xs ys)"
    using compare_loop_lex [OF assms(1,2), of 0 fp info] c at by (simp add: rowkey_compare_info_def)
  show ?thesis
  proof (cases "obj_rank x = obj_rank y")
    case True
    then show ?thesis unfolding lex using s by (auto simp: l m)
  next
    case False
    with d obtain c where "c \<noteq> 0" "factor_cmp fp info 0 x y = Some c" by blast
    with False show ?thesis unfolding lex by (auto simp: l m)
  qed
qed

text \<open>
  The keys of a table with the column types \<open>ts\<close>: any prefix of the columns, each object of its column's type. A
  description, where there is one, orders each of the columns one way or the other.
\<close>

definition orders_ok :: "rowkey_info option \<Rightarrow> nat \<Rightarrow> bool" where
  "orders_ok info n \<longleftrightarrow> list_all (\<lambda>i. order_factor info (int i) \<in> {Some 1, Some (- 1)}) [0..<n]"

definition table_key :: "rowkey_info option \<Rightarrow> int list \<Rightarrow> ob_rowkey \<Rightarrow> bool" where
  "table_key info ts rk \<longleftrightarrow> orders_ok info (length ts) \<and>
     (case rowkey_objs rk of
        None \<Rightarrow> False
      | Some os \<Rightarrow> length os \<le> length ts \<and> list_all2 obj_column (take (length os) ts) os)"

lemma orders_okD:
  "orders_ok info n \<Longrightarrow> i < n \<Longrightarrow> order_factor info (int i) = Some 1 \<or> order_factor info (int i) = Some (- 1)"
  by (simp add: orders_ok_def list_all_iff)

lemma factor_three_way:
  assumes "orders_ok info (length ts)"
  shows "three_way (\<lambda>o1. i < length ts \<and> obj_column (ts ! i) o1) (factor_cmp fp info i)"
proof (cases "i < length ts")
  case True
  then consider "order_factor info (int i) = Some 1" | "order_factor info (int i) = Some (- 1)"
    using orders_okD [OF assms True] by blast
  then show ?thesis
  proof cases
    case 1
    then have "factor_cmp fp info i = obj_compare fp"
      by (auto simp: factor_cmp_def fun_eq_iff split: Option.bind_splits)
    with True show ?thesis using column.three_way_axioms [of "ts ! i" fp] by simp
  next
    case 2
    then have "factor_cmp fp info i = (\<lambda>x y. map_option (\<lambda>c. c * - 1) (obj_compare fp x y))"
      by (auto simp: factor_cmp_def fun_eq_iff split: Option.bind_splits)
    with True show ?thesis using three_way_reversed [OF column.three_way_axioms [of "ts ! i" fp]] by simp
  qed
next
  case False
  then show ?thesis by unfold_locales auto
qed

lemma lex_carrier_types:
  "lex_carrier (\<lambda>i o1. i < length ts \<and> obj_column (ts ! i) o1) os
    \<longleftrightarrow> length os \<le> length ts \<and> list_all2 obj_column (take (length os) ts) os"
proof (induction os arbitrary: ts)
  case (Cons o1 os)
  then show ?case by (cases ts) auto
qed simp

lemma border_norm_carrier: "lex_carrier P os \<Longrightarrow> lex_carrier P (border_norm os)"
  by (cases os) auto

lemma table_keyE:
  assumes "table_key info ts rk"
  obtains os where "rowkey_objs rk = Some os" "length os \<le> length ts"
    "lex_carrier (\<lambda>i o1. i < length ts \<and> obj_column (ts ! i) o1) (border_norm os)"
  using assms lex_carrier_types [of ts] border_norm_carrier by (fastforce simp: table_key_def split: option.splits)

lemma table_key_compare:
  assumes "table_key info ts a" "table_key info ts b" "rowkey_objs a = Some xs" "rowkey_objs b = Some ys"
  shows "rowkey_compare_info fp info a b = lex_cmp (factor_cmp fp info) (border_norm xs) (border_norm ys)"
proof (rule rowkey_compare_lex [OF assms(3,4)])
  assume "xs \<noteq> []"
  then have "0 < length ts" using assms(1,3) by (auto simp: table_key_def)
  then show "\<exists>f. order_factor info 0 = Some f \<and> f \<noteq> 0"
    using assms(1) orders_okD [of info "length ts" 0] by (auto simp: table_key_def)
qed

interpretation rowkey: three_way "table_key info ts" "rowkey_compare_info fp info" for info ts fp
proof -
  have tw: "table_key info ts a \<Longrightarrow>
      three_way (lex_carrier (\<lambda>i o1. i < length ts \<and> obj_column (ts ! i) o1)) (lex_cmp (factor_cmp fp info))" for a
    using three_way_lex [OF factor_three_way] by (auto simp: table_key_def)
  show "three_way (table_key info ts) (rowkey_compare_info fp info)"
  proof
    fix x y z c d e
    assume k: "table_key info ts x" "table_key info ts y"
    obtain xs ys where o: "rowkey_objs x = Some xs" "rowkey_objs y = Some ys"
      "lex_carrier (\<lambda>i o1. i < length ts \<and> obj_column (ts ! i) o1) (border_norm xs)"
      "lex_carrier (\<lambda>i o1. i < length ts \<and> obj_column (ts ! i) o1) (border_norm ys)"
      using k by (elim table_keyE) blast
    note xy = table_key_compare [OF k o(1,2), of fp] and yx = table_key_compare [OF k(2,1) o(2,1), of fp]
    show "\<exists>c. rowkey_compare_info fp info x y = Some c"
      unfolding xy using three_way.total [OF tw [OF k(1)] o(3,4)] .
    show "rowkey_compare_info fp info x y = Some c \<Longrightarrow> rowkey_compare_info fp info y x = Some d \<Longrightarrow> sgn d = - sgn c"
      unfolding xy yx using three_way.swap [OF tw [OF k(1)] o(3,4)] .
    assume z: "table_key info ts z"
    then obtain zs where p: "rowkey_objs z = Some zs"
      "lex_carrier (\<lambda>i o1. i < length ts \<and> obj_column (ts ! i) o1) (border_norm zs)"
      by (elim table_keyE) blast
    show "rowkey_compare_info fp info x y = Some c \<Longrightarrow> rowkey_compare_info fp info y z = Some d \<Longrightarrow>
        rowkey_compare_info fp info x z = Some e \<Longrightarrow> c \<le> 0 \<Longrightarrow> d \<le> 0 \<Longrightarrow> e \<le> 0 \<and> (e = 0 \<longrightarrow> c = 0 \<and> d = 0)"
      unfolding xy table_key_compare [OF k(2) z o(2) p(1)] table_key_compare [OF k(1) z o(1) p(1)]
      using three_way.trans [OF tw [OF k(1)] o(3,4) p(2)] .
  qed
qed

end
