(* ===== verification/Ob_Rowkey_Codec.thy ===== *)
theory Ob_Rowkey_Codec
  imports Ob_Rowkey_Order
begin

text \<open>
  Row keys on the wire, their checksums and their copies. A key is written as its number of objects and the objects; the
  description of its columns likewise.
\<close>

section \<open>Columns\<close>

definition rc_bytes :: "rowkey_column \<Rightarrow> u8 list" where
  "rc_bytes c = vi_bytes (unat (rc_length c)) @ vi_bytes (unat (rc_column_id c)) @ vi_bytes (unat (rc_type c))
     @ vi_bytes (unat (rc_order c))"

interpretation rc: codec rc_serialize rc_deserialize rc_bytes "\<lambda>_. True"
proof
  fix c
  show "emits (rc_serialize c) (rc_bytes c)"
    unfolding rc_serialize_def rc_bytes_def
    by (intro emits_tmp_pos emits_bind vi64.enc_emits vi32.enc_emits TrueI)
  show "refuses (rc_serialize c) (length (rc_bytes c))"
    unfolding rc_serialize_def rc_bytes_def length_append
    by (intro refuses_tmp_pos refuses_bind vi64.enc_emits vi64.enc_refuses vi32.enc_emits vi32.enc_refuses TrueI)
  have "reads rc_deserialize (rc_bytes c @ [])
      \<lparr>rc_length = rc_length c, rc_column_id = rc_column_id c, rc_type = rc_type c, rc_order = rc_order c\<rparr>"
    unfolding rc_deserialize_def rc_bytes_def append_assoc
    by (rule reads_tmp_pos, (rule reads_bind [OF vi64.dec_reads [OF TrueI]])+,
        (rule reads_bind [OF vi32.dec_reads [OF TrueI]])+, rule reads_ret)
  then show "reads rc_deserialize (rc_bytes c) c" by (cases c) simp
qed

lemma rc_size: "rc_get_serialize_size c = int (length (rc_bytes c))"
  by (simp add: rc_get_serialize_size_def rc_bytes_def encoded_length_vi64_eq encoded_length_vi32_eq)

section \<open>Arrays of items\<close>

text \<open>
  Two classes write an array item by item and read it back into an array of their own. The locale states what their loops
  have in common: the item codec, which may normalise an item, the array of an object, and the two loops over an index.
\<close>

locale array_codec =
  fixes enc :: "'e \<Rightarrow> unit run" and dec :: "'e run" and bytes :: "'e \<Rightarrow> u8 list" and good :: "'e \<Rightarrow> bool" and rep :: "'e \<Rightarrow> 'e"
    and has_array :: "'a \<Rightarrow> bool" and items :: "'a \<Rightarrow> 'e list" and with_items :: "'e list \<Rightarrow> 'a \<Rightarrow> 'a"
    and enc_loop :: "'a \<Rightarrow> int \<Rightarrow> nat \<Rightarrow> unit run" and dec_loop :: "int \<Rightarrow> nat \<Rightarrow> 'a \<Rightarrow> 'a run"
  assumes item_emits: "good v \<Longrightarrow> emits (enc v) (bytes v)"
    and item_refuses: "good v \<Longrightarrow> refuses (enc v) (length (bytes v))"
    and item_reads: "good v \<Longrightarrow> reads dec (bytes v) (rep v)"
    and array_laws: "has_array a \<Longrightarrow> has_array (with_items es a)" "has_array a \<Longrightarrow> items (with_items es a) = es"
      "has_array a \<Longrightarrow> with_items (items a) a = a" "with_items es (with_items fs a) = with_items es a"
    and enc_loop_0: "enc_loop a i 0 = ret ()"
    and enc_loop_Suc: "has_array a \<Longrightarrow> 0 \<le> i \<Longrightarrow> i < int (length (items a)) \<Longrightarrow>
      enc_loop a i (Suc n) = Ob_Prelude.bind (enc (items a ! nat i)) (\<lambda>_. enc_loop a (i + 1) n)"
    and dec_loop_0: "dec_loop i 0 a = ret a"
    and dec_loop_Suc: "has_array a \<Longrightarrow> 0 \<le> i \<Longrightarrow> i < int (length (items a)) \<Longrightarrow>
      dec_loop i (Suc n) a = Ob_Prelude.bind dec (\<lambda>v. dec_loop (i + 1) n (with_items ((items a)[nat i := v]) a))"
begin

lemma enc_loop_spec:
  assumes "has_array a" "i + n \<le> length (items a)" "list_all good (take n (drop i (items a)))"
  shows "emits (enc_loop a (int i) n) (concat (map bytes (take n (drop i (items a))))) \<and>
    refuses (enc_loop a (int i) n) (length (concat (map bytes (take n (drop i (items a))))))"
  using assms
proof (induction n arbitrary: i)
  case (Suc n)
  then have d: "take (Suc n) (drop i (items a)) = items a ! i # take n (drop (Suc i) (items a))"
    by (simp add: Cons_nth_drop_Suc [symmetric])
  have "enc_loop a (int i) (Suc n) = Ob_Prelude.bind (enc (items a ! i)) (\<lambda>_. enc_loop a (int (Suc i)) n)"
    using Suc.prems enc_loop_Suc [of a "int i" n] by (simp add: add.commute)
  moreover have "emits (enc_loop a (int (Suc i)) n) (concat (map bytes (take n (drop (Suc i) (items a))))) \<and>
      refuses (enc_loop a (int (Suc i)) n) (length (concat (map bytes (take n (drop (Suc i) (items a))))))"
    using Suc.prems d by (intro Suc.IH) simp_all
  moreover have "good (items a ! i)" using Suc.prems(3) d by simp
  ultimately show ?case
    unfolding d by (simp add: emits_bind refuses_bind item_emits item_refuses del: of_nat_Suc)
qed (simp add: enc_loop_0 emits_ret refuses_ret)

lemma dec_loop_reads:
  assumes "has_array a" "i + length vs \<le> length (items a)" "list_all good vs"
  shows "reads (dec_loop (int i) (length vs) a) (concat (map bytes vs))
    (with_items (take i (items a) @ map rep vs @ drop (i + length vs) (items a)) a)"
  using assms
proof (induction vs arbitrary: i a)
  case Nil
  then show ?case by (simp add: dec_loop_0 reads_ret array_laws)
next
  case (Cons v vs)
  let ?b = "with_items ((items a)[i := rep v]) a"
  have b: "has_array ?b" "items ?b = (items a)[i := rep v]" using Cons.prems by (simp_all add: array_laws)
  have "take i (items a) @ map rep (v # vs) @ drop (i + length (v # vs)) (items a) =
      take (Suc i) ((items a)[i := rep v]) @ map rep vs @ drop (Suc i + length vs) ((items a)[i := rep v])"
    using Cons.prems(2) by (simp add: take_Suc_conv_app_nth)
  then have "with_items (take i (items a) @ map rep (v # vs) @ drop (i + length (v # vs)) (items a)) a =
      with_items (take (Suc i) (items ?b) @ map rep vs @ drop (Suc i + length vs) (items ?b)) ?b"
    unfolding b(2) array_laws(4) by (rule arg_cong)
  moreover have IH: "reads (dec_loop (int (Suc i)) (length vs) ?b) (concat (map bytes vs))
      (with_items (take (Suc i) (items ?b) @ map rep vs @ drop (Suc i + length vs) (items ?b)) ?b)"
    using Cons.prems b by (intro Cons.IH) simp_all
  moreover have "dec_loop (int i) (length (v # vs)) a =
      Ob_Prelude.bind dec (\<lambda>v. dec_loop (int (Suc i)) (length vs) (with_items ((items a)[i := v]) a))"
    using Cons.prems dec_loop_Suc [of a "int i" "length vs"] by (simp add: add.commute)
  moreover have "good v" using Cons.prems(3) by simp
  ultimately show ?case
    using reads_bind [OF item_reads, of v "\<lambda>v. dec_loop (int (Suc i)) (length vs) (with_items ((items a)[i := v]) a)", OF _ IH]
    by simp
qed

end

section \<open>The description of the columns\<close>

interpretation columns: array_codec rc_serialize rc_deserialize rc_bytes "\<lambda>_. True" "\<lambda>c. c" "\<lambda>_. True" ri_columns
  "\<lambda>cs ri. ri\<lparr>ri_columns := cs\<rparr>" ri_serialize_loop ri_deserialize_loop
  by unfold_locales
    (simp_all add: rc.enc_emits rc.enc_refuses rc.dec_reads columns_at_def with_member_def fun_eq_iff)

definition ri_bytes :: "rowkey_column list \<Rightarrow> u8 list" where
  "ri_bytes cs = vi_bytes (length cs) @ concat (map rc_bytes cs)"

text \<open>What a description describes: the first \<^verbatim>\<open>size_\<close> columns.\<close>

definition ri_list :: "rowkey_info \<Rightarrow> rowkey_column list" where
  "ri_list ri = take (nat (ri_size ri)) (ri_columns ri)"

definition ri_ok :: "rowkey_info \<Rightarrow> bool" where
  "ri_ok ri \<longleftrightarrow> length (ri_columns ri) = 16 \<and> 0 \<le> ri_size ri \<and> ri_size ri \<le> 16"

lemma unat_of_small: "n < 2 ^ 63 \<Longrightarrow> unat (word_of_nat n :: i64) = n \<and> sint (word_of_nat n :: i64) = int n"
  by (simp add: unat_of_nat take_bit_nat_eq_self signed_take_bit_int_eq_self)

lemma vi_count:
  assumes "n < 2 ^ 63"
  shows "emits (encode_vi64 (word_of_int (int n))) (vi_bytes n)" "refuses (encode_vi64 (word_of_int (int n))) (length (vi_bytes n))"
    "reads decode_vi64 (vi_bytes n) (word_of_nat n)" "encoded_length_vi64 (word_of_int (int n)) = int (length (vi_bytes n))"
  using vi64.enc_emits [of "word_of_nat n"] vi64.enc_refuses [of "word_of_nat n"] vi64.dec_reads [of "word_of_nat n"]
    unat_of_small [OF assms] by (simp_all add: encoded_length_vi64_eq)

lemma ri_length: "ri_ok ri \<Longrightarrow> int (length (ri_list ri)) = ri_size ri"
  by (auto simp: ri_ok_def ri_list_def)

lemma ri_spec:
  assumes "ri_ok ri"
  shows "emits (ri_serialize ri) (ri_bytes (ri_list ri))" "refuses (ri_serialize ri) (length (ri_bytes (ri_list ri)))"
proof -
  have n: "nat (ri_size ri) = length (ri_list ri)" "length (ri_list ri) \<le> 16" using ri_length [OF assms] assms by (auto simp: ri_ok_def)
  have l: "emits (ri_serialize_loop ri (int 0) (nat (ri_size ri))) (concat (map rc_bytes (ri_list ri))) \<and>
      refuses (ri_serialize_loop ri (int 0) (nat (ri_size ri))) (length (concat (map rc_bytes (ri_list ri))))"
    using columns.enc_loop_spec [where a = ri and i = 0 and n = "nat (ri_size ri)"] assms by (auto simp: ri_ok_def ri_list_def list_all_iff)
  have v: "emits (encode_vi64 (word_of_int (ri_size ri))) (vi_bytes (length (ri_list ri)))"
    "refuses (encode_vi64 (word_of_int (ri_size ri))) (length (vi_bytes (length (ri_list ri))))"
    unfolding ri_length [OF assms, symmetric] using n(2) by (intro vi_count; simp)+
  show "emits (ri_serialize ri) (ri_bytes (ri_list ri))" "refuses (ri_serialize ri) (length (ri_bytes (ri_list ri)))"
    using l v by (simp_all add: ri_serialize_def ri_bytes_def emits_tmp_pos emits_bind refuses_tmp_pos refuses_bind)
qed

lemma ri_reads:
  assumes "length cs \<le> 16" "length (ri_columns ri) = 16"
  shows "reads (ri_deserialize ri) (ri_bytes cs)
    (ri\<lparr>ri_size := int (length cs), ri_columns := cs @ drop (length cs) (ri_columns ri)\<rparr>)"
proof -
  let ?ri = "ri\<lparr>ri_size := int (length cs)\<rparr>"
  have u: "unat (word_of_nat (length cs) :: i64) = length cs" "sint (word_of_nat (length cs) :: i64) = int (length cs)"
    using unat_of_small [of "length cs"] assms(1) by simp_all
  have "reads (ri_deserialize_loop (int 0) (length cs) ?ri) (concat (map rc_bytes cs))
      (?ri\<lparr>ri_columns := take 0 (ri_columns ?ri) @ map (\<lambda>c. c) cs @ drop (0 + length cs) (ri_columns ?ri)\<rparr>)"
    using assms by (intro columns.dec_loop_reads) (simp_all add: list_all_iff)
  moreover have "reads decode_vi64 (vi_bytes (length cs)) (word_of_nat (length cs))"
    using assms(1) by (intro vi_count) simp
  ultimately show ?thesis
    using reads_bind [of decode_vi64 "vi_bytes (length cs)" "word_of_nat (length cs)"
        "\<lambda>size. ri_deserialize_loop 0 (nat (sint size)) (ri\<lparr>ri_size := sint size\<rparr>)"]
    by (simp add: ri_deserialize_def ri_bytes_def reads_tmp_pos u)
qed

section \<open>Keys on the wire\<close>

text \<open>The object that reading the bytes of \<open>o1\<close> gives.\<close>

definition obj_normal :: "ob_obj \<Rightarrow> ob_obj" where
  "obj_normal o1 = (case obj_abs o1 of None \<Rightarrow> o1 | Some x \<Rightarrow> obj_rep x)"

lemma obj_goodE: "obj_good o1 \<Longrightarrow> (\<And>x. obj_abs o1 = Some x \<Longrightarrow> scalar_good x \<Longrightarrow> P) \<Longrightarrow> P"
  by (auto simp: obj_good_def split: option.splits)

lemma obj_normal_abs: "obj_good o1 \<Longrightarrow> obj_abs (obj_normal o1) = obj_abs o1"
  by (erule obj_goodE) (simp add: obj_normal_def obj_abs_rep)

interpretation objects: array_codec obj_serialize obj_deserialize obj_bytes obj_good obj_normal "\<lambda>rk. obj_ptr rk \<noteq> None"
  "\<lambda>rk. the (obj_ptr rk)" "\<lambda>os rk. rk\<lparr>obj_ptr := Some os\<rparr>" serialize_objs_loop deserialize_objs_loop
proof
  fix v :: ob_obj
  assume "obj_good v"
  then show "emits (obj_serialize v) (obj_bytes v)" "refuses (obj_serialize v) (length (obj_bytes v))"
    "reads obj_deserialize (obj_bytes v) (obj_normal v)"
    using obj_emits obj_refuses obj_reads by (auto simp: obj_bytes_def obj_normal_def elim: obj_goodE)
qed (auto simp: rowkey_at_def with_member_def set_obj_def fun_eq_iff)

definition rowkey_bytes :: "ob_obj list \<Rightarrow> u8 list" where
  "rowkey_bytes os = vi_bytes (length os) @ concat (map obj_bytes os)"

text \<open>A key whose count says how many objects it has, each of them writable.\<close>

definition rowkey_good :: "ob_rowkey \<Rightarrow> ob_obj list \<Rightarrow> bool" where
  "rowkey_good rk os \<longleftrightarrow> rowkey_objs rk = Some os \<and> obj_cnt rk = int (length os) \<and> length os < 2 ^ 63 \<and> list_all obj_good os"

lemma rowkey_spec:
  assumes "rowkey_good rk os"
  shows "emits (rowkey_serialize rk) (rowkey_bytes os)" "refuses (rowkey_serialize rk) (length (rowkey_bytes os))"
proof -
  have l: "emits (serialize_objs_loop rk (int 0) (length os)) (concat (map obj_bytes os)) \<and>
      refuses (serialize_objs_loop rk (int 0) (length os)) (length (concat (map obj_bytes os)))"
  proof (cases "os = []")
    case True
    then show ?thesis by (simp add: emits_ret refuses_ret)
  next
    case False
    then obtain arr where "obj_ptr rk = Some arr" "os = take (length os) arr" "length os \<le> length arr"
      using assms by (auto simp: rowkey_good_def rowkey_objs_def split: option.splits if_splits)
    then show ?thesis
      using objects.enc_loop_spec [where a = rk and i = 0 and n = "length os"] assms by (simp add: rowkey_good_def)
  qed
  have "length os < 2 ^ 63" "obj_cnt rk = int (length os)" using assms by (simp_all add: rowkey_good_def)
  with l vi_count [of "length os"] show "emits (rowkey_serialize rk) (rowkey_bytes os)"
    "refuses (rowkey_serialize rk) (length (rowkey_bytes os))"
    unfolding rowkey_serialize_def serialize_objs_def rowkey_bytes_def length_append
    by (auto intro!: emits_bind refuses_bind)
qed

lemma reads_unverified: "reads m bs x \<Longrightarrow> reads (unverified v m) bs x"
  by (simp add: reads_def unverified_def)

lemma rowkey_reads:
  assumes "list_all obj_good os" "length os < 2 ^ 63" "obj_ptr dst = Some arr" "int (length os) \<le> obj_cnt dst" "length os \<le> length arr"
  shows "reads (rowkey_deserialize dst) (rowkey_bytes os)
    (dst\<lparr>obj_cnt := int (length os), obj_ptr := Some (map obj_normal os @ drop (length os) arr)\<rparr>)"
proof -
  let ?d = "dst\<lparr>obj_cnt := int (length os)\<rparr>"
  have "reads (deserialize_objs_loop (int 0) (length os) ?d) (concat (map obj_bytes os))
      (?d\<lparr>obj_ptr := Some (take 0 (the (obj_ptr ?d)) @ map obj_normal os @ drop (0 + length os) (the (obj_ptr ?d)))\<rparr>)"
    using assms by (intro objects.dec_loop_reads) simp_all
  then show ?thesis
    using reads_bind [OF reads_unverified [OF vi_count(3) [OF assms(2)], of 0], of "\<lambda>cnt. if obj_cnt dst < sint cnt then fail OB_BUF_NOT_ENOUGH
        else deserialize_objs (dst\<lparr>obj_cnt := sint cnt\<rparr>)"] unat_of_small [OF assms(2)] assms(3,4)
    by (simp add: rowkey_deserialize_def rowkey_bytes_def deserialize_objs_def)
qed

lemma rowkey_too_many:
  assumes "n < 2 ^ 63" "obj_cnt dst < int n" "holds (vi_bytes n) s"
  shows "\<exists>s'. rowkey_deserialize dst s = Some (Err OB_BUF_NOT_ENOUGH, s')"
  using readsD [OF reads_unverified [OF vi_count(3) [OF assms(1)], of 0] assms(3)] unat_of_small [OF assms(1)] assms(2)
  by (simp add: rowkey_deserialize_def bind_def fail_def)

lemma rowkey_size:
  assumes "rowkey_good rk os" "list_all (\<lambda>o1. o_type o1 \<noteq> ObDecimalType) os"
  shows "rowkey_get_serialize_size rk = Some (int (length (rowkey_bytes os)))"
proof -
  have "list_all obj_good os \<Longrightarrow> list_all (\<lambda>o1. o_type o1 \<noteq> ObDecimalType) os \<Longrightarrow>
      fold_option (\<lambda>o1 size. map_option (\<lambda>n. size + n) (obj_get_serialize_size o1)) os a =
      Some (a + int (length (concat (map obj_bytes os))))" for a
    by (induction os arbitrary: a) (auto simp: obj_size obj_bytes_def elim!: obj_goodE)
  moreover have "rowkey_objs rk = Some os" using assms(1) by (simp add: rowkey_good_def)
  ultimately show ?thesis
    using assms vi_count(4) [of "length os"]
    by (simp add: rowkey_get_serialize_size_def get_serialize_objs_size_def rowkey_good_def rowkey_bytes_def for_objs_fold)
qed

lemma from_stream_loop_reads:
  assumes "obj_ptr rk = Some arr" "i + n \<le> length arr" "length os \<le> n" "list_all obj_good os"
    and "holds (concat (map obj_bytes os)) s" "pos s + int (length (concat (map obj_bytes os))) = blen s"
  shows "from_stream_loop (int i) n rk s =
    Some (Ok (rk\<lparr>obj_ptr := Some (take i arr @ map obj_normal os @ drop (i + length os) arr)\<rparr>, int (i + length os)),
      adv (length (concat (map obj_bytes os))) s)"
  using assms
proof (induction os arbitrary: i n rk arr s)
  case Nil
  then show ?case by (cases n) (auto simp: ret_def adv_def)
next
  case (Cons o1 os)
  then obtain m where m: "n = Suc m" by (cases n) auto
  have "obj_bytes o1 \<noteq> []" using Cons.prems(4) scalar_bytes_Cons by (auto simp: obj_bytes_def elim!: obj_goodE) (metis list.distinct(1))
  then have p: "pos s < blen s" using Cons.prems(6) by (simp flip: length_greater_0_conv)
  have h: "holds (obj_bytes o1) s" "holds (concat (map obj_bytes os)) (adv (length (obj_bytes o1)) s)"
    using Cons.prems(5) by (simp_all add: holds_append)
  have r: "obj_deserialize s = Some (Ok (obj_normal o1), adv (length (obj_bytes o1)) s)"
    using readsD [OF objects.item_reads h(1)] Cons.prems(4) by simp
  have "take (Suc i) (arr[i := obj_normal o1]) = take i arr @ [obj_normal o1]"
    using Cons.prems(2) m by (simp add: take_Suc_conv_app_nth)
  with Cons.IH [of "rk\<lparr>obj_ptr := Some (arr[i := obj_normal o1])\<rparr>" "arr[i := obj_normal o1]" "Suc i" m, OF _ _ _ _ h(2)] Cons.prems m p r
  show ?case by (simp add: rowkey_at_def with_member_def set_obj_def bind_def add.commute)
qed

lemma from_stream_reads:
  assumes "obj_ptr dst = Some arr" "obj_cnt dst \<le> int (length arr)" "int (length os) \<le> obj_cnt dst" "list_all obj_good os"
    and "mem s = Some (concat (map obj_bytes os))" "blen s = int (length (concat (map obj_bytes os)))"
  shows "\<exists>s'. deserialize_from_stream dst s =
    Some (Ok (dst\<lparr>obj_ptr := Some (map obj_normal os @ drop (length os) arr), obj_cnt := int (length os)\<rparr>), s')"
proof -
  have "holds (concat (map obj_bytes os)) (s\<lparr>pos := 0\<rparr>)" using assms(5,6) by (simp add: holds_def room_def buf_wf_def rest_def)
  then show ?thesis
    using from_stream_loop_reads [OF assms(1), of 0 "nat (obj_cnt dst)" os "s\<lparr>pos := 0\<rparr>"] assms
    by (auto simp: deserialize_from_stream_def bind_def ret_def)
qed

section \<open>Checksums\<close>

lemma rowkey_checksum_batch_value:
  assumes "rowkey_objs rk = Some os" "list_all (\<lambda>o1. obj_abs o1 \<noteq> None) os" "bc_ok bc"
  shows "\<exists>bc'. rowkey_checksum_batch rk bc = Some bc' \<and> bc_ok bc' \<and> rowkey_checksum rk (bc_value bc) = Some (bc_value bc')"
proof -
  have "\<exists>bc'. fold_option obj_checksum_batch os bc = Some bc' \<and> bc_ok bc' \<and>
      fold_option obj_checksum os (bc_value bc) = Some (bc_value bc')"
    using assms(2,3)
  proof (induction os arbitrary: bc)
    case (Cons o1 os)
    then obtain x where "obj_abs o1 = Some x" by auto
    from obj_checksum_batch_value [OF Cons.prems(2) this] obtain bc1 where
      "obj_checksum_batch o1 bc = Some bc1" "bc_ok bc1" "obj_checksum o1 (bc_value bc) = Some (bc_value bc1)" by blast
    with Cons show ?case by simp
  qed simp
  then show ?thesis
    using assms(1,3) by (auto simp: rowkey_checksum_batch_def rowkey_checksum_def for_objs_fold)
qed

section \<open>Copies\<close>

text \<open>A copied object is in the same place of the order.\<close>

lemma copy_obj_spec:
  assumes "obj_column t o1"
  shows "\<exists>o2. copy_obj o1 = Some o2 \<and> obj_column t o2 \<and> obj_compare fp o1 o2 = Some 0 \<and> obj_rank o2 = obj_rank o1"
proof (cases "o_type o1 = ObVarcharType")
  case False
  then show ?thesis using assms column.self [OF assms] by (simp add: copy_obj_def)
next
  case True
  then have "obj_rank o1 = 2" by (simp add: obj_rank_def is_null_def is_min_value_def is_max_value_def)
  with True assms obtain bs where bs: "o_value o1 = StrV (Some bs)" "sint (o_val_len o1) = int (length bs)"
    by (auto simp: obj_column_def obj_abs_def split: ob_value.splits option.splits if_splits)
  let ?o = "set_varchar (Some bs) (o_val_len o1) o1"
  have c: "copy_obj o1 = Some ?o" using True bs by (simp add: copy_obj_def mem_bytes_def)
  have r: "obj_rank ?o = 2" by (simp add: obj_rank_def is_null_def is_min_value_def is_max_value_def set_varchar_def)
  have a: "obj_abs ?o = obj_abs o1" using True bs by (simp add: obj_abs_def set_varchar_def)
  have "obj_column t ?o" using assms True r a \<open>obj_rank o1 = 2\<close> by (simp add: obj_column_def set_varchar_def)
  moreover have "obj_key ?o = obj_key o1" using r a \<open>obj_rank o1 = 2\<close> by (simp add: obj_key_def)
  ultimately show ?thesis
    using c r \<open>obj_rank o1 = 2\<close> column.cmp_equal [OF assms, of ?o fp] by auto
qed

lemma copy_objs_spec:
  assumes "list_all2 obj_column ts os"
  shows "\<exists>cs. fold_option (\<lambda>o1 os. map_option (\<lambda>c. os @ [c]) (copy_obj o1)) os acc = Some (acc @ cs) \<and>
    list_all2 obj_column ts cs \<and> list_all2 (\<lambda>o1 o2. obj_compare fp o1 o2 = Some 0 \<and> obj_rank o2 = obj_rank o1) os cs"
  using assms
proof (induction ts os arbitrary: acc rule: list_all2_induct)
  case (Cons t ts o1 os)
  from copy_obj_spec [OF Cons.hyps(1)] obtain o2 where
    o2: "copy_obj o1 = Some o2" "obj_column t o2" "obj_compare fp o1 o2 = Some 0" "obj_rank o2 = obj_rank o1" by blast
  from Cons.IH [of "acc @ [o2]"] o2 show ?case by fastforce
qed simp

lemma lex_cmp_zero:
  assumes "length xs = length ys" "\<And>i. i < length xs \<Longrightarrow> C i (xs ! i) (ys ! i) = Some 0"
  shows "lex_cmp C xs ys = Some 0"
  using assms
proof (induction C xs ys rule: lex_cmp.induct)
  case (4 C x xs y ys)
  then have "C 0 x y = Some 0" "lex_cmp (\<lambda>i. C (Suc i)) xs ys = Some 0" using "4.prems"(2) [of 0] "4.prems"(2) [of "Suc _"] by auto
  then show ?case by simp
qed auto

lemma border_rank: "is_min_value x \<or> is_max_value x \<longleftrightarrow> obj_rank x = 0 \<or> obj_rank x = 3"
  by (auto simp: obj_rank_def)

lemma border_norm_zero:
  assumes "list_all2 (\<lambda>x y. obj_rank y = obj_rank x) xs ys" "\<And>i. i < length xs \<Longrightarrow> C i (xs ! i) (ys ! i) = Some 0"
  shows "lex_cmp C (border_norm xs) (border_norm ys) = Some 0"
proof (cases xs)
  case (Cons x xs')
  then obtain y ys' where 2: "xs = x # xs'" "ys = y # ys'" "obj_rank y = obj_rank x"
    using assms(1) by (auto simp: list_all2_Cons1)
  then have "border_norm xs = xs \<and> border_norm ys = ys \<or> border_norm xs = [x] \<and> border_norm ys = [y]"
    by (simp add: border_rank)
  with 2 assms(2) [of 0] lex_cmp_zero [of xs ys C] assms show ?thesis by (auto simp: list_all2_lengthD)
qed (use assms(1) in simp)

lemma deep_copy_spec:
  assumes "table_key info ts rk" "0 < obj_cnt rk" "get_deep_copy_size rk = Some len" "alloc len"
  shows "\<exists>rk'. deep_copy alloc rk rhs = Some (Ok (), rk') \<and> table_key info ts rk' \<and> obj_cnt rk' = obj_cnt rk \<and>
    rowkey_compare_info fp info rk rk' = Some 0"
proof -
  obtain os where os: "rowkey_objs rk = Some os" "length os \<le> length ts" "list_all2 obj_column (take (length os) ts) os"
    using assms(1) by (auto simp: table_key_def split: option.splits)
  have n: "int (length os) = obj_cnt rk" "obj_ptr rk \<noteq> None"
    using rowkey_objs_cnt [OF os(1)] assms(2) os(1) by (auto simp: rowkey_objs_def split: option.splits)
  from copy_objs_spec [OF os(3), of "[]" fp] obtain cs where
    cs: "fold_option (\<lambda>o1 os. map_option (\<lambda>c. os @ [c]) (copy_obj o1)) os [] = Some cs"
      "list_all2 obj_column (take (length os) ts) cs"
      "list_all2 (\<lambda>o1 o2. obj_compare fp o1 o2 = Some 0 \<and> obj_rank o2 = obj_rank o1) os cs" by auto
  let ?c = "rowkey_assign (Some cs) (obj_cnt rk)"
  have l: "length cs = length os" using cs(3) by (simp add: list_all2_lengthD)
  have c: "rowkey_objs ?c = Some cs" using rowkey_objs_assign [of cs] l n(1) by simp
  have k: "table_key info ts ?c" using assms(1) os(2) cs(2) c l by (simp add: table_key_def)
  have d: "deep_copy alloc rk rhs = Some (Ok (), ?c)"
    using assms(2-4) n(2) cs(1) by (auto simp: deep_copy_def for_objs_fold [OF os(1)])
  have f: "factor_cmp fp info i x y = Some 0" if "i < length ts" "obj_compare fp x y = Some 0" for i x y
    using orders_okD [of info "length ts" i] that assms(1) by (auto simp: table_key_def factor_cmp_def)
  have "lex_cmp (factor_cmp fp info) (border_norm os) (border_norm cs) = Some 0"
    using cs(3) os(2) by (intro border_norm_zero f) (auto simp: list_all2_conv_all_nth)
  then show ?thesis using d k table_key_compare [OF assms(1) k os(1) c] by (simp add: rowkey_assign_def)
qed

end
