(* ===== verification/Ob_Range.thy ===== *)
theory Ob_Range
  imports Ob_Rowkey_Codec
begin

text \<open>
  Ranges of row keys: \<^verbatim>\<open>ObBorderFlag\<close> of \<^verbatim>\<open>common/ob_range.h\<close> and \<^verbatim>\<open>ObNewRange\<close> of \<^verbatim>\<open>common/ob_range2.h\<close> and
  \<^verbatim>\<open>ob_range2.cpp\<close>. The results are options because comparing a malformed key is undefined behaviour.
\<close>

section \<open>Border flags\<close>

definition INCLUSIVE_START :: i8 where "INCLUSIVE_START = 1"
definition INCLUSIVE_END :: i8 where "INCLUSIVE_END = 2"
definition MIN_VALUE :: i8 where "MIN_VALUE = 4"
definition MAX_VALUE :: i8 where "MAX_VALUE = 8"

definition set_inclusive_start :: "i8 \<Rightarrow> i8" where "set_inclusive_start f = f OR INCLUSIVE_START"
definition unset_inclusive_start :: "i8 \<Rightarrow> i8" where "unset_inclusive_start f = f AND NOT INCLUSIVE_START"
definition inclusive_start :: "i8 \<Rightarrow> bool" where "inclusive_start f \<longleftrightarrow> f AND INCLUSIVE_START = INCLUSIVE_START"
definition set_inclusive_end :: "i8 \<Rightarrow> i8" where "set_inclusive_end f = f OR INCLUSIVE_END"
definition unset_inclusive_end :: "i8 \<Rightarrow> i8" where "unset_inclusive_end f = f AND NOT INCLUSIVE_END"
definition inclusive_end :: "i8 \<Rightarrow> bool" where "inclusive_end f \<longleftrightarrow> f AND INCLUSIVE_END = INCLUSIVE_END"
definition border_set_min_value :: "i8 \<Rightarrow> i8" where "border_set_min_value f = f OR MIN_VALUE"
definition border_unset_min_value :: "i8 \<Rightarrow> i8" where "border_unset_min_value f = f AND NOT MIN_VALUE"
definition border_is_min_value :: "i8 \<Rightarrow> bool" where "border_is_min_value f \<longleftrightarrow> f AND MIN_VALUE = MIN_VALUE"
definition border_set_max_value :: "i8 \<Rightarrow> i8" where "border_set_max_value f = f OR MAX_VALUE"
definition border_unset_max_value :: "i8 \<Rightarrow> i8" where "border_unset_max_value f = f AND NOT MAX_VALUE"
definition border_is_max_value :: "i8 \<Rightarrow> bool" where "border_is_max_value f \<longleftrightarrow> f AND MAX_VALUE = MAX_VALUE"

section \<open>Ranges\<close>

record ob_range =
  table_id :: u64
  border_flag :: i8
  start_key :: ob_rowkey
  end_key :: ob_rowkey
  range_info :: "rowkey_info option"

text \<open>The short-circuit operators on results that may be undefined.\<close>

definition or_else :: "bool option \<Rightarrow> bool option \<Rightarrow> bool option" where
  "or_else a b = (case a of None \<Rightarrow> None | Some True \<Rightarrow> Some True | Some False \<Rightarrow> b)"

definition and_also :: "bool option \<Rightarrow> bool option \<Rightarrow> bool option" where
  "and_also a b = (case a of None \<Rightarrow> None | Some True \<Rightarrow> b | Some False \<Rightarrow> Some False)"

definition not_opt :: "bool option \<Rightarrow> bool option" where
  "not_opt a = map_option Not a"

definition range_reset :: "ob_range \<Rightarrow> ob_range" where
  "range_reset r = r\<lparr>table_id := - 1, border_flag := 0, start_key := rowkey_assign None 0, end_key := rowkey_assign None 0\<rparr>"

definition new_range :: ob_range where
  "new_range = \<lparr>table_id = - 1, border_flag = 0, start_key = rowkey_assign None 0, end_key = rowkey_assign None 0, range_info = None\<rparr>"

definition fetch_rowkey_info :: "ob_range \<Rightarrow> ob_range \<Rightarrow> rowkey_info option" where
  "fetch_rowkey_info l r = (if range_info l \<noteq> None then range_info l else range_info r)"

definition compare_with_endkey2 :: "fp_ops \<Rightarrow> ob_range \<Rightarrow> ob_range \<Rightarrow> int option" where
  "compare_with_endkey2 fp l r = do {
     lmax \<leftarrow> is_max_row fp (end_key l);
     rmax \<leftarrow> is_max_row fp (end_key r);
     if lmax then Some (if \<not> rmax then 1 else 0)
     else if rmax then Some (- 1)
     else do {
       cmp \<leftarrow> less_compare fp (fetch_rowkey_info l r) (end_key l) (end_key r);
       Some (if cmp = 0
             then if inclusive_end (border_flag l) \<and> \<not> inclusive_end (border_flag r) then 1
                  else if \<not> inclusive_end (border_flag l) \<and> inclusive_end (border_flag r) then - 1
                  else 0
             else cmp)
     }
   }"

definition compare_with_endkey :: "fp_ops \<Rightarrow> ob_range \<Rightarrow> ob_range \<Rightarrow> int option" where
  "compare_with_endkey fp l r =
     (if table_id l \<noteq> table_id r then Some (if table_id l < table_id r then - 1 else 1)
      else do {
        lmax \<leftarrow> is_max_row fp (end_key l);
        rmax \<leftarrow> is_max_row fp (end_key r);
        if lmax then Some (if rmax then 0 else 1)
        else if rmax then Some (- 1)
        else less_compare fp (fetch_rowkey_info l r) (end_key l) (end_key r)
      })"

definition compare_with_startkey :: "fp_ops \<Rightarrow> ob_range \<Rightarrow> ob_range \<Rightarrow> int option" where
  "compare_with_startkey fp l r =
     (if table_id l \<noteq> table_id r then Some (if table_id l < table_id r then - 1 else 1)
      else do {
        lmin \<leftarrow> is_min_row fp (start_key l);
        rmin \<leftarrow> is_min_row fp (start_key r);
        if lmin then Some (if rmin then 0 else - 1)
        else if rmin then Some 1
        else less_compare fp (fetch_rowkey_info l r) (start_key l) (start_key r)
      })"

definition compare_with_startkey2 :: "fp_ops \<Rightarrow> ob_range \<Rightarrow> ob_range \<Rightarrow> int option" where
  "compare_with_startkey2 fp l r = do {
     lmin \<leftarrow> is_min_row fp (start_key l);
     rmin \<leftarrow> is_min_row fp (start_key r);
     if lmin then Some (if \<not> rmin then - 1 else 0)
     else if rmin then Some 1
     else do {
       cmp \<leftarrow> less_compare fp (fetch_rowkey_info l r) (start_key l) (start_key r);
       Some (if cmp = 0
             then if inclusive_start (border_flag l) \<and> \<not> inclusive_start (border_flag r) then - 1
                  else if \<not> inclusive_start (border_flag l) \<and> inclusive_start (border_flag r) then 1
                  else 0
             else cmp)
     }
   }"

definition range_empty :: "fp_ops \<Rightarrow> ob_range \<Rightarrow> bool option" where
  "range_empty fp r = do {
     unbounded \<leftarrow> or_else (is_min_row fp (start_key r)) (is_max_row fp (end_key r));
     if unbounded then Some False
     else or_else (rowkey_lt fp (end_key r) (start_key r))
       (and_also (rowkey_eq fp (end_key r) (start_key r))
          (Some (\<not> (inclusive_end (border_flag r) \<and> inclusive_start (border_flag r)))))
   }"

definition is_whole_range :: "fp_ops \<Rightarrow> ob_range \<Rightarrow> bool option" where
  "is_whole_range fp r = and_also (is_min_row fp (start_key r)) (is_max_row fp (end_key r))"

definition set_whole_range :: "ob_range \<Rightarrow> ob_range" where
  "set_whole_range r = r\<lparr>start_key := MIN_ROWKEY, end_key := MAX_ROWKEY,
     border_flag := unset_inclusive_end (unset_inclusive_start (border_flag r))\<rparr>"

definition is_left_open_right_closed :: "fp_ops \<Rightarrow> ob_range \<Rightarrow> bool option" where
  "is_left_open_right_closed fp r =
     or_else (Some (\<not> inclusive_start (border_flag r) \<and> inclusive_end (border_flag r))) (is_max_row fp (end_key r))"

definition range_equal :: "fp_ops \<Rightarrow> ob_range \<Rightarrow> ob_range \<Rightarrow> bool option" where
  "range_equal fp l r =
     and_also (map_option (\<lambda>c. c = 0) (compare_with_startkey fp l r)) (map_option (\<lambda>c. c = 0) (compare_with_endkey fp l r))"

definition range_equal2 :: "fp_ops \<Rightarrow> ob_range \<Rightarrow> ob_range \<Rightarrow> bool option" where
  "range_equal2 fp l r =
     and_also (Some (table_id l = table_id r))
       (and_also (map_option (\<lambda>c. c = 0) (compare_with_startkey2 fp l r))
          (map_option (\<lambda>c. c = 0) (compare_with_endkey2 fp l r)))"

text \<open>The part of \<^verbatim>\<open>intersect\<close> behind the comparison of the end keys: the left range ends first.\<close>

definition intersect_borders :: "fp_ops \<Rightarrow> ob_range \<Rightarrow> ob_range \<Rightarrow> bool option" where
  "intersect_borders fp l r = do {
     min_value \<leftarrow> is_min_row fp (start_key r);
     if min_value then Some True
     else do {
       less \<leftarrow> rowkey_lt fp (end_key l) (start_key r);
       greater \<leftarrow> rowkey_gt fp (end_key l) (start_key r);
       Some (if less then False else if greater then True
             else inclusive_end (border_flag l) \<and> inclusive_start (border_flag r))
     }
   }"

definition range_intersect :: "fp_ops \<Rightarrow> ob_range \<Rightarrow> ob_range \<Rightarrow> bool option" where
  "range_intersect fp l r =
     (if table_id l \<noteq> table_id r then Some False
      else do {
        some_empty \<leftarrow> or_else (range_empty fp l) (range_empty fp r);
        if some_empty then Some False
        else do {
          some_whole \<leftarrow> or_else (is_whole_range fp l) (is_whole_range fp r);
          if some_whole then Some True
          else do {
            cmp \<leftarrow> compare_with_endkey fp l r;
            if cmp < 0 then intersect_borders fp l r
            else if cmp > 0 then intersect_borders fp r l
            else Some True
          }
        }
      })"

definition range_trim :: "fp_ops \<Rightarrow> (i64 \<Rightarrow> bool) \<Rightarrow> ob_range \<Rightarrow> ob_range \<Rightarrow> (unit result \<times> ob_range) option" where
  "range_trim fp alloc r l =
     (if table_id r \<noteq> table_id l then Some (Err OB_ERROR, l)
      else do {
        cs \<leftarrow> compare_with_startkey2 fp l r;
        ce \<leftarrow> compare_with_endkey2 fp l r;
        if cs = 0
        then if ce = 0 then Some (Err OB_EMPTY_RANGE, l)
             else if ce > 0
             then do {
               let flag = (if inclusive_end (border_flag r) then unset_inclusive_start (border_flag l)
                           else set_inclusive_start (border_flag l));
               (ret, key) \<leftarrow> write_string_rowkey alloc (end_key r) (start_key l);
               Some (ret, l\<lparr>border_flag := flag, start_key := key\<rparr>)
             }
             else Some (Err OB_ERROR, l)
        else if ce = 0
        then if cs < 0
             then do {
               let flag = (if inclusive_start (border_flag r) then unset_inclusive_end (border_flag l)
                           else set_inclusive_end (border_flag l));
               (ret, key) \<leftarrow> write_string_rowkey alloc (start_key r) (end_key l);
               Some (ret, l\<lparr>border_flag := flag, end_key := key\<rparr>)
             }
             else Some (Err OB_ERROR, l)
        else Some (Err OB_ERROR, l)
      })"

definition range_check :: "fp_ops \<Rightarrow> ob_range \<Rightarrow> bool option" where
  "range_check fp r = do {
     bad \<leftarrow> and_also (rowkey_gt fp (start_key r) (end_key r))
              (and_also (not_opt (is_max_row fp (end_key r))) (not_opt (is_min_row fp (start_key r))));
     if bad then Some False
     else do {
       same \<leftarrow> rowkey_eq fp (start_key r) (end_key r);
       if same
       then do {
         bounded \<leftarrow> and_also (not_opt (is_min_row fp (start_key r))) (not_opt (is_max_row fp (end_key r)));
         Some (\<not> (bounded \<and> (obj_cnt (start_key r) = 0 \<or> \<not> inclusive_start (border_flag r)
                 \<or> \<not> inclusive_end (border_flag r))))
       }
       else Some True
     }
   }"

definition range_hash :: "fp_ops \<Rightarrow> ob_range \<Rightarrow> i64 option" where
  "range_hash fp r = do {
     unbounded \<leftarrow> is_max_row fp (end_key r);
     let flag = (if unbounded then MAX_VALUE else border_flag r);
     let h = murmurhash2 [flag] (murmurhash2 (le_bytes 8 (table_id r)) 0);
     h \<leftarrow> (if obj_ptr (start_key r) \<noteq> None \<and> obj_cnt (start_key r) > 0 then rowkey_murmurhash2 (start_key r) h else Some h);
     h \<leftarrow> (if obj_ptr (end_key r) \<noteq> None \<and> obj_cnt (end_key r) > 0 then rowkey_murmurhash2 (end_key r) h else Some h);
     Some (ucast h)
   }"

definition range_serialize :: "ob_range \<Rightarrow> unit run" where
  "range_serialize r =
     Ob_Prelude.bind (encode_vi64 (table_id r)) (\<lambda>_.
     Ob_Prelude.bind (encode_i8 (border_flag r)) (\<lambda>_.
     Ob_Prelude.bind (rowkey_serialize (start_key r)) (\<lambda>_. rowkey_serialize (end_key r))))"

definition range_deserialize :: "ob_range \<Rightarrow> ob_range run" where
  "range_deserialize r =
     (if obj_ptr (start_key r) = None \<or> obj_ptr (end_key r) = None then fail OB_ALLOCATE_MEMORY_FAILED
      else
        Ob_Prelude.bind decode_vi64 (\<lambda>tid.
        Ob_Prelude.bind decode_i8 (\<lambda>flag.
        Ob_Prelude.bind (rowkey_deserialize (start_key r)) (\<lambda>sk.
        Ob_Prelude.bind (rowkey_deserialize (end_key r)) (\<lambda>ek.
        ret (r\<lparr>table_id := tid, border_flag := flag, start_key := sk, end_key := ek\<rparr>))))))"

definition range_get_serialize_size :: "ob_range \<Rightarrow> int option" where
  "range_get_serialize_size r = do {
     s \<leftarrow> rowkey_get_serialize_size (start_key r);
     e \<leftarrow> rowkey_get_serialize_size (end_key r);
     Some (encoded_length_vi64 (table_id r) + encoded_length_i8 (border_flag r) + s + e)
   }"

definition deep_copy_range :: "(i64 \<Rightarrow> bool) \<Rightarrow> ob_range \<Rightarrow> ob_range \<Rightarrow> (unit result \<times> ob_range) option" where
  "deep_copy_range alloc src dst = do {
     (r, sk) \<leftarrow> deep_copy alloc (start_key src) (start_key dst);
     let dst = dst\<lparr>start_key := sk\<rparr>;
     case r of
       Err e \<Rightarrow> Some (Err e, dst)
     | Ok _ \<Rightarrow> do {
         (r, ek) \<leftarrow> deep_copy alloc (end_key src) (end_key dst);
         let dst = dst\<lparr>end_key := ek\<rparr>;
         case r of
           Err e \<Rightarrow> Some (Err e, dst)
         | Ok _ \<Rightarrow> Some (Ok (), dst\<lparr>table_id := table_id src, border_flag := border_flag src\<rparr>)
       }
   }"

text \<open>The overload with an allocator for each of the keys.\<close>

definition deep_copy_range2 ::
  "(i64 \<Rightarrow> bool) \<Rightarrow> (i64 \<Rightarrow> bool) \<Rightarrow> ob_range \<Rightarrow> ob_range \<Rightarrow> (unit result \<times> ob_range) option" where
  "deep_copy_range2 alloc1 alloc2 src dst = do {
     (r, sk) \<leftarrow> deep_copy alloc1 (start_key src) (start_key dst);
     let dst = dst\<lparr>start_key := sk\<rparr>;
     case r of
       Err e \<Rightarrow> Some (Err e, dst)
     | Ok _ \<Rightarrow> do {
         (r, ek) \<leftarrow> deep_copy alloc2 (end_key src) (end_key dst);
         let dst = dst\<lparr>end_key := ek\<rparr>;
         case r of
           Err e \<Rightarrow> Some (Err e, dst)
         | Ok _ \<Rightarrow> Some (Ok (), dst\<lparr>table_id := table_id src, border_flag := border_flag src\<rparr>)
       }
   }"

text \<open>Reading with an allocator: into arrays on the stack, then a copy.\<close>

definition stack_key :: ob_rowkey where
  "stack_key = rowkey_assign (Some (replicate 16 obj_reset)) OB_MAX_ROWKEY_COLUMN_NUMBER"

definition range_deserialize_alloc :: "(i64 \<Rightarrow> bool) \<Rightarrow> ob_range \<Rightarrow> ob_range run" where
  "range_deserialize_alloc alloc dst =
     Ob_Prelude.bind (range_deserialize (new_range\<lparr>start_key := stack_key, end_key := stack_key\<rparr>)) (\<lambda>copy_range s.
       case deep_copy_range alloc copy_range dst of
         None \<Rightarrow> None
       | Some (Err e, dst) \<Rightarrow> fail e s
       | Some (Ok _, dst) \<Rightarrow> ret dst s)"

end
