(* ===== verification/Ob_Range_Laws.thy ===== *)
theory Ob_Range_Laws
  imports Ob_Range
begin

text \<open>
  What ranges mean: the set of ordinary keys between the borders. The emptiness test, the overlap test and the cut are
  correct for that meaning. The lemmas rest on the order of keys, \<open>cmp_le\<close> of \<open>Ob_Rowkey_Order\<close>.
\<close>

section \<open>Border flags\<close>

lemma and_exp_eq_iff:
  fixes f :: "'a :: len word"
  assumes "n < LENGTH('a)"
  shows "f AND 2 ^ n = 2 ^ n \<longleftrightarrow> bit f n"
proof
  assume "f AND 2 ^ n = 2 ^ n"
  then have "bit (f AND 2 ^ n) n = bit (2 ^ n :: 'a word) n" by (rule arg_cong)
  then show "bit f n" using assms by (simp add: bit_and_iff bit_exp_iff)
next
  assume "bit f n"
  then show "f AND 2 ^ n = 2 ^ n" by (intro bit_word_eqI) (auto simp: bit_and_iff bit_exp_iff)
qed

lemma border_flag_simps [simp]:
  "inclusive_start (set_inclusive_start f)" "\<not> inclusive_start (unset_inclusive_start f)"
  "inclusive_end (set_inclusive_start f) = inclusive_end f" "inclusive_end (unset_inclusive_start f) = inclusive_end f"
  "inclusive_end (set_inclusive_end f)" "\<not> inclusive_end (unset_inclusive_end f)"
  "inclusive_start (set_inclusive_end f) = inclusive_start f" "inclusive_start (unset_inclusive_end f) = inclusive_start f"
proof -
  have m: "f AND 1 = 1 \<longleftrightarrow> bit f 0" "f AND 2 = 2 \<longleftrightarrow> bit f 1" for f :: i8
    using and_exp_eq_iff [of 0 f] and_exp_eq_iff [of 1 f] by simp_all
  show "inclusive_start (set_inclusive_start f)" "\<not> inclusive_start (unset_inclusive_start f)"
    "inclusive_end (set_inclusive_start f) = inclusive_end f" "inclusive_end (unset_inclusive_start f) = inclusive_end f"
    "inclusive_end (set_inclusive_end f)" "\<not> inclusive_end (unset_inclusive_end f)"
    "inclusive_start (set_inclusive_end f) = inclusive_start f" "inclusive_start (unset_inclusive_end f) = inclusive_start f"
    by (auto simp: inclusive_start_def set_inclusive_start_def unset_inclusive_start_def inclusive_end_def
        set_inclusive_end_def unset_inclusive_end_def INCLUSIVE_START_def INCLUSIVE_END_def m bit_simps)
qed

section \<open>Border keys and ordinary keys\<close>

text \<open>Without a description keys compare in ascending order of every column.\<close>

abbreviation key_le :: "fp_ops \<Rightarrow> ob_rowkey \<Rightarrow> ob_rowkey \<Rightarrow> bool" where
  "key_le fp \<equiv> cmp_le (rowkey_compare_info fp None)"

definition ordinary_key :: "int list \<Rightarrow> ob_rowkey \<Rightarrow> bool" where
  "ordinary_key ts rk \<longleftrightarrow> table_key None ts rk \<and>
     (case rowkey_objs rk of Some (x # xs) \<Rightarrow> \<not> is_min_value x \<and> \<not> is_max_value x | _ \<Rightarrow> False)"

lemma border_keys:
  assumes "ts \<noteq> []"
  shows "table_key None ts MIN_ROWKEY" "table_key None ts MAX_ROWKEY"
    "rowkey_objs MIN_ROWKEY = Some [MIN_OBJECT]" "rowkey_objs MAX_ROWKEY = Some [MAX_OBJECT]"
    "obj_rank MIN_OBJECT = 0" "obj_rank MAX_OBJECT = 3"
proof -
  show r: "obj_rank MIN_OBJECT = 0" "obj_rank MAX_OBJECT = 3" by code_simp+
  show o: "rowkey_objs MIN_ROWKEY = Some [MIN_OBJECT]" "rowkey_objs MAX_ROWKEY = Some [MAX_OBJECT]"
    by (simp_all add: MIN_ROWKEY_def MAX_ROWKEY_def rowkey_objs_def rowkey_assign_def)
  obtain t ts' where "ts = t # ts'" using assms by (cases ts) auto
  then show "table_key None ts MIN_ROWKEY" "table_key None ts MAX_ROWKEY"
    using r by (simp_all add: table_key_def o orders_ok_def order_factor_def list_all_iff obj_column_def)
qed

lemma rowkey_eq_iff:
  assumes "table_key None ts a" "table_key None ts b"
  shows "rowkey_eq fp a b = Some (key_le fp a b \<and> key_le fp b a)"
    "rowkey_lt fp a b = Some (\<not> key_le fp b a)" "rowkey_gt fp a b = Some (\<not> key_le fp a b)"
proof -
  obtain c where c: "rowkey_compare_info fp None a b = Some c" using rowkey.total [OF assms] by blast
  note i = rowkey.cmp_iff [OF assms c]
  show "rowkey_eq fp a b = Some (key_le fp a b \<and> key_le fp b a)"
    "rowkey_lt fp a b = Some (\<not> key_le fp b a)" "rowkey_gt fp a b = Some (\<not> key_le fp a b)"
    using i by (auto simp: rowkey_eq_def rowkey_lt_def rowkey_gt_def rowkey_compare_def c)
qed

text \<open>Ordinary keys lie strictly between the border keys.\<close>

lemma ordinary_between:
  assumes "ordinary_key ts k" "ts \<noteq> []"
  shows "\<not> key_le fp k MIN_ROWKEY" "\<not> key_le fp MAX_ROWKEY k"
proof -
  have k: "table_key None ts k" using assms(1) by (simp add: ordinary_key_def)
  obtain x xs where x: "rowkey_objs k = Some (x # xs)" "\<not> is_min_value x" "\<not> is_max_value x"
    using assms(1) by (auto simp: ordinary_key_def split: option.splits list.splits)
  then have r: "obj_rank x = 1 \<or> obj_rank x = 2" by (auto simp: obj_rank_def)
  note b = border_keys [OF assms(2)]
  have n: "border_norm (x # xs) = x # xs" using x by simp
  have m: "border_norm [MIN_OBJECT] = [MIN_OBJECT]" "border_norm [MAX_OBJECT] = [MAX_OBJECT]" by simp_all
  have "rowkey_compare_info fp None k MIN_ROWKEY = Some 1"
    unfolding table_key_compare [OF k b(1) x(1) b(3)] n m
    using r b(5) by (auto simp: factor_cmp_def order_factor_def obj_compare_rank sign_of_def)
  moreover have "rowkey_compare_info fp None MAX_ROWKEY k = Some 1"
    unfolding table_key_compare [OF b(2) k b(4) x(1)] n m
    using r b(6) by (auto simp: factor_cmp_def order_factor_def obj_compare_rank sign_of_def)
  ultimately show "\<not> key_le fp k MIN_ROWKEY" "\<not> key_le fp MAX_ROWKEY k" by (simp_all add: cmp_le_def)
qed

section \<open>The meaning of a range\<close>

definition above_start :: "fp_ops \<Rightarrow> ob_range \<Rightarrow> ob_rowkey \<Rightarrow> bool" where
  "above_start fp r k \<longleftrightarrow> (if inclusive_start (border_flag r) then rowkey_le fp (start_key r) k else rowkey_lt fp (start_key r) k) = Some True"

definition below_end :: "fp_ops \<Rightarrow> ob_range \<Rightarrow> ob_rowkey \<Rightarrow> bool" where
  "below_end fp r k \<longleftrightarrow> (if inclusive_end (border_flag r) then rowkey_le fp k (end_key r) else rowkey_lt fp k (end_key r)) = Some True"

definition range_contains :: "fp_ops \<Rightarrow> ob_range \<Rightarrow> ob_rowkey \<Rightarrow> bool" where
  "range_contains fp r k \<longleftrightarrow> above_start fp r k \<and> below_end fp r k"

text \<open>A range of a table: its keys are keys of the table, and its description, if any, is ascending.\<close>

definition ascending :: "rowkey_info option \<Rightarrow> nat \<Rightarrow> bool" where
  "ascending info n \<longleftrightarrow> list_all (\<lambda>i. order_factor info (int i) = Some 1) [0..<n]"

definition table_range :: "int list \<Rightarrow> ob_range \<Rightarrow> bool" where
  "table_range ts r \<longleftrightarrow> ts \<noteq> [] \<and> table_key None ts (start_key r) \<and> table_key None ts (end_key r) \<and>
     0 < obj_cnt (start_key r) \<and> 0 < obj_cnt (end_key r) \<and> ascending (range_info r) (length ts)"

lemma lex_cmp_cong:
  assumes "\<And>i x y. i < min (length xs) (length ys) \<Longrightarrow> C i x y = D i x y"
  shows "lex_cmp C xs ys = lex_cmp D xs ys"
  using assms
proof (induction C xs ys arbitrary: D rule: lex_cmp.induct)
  case (4 C x xs y ys)
  then have "C 0 x y = D 0 x y" by simp
  moreover have "C 0 x y = Some 0 \<Longrightarrow> lex_cmp (\<lambda>i. C (Suc i)) xs ys = lex_cmp (\<lambda>i. D (Suc i)) xs ys"
    using 4 by (intro "4.IH") auto
  ultimately show ?case by (auto split: option.splits)
qed simp_all

lemma ascending_compare:
  assumes "ascending info (length ts)" "table_key None ts a" "table_key None ts b"
  shows "less_compare fp info a b = rowkey_compare fp a b"
proof -
  have "table_key info ts a" "table_key info ts b"
    using assms by (auto simp: table_key_def orders_ok_def ascending_def list_all_iff)
  moreover obtain xs ys where o: "rowkey_objs a = Some xs" "rowkey_objs b = Some ys" "length xs \<le> length ts"
    using assms(2,3) by (elim table_keyE) blast
  moreover have "length (border_norm xs) \<le> length xs" by (cases xs) auto
  then have "lex_cmp (factor_cmp fp info) (border_norm xs) (border_norm ys) =
      lex_cmp (factor_cmp fp None) (border_norm xs) (border_norm ys)"
    using assms(1) o(3) by (intro lex_cmp_cong) (auto simp: factor_cmp_def ascending_def list_all_iff order_factor_def)
  ultimately show ?thesis
    using assms(2,3) by (simp add: less_compare_def rowkey_compare_def table_key_compare)
qed

lemma fetch_ascending:
  "ascending (range_info l) n \<Longrightarrow> ascending (range_info r) n \<Longrightarrow> ascending (fetch_rowkey_info l r) n"
  by (simp add: fetch_rowkey_info_def)

lemma fetched_compare:
  assumes "table_range ts l" "table_range ts r" "table_key None ts a" "table_key None ts b"
  shows "less_compare fp (fetch_rowkey_info l r) a b = rowkey_compare_info fp None a b"
  using ascending_compare [OF fetch_ascending assms(3,4)] assms(1,2) by (simp add: table_range_def rowkey_compare_def)

lemma contains_iff:
  assumes "table_range ts r" "table_key None ts k"
  shows "above_start fp r k \<longleftrightarrow> (if inclusive_start (border_flag r) then key_le fp (start_key r) k else \<not> key_le fp k (start_key r))"
    "below_end fp r k \<longleftrightarrow> (if inclusive_end (border_flag r) then key_le fp k (end_key r) else \<not> key_le fp (end_key r) k)"
  using assms rowkey_eq_iff(2) [of ts]
  by (auto simp: above_start_def below_end_def table_range_def rowkey_le_def rowkey_compare_def cmp_le_def)

text \<open>Transitivity and linearity over the keys of a table.\<close>

lemmas key_le_trans = rowkey.le_trans [where info = None]
lemmas key_le_linear = rowkey.le_linear [where info = None]

lemma above_le:
  assumes "table_range ts r" "table_key None ts k"
  shows "above_start fp r k \<Longrightarrow> key_le fp (start_key r) k" "below_end fp r k \<Longrightarrow> key_le fp k (end_key r)"
  using contains_iff [OF assms] key_le_linear [OF assms(2)] assms(1) by (auto simp: table_range_def split: if_splits)

lemma border_row:
  assumes "table_range ts r" "ordinary_key ts k"
  shows "is_min_row fp (start_key r) = Some b \<Longrightarrow> b \<Longrightarrow> above_start fp r k"
    "is_max_row fp (end_key r) = Some b \<Longrightarrow> b \<Longrightarrow> below_end fp r k"
proof -
  have t: "ts \<noteq> []" "table_key None ts (start_key r)" "table_key None ts (end_key r)" "table_key None ts k"
    using assms by (auto simp: table_range_def ordinary_key_def)
  note b = border_keys [OF t(1)] and o = ordinary_between [OF assms(2) t(1), of fp]
  show "above_start fp r k" if "is_min_row fp (start_key r) = Some b" "b"
  proof -
    have "key_le fp (start_key r) MIN_ROWKEY" using that rowkey_eq_iff(1) [OF t(2) b(1)] by (simp add: is_min_row_def)
    then have "\<not> key_le fp k (start_key r)" using o(1) key_le_trans [OF t(4,2) b(1)] by blast
    then show ?thesis using contains_iff(1) [OF assms(1) t(4)] key_le_linear [OF t(2,4)] by auto
  qed
  show "below_end fp r k" if "is_max_row fp (end_key r) = Some b" "b"
  proof -
    have "key_le fp MAX_ROWKEY (end_key r)" using that rowkey_eq_iff(1) [OF t(3) b(2)] by (simp add: is_max_row_def)
    then have "\<not> key_le fp (end_key r) k" using o(2) key_le_trans [OF b(2) t(3,4)] by blast
    then show ?thesis using contains_iff(2) [OF assms(1) t(4)] key_le_linear [OF t(3,4)] by auto
  qed
qed

section \<open>Emptiness and overlap\<close>

lemma border_rows_defined:
  assumes "table_range ts r"
  obtains b c where "is_min_row fp (start_key r) = Some b" "is_max_row fp (end_key r) = Some c"
  using assms rowkey_eq_iff(1) [OF _ border_keys(1)] rowkey_eq_iff(1) [OF _ border_keys(2)]
  by (auto simp: table_range_def is_min_row_def is_max_row_def)

lemma range_empty_iff:
  assumes "table_range ts r" "is_min_row fp (start_key r) = Some b" "is_max_row fp (end_key r) = Some c"
  shows "range_empty fp r = Some (\<not> b \<and> \<not> c \<and> (\<not> key_le fp (start_key r) (end_key r) \<or>
    key_le fp (end_key r) (start_key r) \<and> \<not> (inclusive_start (border_flag r) \<and> inclusive_end (border_flag r))))"
  using assms rowkey_eq_iff [of ts "end_key r" "start_key r" fp] key_le_linear [of ts "start_key r" "end_key r" fp]
  by (auto simp: range_empty_def table_range_def or_else_def and_also_def split: bool.splits option.splits)

lemma range_empty_sound:
  assumes "table_range ts r" "table_key None ts k" "range_empty fp r = Some True"
  shows "\<not> range_contains fp r k"
proof
  assume "range_contains fp r k"
  then have k: "above_start fp r k" "below_end fp r k" by (auto simp: range_contains_def)
  have t: "table_key None ts (start_key r)" "table_key None ts (end_key r)" using assms(1) by (auto simp: table_range_def)
  note le = above_le(1) [OF assms(1,2) k(1)] above_le(2) [OF assms(1,2) k(2)]
  obtain b c where "is_min_row fp (start_key r) = Some b" "is_max_row fp (end_key r) = Some c"
    using border_rows_defined [OF assms(1)] by blast
  then have "key_le fp (end_key r) (start_key r)" "\<not> (inclusive_start (border_flag r) \<and> inclusive_end (border_flag r))"
    using assms(3) range_empty_iff [OF assms(1)] key_le_trans [OF t(1) assms(2) t(2) le] by auto
  then show False
    using contains_iff [OF assms(1,2)] k key_le_trans [OF assms(2) t(2,1) le(2)] key_le_trans [OF t(2,1) assms(2) _ le(1)]
    by auto
qed

lemma intersect_borders_sound:
  assumes "table_range ts l" "table_range ts r" "table_key None ts k" "intersect_borders fp l r = Some False"
  shows "\<not> (range_contains fp l k \<and> range_contains fp r k)"
proof
  assume "range_contains fp l k \<and> range_contains fp r k"
  then have k: "below_end fp l k" "above_start fp r k" by (auto simp: range_contains_def)
  have t: "table_key None ts (end_key l)" "table_key None ts (start_key r)" using assms(1,2) by (auto simp: table_range_def)
  note le = above_le(2) [OF assms(1,3) k(1)] above_le(1) [OF assms(2,3) k(2)]
  have "key_le fp (end_key l) (start_key r)" "\<not> (inclusive_end (border_flag l) \<and> inclusive_start (border_flag r))"
    using assms(4) rowkey_eq_iff [OF t] key_le_trans [OF t(2) assms(3) t(1) le(2,1)]
    by (auto simp: intersect_borders_def split: Option.bind_splits if_splits)
  then show False
    using contains_iff [OF assms(1,3)] contains_iff [OF assms(2,3)] k key_le_trans [OF assms(3) t le(1)]
      key_le_trans [OF t assms(3) _ le(2)]
    by auto
qed

lemma range_intersect_sound:
  assumes "table_range ts l" "table_range ts r" "table_key None ts k" "table_id l = table_id r"
    and "range_intersect fp l r = Some False"
  shows "\<not> (range_contains fp l k \<and> range_contains fp r k)"
proof -
  have "range_empty fp l = Some True \<or> range_empty fp r = Some True \<or> intersect_borders fp l r = Some False
      \<or> intersect_borders fp r l = Some False"
    using assms(4,5)
    by (auto simp: range_intersect_def or_else_def split: Option.bind_splits if_splits option.splits bool.splits)
  then show ?thesis
    using range_empty_sound [OF assms(1,3)] range_empty_sound [OF assms(2,3)]
      intersect_borders_sound [OF assms(1,2,3)] intersect_borders_sound [OF assms(2,1,3)] by blast
qed

lemma range_check_iff:
  assumes "table_range ts r"
  shows "range_check fp r = map_option Not (range_empty fp r)"
proof -
  obtain b c where bc: "is_min_row fp (start_key r) = Some b" "is_max_row fp (end_key r) = Some c"
    using border_rows_defined [OF assms] by blast
  have t: "table_key None ts (start_key r)" "table_key None ts (end_key r)" "obj_cnt (start_key r) \<noteq> 0"
    using assms by (auto simp: table_range_def)
  show ?thesis
    unfolding range_empty_iff [OF assms bc]
    using bc rowkey_eq_iff [OF t(1,2)] key_le_linear [OF t(1,2)] t(3)
    by (auto simp: range_check_def and_also_def not_opt_def split: bool.splits)
qed

lemma range_intersect_defined:
  assumes "table_range ts l" "table_range ts r"
  shows "range_intersect fp l r \<noteq> None"
proof -
  obtain a b c d where m: "is_min_row fp (start_key l) = Some a" "is_max_row fp (end_key l) = Some b"
    "is_min_row fp (start_key r) = Some c" "is_max_row fp (end_key r) = Some d"
    using border_rows_defined [OF assms(1)] border_rows_defined [OF assms(2)] by metis
  have t: "table_key None ts (start_key l)" "table_key None ts (end_key l)" "table_key None ts (start_key r)"
    "table_key None ts (end_key r)" using assms by (auto simp: table_range_def)
  have "less_compare fp (fetch_rowkey_info l r) (end_key l) (end_key r) \<noteq> None"
    using rowkey.total [OF t(2,4)] by (simp add: fetched_compare [OF assms t(2,4)])
  then obtain cmp where "table_id l = table_id r \<Longrightarrow> compare_with_endkey fp l r = Some cmp"
    using m(2,4) by (cases b; cases d) (auto simp: compare_with_endkey_def)
  moreover obtain x y where "range_empty fp l = Some x" "range_empty fp r = Some y"
    using range_empty_iff [OF assms(1) m(1,2)] range_empty_iff [OF assms(2) m(3,4)] by blast
  moreover have "intersect_borders fp l r \<noteq> None" "intersect_borders fp r l \<noteq> None"
    using m(1,3) rowkey_eq_iff [OF t(2,3)] rowkey_eq_iff [OF t(4,1)] by (auto simp: intersect_borders_def)
  ultimately show ?thesis
    using m by (cases x; cases y; cases a; cases b; cases c; cases d)
      (auto simp: range_intersect_def or_else_def and_also_def is_whole_range_def)
qed

section \<open>Cutting a range\<close>

lemma write_string_spec:
  assumes "table_key None ts rk" "0 < obj_cnt rk" "write_string_rowkey alloc rk st = Some (Ok (), rk')"
  shows "table_key None ts rk' \<and> 0 < obj_cnt rk' \<and> key_le fp rk rk' \<and> key_le fp rk' rk"
proof -
  have "obj_ptr rk \<noteq> None"
    using assms(1,2) by (auto simp: table_key_def rowkey_objs_def split: option.splits if_splits)
  then obtain len where len: "get_deep_copy_size rk = Some len" "alloc len"
    using assms by (auto simp: write_string_rowkey_def split: Option.bind_splits if_splits)
  from deep_copy_spec [OF assms(1,2) len(1), of "\<lambda>n. n \<le>s len" st fp] obtain c where
    c: "deep_copy (\<lambda>n. n \<le>s len) rk st = Some (Ok (), c)" "table_key None ts c" "obj_cnt c = obj_cnt rk"
      "rowkey_compare_info fp None rk c = Some 0" by auto
  moreover have "rk' = c" using assms(2,3) len c(1) \<open>obj_ptr rk \<noteq> None\<close> by (simp add: write_string_rowkey_def)
  ultimately show ?thesis using rowkey.cmp_iff [OF assms(1) c(2,4)] assms(2) by simp
qed

lemma startkey2_cases:
  assumes "table_range ts l" "table_range ts r" "ordinary_key ts k" "compare_with_startkey2 fp l r = Some c" "c \<le> 0"
  shows "above_start fp r k \<Longrightarrow> above_start fp l k" "c = 0 \<Longrightarrow> above_start fp l k \<Longrightarrow> above_start fp r k"
proof -
  have t: "table_key None ts (start_key l)" "table_key None ts (start_key r)" "table_key None ts k"
    using assms by (auto simp: table_range_def ordinary_key_def)
  obtain p q where pq: "is_min_row fp (start_key l) = Some p" "is_min_row fp (start_key r) = Some q"
    using border_rows_defined [OF assms(1)] border_rows_defined [OF assms(2)] by metis
  have "(above_start fp r k \<longrightarrow> above_start fp l k) \<and> (c = 0 \<longrightarrow> above_start fp l k \<longrightarrow> above_start fp r k)"
  proof (cases p)
    case True
    with pq assms(4) have "c = 0 \<Longrightarrow> q" by (auto simp: compare_with_startkey2_def split: if_splits)
    with True show ?thesis using border_row(1) [OF assms(1,3) pq(1)] border_row(1) [OF assms(2,3) pq(2)] by simp
  next
    case False
    have "less_compare fp (fetch_rowkey_info l r) (start_key l) (start_key r) = rowkey_compare_info fp None (start_key l) (start_key r)"
      by (rule fetched_compare [OF assms(1,2) t(1,2)])
    with False pq assms(4,5) obtain d where d: "rowkey_compare_info fp None (start_key l) (start_key r) = Some d" "d \<le> 0"
      "d = 0 \<Longrightarrow> inclusive_start (border_flag r) \<Longrightarrow> inclusive_start (border_flag l)"
      "c = 0 \<Longrightarrow> d = 0 \<and> (inclusive_start (border_flag l) \<longleftrightarrow> inclusive_start (border_flag r))"
      by (auto simp: compare_with_startkey2_def split: if_splits Option.bind_splits)
    note i = rowkey.cmp_iff [OF t(1,2) d(1)]
    have le: "key_le fp (start_key l) (start_key r)" "d = 0 \<Longrightarrow> key_le fp (start_key r) (start_key l)"
      "d \<noteq> 0 \<Longrightarrow> \<not> key_le fp (start_key r) (start_key l)"
      using i d(2) by auto
    note b = contains_iff(1) [OF assms(1) t(3), of fp] contains_iff(1) [OF assms(2) t(3), of fp]
    show ?thesis
    proof (cases "d = 0")
      case True
      then have "key_le fp k (start_key l) \<longleftrightarrow> key_le fp k (start_key r)" "key_le fp (start_key l) k \<longleftrightarrow> key_le fp (start_key r) k"
        using le key_le_trans [OF t(3,2,1)] key_le_trans [OF t(2,1,3)] key_le_trans [OF t(3,1,2)] key_le_trans [OF t(1,2,3)] by blast+
      with True show ?thesis using b d(3,4) above_le(1) [OF assms(2) t(3)] key_le_linear [OF t(1,3)] by auto
    next
      case False
      have "key_le fp (start_key l) k" "\<not> key_le fp k (start_key l)" if "above_start fp r k"
        using above_le(1) [OF assms(2) t(3) that] le False key_le_trans [OF t(1,2,3)] key_le_trans [OF t(2,3,1)] by blast+
      with False d(4) b show ?thesis by auto
    qed
  qed
  then show "above_start fp r k \<Longrightarrow> above_start fp l k" "c = 0 \<Longrightarrow> above_start fp l k \<Longrightarrow> above_start fp r k" by auto
qed

lemma endkey2_cases:
  assumes "table_range ts l" "table_range ts r" "ordinary_key ts k" "compare_with_endkey2 fp l r = Some c" "0 \<le> c"
  shows "below_end fp r k \<Longrightarrow> below_end fp l k" "c = 0 \<Longrightarrow> below_end fp l k \<Longrightarrow> below_end fp r k"
proof -
  have t: "table_key None ts (end_key l)" "table_key None ts (end_key r)" "table_key None ts k"
    using assms by (auto simp: table_range_def ordinary_key_def)
  obtain p q where pq: "is_max_row fp (end_key l) = Some p" "is_max_row fp (end_key r) = Some q"
    using border_rows_defined [OF assms(1)] border_rows_defined [OF assms(2)] by metis
  have "(below_end fp r k \<longrightarrow> below_end fp l k) \<and> (c = 0 \<longrightarrow> below_end fp l k \<longrightarrow> below_end fp r k)"
  proof (cases p)
    case True
    with pq assms(4) have "c = 0 \<Longrightarrow> q" by (auto simp: compare_with_endkey2_def split: if_splits)
    with True show ?thesis using border_row(2) [OF assms(1,3) pq(1)] border_row(2) [OF assms(2,3) pq(2)] by simp
  next
    case False
    have "less_compare fp (fetch_rowkey_info l r) (end_key l) (end_key r) = rowkey_compare_info fp None (end_key l) (end_key r)"
      by (rule fetched_compare [OF assms(1,2) t(1,2)])
    with False pq assms(4,5) obtain d where d: "rowkey_compare_info fp None (end_key l) (end_key r) = Some d" "0 \<le> d"
      "d = 0 \<Longrightarrow> inclusive_end (border_flag r) \<Longrightarrow> inclusive_end (border_flag l)"
      "c = 0 \<Longrightarrow> d = 0 \<and> (inclusive_end (border_flag l) \<longleftrightarrow> inclusive_end (border_flag r))"
      by (auto simp: compare_with_endkey2_def split: if_splits Option.bind_splits)
    note i = rowkey.cmp_iff [OF t(1,2) d(1)]
    have le: "key_le fp (end_key r) (end_key l)" "d = 0 \<Longrightarrow> key_le fp (end_key l) (end_key r)" "d \<noteq> 0 \<Longrightarrow> \<not> key_le fp (end_key l) (end_key r)"
      using i d(2) by auto
    note b = contains_iff(2) [OF assms(1) t(3), of fp] contains_iff(2) [OF assms(2) t(3), of fp]
    show ?thesis
    proof (cases "d = 0")
      case True
      then have "key_le fp k (end_key l) \<longleftrightarrow> key_le fp k (end_key r)" "key_le fp (end_key l) k \<longleftrightarrow> key_le fp (end_key r) k"
        using le key_le_trans [OF t(3,2,1)] key_le_trans [OF t(2,1,3)] key_le_trans [OF t(3,1,2)] key_le_trans [OF t(1,2,3)] by blast+
      with True show ?thesis using b d(3,4) above_le(2) [OF assms(2) t(3)] key_le_linear [OF t(1,3)] by auto
    next
      case False
      have "key_le fp k (end_key l)" "\<not> key_le fp (end_key l) k" if "below_end fp r k"
        using above_le(2) [OF assms(2) t(3) that] le False key_le_trans [OF t(3,2,1)] key_le_trans [OF t(1,3,2)] by blast+
      with False d(4) b show ?thesis by auto
    qed
  qed
  then show "below_end fp r k \<Longrightarrow> below_end fp l k" "c = 0 \<Longrightarrow> below_end fp l k \<Longrightarrow> below_end fp r k" by auto
qed

text \<open>A range that is not empty has every key on one side of it: a key beyond its end is above its start, and so on.\<close>

lemma nonempty_sides:
  assumes "table_range ts r" "ordinary_key ts k" "range_empty fp r = Some False"
  shows "above_start fp r k \<or> below_end fp r k"
proof (rule ccontr)
  assume n: "\<not> (above_start fp r k \<or> below_end fp r k)"
  have t: "table_key None ts (start_key r)" "table_key None ts (end_key r)" "table_key None ts k"
    using assms by (auto simp: table_range_def ordinary_key_def)
  obtain b c where bc: "is_min_row fp (start_key r) = Some b" "is_max_row fp (end_key r) = Some c"
    using border_rows_defined [OF assms(1)] by blast
  then have "\<not> b" "\<not> c" using n border_row [OF assms(1,2)] by auto
  then have e: "key_le fp (start_key r) (end_key r)"
    "key_le fp (end_key r) (start_key r) \<Longrightarrow> inclusive_start (border_flag r) \<and> inclusive_end (border_flag r)"
    using range_empty_iff [OF assms(1) bc] assms(3) by auto
  have k: "key_le fp k (start_key r)" "key_le fp (end_key r) k"
    using n contains_iff [OF assms(1) t(3), of fp] key_le_linear [OF t(1,3), of fp] key_le_linear [OF t(2,3), of fp] by (auto split: if_splits)
  then show False
    using n contains_iff [OF assms(1) t(3), of fp] e key_le_trans [OF t(2,3,1)] key_le_trans [OF t(1,2,3)] by (auto split: if_splits)
qed

text \<open>Where a range is cut, the new start takes exactly the keys the old end leaves, and the other way round.\<close>

lemma cut_complement:
  assumes "table_range ts r" "table_key None ts k" "table_key None ts c" "0 < obj_cnt c"
  shows "key_le fp (end_key r) c \<Longrightarrow> key_le fp c (end_key r) \<Longrightarrow> table_range ts l \<Longrightarrow> start_key l = c \<Longrightarrow>
      (inclusive_start (border_flag l) \<longleftrightarrow> \<not> inclusive_end (border_flag r)) \<Longrightarrow> above_start fp l k \<longleftrightarrow> \<not> below_end fp r k"
    "key_le fp (start_key r) c \<Longrightarrow> key_le fp c (start_key r) \<Longrightarrow> table_range ts l \<Longrightarrow> end_key l = c \<Longrightarrow>
      (inclusive_end (border_flag l) \<longleftrightarrow> \<not> inclusive_start (border_flag r)) \<Longrightarrow> below_end fp l k \<longleftrightarrow> \<not> above_start fp r k"
proof -
  have t: "table_key None ts (start_key r)" "table_key None ts (end_key r)" using assms(1) by (auto simp: table_range_def)
  show "above_start fp l k \<longleftrightarrow> \<not> below_end fp r k"
    if "key_le fp (end_key r) c" "key_le fp c (end_key r)" "table_range ts l" "start_key l = c"
      "inclusive_start (border_flag l) \<longleftrightarrow> \<not> inclusive_end (border_flag r)"
  proof -
    have "key_le fp c k \<longleftrightarrow> key_le fp (end_key r) k" "key_le fp k c \<longleftrightarrow> key_le fp k (end_key r)"
      using that(1,2) key_le_trans [OF assms(3) t(2) assms(2)] key_le_trans [OF t(2) assms(3,2)]
        key_le_trans [OF assms(2,3) t(2)] key_le_trans [OF assms(2) t(2) assms(3)] by blast+
    then show ?thesis using contains_iff(1) [OF that(3) assms(2)] contains_iff(2) [OF assms(1,2)] that(4,5) by auto
  qed
  show "below_end fp l k \<longleftrightarrow> \<not> above_start fp r k"
    if "key_le fp (start_key r) c" "key_le fp c (start_key r)" "table_range ts l" "end_key l = c"
      "inclusive_end (border_flag l) \<longleftrightarrow> \<not> inclusive_start (border_flag r)"
  proof -
    have "key_le fp c k \<longleftrightarrow> key_le fp (start_key r) k" "key_le fp k c \<longleftrightarrow> key_le fp k (start_key r)"
      using that(1,2) key_le_trans [OF assms(3) t(1) assms(2)] key_le_trans [OF t(1) assms(3,2)]
        key_le_trans [OF assms(2,3) t(1)] key_le_trans [OF assms(2) t(1) assms(3)] by blast+
    then show ?thesis using contains_iff(2) [OF that(3) assms(2)] contains_iff(1) [OF assms(1,2)] that(4,5) by auto
  qed
qed

lemma range_trim_splits:
  assumes "table_range ts l" "table_range ts r" "range_empty fp r = Some False" "ordinary_key ts k"
    and "range_trim fp alloc r l = Some (Ok (), l')"
  shows "table_range ts l' \<and> (range_contains fp l k \<longleftrightarrow> range_contains fp r k \<or> range_contains fp l' k) \<and>
    \<not> (range_contains fp r k \<and> range_contains fp l' k)"
proof -
  have t: "table_key None ts (start_key r)" "table_key None ts (end_key r)" "0 < obj_cnt (start_key r)" "0 < obj_cnt (end_key r)"
    "table_key None ts k" using assms by (auto simp: table_range_def ordinary_key_def)
  from assms(5) obtain cs ce where c: "compare_with_startkey2 fp l r = Some cs" "compare_with_endkey2 fp l r = Some ce"
    by (auto simp: range_trim_def split: if_splits Option.bind_splits)
  consider (1) key where "cs = 0" "0 < ce" "write_string_rowkey alloc (end_key r) (start_key l) = Some (Ok (), key)"
      "l' = l\<lparr>border_flag := (if inclusive_end (border_flag r) then unset_inclusive_start (border_flag l)
                           else set_inclusive_start (border_flag l)), start_key := key\<rparr>"
    | (2) key where "ce = 0" "cs < 0" "write_string_rowkey alloc (start_key r) (end_key l) = Some (Ok (), key)"
      "l' = l\<lparr>border_flag := (if inclusive_start (border_flag r) then unset_inclusive_end (border_flag l)
                           else set_inclusive_end (border_flag l)), end_key := key\<rparr>"
    using assms(5) c by (auto simp: range_trim_def Let_def split: if_splits Option.bind_splits)
  then show ?thesis
  proof cases
    case 1
    note w = write_string_spec [OF t(2,4) 1(3), of fp]
    have l': "table_range ts l'" using assms(1) w 1(4) by (simp add: table_range_def)
    have "above_start fp l' k \<longleftrightarrow> \<not> below_end fp r k"
      using w l' 1(4) by (intro cut_complement(1) [OF assms(2) t(5)]) auto
    moreover have "below_end fp l' k \<longleftrightarrow> below_end fp l k" using 1(4) by (simp add: below_end_def)
    moreover have "above_start fp l k \<longleftrightarrow> above_start fp r k" using startkey2_cases [OF assms(1,2,4) c(1)] 1(1) by auto
    ultimately show ?thesis
      using l' endkey2_cases(1) [OF assms(1,2,4) c(2)] 1(2) nonempty_sides [OF assms(2,4,3)] by (auto simp: range_contains_def)
  next
    case 2
    note w = write_string_spec [OF t(1,3) 2(3), of fp]
    have l': "table_range ts l'" using assms(1) w 2(4) by (simp add: table_range_def)
    have "below_end fp l' k \<longleftrightarrow> \<not> above_start fp r k"
      using w l' 2(4) by (intro cut_complement(2) [OF assms(2) t(5)]) auto
    moreover have "above_start fp l' k \<longleftrightarrow> above_start fp l k" using 2(4) by (simp add: above_start_def)
    moreover have "below_end fp l k \<longleftrightarrow> below_end fp r k" using endkey2_cases [OF assms(1,2,4) c(2)] 2(1) by auto
    ultimately show ?thesis
      using l' startkey2_cases(1) [OF assms(1,2,4) c(1)] 2(2) nonempty_sides [OF assms(2,4,3)] by (auto simp: range_contains_def)
  qed
qed

section \<open>Ranges on the wire\<close>

definition range_bytes :: "u64 \<Rightarrow> i8 \<Rightarrow> ob_obj list \<Rightarrow> ob_obj list \<Rightarrow> u8 list" where
  "range_bytes tid flag ss es = vi_bytes (unat tid) @ [flag] @ rowkey_bytes ss @ rowkey_bytes es"

lemma range_spec:
  assumes "rowkey_good (start_key r) ss" "rowkey_good (end_key r) es"
  shows "emits (range_serialize r) (range_bytes (table_id r) (border_flag r) ss es)"
    "refuses (range_serialize r) (length (range_bytes (table_id r) (border_flag r) ss es))"
  unfolding range_serialize_def range_bytes_def length_append
  by (intro emits_bind vi64.enc_emits i8.enc_emits rowkey_spec assms TrueI)
    (intro refuses_bind vi64.enc_emits vi64.enc_refuses i8.enc_emits i8.enc_refuses rowkey_spec assms TrueI)

text \<open>A range that is ready to be read into: each of its keys has an array with room for as many objects as it says.\<close>

definition key_room :: "nat \<Rightarrow> ob_rowkey \<Rightarrow> bool" where
  "key_room n rk \<longleftrightarrow> int n \<le> obj_cnt rk \<and> (case obj_ptr rk of None \<Rightarrow> False | Some arr \<Rightarrow> n \<le> length arr)"

definition key_filled :: "ob_obj list \<Rightarrow> ob_rowkey \<Rightarrow> ob_rowkey" where
  "key_filled os rk = rk\<lparr>obj_cnt := int (length os), obj_ptr := map_option (\<lambda>arr. map obj_normal os @ drop (length os) arr) (obj_ptr rk)\<rparr>"

lemma key_reads:
  assumes "rowkey_good rk os" "key_room (length os) dst"
  shows "reads (rowkey_deserialize dst) (rowkey_bytes os) (key_filled os dst)"
  using assms rowkey_reads [of os dst] by (auto simp: rowkey_good_def key_room_def key_filled_def split: option.splits)

lemma key_filled_objs:
  assumes "key_room (length os) dst"
  shows "rowkey_objs (key_filled os dst) = Some (map obj_normal os)"
  using assms by (auto simp: key_room_def key_filled_def rowkey_objs_def split: option.splits)

lemma range_reads:
  assumes "rowkey_good (start_key r) ss" "rowkey_good (end_key r) es"
    and "key_room (length ss) (start_key dst)" "key_room (length es) (end_key dst)"
  shows "reads (range_deserialize dst) (range_bytes (table_id r) (border_flag r) ss es)
    (dst\<lparr>table_id := table_id r, border_flag := border_flag r, start_key := key_filled ss (start_key dst),
       end_key := key_filled es (end_key dst)\<rparr>)"
proof -
  have p: "\<not> (obj_ptr (start_key dst) = None \<or> obj_ptr (end_key dst) = None)"
    using assms(3,4) by (auto simp: key_room_def split: option.splits)
  have "reads (Ob_Prelude.bind (rowkey_deserialize (end_key dst)) (\<lambda>ek.
      ret (dst\<lparr>table_id := table_id r, border_flag := border_flag r, start_key := key_filled ss (start_key dst), end_key := ek\<rparr>)))
      (rowkey_bytes es) (dst\<lparr>table_id := table_id r, border_flag := border_flag r, start_key := key_filled ss (start_key dst),
       end_key := key_filled es (end_key dst)\<rparr>)"
    by (rule reads_bind_ret [OF key_reads [OF assms(2,4)]])
  then show ?thesis
    unfolding range_deserialize_def range_bytes_def if_not_P [OF p]
    by (rule reads_bind [OF vi64.dec_reads [OF TrueI] reads_bind [OF i8.dec_reads [OF TrueI] reads_bind [OF key_reads [OF assms(1,3)]]]])
qed

lemma range_size:
  assumes "rowkey_good (start_key r) ss" "rowkey_good (end_key r) es"
    and "list_all (\<lambda>o1. o_type o1 \<noteq> ObDecimalType) (ss @ es)"
  shows "range_get_serialize_size r = Some (int (length (range_bytes (table_id r) (border_flag r) ss es)))"
  using assms rowkey_size [OF assms(1)] rowkey_size [OF assms(2)]
  by (simp add: range_get_serialize_size_def range_bytes_def encoded_length_vi64_eq encoded_length_i8_def)

end
