(* ===== verification/Ob_Range_Contract.thy ===== *)
theory Ob_Range_Contract
  imports Ob_Range_Laws
begin

text \<open>
  What row keys, their descriptions and ranges guarantee: the order of keys, lookups in a description that was built column by
  column, and the meaning of the operations on ranges.
\<close>

section \<open>Keys\<close>

lemma cmp_le_code [code]: "cmp_le cmp x y \<longleftrightarrow> (case cmp x y of None \<Rightarrow> False | Some c \<Rightarrow> c \<le> 0)"
  by (auto simp: cmp_le_def split: option.splits)

text \<open>
  C13: the keys of one table whose columns are of type int, varchar, bool or a time type (not float, double or decimal) are totally
  preordered by \<^verbatim>\<open>ObRowkey::compare\<close>, with ascending and descending columns and with
  border values and prefixes among them: it is defined on any two of them, zero on equals, changes sign when the arguments are
  swapped, is transitive, and does not tell equal keys apart.
\<close>
theorem rowkey_total_order:
  assumes "table_key info ts a" "table_key info ts b" "table_key info ts c"
  shows "rowkey_compare_info fp info a b \<noteq> None \<and> rowkey_compare_info fp info a a = Some 0 \<and>
    map_option sgn (rowkey_compare_info fp info b a) = map_option (\<lambda>x. - sgn x) (rowkey_compare_info fp info a b) \<and>
    (cmp_le (rowkey_compare_info fp info) a b \<and> cmp_le (rowkey_compare_info fp info) b c \<longrightarrow>
       cmp_le (rowkey_compare_info fp info) a c) \<and>
    (rowkey_compare_info fp info a b = Some 0 \<longrightarrow>
       map_option sgn (rowkey_compare_info fp info a c) = map_option sgn (rowkey_compare_info fp info b c))"
proof -
  obtain x y p q where c: "rowkey_compare_info fp info a b = Some x" "rowkey_compare_info fp info b a = Some y"
    "rowkey_compare_info fp info a c = Some p" "rowkey_compare_info fp info b c = Some q"
    using rowkey.total [OF assms(1,2)] rowkey.total [OF assms(2,1)] rowkey.total [OF assms(1,3)] rowkey.total [OF assms(2,3)] by metis
  have "sgn y = - sgn x" using rowkey.swap [OF assms(1,2) c(1,2)] .
  moreover have "x = 0 \<Longrightarrow> sgn p = sgn q" using rowkey.equal_left [OF assms _ c(3,4)] c(1) by simp
  ultimately show ?thesis using c rowkey.self [OF assms(1)] rowkey.le_trans [OF assms] by auto
qed

text \<open>A description built column by column.\<close>

fun ri_add_columns :: "rowkey_column list \<Rightarrow> rowkey_info \<Rightarrow> rowkey_info option" where
  "ri_add_columns [] ri = Some ri"
| "ri_add_columns (c # cs) ri = (case ri_add_column c ri of None \<Rightarrow> None | Some (r, ri) \<Rightarrow> ri_add_columns cs ri)"

definition mixed_info :: rowkey_info where
  "mixed_info = the (ri_add_columns [\<lparr>rc_length = 8, rc_column_id = 16, rc_type = 1, rc_order = ASC\<rparr>,
     \<lparr>rc_length = 8, rc_column_id = 17, rc_type = 1, rc_order = DESC\<rparr>] new_rowkey_info)"

definition int_key :: "int list \<Rightarrow> ob_rowkey" where
  "int_key xs = rowkey_assign (Some (map (\<lambda>x. set_int (word_of_int x) False obj_reset) xs)) (int (length xs))"

theorem rowkey_total_order_witness:
  "\<forall>fp. cmp_le (rowkey_compare_info fp (Some mixed_info)) (int_key [1, 9]) (int_key [2]) \<and>
     cmp_le (rowkey_compare_info fp (Some mixed_info)) (int_key [1, 9]) (int_key [1, 5])"
proof
  fix fp
  have k: "table_key (Some mixed_info) [1, 1] (int_key [1, 9])" "table_key (Some mixed_info) [1, 1] (int_key [1, 5])"
    "table_key (Some mixed_info) [1, 1] (int_key [2])" by code_simp+
  have "cmp_le (rowkey_compare_info fp (Some mixed_info)) (int_key [1, 9]) (int_key [1, 5])"
    "cmp_le (rowkey_compare_info fp (Some mixed_info)) (int_key [1, 5]) (int_key [2])" by code_simp+
  then show "cmp_le (rowkey_compare_info fp (Some mixed_info)) (int_key [1, 9]) (int_key [2]) \<and>
     cmp_le (rowkey_compare_info fp (Some mixed_info)) (int_key [1, 9]) (int_key [1, 5])"
    using rowkey_total_order [OF k, of fp] by blast
qed

section \<open>Descriptions of keys\<close>

lemma ri_add_column_list:
  assumes "ri_ok ri"
  obtains ri' where "ri_add_column c ri = Some (Ok (), ri')" "ri_ok ri'" "ri_list ri' = take 16 (ri_list ri @ [c])"
proof (cases "ri_size ri \<ge> 16")
  case True
  then show thesis using assms that [of ri] by (simp add: ri_add_column_def OB_MAX_ROWKEY_COLUMN_NUMBER_def ri_ok_def ri_list_def)
next
  case False
  then obtain n where n: "ri_size ri = int n" "n < 16" using assms by (auto simp: ri_ok_def elim: nonneg_int_cases)
  then have "nat (int n + 1) = Suc n" by simp
  then show thesis
    using assms n that [of "ri\<lparr>ri_columns := (ri_columns ri)[n := c], ri_size := int n + 1\<rparr>"]
    by (simp add: ri_add_column_def OB_MAX_ROWKEY_COLUMN_NUMBER_def ri_ok_def ri_list_def columns_at_def take_Suc_conv_app_nth)
qed

lemma ri_add_columns_list:
  assumes "ri_ok ri"
  shows "\<exists>ri'. ri_add_columns cs ri = Some ri' \<and> ri_ok ri' \<and> ri_list ri' = take 16 (ri_list ri @ cs)"
  using assms
proof (induction cs arbitrary: ri)
  case Nil
  then show ?case by (auto simp: ri_list_def ri_ok_def)
next
  case (Cons c cs)
  obtain ri' where r: "ri_add_column c ri = Some (Ok (), ri')" "ri_ok ri'" "ri_list ri' = take 16 (ri_list ri @ [c])"
    using ri_add_column_list [OF Cons.prems] .
  have "take 16 (take 16 (xs @ [c]) @ cs) = take 16 (xs @ c # cs)" for xs
    by (cases "length xs < 16") (simp_all add: min_def)
  with r show ?case using Cons.IH [OF r(2)] by simp
qed

lemma get_index_loop_find:
  assumes "i + n \<le> length (ri_columns ri)"
  shows "get_index_loop ri cid (int i) n =
    Some (case find (\<lambda>j. rc_column_id (ri_columns ri ! j) = cid) [i..<i + n] of
        None \<Rightarrow> Err OB_ENTRY_NOT_EXIST | Some j \<Rightarrow> Ok (int j, ri_columns ri ! j))"
  using assms
proof (induction n arbitrary: i)
  case (Suc n)
  have "[i..<i + Suc n] = i # [Suc i..<Suc i + n]" by (simp add: upt_rec)
  then show ?case using Suc.IH [of "Suc i"] Suc.prems by (simp add: columns_at_def add.commute)
qed simp

lemma find_cong_set: "(\<And>x. x \<in> set xs \<Longrightarrow> P x = Q x) \<Longrightarrow> find P xs = find Q xs"
  by (induction xs) auto

lemma find_in: "find P xs = Some x \<Longrightarrow> x \<in> set xs"
  by (induction xs) (auto split: if_splits)

lemma ri_get_index_list:
  assumes "ri_ok ri"
  shows "ri_get_index ri cid =
    Some (case find (\<lambda>j. rc_column_id (ri_list ri ! j) = cid) [0..<length (ri_list ri)] of
        None \<Rightarrow> Err OB_ENTRY_NOT_EXIST | Some j \<Rightarrow> Ok (int j, ri_list ri ! j))"
proof -
  have n: "length (ri_list ri) = nat (ri_size ri)" "nat (ri_size ri) \<le> length (ri_columns ri)"
    using assms by (auto simp: ri_ok_def ri_list_def)
  have e: "ri_list ri ! j = ri_columns ri ! j" if "j < nat (ri_size ri)" for j using that by (simp add: ri_list_def)
  have "find (\<lambda>j. rc_column_id (ri_list ri ! j) = cid) [0..<nat (ri_size ri)] =
      find (\<lambda>j. rc_column_id (ri_columns ri ! j) = cid) [0..<nat (ri_size ri)]" using e by (intro find_cong_set) simp
  then show ?thesis
    using get_index_loop_find [of 0 "nat (ri_size ri)" ri cid] n e by (auto simp: ri_get_index_def split: option.splits dest: find_in)
qed

text \<open>
  C33: adding columns to a new description gives the list of the first 16 of them, whatever their number; a lookup by column id
  then gives the first column with that id and its place, or \<^verbatim>\<open>OB_ENTRY_NOT_EXIST\<close> where there is none.
\<close>
theorem rowkey_info_lookup:
  "\<exists>ri. ri_add_columns cs new_rowkey_info = Some ri \<and> ri_ok ri \<and> ri_list ri = take 16 cs \<and>
     ri_get_index ri cid =
       Some (case find (\<lambda>j. rc_column_id (cs ! j) = cid) [0..<min 16 (length cs)] of
           None \<Rightarrow> Err OB_ENTRY_NOT_EXIST | Some j \<Rightarrow> Ok (int j, cs ! j))"
proof -
  have "ri_ok new_rowkey_info" "ri_list new_rowkey_info = []" by (simp_all add: new_rowkey_info_def ri_ok_def ri_list_def)
  then obtain ri where ri: "ri_add_columns cs new_rowkey_info = Some ri" "ri_ok ri" "ri_list ri = take 16 cs"
    using ri_add_columns_list [of new_rowkey_info cs] by auto
  have f: "find (\<lambda>j. rc_column_id (take 16 cs ! j) = cid) [0..<min 16 (length cs)] =
      find (\<lambda>j. rc_column_id (cs ! j) = cid) [0..<min 16 (length cs)]" by (intro find_cong_set) simp
  have "take 16 cs ! j = cs ! j" if "find (\<lambda>j. rc_column_id (cs ! j) = cid) [0..<min 16 (length cs)] = Some j" for j
    using find_in [OF that] by simp
  then show ?thesis using ri ri_get_index_list [OF ri(2), of cid] f by (auto simp: min.commute split: option.splits)
qed

text \<open>
  C32: \<^verbatim>\<open>add_column\<close> and \<^verbatim>\<open>set_column\<close> keep the size of a description between 0 and 16, and with that every lookup by index stays inside the
  array and has no undefined behaviour (\<^verbatim>\<open>deserialize\<close>, which takes the size from its input, is not covered). \<^verbatim>\<open>add_column\<close> always
  answers \<^verbatim>\<open>OB_SUCCESS\<close> and appends the column, or drops it when there are 16; \<^verbatim>\<open>set_column\<close> succeeds exactly for the indices 0 to 15, and
  the column is then found there; \<^verbatim>\<open>get_column\<close> refuses exactly the indices outside the size, with \<^verbatim>\<open>OB_INVALID_INDEX\<close>.
\<close>
theorem rowkey_info_invariant:
  assumes "ri_ok ri"
  shows "(\<exists>ri'. ri_add_column c ri = Some (Ok (), ri') \<and> ri_ok ri' \<and> ri_list ri' = take 16 (ri_list ri @ [c])) \<and>
    (\<exists>r ri'. ri_set_column i c ri = Some (r, ri') \<and> ri_ok ri' \<and> (r = Ok () \<longleftrightarrow> 0 \<le> i \<and> i < 16) \<and>
       (r = Ok () \<longrightarrow> ri_get_column ri' i = Some (Ok c))) \<and>
    (ri_get_column ri i = Some (Err OB_INVALID_INDEX) \<longleftrightarrow> \<not> (0 \<le> i \<and> i < ri_size ri)) \<and>
    ri_get_column ri i \<noteq> None \<and> ri_get_column_ptr ri i \<noteq> None \<and> ri_get_column_id ri i \<noteq> None \<and>
    is_rowkey_column ri cid \<noteq> None \<and> ri_get_binary_rowkey_length ri \<noteq> None"
proof -
  have l: "binary_length_loop ri (int j) n len \<noteq> None" if "j + n \<le> length (ri_columns ri)" for j n len
    using that
  proof (induction n arbitrary: j len)
    case (Suc n)
    then show ?case using Suc.IH [of "Suc j"] by (simp add: columns_at_def add.commute)
  qed simp
  have "is_rowkey_column ri cid \<noteq> None" using ri_get_index_list [OF assms, of cid] by (simp add: is_rowkey_column_def)
  moreover have "ri_get_binary_rowkey_length ri \<noteq> None"
    using l [of 0 "nat (ri_size ri)" 0] assms by (auto simp: ri_get_binary_rowkey_length_def ri_ok_def)
  moreover have "\<exists>r ri'. ri_set_column i c ri = Some (r, ri') \<and> ri_ok ri' \<and> (r = Ok () \<longleftrightarrow> 0 \<le> i \<and> i < 16) \<and>
       (r = Ok () \<longrightarrow> ri_get_column ri' i = Some (Ok c))"
    using assms by (auto simp: ri_set_column_def OB_MAX_ROWKEY_COLUMN_NUMBER_def Let_def columns_at_def ri_ok_def ri_get_column_def)
  moreover have "\<exists>ri'. ri_add_column c ri = Some (Ok (), ri') \<and> ri_ok ri' \<and> ri_list ri' = take 16 (ri_list ri @ [c])"
    using ri_add_column_list [OF assms, of c] by metis
  ultimately show ?thesis
    using assms
    by (auto simp: ri_get_column_def ri_get_column_ptr_def ri_get_column_id_def columns_at_def ri_ok_def split: if_splits)
qed

theorem rowkey_info_invariant_witness:
  "ri_get_column mixed_info 2 = Some (Err OB_INVALID_INDEX) \<and> ri_get_column_ptr mixed_info 2 \<noteq> None"
proof -
  have "ri_ok mixed_info" "ri_size mixed_info = 2" by code_simp+
  then show ?thesis using rowkey_info_invariant [of mixed_info "hd (ri_columns mixed_info)" 2 17] by auto
qed

section \<open>Ranges\<close>

definition int_range :: "i8 \<Rightarrow> int \<Rightarrow> int \<Rightarrow> ob_range" where
  "int_range flag a b = \<lparr>table_id = 1001, border_flag = flag, start_key = int_key [a], end_key = int_key [b], range_info = None\<rparr>"

text \<open>
  C17: two ranges of a table that have a key in common intersect: \<^verbatim>\<open>intersect\<close> has an answer, and it is true. This is for border keys
  of at least one column, columns of type int, varchar, bool or a time type, and descriptions (where a range has one) whose columns
  are all ascending.
\<close>
theorem range_intersect_complete:
  assumes "table_range ts l" "table_range ts r" "table_id l = table_id r" "table_key None ts k"
    and "range_contains fp l k" "range_contains fp r k"
  shows "range_intersect fp l r = Some True"
proof -
  have "range_intersect fp l r \<noteq> Some False" using range_intersect_sound [OF assms(1,2,4,3), of fp] assms(5,6) by blast
  then show ?thesis using range_intersect_defined [OF assms(1,2), of fp] by (cases "range_intersect fp l r") auto
qed

theorem range_intersect_complete_witness:
  "\<forall>fp. range_intersect fp (int_range 2 3 7) (int_range 1 7 9) = Some True"
proof
  fix fp
  have "table_range [1] (int_range 2 3 7)" "table_range [1] (int_range 1 7 9)" "table_key None [1] (int_key [7])"
    "range_contains fp (int_range 2 3 7) (int_key [7])" "range_contains fp (int_range 1 7 9) (int_key [7])"
    "table_id (int_range 2 3 7) = table_id (int_range 1 7 9)" by code_simp+
  then show "range_intersect fp (int_range 2 3 7) (int_range 1 7 9) = Some True" using range_intersect_complete by blast
qed

text \<open>
  C8: \<^verbatim>\<open>trim\<close> cuts a range that is not empty out of another one: when it succeeds, every ordinary key of the old range is in the part that was cut
  out or in the rest, never in both, and neither of them has a key the old range did not have. This is for
  border keys of at least one column, columns of type int, varchar, bool or a time type, and descriptions (where a range has one)
  whose columns are all ascending; an ordinary key is one that does not start with a border value. (An empty range is not refused:
  cutting [3,1) out of [3,9] gives [1,9].)
\<close>
theorem range_trim_partition:
  assumes "table_range ts l" "table_range ts r" "range_empty fp r = Some False" "ordinary_key ts k"
    and "range_trim fp alloc r l = Some (Ok (), l')"
  shows "table_range ts l' \<and> (range_contains fp l k \<longleftrightarrow> range_contains fp r k \<noteq> range_contains fp l' k) \<and>
    \<not> (range_contains fp r k \<and> range_contains fp l' k)"
  using range_trim_splits [OF assms] by blast

theorem range_trim_partition_witness:
  "\<forall>fp. \<exists>l'. range_trim fp (\<lambda>_. True) (int_range 2 3 5) (int_range 2 3 9) = Some (Ok (), l') \<and>
     \<not> range_contains fp l' (int_key [5])"
proof
  fix fp
  have "range_trim fp (\<lambda>_. True) (int_range 2 3 5) (int_range 2 3 9) = Some (Ok (), int_range 2 5 9)" by code_simp
  moreover have "table_range [1] (int_range 2 3 9)" "table_range [1] (int_range 2 3 5)" "ordinary_key [1] (int_key [5])"
    "range_empty fp (int_range 2 3 5) = Some False" "range_contains fp (int_range 2 3 5) (int_key [5])" by code_simp+
  ultimately show "\<exists>l'. range_trim fp (\<lambda>_. True) (int_range 2 3 5) (int_range 2 3 9) = Some (Ok (), l') \<and>
     \<not> range_contains fp l' (int_key [5])" using range_trim_partition [of "[1]"] by blast
qed

text \<open>
  What \<^verbatim>\<open>trim\<close> does with an empty range that begins where the other one does: the rest is larger than what there was.
\<close>
lemma range_trim_empty:
  "(case range_trim fp (\<lambda>_. True) (int_range 1 3 1) (int_range 3 3 9) of
      Some (Ok (), l') \<Rightarrow> range_contains fp l' (int_key [2]) \<and> \<not> range_contains fp (int_range 3 3 9) (int_key [2])
    | _ \<Rightarrow> False) \<and> range_empty fp (int_range 1 3 1) = Some True"
  by code_simp

text \<open>
  C34: for ranges with border keys of at least one column, columns of type int, varchar, bool or a time type, and descriptions (where
  there is one) whose columns are all ascending: a range that \<^verbatim>\<open>empty\<close> calls empty contains no key, and \<^verbatim>\<open>check\<close> accepts exactly the ranges that \<^verbatim>\<open>empty\<close> does not call
  empty. (For border keys without columns and inclusive borders both answer false.)
\<close>
theorem range_empty_check:
  assumes "table_range ts r"
  shows "range_empty fp r \<noteq> None \<and> range_check fp r = map_option Not (range_empty fp r) \<and>
    (range_empty fp r = Some True \<and> table_key None ts k \<longrightarrow> \<not> range_contains fp r k)"
proof -
  obtain b c where "is_min_row fp (start_key r) = Some b" "is_max_row fp (end_key r) = Some c" using border_rows_defined [OF assms] .
  then show ?thesis using range_empty_iff [OF assms] range_check_iff [OF assms] range_empty_sound [OF assms] by auto
qed

theorem range_empty_check_witness: "\<forall>fp. range_check fp (int_range 1 4 4) = Some False"
proof
  fix fp
  have "table_range [1] (int_range 1 4 4)" "range_empty fp (int_range 1 4 4) = Some True" by code_simp+
  then show "range_check fp (int_range 1 4 4) = Some False" using range_empty_check by fastforce
qed

text \<open>
  C16: a range whose keys fit the wire format is written whenever its bytes fit into the buffer, and reading them back into a range
  with room for the keys gives the same table, the same flag and keys with the same values, and leaves the cursor behind the bytes.
\<close>
theorem range_roundtrip:
  assumes "rowkey_good (start_key r) ss" "rowkey_good (end_key r) es"
    and "key_room (length ss) (start_key dst)" "key_room (length es) (end_key dst)"
    and "room (length (range_bytes (table_id r) (border_flag r) ss es)) s"
  shows "\<exists>s' r' ss' es'. range_serialize r s = Some (Ok (), s') \<and> range_deserialize dst (s'\<lparr>pos := pos s\<rparr>) = Some (Ok r', s') \<and>
    table_id r' = table_id r \<and> border_flag r' = border_flag r \<and>
    rowkey_objs (start_key r') = Some ss' \<and> map obj_abs ss' = map obj_abs ss \<and>
    rowkey_objs (end_key r') = Some es' \<and> map obj_abs es' = map obj_abs es"
proof -
  let ?bs = "range_bytes (table_id r) (border_flag r) ss es"
  let ?r = "dst\<lparr>table_id := table_id r, border_flag := border_flag r, start_key := key_filled ss (start_key dst),
       end_key := key_filled es (end_key dst)\<rparr>"
  have "range_serialize r s = Some (Ok (), overlay ?bs s)" using emitsD [OF range_spec(1) [OF assms(1,2)] assms(5)] .
  moreover have "range_deserialize dst ((overlay ?bs s)\<lparr>pos := pos s\<rparr>) = Some (Ok ?r, overlay ?bs s)"
    using readsD [OF range_reads [OF assms(1-4)] holds_overlay [OF assms(5)]] assms(5) by (simp add: adv_def)
  moreover have "map obj_abs (map obj_normal os) = map obj_abs os" if "rowkey_good rk os" for rk os
    using that by (auto simp: rowkey_good_def list_all_iff obj_normal_abs)
  ultimately show ?thesis
    using key_filled_objs [OF assms(3)] key_filled_objs [OF assms(4)] assms(1,2) by (intro exI [of _ "overlay ?bs s"] exI [of _ ?r]) auto
qed

theorem range_roundtrip_witness:
  "\<exists>s' r'. range_serialize (int_range 2 3 700) (zero_buffer 12) = Some (Ok (), s') \<and>
     range_deserialize (int_range 0 0 0) (s'\<lparr>pos := 0\<rparr>) = Some (Ok r', s') \<and> border_flag r' = 2"
proof -
  let ?o = "\<lambda>x. set_int x False obj_reset"
  have "rowkey_objs (int_key [3]) = Some [?o 3]" "rowkey_objs (int_key [700]) = Some [?o 700]" "obj_good (?o 3)" "obj_good (?o 700)"
    "obj_cnt (int_key [3]) = 1" "obj_cnt (int_key [700]) = 1" "key_room 1 (int_key [0])"
    "length (range_bytes 1001 2 [?o 3] [?o 700]) \<le> 12" by code_simp+
  then show ?thesis
    using range_roundtrip [of "int_range 2 3 700" "[?o 3]" "[?o 700]" "int_range 0 0 0" "zero_buffer 12"]
    by (auto simp: int_range_def rowkey_good_def)
qed

end
