(* ===== verification/Ob_Qlock.thy ===== *)
theory Ob_Qlock
  imports Ob_Prelude
begin

text \<open>
  The row lock \<^verbatim>\<open>QLock\<close> of \<^verbatim>\<open>common/qlock.h\<close>: a reader count and a word with the owner, changed by atomic
  instructions. A method is a program of atomic accesses to the two words; between two of them other threads may run. The
  accesses of one thread take effect in program order: the source uses \<^verbatim>\<open>volatile\<close> members and full barriers.
\<close>

section \<open>Programs of atomic accesses\<close>

record qlock =
  n_ref :: u32
  lock_uid :: u32

text \<open>
  \<open>Done\<close> returns a code, with the local variable \<^verbatim>\<open>cur_uid\<close> where a caller needs it and with the truth value a method returns. \<open>Loop b k\<close> runs \<open>b\<close>; where \<open>b\<close> ends in
  \<open>Again\<close> it runs \<open>b\<close> once more, where it ends in \<open>Done\<close> it goes on with \<open>k\<close>. The clock and the caller's \<^verbatim>\<open>wait_flag\<close> are
  read like memory.
\<close>

datatype qprog =
    Done "unit result" u32
  | Again
  | ReadUid "u32 \<Rightarrow> qprog"
  | ReadRef "u32 \<Rightarrow> qprog"
  | FetchAdd u32 qprog
  | CasUid u32 u32 "bool \<Rightarrow> qprog"
  | WriteUid u32 qprog
  | ReadClock "int \<Rightarrow> qprog"
  | ReadFlag "bool \<Rightarrow> qprog"
  | Loop qprog "unit result \<Rightarrow> u32 \<Rightarrow> qprog"

text \<open>A call: what follows it gets the code it returns.\<close>

primrec andthen :: "qprog \<Rightarrow> (unit result \<Rightarrow> u32 \<Rightarrow> qprog) \<Rightarrow> qprog" where
  "andthen (Done r c) f = f r c"
| "andthen Again f = Again"
| "andthen (ReadUid k) f = ReadUid (\<lambda>v. andthen (k v) f)"
| "andthen (ReadRef k) f = ReadRef (\<lambda>v. andthen (k v) f)"
| "andthen (FetchAdd d p) f = FetchAdd d (andthen p f)"
| "andthen (CasUid a b k) f = CasUid a b (\<lambda>v. andthen (k v) f)"
| "andthen (WriteUid v p) f = WriteUid v (andthen p f)"
| "andthen (ReadClock k) f = ReadClock (\<lambda>v. andthen (k v) f)"
| "andthen (ReadFlag k) f = ReadFlag (\<lambda>v. andthen (k v) f)"
| "andthen (Loop b k) f = Loop b (\<lambda>r c. andthen (k r c) f)"

text \<open>One round of a loop: \<open>Again\<close> starts the loop over.\<close>

primrec plug :: "qprog \<Rightarrow> qprog \<Rightarrow> (unit result \<Rightarrow> u32 \<Rightarrow> qprog) \<Rightarrow> qprog" where
  "plug (Done r c) b k = k r c"
| "plug Again b k = Loop b k"
| "plug (ReadUid g) b k = ReadUid (\<lambda>v. plug (g v) b k)"
| "plug (ReadRef g) b k = ReadRef (\<lambda>v. plug (g v) b k)"
| "plug (FetchAdd d p) b k = FetchAdd d (plug p b k)"
| "plug (CasUid x y g) b k = CasUid x y (\<lambda>v. plug (g v) b k)"
| "plug (WriteUid v p) b k = WriteUid v (plug p b k)"
| "plug (ReadClock g) b k = ReadClock (\<lambda>v. plug (g v) b k)"
| "plug (ReadFlag g) b k = ReadFlag (\<lambda>v. plug (g v) b k)"
| "plug (Loop b' k') b k = Loop b' (\<lambda>r c. plug (k' r c) b k)"

text \<open>One atomic access, with the time and the flag it would see.\<close>

fun qexec :: "int \<Rightarrow> bool \<Rightarrow> qprog \<Rightarrow> qlock \<Rightarrow> qprog \<times> qlock" where
  "qexec now flag (Done r c) l = (Done r c, l)"
| "qexec now flag Again l = (Again, l)"
| "qexec now flag (ReadUid k) l = (k (lock_uid l), l)"
| "qexec now flag (ReadRef k) l = (k (n_ref l), l)"
| "qexec now flag (FetchAdd d p) l = (p, l\<lparr>n_ref := n_ref l + d\<rparr>)"
| "qexec now flag (CasUid old new k) l =
     (if lock_uid l = old then (k True, l\<lparr>lock_uid := new\<rparr>) else (k False, l))"
| "qexec now flag (WriteUid v p) l = (p, l\<lparr>lock_uid := v\<rparr>)"
| "qexec now flag (ReadClock k) l = (k now, l)"
| "qexec now flag (ReadFlag k) l = (k flag, l)"
| "qexec now flag (Loop b k) l = (plug b b k, l)"

section \<open>The methods\<close>

definition EXCLUSIVE_BIT :: u32 where "EXCLUSIVE_BIT = 0x80000000"
definition UID_MASK :: u32 where "UID_MASK = NOT EXCLUSIVE_BIT"

definition qlock_reset :: qlock where
  "qlock_reset = \<lparr>n_ref = 0, lock_uid = 0\<rparr>"

definition is_timeout :: "int \<Rightarrow> (bool \<Rightarrow> qprog) \<Rightarrow> qprog" where
  "is_timeout end_time k = (if end_time > 0 then ReadClock (\<lambda>now. k (now > end_time)) else k False)"

definition add_shared_ref :: "qprog \<Rightarrow> qprog" where
  "add_shared_ref p = FetchAdd 1 p"

definition del_shared_ref :: "qprog \<Rightarrow> qprog" where
  "del_shared_ref p = FetchAdd (- 1) p"

definition try_shared_lock :: "u32 \<Rightarrow> qprog" where
  "try_shared_lock uid = ReadUid (\<lambda>u.
     if u AND EXCLUSIVE_BIT \<noteq> 0 then Done (Err OB_EAGAIN) 0
     else add_shared_ref (ReadUid (\<lambda>u.
       if u AND EXCLUSIVE_BIT \<noteq> 0 then del_shared_ref (Done (Err OB_EAGAIN) 0)
       else Done (Ok ()) 0)))"

definition try_shared_unlock :: "u32 \<Rightarrow> qprog" where
  "try_shared_unlock uid = del_shared_ref (Done (Ok ()) 0)"

definition try_upgrade_lock :: "u32 \<Rightarrow> qprog" where
  "try_upgrade_lock uid =
     (if uid AND NOT UID_MASK \<noteq> 0 then Done (Err OB_INVALID_ARGUMENT) 0
      else CasUid 0 uid (\<lambda>ok. Done (if ok then Ok () else Err OB_EAGAIN) 0))"

definition try_upgrade_unlock :: "u32 \<Rightarrow> qprog" where
  "try_upgrade_unlock uid = ReadUid (\<lambda>u.
     if uid \<noteq> u then Done (Err OB_LOCK_NOT_MATCH) 0 else WriteUid 0 (Done (Ok ()) 0))"

definition try_exclusive_lock :: "u32 \<Rightarrow> qprog" where
  "try_exclusive_lock uid =
     (if uid AND NOT UID_MASK \<noteq> 0 then Done (Err OB_INVALID_ARGUMENT) 0
      else ReadRef (\<lambda>n.
        if n \<noteq> 0 then Done (Err OB_EAGAIN) 0
        else CasUid 0 (uid OR EXCLUSIVE_BIT) (\<lambda>ok.
          if \<not> ok then Done (Err OB_EAGAIN) 0
          else ReadRef (\<lambda>n.
            if n \<noteq> 0 then WriteUid 0 (Done (Err OB_EAGAIN) 0) else Done (Ok ()) 0))))"

definition try_wait_shared_lock_release :: "u32 \<Rightarrow> qprog" where
  "try_wait_shared_lock_release uid = ReadUid (\<lambda>u.
     if u AND UID_MASK \<noteq> uid then Done (Err OB_LOCK_NOT_MATCH) 0
     else ReadRef (\<lambda>n. if n \<noteq> 0 then Done (Err OB_EAGAIN) 0 else Done (Ok ()) 0))"

definition try_exclusive_unlock :: "u32 \<Rightarrow> qprog" where
  "try_exclusive_unlock uid = ReadUid (\<lambda>cur_uid.
     if cur_uid AND NOT UID_MASK = 0 \<or> cur_uid AND UID_MASK \<noteq> uid then Done (Err OB_LOCK_NOT_MATCH) 0
     else WriteUid 0 (Done (Ok ()) 0))"

text \<open>\<^verbatim>\<open>while (OB_EAGAIN == (err = attempt) && !is_timeout(end_time)) PAUSE();\<close> and the variant that also asks the flag.\<close>

definition retry :: "qprog \<Rightarrow> int \<Rightarrow> qprog" where
  "retry attempt end_time = Loop
     (andthen attempt (\<lambda>err c.
        if err = Err OB_EAGAIN then is_timeout end_time (\<lambda>t. if \<not> t then Again else Done err 0) else Done err 0)) Done"

definition retry_flag :: "qprog \<Rightarrow> int \<Rightarrow> qprog" where
  "retry_flag attempt end_time = Loop
     (andthen attempt (\<lambda>err c.
        if err = Err OB_EAGAIN
        then ReadFlag (\<lambda>w. if w then is_timeout end_time (\<lambda>t. if \<not> t then Again else Done err 0) else Done err 0)
        else Done err 0)) Done"

definition shared_lock :: "u32 \<Rightarrow> int \<Rightarrow> qprog" where
  "shared_lock uid end_time = retry (try_shared_lock uid) end_time"

definition shared_lock_flag :: "u32 \<Rightarrow> int \<Rightarrow> qprog" where
  "shared_lock_flag uid end_time = retry_flag (try_shared_lock uid) end_time"

definition shared_unlock :: "u32 \<Rightarrow> qprog" where
  "shared_unlock uid = try_shared_unlock uid"

text \<open>Two reads of the word: another thread may change it in between. The answer is in the second component of \<open>Done\<close>.\<close>

definition is_exclusive_locked_by :: "u32 \<Rightarrow> qprog" where
  "is_exclusive_locked_by uid = ReadUid (\<lambda>u.
     if u AND NOT UID_MASK = 0 then Done (Ok ()) 0
     else ReadUid (\<lambda>u. Done (Ok ()) (if uid = u AND UID_MASK then 1 else 0)))"

definition get_uid :: "qlock \<Rightarrow> u32" where
  "get_uid l = lock_uid l AND UID_MASK"

definition wait_shared_lock_release :: "u32 \<Rightarrow> int \<Rightarrow> qprog" where
  "wait_shared_lock_release uid end_time = retry (try_wait_shared_lock_release uid) end_time"

definition wait_shared_lock_release_flag :: "u32 \<Rightarrow> int \<Rightarrow> qprog" where
  "wait_shared_lock_release_flag uid end_time = retry_flag (try_wait_shared_lock_release uid) end_time"

definition exclusive_lock :: "u32 \<Rightarrow> int \<Rightarrow> qprog" where
  "exclusive_lock uid end_time =
     andthen
       (if uid AND NOT UID_MASK \<noteq> 0 \<or> uid = 0 then Done (Err OB_INVALID_ARGUMENT) 0
        else Loop (CasUid 0 (uid OR EXCLUSIVE_BIT) (\<lambda>ok.
               if ok then Done (Ok ()) 0
               else is_timeout end_time (\<lambda>t. if t then Done (Err OB_EAGAIN) 0 else Again))) Done)
       (\<lambda>err c.
          if err \<noteq> Ok () then Done err 0
          else andthen (wait_shared_lock_release uid end_time) (\<lambda>err c.
            if err \<noteq> Ok () then WriteUid 0 (Done err 0) else Done err 0))"

definition exclusive_lock_flag :: "u32 \<Rightarrow> int \<Rightarrow> qprog" where
  "exclusive_lock_flag uid end_time =
     andthen
       (if uid AND NOT UID_MASK \<noteq> 0 \<or> uid = 0 then Done (Err OB_INVALID_ARGUMENT) 0
        else Loop (CasUid 0 (uid OR EXCLUSIVE_BIT) (\<lambda>ok.
               if ok then Done (Ok ()) 0
               else ReadFlag (\<lambda>w.
                 if \<not> w then Done (Err OB_EAGAIN) 0
                 else is_timeout end_time (\<lambda>t. if t then Done (Err OB_EAGAIN) 0 else Again)))) Done)
       (\<lambda>err c.
          if err \<noteq> Ok () then Done err 0
          else andthen (wait_shared_lock_release_flag uid end_time) (\<lambda>err c.
            if err \<noteq> Ok () then WriteUid 0 (Done err 0) else Done err 0))"

definition exclusive_unlock :: "u32 \<Rightarrow> qprog" where
  "exclusive_unlock uid = try_exclusive_unlock uid"

definition share2exclusive_lock :: "u32 \<Rightarrow> int \<Rightarrow> qprog" where
  "share2exclusive_lock uid end_time =
     andthen
       (if uid AND NOT UID_MASK \<noteq> 0 \<or> uid = 0 then Done (Err OB_INVALID_ARGUMENT) 0
        else Loop (ReadUid (\<lambda>cur_uid.
               if cur_uid \<noteq> 0 \<and> cur_uid \<noteq> uid then Done (Err OB_DEAD_LOCK) cur_uid
               else CasUid cur_uid (uid OR EXCLUSIVE_BIT) (\<lambda>ok.
                 if ok then Done (Ok ()) cur_uid
                 else is_timeout end_time (\<lambda>t. if t then Done (Err OB_EAGAIN) cur_uid else Again)))) Done)
       (\<lambda>err cur_uid.
          if err \<noteq> Ok () then Done err 0
          else andthen (shared_unlock uid) (\<lambda>err c.
            if err \<noteq> Ok () then Done err 0
            else andthen (wait_shared_lock_release uid end_time) (\<lambda>err c.
              if err \<noteq> Ok () then add_shared_ref (WriteUid cur_uid (Done err 0)) else Done err 0)))"

definition exclusive2shared_lock :: "u32 \<Rightarrow> qprog" where
  "exclusive2shared_lock uid =
     add_shared_ref (andthen (exclusive_unlock uid) (\<lambda>err c.
       if err \<noteq> Ok () then del_shared_ref (Done err 0) else Done err 0))"

end
