(* ===== verification/Ob_Qlock_Safety.thy ===== *)
theory Ob_Qlock_Safety
  imports Ob_Qlock
begin

text \<open>
  Why the lock excludes: an ownership discipline for programs of atomic accesses. Each thread has a ghost state that says
  what it has contributed to the two words of the lock and what it may rely on. \<open>wp\<close> computes, along a program, how the
  ghost state changes; the global invariant relates the ghost states of all threads to the lock, and every atomic access of
  a program that satisfies \<open>wp\<close> keeps it. Each method is verified on its own by \<open>wp\<close>.
\<close>

section \<open>Ghost states\<close>

text \<open>
  \<open>g_ref\<close>: one of the references counted is this thread's; \<open>g_sh\<close>: the shared lock is held; \<open>g_own\<close>: the word is this thread's
  uid with the exclusive bit; \<open>g_ex\<close>: the exclusive lock is held; \<open>g_int\<close>: the word is this thread's uid.
\<close>

record ghost =
  g_ref :: bool
  g_sh :: bool
  g_own :: bool
  g_ex :: bool
  g_int :: bool

text \<open>The words a thread can find in \<^verbatim>\<open>uid_\<close>.\<close>

definition see_uid :: "u32 \<Rightarrow> ghost \<Rightarrow> u32 \<Rightarrow> bool" where
  "see_uid u g v \<longleftrightarrow> (if g_own g then v = u OR EXCLUSIVE_BIT else if g_int g then v = u else v \<noteq> u \<and> v \<noteq> u OR EXCLUSIVE_BIT)"

definition confirm_shared :: "ghost \<Rightarrow> u32 \<Rightarrow> ghost" where
  "confirm_shared g v = (if g_ref g \<and> v AND EXCLUSIVE_BIT = 0 then g\<lparr>g_sh := True\<rparr> else g)"

definition confirm_exclusive :: "ghost \<Rightarrow> u32 \<Rightarrow> ghost" where
  "confirm_exclusive g n = (if g_own g \<and> n = 0 then g\<lparr>g_ex := True\<rparr> else g)"

definition ref_result :: "ghost \<Rightarrow> u32 \<Rightarrow> ghost option" where
  "ref_result g d =
     (if d = 1 \<and> \<not> g_ref g then Some (g\<lparr>g_ref := True\<rparr>)
      else if d = - 1 \<and> g_ref g then Some (g\<lparr>g_ref := False, g_sh := False\<rparr>)
      else None)"

definition cas_result :: "u32 \<Rightarrow> ghost \<Rightarrow> u32 \<Rightarrow> u32 \<Rightarrow> ghost option" where
  "cas_result u g old new =
     (if g_own g then None
      else if old = 0 \<and> \<not> g_int g \<and> new = u then Some (g\<lparr>g_int := True\<rparr>)
      else if (old = 0 \<and> \<not> g_int g \<or> old = u \<and> g_int g) \<and> new = u OR EXCLUSIVE_BIT
      then Some (g\<lparr>g_own := True, g_int := False\<rparr>)
      else None)"

definition write_result :: "u32 \<Rightarrow> ghost \<Rightarrow> u32 \<Rightarrow> ghost option" where
  "write_result u g v =
     (if g_own g \<and> (v = 0 \<or> v = u)
      then Some (g\<lparr>g_own := False, g_ex := False, g_int := (v = u), g_sh := g_ref g\<rparr>)
      else if \<not> g_own g \<and> g_int g \<and> v = 0 then Some (g\<lparr>g_int := False\<rparr>)
      else None)"

text \<open>
  \<open>wp u p Q A g\<close>: run from the ghost state \<open>g\<close> by the thread \<open>u\<close>, the program keeps to the discipline and ends in \<open>Q\<close>, or, in
  a loop's body, starts over in \<open>A\<close>. A loop starts over where it began.
\<close>

primrec wp :: "u32 \<Rightarrow> qprog \<Rightarrow> (unit result \<Rightarrow> u32 \<Rightarrow> ghost \<Rightarrow> bool) \<Rightarrow> (ghost \<Rightarrow> bool) \<Rightarrow> ghost \<Rightarrow> bool" where
  "wp u (Done r c) Q A g \<longleftrightarrow> Q r c g"
| "wp u Again Q A g \<longleftrightarrow> A g"
| "wp u (ReadUid k) Q A g \<longleftrightarrow> (\<forall>v. see_uid u g v \<longrightarrow> wp u (k v) Q A (confirm_shared g v))"
| "wp u (ReadRef k) Q A g \<longleftrightarrow> (\<forall>n. (g_ref g \<longrightarrow> n \<noteq> 0) \<longrightarrow> wp u (k n) Q A (confirm_exclusive g n))"
| "wp u (FetchAdd d p) Q A g \<longleftrightarrow> (\<exists>g'. ref_result g d = Some g' \<and> wp u p Q A g')"
| "wp u (CasUid old new k) Q A g \<longleftrightarrow> wp u (k False) Q A g \<and>
     (see_uid u g old \<longrightarrow> (\<exists>g'. cas_result u g old new = Some g' \<and> wp u (k True) Q A g'))"
| "wp u (WriteUid v p) Q A g \<longleftrightarrow> (\<exists>g'. write_result u g v = Some g' \<and> wp u p Q A g')"
| "wp u (ReadClock k) Q A g \<longleftrightarrow> (\<forall>t. wp u (k t) Q A g)"
| "wp u (ReadFlag k) Q A g \<longleftrightarrow> (\<forall>b. wp u (k b) Q A g)"
| "wp u (Loop b k) Q A g \<longleftrightarrow> wp u b (\<lambda>r c g'. wp u (k r c) Q A g') (\<lambda>g'. g' = g) g"

lemma wp_andthen: "wp u (andthen p f) Q A g \<longleftrightarrow> wp u p (\<lambda>r c g'. wp u (f r c) Q A g') A g"
proof (induction p arbitrary: Q A g)
  case (Loop b k)
  have "wp u (andthen (k r c) f) Q A = wp u (k r c) (\<lambda>r c g'. wp u (f r c) Q A g') A" for r c
    by (rule ext) (rule Loop.IH(2) [OF rangeI rangeI])
  then show ?case by simp
qed auto

lemma wp_plug: "wp u (plug p b k) Q A g \<longleftrightarrow> wp u p (\<lambda>r c g'. wp u (k r c) Q A g') (\<lambda>g'. wp u (Loop b k) Q A g') g"
proof (induction p arbitrary: Q A g)
  case (Loop b' k')
  have "wp u (plug (k' r c) b k) Q A = wp u (k' r c) (\<lambda>r c g'. wp u (k r c) Q A g') (\<lambda>g'. wp u (Loop b k) Q A g')" for r c
    by (rule ext) (rule Loop.IH(2) [OF rangeI rangeI])
  then show ?case by simp
qed auto

lemma wp_mono:
  assumes "wp u p Q A g" "\<And>r c g. Q r c g \<Longrightarrow> Q' r c g" "\<And>g. A g \<Longrightarrow> A' g"
  shows "wp u p Q' A' g"
  using assms
proof (induction p arbitrary: Q A Q' A' g)
  case (ReadUid k)
  show ?case using ReadUid.prems(1) by (auto intro: ReadUid.IH [OF rangeI _ ReadUid.prems(2,3)])
next
  case (ReadRef k)
  show ?case using ReadRef.prems(1) by (auto intro: ReadRef.IH [OF rangeI _ ReadRef.prems(2,3)])
next
  case (FetchAdd d p)
  show ?case using FetchAdd.prems(1) by (auto intro: FetchAdd.IH [OF _ FetchAdd.prems(2,3)])
next
  case (CasUid old new k)
  show ?case using CasUid.prems(1) by (auto intro: CasUid.IH [OF rangeI _ CasUid.prems(2,3)])
next
  case (WriteUid v p)
  show ?case using WriteUid.prems(1) by (auto intro: WriteUid.IH [OF _ WriteUid.prems(2,3)])
next
  case (ReadClock k)
  show ?case using ReadClock.prems(1) by (auto intro: ReadClock.IH [OF rangeI _ ReadClock.prems(2,3)])
next
  case (ReadFlag k)
  show ?case using ReadFlag.prems(1) by (auto intro: ReadFlag.IH [OF rangeI _ ReadFlag.prems(2,3)])
next
  case (Loop b k)
  have "wp u b (\<lambda>r c g'. wp u (k r c) Q A g') (\<lambda>g'. g' = g) g" using Loop.prems(1) by simp
  then have "wp u b (\<lambda>r c g'. wp u (k r c) Q' A' g') (\<lambda>g'. g' = g) g"
    by (rule Loop.IH(1)) (auto intro: Loop.IH(2) [OF rangeI rangeI _ Loop.prems(2,3)])
  then show ?case by simp
qed simp_all

lemma wp_unfold:
  assumes "wp u (Loop b k) Q A g"
  shows "wp u (plug b b k) Q A g"
proof -
  have "wp u b (\<lambda>r c g'. wp u (k r c) Q A g') (\<lambda>g'. g' = g) g" using assms by simp
  then show ?thesis unfolding wp_plug by (rule wp_mono) (use assms in auto)
qed

section \<open>The global invariant\<close>

text \<open>The threads \<open>T\<close> with their uids: distinct, not zero, and without the exclusive bit.\<close>

definition uids_ok :: "nat set \<Rightarrow> (nat \<Rightarrow> u32) \<Rightarrow> bool" where
  "uids_ok T u \<longleftrightarrow> finite T \<and> card T < 2 ^ 32 \<and> inj_on u T \<and> (\<forall>i\<in>T. u i \<noteq> 0 \<and> u i AND EXCLUSIVE_BIT = 0)"

definition lock_inv :: "nat set \<Rightarrow> (nat \<Rightarrow> u32) \<Rightarrow> qlock \<Rightarrow> (nat \<Rightarrow> ghost) \<Rightarrow> bool" where
  "lock_inv T u l gs \<longleftrightarrow>
     n_ref l = of_nat (card {i \<in> T. g_ref (gs i)}) \<and>
     (\<forall>i\<in>T. (g_own (gs i) \<longleftrightarrow> lock_uid l = u i OR EXCLUSIVE_BIT) \<and> (g_int (gs i) \<longleftrightarrow> lock_uid l = u i) \<and>
       (g_sh (gs i) \<longrightarrow> g_ref (gs i)) \<and> (g_ex (gs i) \<longrightarrow> g_own (gs i))) \<and>
     (\<forall>i\<in>T. \<forall>j\<in>T. g_ex (gs i) \<and> j \<noteq> i \<longrightarrow> \<not> g_sh (gs j))"

text \<open>The words the threads may store are all different.\<close>

lemma or_bit_neq:
  assumes "(a :: u32) AND EXCLUSIVE_BIT = 0" "b AND EXCLUSIVE_BIT = 0"
  shows "a OR EXCLUSIVE_BIT \<noteq> b" "a OR EXCLUSIVE_BIT = b OR EXCLUSIVE_BIT \<longleftrightarrow> a = b" "(a OR EXCLUSIVE_BIT) AND EXCLUSIVE_BIT \<noteq> 0"
    "(a OR EXCLUSIVE_BIT) AND UID_MASK = a" "(a OR EXCLUSIVE_BIT) AND NOT UID_MASK \<noteq> 0" "a AND NOT UID_MASK = 0" "a AND UID_MASK = a"
proof -
  have bit: "bit EXCLUSIVE_BIT n \<longleftrightarrow> n = 31" for n
    using bit_exp_iff [where 'a = u32, of 31 n] by (auto simp: EXCLUSIVE_BIT_def)
  have e: "(x AND EXCLUSIVE_BIT = 0) \<longleftrightarrow> \<not> bit x 31" for x :: u32
    using and_exp_eq_0_iff_not_bit [of x 31] by (simp add: EXCLUSIVE_BIT_def)
  have ab: "\<not> bit a 31" "\<not> bit b 31" using assms by (simp_all add: e)
  have m: "(x OR EXCLUSIVE_BIT) AND UID_MASK = x" if "\<not> bit x 31" for x :: u32
    using that by (intro bit_word_eqI) (auto simp: bit_or_iff bit_and_iff bit_not_iff UID_MASK_def bit)
  have "bit (a OR EXCLUSIVE_BIT) 31" by (simp add: bit_or_iff bit)
  then show "a OR EXCLUSIVE_BIT \<noteq> b" using ab(2) by blast
  show "a OR EXCLUSIVE_BIT = b OR EXCLUSIVE_BIT \<longleftrightarrow> a = b" using m ab by metis
  show "(a OR EXCLUSIVE_BIT) AND EXCLUSIVE_BIT \<noteq> 0" unfolding e by (simp add: bit_or_iff bit)
  show "(a OR EXCLUSIVE_BIT) AND UID_MASK = a" "a AND UID_MASK = a"
    using ab by (auto intro!: bit_word_eqI simp: bit_or_iff bit_and_iff bit_not_iff UID_MASK_def bit)
  show "(a OR EXCLUSIVE_BIT) AND NOT UID_MASK \<noteq> 0" "a AND NOT UID_MASK = 0"
    using ab unfolding UID_MASK_def bit.double_compl e by (simp_all add: bit_or_iff bit)
qed

lemma masked_eq:
  assumes "v AND NOT UID_MASK \<noteq> 0"
  shows "v = (v AND UID_MASK) OR EXCLUSIVE_BIT"
proof -
  have bit: "bit EXCLUSIVE_BIT n \<longleftrightarrow> n = 31" for n
    using bit_exp_iff [where 'a = u32, of 31 n] by (auto simp: EXCLUSIVE_BIT_def)
  have "bit v 31"
    using assms and_exp_eq_0_iff_not_bit [of v 31] by (simp add: UID_MASK_def EXCLUSIVE_BIT_def)
  then show ?thesis by (intro bit_word_eqI) (auto simp: bit_or_iff bit_and_iff bit_not_iff UID_MASK_def bit)
qed

lemma uids_okD:
  assumes "uids_ok T u" "i \<in> T" "j \<in> T"
  shows "u i \<noteq> 0" "u i = u j \<longleftrightarrow> i = j" "u i OR EXCLUSIVE_BIT = u j OR EXCLUSIVE_BIT \<longleftrightarrow> i = j" "u i OR EXCLUSIVE_BIT \<noteq> u j"
    "u j \<noteq> u i OR EXCLUSIVE_BIT" "u i OR EXCLUSIVE_BIT \<noteq> 0" "(u i OR EXCLUSIVE_BIT) AND EXCLUSIVE_BIT \<noteq> 0"
  using assms or_bit_neq [of "u i" "u j"] or_bit_neq [of "u i" 0] by (auto simp: uids_ok_def inj_on_eq_iff)

lemma card_refs:
  assumes "finite T" "i \<in> T"
  shows "card {j \<in> T. g_ref ((gs(i := g)) j)} =
    (if g_ref g then (if g_ref (gs i) then card {j \<in> T. g_ref (gs j)} else Suc (card {j \<in> T. g_ref (gs j)}))
     else card ({j \<in> T. g_ref (gs j)} - {i}))"
proof -
  have "{j \<in> T. g_ref ((gs(i := g)) j)} = (if g_ref g then insert i {j \<in> T. g_ref (gs j)} else {j \<in> T. g_ref (gs j)} - {i})"
    using assms(2) by auto
  then show ?thesis using assms by (auto simp: card_insert_if)
qed

section \<open>Every access keeps the invariant\<close>

lemma inv_sees:
  assumes "uids_ok T u" "lock_inv T u l gs" "i \<in> T"
  shows "see_uid (u i) (gs i) (lock_uid l)"
  using assms uids_okD [OF assms(1,3,3)] by (auto simp: lock_inv_def see_uid_def)

lemma lock_invD:
  assumes "lock_inv T u l gs" "i \<in> T"
  shows "g_own (gs i) \<longleftrightarrow> lock_uid l = u i OR EXCLUSIVE_BIT" "g_int (gs i) \<longleftrightarrow> lock_uid l = u i"
    "g_sh (gs i) \<Longrightarrow> g_ref (gs i)" "g_ex (gs i) \<Longrightarrow> g_own (gs i)"
    "j \<in> T \<Longrightarrow> j \<noteq> i \<Longrightarrow> g_ex (gs i) \<Longrightarrow> \<not> g_sh (gs j)" "n_ref l = of_nat (card {i \<in> T. g_ref (gs i)})"
  using assms by (auto simp: lock_inv_def)

lemma inv_change:
  assumes "lock_inv T u l gs" "i \<in> T" "n_ref l' = of_nat (card {j \<in> T. g_ref ((gs(i := g)) j)})"
    and "g_own g \<longleftrightarrow> lock_uid l' = u i OR EXCLUSIVE_BIT" "g_int g \<longleftrightarrow> lock_uid l' = u i" "g_sh g \<Longrightarrow> g_ref g" "g_ex g \<Longrightarrow> g_own g"
    and "\<And>j. j \<in> T \<Longrightarrow> j \<noteq> i \<Longrightarrow> (g_own (gs j) \<longleftrightarrow> lock_uid l' = u j OR EXCLUSIVE_BIT) \<and> (g_int (gs j) \<longleftrightarrow> lock_uid l' = u j)"
    and "\<And>j. j \<in> T \<Longrightarrow> j \<noteq> i \<Longrightarrow> g_ex g \<Longrightarrow> \<not> g_sh (gs j)" "\<And>j. j \<in> T \<Longrightarrow> j \<noteq> i \<Longrightarrow> g_sh g \<Longrightarrow> \<not> g_ex (gs j)"
  shows "lock_inv T u l' (gs(i := g))"
proof -
  let ?gs = "gs(i := g)"
  have "(g_own (?gs k) \<longleftrightarrow> lock_uid l' = u k OR EXCLUSIVE_BIT) \<and> (g_int (?gs k) \<longleftrightarrow> lock_uid l' = u k) \<and>
      (g_sh (?gs k) \<longrightarrow> g_ref (?gs k)) \<and> (g_ex (?gs k) \<longrightarrow> g_own (?gs k))" if "k \<in> T" for k
    using assms(4-7) assms(8) [OF that] lock_invD(3,4) [OF assms(1) that] by (cases "k = i") auto
  moreover have "\<not> g_sh (?gs j)" if "k \<in> T" "j \<in> T" "g_ex (?gs k)" "j \<noteq> k" for k j
    using that assms(9) [OF that(2)] assms(10) [OF that(1)] lock_invD(5) [OF assms(1) that(1,2)] by (cases "k = i"; cases "j = i") auto
  ultimately show ?thesis using assms(3) unfolding lock_inv_def by blast
qed

lemma same_refs: "g_ref g = g_ref (gs i) \<Longrightarrow> {j \<in> T. g_ref ((gs(i := g)) j)} = {j \<in> T. g_ref (gs j)}"
  by auto

lemma inv_update:
  assumes "lock_inv T u l gs" "i \<in> T" "g_ref g = g_ref (gs i)" "g_own g = g_own (gs i)" "g_int g = g_int (gs i)"
    and "g_sh g \<Longrightarrow> g_ref g" "g_ex g \<Longrightarrow> g_own g"
    and "\<And>j. j \<in> T \<Longrightarrow> j \<noteq> i \<Longrightarrow> g_ex g \<Longrightarrow> \<not> g_sh (gs j)" "\<And>j. j \<in> T \<Longrightarrow> j \<noteq> i \<Longrightarrow> g_sh g \<Longrightarrow> \<not> g_ex (gs j)"
  shows "lock_inv T u l (gs(i := g))"
  using assms(3-7) lock_invD(1,2,6) [OF assms(1)] assms(2)
  by (intro inv_change [OF assms(1,2) _ _ _ _ _ _ assms(8,9)]) (simp_all only: same_refs simp_thms)

lemma inv_confirm_shared:
  assumes "uids_ok T u" "lock_inv T u l gs" "i \<in> T"
  shows "lock_inv T u l (gs(i := confirm_shared (gs i) (lock_uid l)))"
proof (cases "g_ref (gs i) \<and> lock_uid l AND EXCLUSIVE_BIT = 0")
  case True
  have "\<not> g_ex (gs j)" if "j \<in> T" for j
    using assms(2) that True uids_okD(7) [OF assms(1) that that] by (auto simp: lock_inv_def)
  moreover have "g_ex (gs i) \<Longrightarrow> g_own (gs i)" using assms(2,3) by (auto simp: lock_inv_def)
  ultimately show ?thesis
    using True assms(3) by (intro inv_update [OF assms(2,3)]) (auto simp: confirm_shared_def)
next
  case False
  then show ?thesis using assms(2) by (auto simp: confirm_shared_def)
qed

lemma refs_zero:
  assumes "uids_ok T u" "lock_inv T u l gs" "n_ref l = 0" "i \<in> T"
  shows "\<not> g_ref (gs i)"
proof -
  have f: "finite T" "card T < 2 ^ 32" using assms(1) by (auto simp: uids_ok_def)
  then have "card {i \<in> T. g_ref (gs i)} < 2 ^ 32" using card_mono [of T "{i \<in> T. g_ref (gs i)}"] by auto
  moreover have "of_nat (card {i \<in> T. g_ref (gs i)}) = (0 :: u32)" using assms(2,3) by (simp add: lock_inv_def)
  ultimately have "card {i \<in> T. g_ref (gs i)} = 0"
    unfolding word_of_nat_eq_0_iff by (auto dest: nat_dvd_not_less)
  then show ?thesis using f(1) assms(4) by auto
qed

lemma inv_confirm_exclusive:
  assumes "uids_ok T u" "lock_inv T u l gs" "i \<in> T"
  shows "lock_inv T u l (gs(i := confirm_exclusive (gs i) (n_ref l)))"
proof (cases "g_own (gs i) \<and> n_ref l = 0")
  case True
  have n: "\<not> g_ref (gs j)" "\<not> g_sh (gs j)" if "j \<in> T" for j
    using refs_zero [OF assms(1,2) _ that] True assms(2) that by (auto simp: lock_inv_def)
  then show ?thesis
    using True n [OF assms(3)] by (intro inv_update [OF assms(2,3)]) (auto simp: confirm_exclusive_def)
next
  case False
  then show ?thesis using assms(2) by (auto simp: confirm_exclusive_def)
qed

lemma inv_fetch_add:
  assumes "uids_ok T u" "lock_inv T u l gs" "i \<in> T" "ref_result (gs i) d = Some g"
  shows "lock_inv T u (l\<lparr>n_ref := n_ref l + d\<rparr>) (gs(i := g))"
proof -
  let ?R = "{j \<in> T. g_ref (gs j)}"
  note D = lock_invD [OF assms(2)]
  have f: "finite T" using assms(1) by (auto simp: uids_ok_def)
  have c: "card (?R - {i}) = card ?R - 1" "0 < card ?R" if "g_ref (gs i)"
    using that assms(3) f by (auto simp: card_gt_0_iff)
  have g: "g_own g = g_own (gs i)" "g_int g = g_int (gs i)" "g_ex g = g_ex (gs i)" "g_sh g \<Longrightarrow> g_sh (gs i) \<and> g_ref g"
    using assms(4) D(3) [OF assms(3)] by (auto simp: ref_result_def split: if_splits)
  have n: "n_ref l + d = of_nat (card {j \<in> T. g_ref ((gs(i := g)) j)})"
    unfolding card_refs [OF f assms(3)] D(6) [OF assms(3)] using assms(4) c
    by (auto simp: ref_result_def of_nat_diff split: if_splits)
  have "j \<in> T \<Longrightarrow> j \<noteq> i \<Longrightarrow> g_sh g \<Longrightarrow> \<not> g_ex (gs j)" for j using D(5) [of j i] assms(3) g(4) by blast
  moreover have "j \<in> T \<Longrightarrow> j \<noteq> i \<Longrightarrow> g_ex g \<Longrightarrow> \<not> g_sh (gs j)" for j using D(5) [OF assms(3)] g(3) by simp
  ultimately show ?thesis
    using n g D(1,2,4) assms(3) by (intro inv_change [OF assms(2,3)]) (simp_all del: fun_upd_apply)
qed

lemma inv_cas:
  assumes "uids_ok T u" "lock_inv T u l gs" "i \<in> T" "lock_uid l = old" "cas_result (u i) (gs i) old new = Some g"
  shows "lock_inv T u (l\<lparr>lock_uid := new\<rparr>) (gs(i := g))"
proof -
  note D = lock_invD [OF assms(2)]
  have g: "g_ref g = g_ref (gs i)" "g_sh g = g_sh (gs i)" "g_ex g = g_ex (gs i)" "\<not> g_own (gs i)"
    using assms(5) by (auto simp: cas_result_def split: if_splits)
  have old: "old = 0 \<or> old = u i" and new: "new = u i \<or> new = u i OR EXCLUSIVE_BIT"
    using assms(5) by (auto simp: cas_result_def split: if_splits)
  have j: "\<not> g_own (gs j)" "\<not> g_int (gs j)" "new \<noteq> u j" "new \<noteq> u j OR EXCLUSIVE_BIT" if "j \<in> T" "j \<noteq> i" for j
    using D(1,2) [OF that(1)] assms(4) old new that(2) uids_okD [OF assms(1) assms(3) that(1)] uids_okD [OF assms(1) that(1) assms(3)]
    by auto
  have ex: "\<not> g_ex (gs j)" if "j \<in> T" for j using D(4) [OF that] j(1) [OF that] g(4) by (cases "j = i") auto
  have w: "g_own g \<longleftrightarrow> new = u i OR EXCLUSIVE_BIT" "g_int g \<longleftrightarrow> new = u i"
    using assms(5) uids_okD [OF assms(1) assms(3) assms(3)] by (auto simp: cas_result_def split: if_splits)
  show ?thesis
    using j ex w g D(3,6) assms(3) by (intro inv_change [OF assms(2,3)]) (simp_all add: same_refs del: fun_upd_apply)
qed

lemma inv_write:
  assumes "uids_ok T u" "lock_inv T u l gs" "i \<in> T" "write_result (u i) (gs i) v = Some g"
  shows "lock_inv T u (l\<lparr>lock_uid := v\<rparr>) (gs(i := g))"
proof -
  note D = lock_invD [OF assms(2)]
  have g: "g_ref g = g_ref (gs i)" "\<not> g_own g" "g_sh g \<Longrightarrow> g_ref g" "\<not> g_ex g"
    using assms(4) D(3,4) [OF assms(3)] by (auto simp: write_result_def split: if_splits)
  have old: "lock_uid l = u i \<or> lock_uid l = u i OR EXCLUSIVE_BIT" and v: "v = 0 \<or> v = u i"
    using assms(4) D(1,2) [OF assms(3)] by (auto simp: write_result_def split: if_splits)
  have j: "\<not> g_own (gs j)" "\<not> g_int (gs j)" "v \<noteq> u j" "v \<noteq> u j OR EXCLUSIVE_BIT" if "j \<in> T" "j \<noteq> i" for j
    using D(1,2) [OF that(1)] old v that(2) uids_okD [OF assms(1) assms(3) that(1)] uids_okD [OF assms(1) that(1) assms(3)]
    by auto
  have ex: "\<not> g_ex (gs j)" if "j \<in> T" "j \<noteq> i" for j using D(4) [OF that(1)] j(1) [OF that] by blast
  have w: "v \<noteq> u i OR EXCLUSIVE_BIT" "g_int g \<longleftrightarrow> v = u i"
    using assms(4) v uids_okD [OF assms(1) assms(3) assms(3)] by (auto simp: write_result_def split: if_splits)
  show ?thesis
    using j ex w g D(6) assms(3) by (intro inv_change [OF assms(2,3)]) (simp_all add: same_refs del: fun_upd_apply)
qed

text \<open>Every atomic access of a disciplined program keeps the invariant, and the rest of the program stays disciplined.\<close>

lemma step_sound:
  assumes "uids_ok T u" "lock_inv T u l gs" "i \<in> T" "wp (u i) p Q A (gs i)" "qexec now flag p l = (p', l')"
  shows "\<exists>g. lock_inv T u l' (gs(i := g)) \<and> wp (u i) p' Q A g"
proof (cases p)
  case (ReadUid k)
  then show ?thesis using assms(4,5) inv_confirm_shared [OF assms(1-3)] inv_sees [OF assms(1-3)] by auto
next
  case (ReadRef k)
  then show ?thesis
    using assms(4,5) inv_confirm_exclusive [OF assms(1-3)] refs_zero [OF assms(1,2) _ assms(3)] by auto
next
  case (CasUid old new k)
  show ?thesis
  proof (cases "lock_uid l = old")
    case True
    then obtain g where "cas_result (u i) (gs i) old new = Some g" "wp (u i) (k True) Q A g"
      using assms(4) CasUid inv_sees [OF assms(1-3)] by auto
    with True show ?thesis using inv_cas [OF assms(1-3) True] CasUid assms(5) by auto
  next
    case False
    then show ?thesis using CasUid assms(2,4,5) fun_upd_triv [of gs i] by (intro exI [of _ "gs i"]) auto
  qed
next
  case (Loop b k)
  then show ?thesis
    using wp_unfold [of "u i" b k Q A "gs i"] assms(2,4,5) fun_upd_triv [of gs i] by (intro exI [of _ "gs i"]) auto
next
  case (FetchAdd d q)
  then show ?thesis using assms(4,5) inv_fetch_add [OF assms(1-3)] by auto
next
  case (WriteUid v q)
  then show ?thesis using assms(4,5) inv_write [OF assms(1-3)] by auto
qed (use assms fun_upd_triv [of gs i] in \<open>auto intro!: exI [of _ "gs i"]\<close>)

section \<open>The methods keep to the discipline\<close>

text \<open>What a thread may hold between two calls.\<close>

record hold =
  h_shared :: bool
  h_exclusive :: bool
  h_intent :: bool

definition ghost_of :: "hold \<Rightarrow> ghost" where
  "ghost_of h = \<lparr>g_ref = h_shared h, g_sh = h_shared h, g_own = h_exclusive h, g_ex = h_exclusive h, g_int = h_intent h\<rparr>"

text \<open>The methods, when a thread may call them, and what it holds when they have returned.\<close>

datatype qop =
    TrySharedLock
  | SharedLock int
  | SharedLockFlag int
  | SharedUnlock
  | TryUpgradeLock
  | TryUpgradeUnlock
  | TryExclusiveLock
  | ExclusiveLock int
  | ExclusiveLockFlag int
  | ExclusiveUnlock
  | Share2ExclusiveLock int
  | Exclusive2SharedLock

fun qcode :: "u32 \<Rightarrow> qop \<Rightarrow> qprog" where
  "qcode u TrySharedLock = try_shared_lock u"
| "qcode u (SharedLock t) = shared_lock u t"
| "qcode u (SharedLockFlag t) = shared_lock_flag u t"
| "qcode u SharedUnlock = shared_unlock u"
| "qcode u TryUpgradeLock = try_upgrade_lock u"
| "qcode u TryUpgradeUnlock = try_upgrade_unlock u"
| "qcode u TryExclusiveLock = try_exclusive_lock u"
| "qcode u (ExclusiveLock t) = exclusive_lock u t"
| "qcode u (ExclusiveLockFlag t) = exclusive_lock_flag u t"
| "qcode u ExclusiveUnlock = exclusive_unlock u"
| "qcode u (Share2ExclusiveLock t) = share2exclusive_lock u t"
| "qcode u Exclusive2SharedLock = exclusive2shared_lock u"

fun may_call :: "qop \<Rightarrow> hold \<Rightarrow> bool" where
  "may_call TrySharedLock h \<longleftrightarrow> \<not> h_shared h \<and> \<not> h_exclusive h"
| "may_call (SharedLock t) h \<longleftrightarrow> \<not> h_shared h \<and> \<not> h_exclusive h"
| "may_call (SharedLockFlag t) h \<longleftrightarrow> \<not> h_shared h \<and> \<not> h_exclusive h"
| "may_call SharedUnlock h \<longleftrightarrow> h_shared h"
| "may_call TryUpgradeLock h \<longleftrightarrow> \<not> h_exclusive h \<and> \<not> h_intent h"
| "may_call TryUpgradeUnlock h \<longleftrightarrow> h_intent h"
| "may_call TryExclusiveLock h \<longleftrightarrow> \<not> h_shared h \<and> \<not> h_exclusive h \<and> \<not> h_intent h"
| "may_call (ExclusiveLock t) h \<longleftrightarrow> \<not> h_shared h \<and> \<not> h_exclusive h \<and> \<not> h_intent h"
| "may_call (ExclusiveLockFlag t) h \<longleftrightarrow> \<not> h_shared h \<and> \<not> h_exclusive h \<and> \<not> h_intent h"
| "may_call ExclusiveUnlock h \<longleftrightarrow> h_exclusive h"
| "may_call (Share2ExclusiveLock t) h \<longleftrightarrow> h_shared h"
| "may_call Exclusive2SharedLock h \<longleftrightarrow> h_exclusive h"

definition after_call :: "qop \<Rightarrow> unit result \<Rightarrow> hold \<Rightarrow> hold" where
  "after_call op r h =
     (if r \<noteq> Ok () then h
      else case op of
        TrySharedLock \<Rightarrow> h\<lparr>h_shared := True\<rparr>
      | SharedLock t \<Rightarrow> h\<lparr>h_shared := True\<rparr>
      | SharedLockFlag t \<Rightarrow> h\<lparr>h_shared := True\<rparr>
      | SharedUnlock \<Rightarrow> h\<lparr>h_shared := False\<rparr>
      | TryUpgradeLock \<Rightarrow> h\<lparr>h_intent := True\<rparr>
      | TryUpgradeUnlock \<Rightarrow> h\<lparr>h_intent := False\<rparr>
      | TryExclusiveLock \<Rightarrow> h\<lparr>h_exclusive := True\<rparr>
      | ExclusiveLock t \<Rightarrow> h\<lparr>h_exclusive := True\<rparr>
      | ExclusiveLockFlag t \<Rightarrow> h\<lparr>h_exclusive := True\<rparr>
      | ExclusiveUnlock \<Rightarrow> h\<lparr>h_exclusive := False\<rparr>
      | Share2ExclusiveLock t \<Rightarrow> h\<lparr>h_shared := False, h_exclusive := True, h_intent := False\<rparr>
      | Exclusive2SharedLock \<Rightarrow> h\<lparr>h_shared := True, h_exclusive := False\<rparr>)"

text \<open>The codes a call can return; releasing what is held never fails.\<close>

fun may_return :: "qop \<Rightarrow> unit result \<Rightarrow> bool" where
  "may_return SharedUnlock r \<longleftrightarrow> r = Ok ()"
| "may_return TryUpgradeUnlock r \<longleftrightarrow> r = Ok ()"
| "may_return ExclusiveUnlock r \<longleftrightarrow> r = Ok ()"
| "may_return Exclusive2SharedLock r \<longleftrightarrow> r = Ok ()"
| "may_return (Share2ExclusiveLock t) r \<longleftrightarrow> r = Ok () \<or> r = Err OB_EAGAIN \<or> r = Err OB_DEAD_LOCK"
| "may_return op r \<longleftrightarrow> r = Ok () \<or> r = Err OB_EAGAIN"

definition call_post :: "qop \<Rightarrow> hold \<Rightarrow> unit result \<Rightarrow> u32 \<Rightarrow> ghost \<Rightarrow> bool" where
  "call_post op h r c g \<longleftrightarrow> g = ghost_of (after_call op r h) \<and> may_return op r"

text \<open>What a thread can hold at once.\<close>

definition hold_ok :: "hold \<Rightarrow> bool" where
  "hold_ok h \<longleftrightarrow> \<not> (h_exclusive h \<and> (h_shared h \<or> h_intent h))"

lemma after_call_ok: "may_call op h \<Longrightarrow> hold_ok h \<Longrightarrow> hold_ok (after_call op r h)"
  by (cases op) (auto simp: after_call_def hold_ok_def)

lemmas ghost_simps = ghost_of_def see_uid_def confirm_shared_def confirm_exclusive_def ref_result_def cas_result_def write_result_def
  add_shared_ref_def del_shared_ref_def is_timeout_def

lemma wp_is_timeout: "wp u (is_timeout t k) Q A g \<longleftrightarrow> (if t > 0 then \<forall>b. wp u (k b) Q A g else wp u (k False) Q A g)"
proof -
  have "(\<forall>now. wp u (k (t < now)) Q A g) \<longleftrightarrow> (\<forall>b. wp u (k b) Q A g)"
  proof (intro iffI allI)
    fix b assume a: "\<forall>now. wp u (k (t < now)) Q A g"
    show "wp u (k b) Q A g" using a [rule_format, of t] a [rule_format, of "t + 1"] by (cases b) auto
  qed simp
  then show ?thesis by (simp add: is_timeout_def)
qed

text \<open>A retried attempt: where it asks to be repeated it has left the ghost state alone.\<close>

lemma wp_retry:
  assumes "wp u p (\<lambda>r c g'. Q r 0 g' \<and> (r = Err OB_EAGAIN \<longrightarrow> g' = g)) (\<lambda>_. False) g"
  shows "wp u (retry p t) Q A g" "wp u (retry_flag p t) Q A g"
proof -
  have "wp u p (\<lambda>r c g'. wp u (if r = Err OB_EAGAIN then is_timeout t (\<lambda>b. if \<not> b then Again else Done r 0) else Done r 0)
      (\<lambda>r c g'. wp u (Done r c) Q A g') (\<lambda>g'. g' = g) g') (\<lambda>g'. g' = g) g"
    using assms by (rule wp_mono) (auto simp: wp_is_timeout)
  then show "wp u (retry p t) Q A g" by (simp add: retry_def wp_andthen)
  have "wp u p (\<lambda>r c g'. wp u (if r = Err OB_EAGAIN
        then ReadFlag (\<lambda>w. if w then is_timeout t (\<lambda>b. if \<not> b then Again else Done r 0) else Done r 0) else Done r 0)
      (\<lambda>r c g'. wp u (Done r c) Q A g') (\<lambda>g'. g' = g) g') (\<lambda>g'. g' = g) g"
    using assms by (rule wp_mono) (auto simp: wp_is_timeout)
  then show "wp u (retry_flag p t) Q A g" by (simp add: retry_flag_def wp_andthen)
qed

lemma wp_try_shared_lock:
  assumes "\<not> g_ref g" "\<not> g_sh g" "\<not> g_own g" "Q (Ok ()) 0 (g\<lparr>g_ref := True, g_sh := True\<rparr>)" "Q (Err OB_EAGAIN) 0 g"
  shows "wp u (try_shared_lock u) Q A g"
  using assms by (cases g) (auto simp: try_shared_lock_def ghost_simps)

lemma wp_wait:
  assumes "u AND EXCLUSIVE_BIT = 0" "g_own g" "\<not> g_ref g" "\<not> g_ex g" "Q (Ok ()) 0 (g\<lparr>g_ex := True\<rparr>)" "Q (Err OB_EAGAIN) 0 g"
  shows "wp u (wait_shared_lock_release u t) Q A g" "wp u (wait_shared_lock_release_flag u t) Q A g"
proof -
  have "wp u (try_wait_shared_lock_release u) (\<lambda>r c g'. Q r 0 g' \<and> (r = Err OB_EAGAIN \<longrightarrow> g' = g)) (\<lambda>_. False) g"
    using assms or_bit_neq [OF assms(1,1)] by (auto simp: try_wait_shared_lock_release_def ghost_simps)
  then show "wp u (wait_shared_lock_release u t) Q A g" "wp u (wait_shared_lock_release_flag u t) Q A g"
    unfolding wait_shared_lock_release_def wait_shared_lock_release_flag_def by (rule wp_retry)+
qed

lemma wp_exclusive_lock:
  assumes "u AND EXCLUSIVE_BIT = 0" "u \<noteq> 0" "g = \<lparr>g_ref = False, g_sh = False, g_own = False, g_ex = False, g_int = False\<rparr>"
    and "Q (Ok ()) 0 (g\<lparr>g_own := True, g_ex := True\<rparr>)" "Q (Err OB_EAGAIN) 0 g"
  shows "wp u (exclusive_lock u t) Q A g" "wp u (exclusive_lock_flag u t) Q A g" "wp u (try_exclusive_lock u) Q A g"
  using assms or_bit_neq [OF assms(1,1)]
  by (auto simp: exclusive_lock_def exclusive_lock_flag_def try_exclusive_lock_def wp_andthen wp_is_timeout ghost_simps(2-7) intro!: wp_wait)

lemma wp_share2exclusive_lock:
  assumes "u AND EXCLUSIVE_BIT = 0" "u \<noteq> 0" "g = \<lparr>g_ref = True, g_sh = True, g_own = False, g_ex = False, g_int = it\<rparr>"
    and "Q (Ok ()) 0 \<lparr>g_ref = False, g_sh = False, g_own = True, g_ex = True, g_int = False\<rparr>" "Q (Err OB_EAGAIN) 0 g" "Q (Err OB_DEAD_LOCK) 0 g"
  shows "wp u (share2exclusive_lock u t) Q A g"
  using assms or_bit_neq [OF assms(1,1)]
  by (auto simp: share2exclusive_lock_def shared_unlock_def try_shared_unlock_def add_shared_ref_def del_shared_ref_def
      wp_andthen wp_is_timeout ghost_simps(2-7) intro!: wp_wait)

lemma method_disciplined:
  assumes "u AND EXCLUSIVE_BIT = 0" "u \<noteq> 0" "may_call op h" "hold_ok h"
  shows "wp u (qcode u op) (call_post op h) (\<lambda>_. False) (ghost_of h)"
proof -
  note e = or_bit_neq [OF assms(1,1)]
  show ?thesis
  proof (cases op)
    case TrySharedLock
    then show ?thesis using assms by (auto simp: call_post_def ghost_of_def after_call_def intro!: wp_try_shared_lock)
  next
    case (SharedLock t)
    then show ?thesis using assms by (auto simp: shared_lock_def call_post_def ghost_of_def after_call_def intro!: wp_retry wp_try_shared_lock)
  next
    case (SharedLockFlag t)
    then show ?thesis using assms by (auto simp: shared_lock_flag_def call_post_def ghost_of_def after_call_def intro!: wp_retry wp_try_shared_lock)
  next
    case (ExclusiveLock t)
    then show ?thesis using assms by (auto simp: call_post_def ghost_of_def after_call_def intro!: wp_exclusive_lock)
  next
    case (ExclusiveLockFlag t)
    then show ?thesis using assms by (auto simp: call_post_def ghost_of_def after_call_def intro!: wp_exclusive_lock)
  next
    case TryExclusiveLock
    then show ?thesis using assms by (auto simp: call_post_def ghost_of_def after_call_def intro!: wp_exclusive_lock)
  next
    case (Share2ExclusiveLock t)
    then show ?thesis using assms by (auto simp: call_post_def ghost_of_def after_call_def hold_ok_def intro!: wp_share2exclusive_lock [where it = "h_intent h"])
  qed (use assms e in \<open>auto simp: call_post_def ghost_simps after_call_def hold_ok_def shared_unlock_def try_shared_unlock_def try_upgrade_lock_def
      try_upgrade_unlock_def exclusive_unlock_def try_exclusive_unlock_def exclusive2shared_lock_def wp_andthen\<close>)
qed

section \<open>Threads\<close>

text \<open>
  The threads that share a lock. A thread is idle or in a call; a step starts a call the thread may make, executes one
  atomic access of some thread, or returns from a call.
\<close>

record qthread =
  t_hold :: hold
  t_call :: "(qop \<times> qprog) option"

record qsystem =
  s_lock :: qlock
  s_threads :: "nat \<Rightarrow> qthread"

inductive qstep :: "nat set \<Rightarrow> (nat \<Rightarrow> u32) \<Rightarrow> qsystem \<Rightarrow> qsystem \<Rightarrow> bool" for T u where
  call: "i \<in> T \<Longrightarrow> t_call (s_threads s i) = None \<Longrightarrow> may_call op (t_hold (s_threads s i)) \<Longrightarrow>
    qstep T u s (s\<lparr>s_threads := (s_threads s)(i := (s_threads s i)\<lparr>t_call := Some (op, qcode (u i) op)\<rparr>)\<rparr>)"
| exec: "i \<in> T \<Longrightarrow> t_call (s_threads s i) = Some (op, p) \<Longrightarrow> qexec now flag p (s_lock s) = (p', l') \<Longrightarrow>
    qstep T u s (s\<lparr>s_lock := l', s_threads := (s_threads s)(i := (s_threads s i)\<lparr>t_call := Some (op, p')\<rparr>)\<rparr>)"
| return: "i \<in> T \<Longrightarrow> t_call (s_threads s i) = Some (op, Done r c) \<Longrightarrow>
    qstep T u s (s\<lparr>s_threads := (s_threads s)(i := \<lparr>t_hold = after_call op r (t_hold (s_threads s i)), t_call = None\<rparr>)\<rparr>)"

definition qinit :: qsystem where
  "qinit = \<lparr>s_lock = qlock_reset,
     s_threads = (\<lambda>_. \<lparr>t_hold = \<lparr>h_shared = False, h_exclusive = False, h_intent = False\<rparr>, t_call = None\<rparr>)\<rparr>"

inductive qreach :: "nat set \<Rightarrow> (nat \<Rightarrow> u32) \<Rightarrow> qsystem \<Rightarrow> bool" for T u where
  start: "qreach T u qinit"
| step: "qreach T u s \<Longrightarrow> qstep T u s s' \<Longrightarrow> qreach T u s'"

text \<open>A thread agrees with its ghost state: at rest it has what it holds, in a call the rest of the call will give it that.\<close>

definition thread_ok :: "u32 \<Rightarrow> qthread \<Rightarrow> ghost \<Rightarrow> bool" where
  "thread_ok u t g \<longleftrightarrow> hold_ok (t_hold t) \<and>
     (case t_call t of
        None \<Rightarrow> g = ghost_of (t_hold t)
      | Some (op, p) \<Rightarrow> may_call op (t_hold t) \<and> wp u p (call_post op (t_hold t)) (\<lambda>_. False) g)"

definition system_inv :: "nat set \<Rightarrow> (nat \<Rightarrow> u32) \<Rightarrow> qsystem \<Rightarrow> (nat \<Rightarrow> ghost) \<Rightarrow> bool" where
  "system_inv T u s gs \<longleftrightarrow> lock_inv T u (s_lock s) gs \<and> (\<forall>i\<in>T. thread_ok (u i) (s_threads s i) (gs i))"

lemma init_inv: "uids_ok T u \<Longrightarrow> system_inv T u qinit (\<lambda>_. ghost_of \<lparr>h_shared = False, h_exclusive = False, h_intent = False\<rparr>)"
  using uids_okD by (fastforce simp: system_inv_def lock_inv_def thread_ok_def qinit_def qlock_reset_def ghost_of_def hold_ok_def)

lemma step_inv:
  assumes "qstep T u s s'" "uids_ok T u" "system_inv T u s gs"
  shows "\<exists>gs'. system_inv T u s' gs'"
  using assms(1)
proof cases
  case (call i op)
  have "thread_ok (u i) (s_threads s i) (gs i)" using assms(3) call(2) by (simp add: system_inv_def)
  moreover have "u i AND EXCLUSIVE_BIT = 0" "u i \<noteq> 0" using assms(2) call(2) by (auto simp: uids_ok_def)
  ultimately have "thread_ok (u i) ((s_threads s i)\<lparr>t_call := Some (op, qcode (u i) op)\<rparr>) (gs i)"
    using call(3,4) method_disciplined by (simp add: thread_ok_def)
  then show ?thesis using assms(3) call(1) by (intro exI [of _ gs]) (auto simp: system_inv_def)
next
  case (exec i op p now flag p' l')
  have t: "thread_ok (u i) (s_threads s i) (gs i)" using assms(3) exec(2) by (simp add: system_inv_def)
  then have "wp (u i) p (call_post op (t_hold (s_threads s i))) (\<lambda>_. False) (gs i)"
    using exec(3) by (simp add: thread_ok_def)
  moreover have "lock_inv T u (s_lock s) gs" using assms(3) by (simp add: system_inv_def)
  ultimately obtain g where
    g: "lock_inv T u l' (gs(i := g))" "wp (u i) p' (call_post op (t_hold (s_threads s i))) (\<lambda>_. False) g"
    using step_sound [OF assms(2) _ exec(2) _ exec(4), of gs] by blast
  then have "thread_ok (u i) ((s_threads s i)\<lparr>t_call := Some (op, p')\<rparr>) g" using t exec(3) by (simp add: thread_ok_def)
  then show ?thesis using g(1) assms(3) exec(1) by (intro exI [of _ "gs(i := g)"]) (auto simp: system_inv_def)
next
  case (return i op r c)
  have "thread_ok (u i) (s_threads s i) (gs i)" using assms(3) return(2) by (simp add: system_inv_def)
  then have "thread_ok (u i) \<lparr>t_hold = after_call op r (t_hold (s_threads s i)), t_call = None\<rparr> (gs i)"
    using return(3) after_call_ok by (simp add: thread_ok_def call_post_def)
  then show ?thesis using assms(3) return(1) by (intro exI [of _ gs]) (auto simp: system_inv_def)
qed

lemma reach_inv:
  assumes "qreach T u s" "uids_ok T u"
  shows "\<exists>gs. system_inv T u s gs"
  using assms(1)
proof induction
  case start
  show ?case using init_inv [OF assms(2)] by blast
next
  case (step s s')
  then show ?case using step_inv [OF step(2) assms(2)] by blast
qed

text \<open>At rest a thread's ghost state is what it holds.\<close>

lemma idle_ghost:
  "system_inv T u s gs \<Longrightarrow> i \<in> T \<Longrightarrow> t_call (s_threads s i) = None \<Longrightarrow> gs i = ghost_of (t_hold (s_threads s i))"
  by (auto simp: system_inv_def thread_ok_def)


section \<open>Schedules\<close>

text \<open>A schedule, as the list of the threads that run with what they do; running it gives a reachable state.\<close>

datatype qaction = Call nat qop | Exec nat int bool | Return nat

fun qact :: "(nat \<Rightarrow> u32) \<Rightarrow> qaction \<Rightarrow> qsystem \<Rightarrow> qsystem option" where
  "qact u (Call i op) s =
     (if t_call (s_threads s i) = None \<and> may_call op (t_hold (s_threads s i))
      then Some (s\<lparr>s_threads := (s_threads s)(i := (s_threads s i)\<lparr>t_call := Some (op, qcode (u i) op)\<rparr>)\<rparr>)
      else None)"
| "qact u (Exec i now flag) s =
     (case t_call (s_threads s i) of
        None \<Rightarrow> None
      | Some (op, p) \<Rightarrow>
          (let (p', l') = qexec now flag p (s_lock s)
           in Some (s\<lparr>s_lock := l', s_threads := (s_threads s)(i := (s_threads s i)\<lparr>t_call := Some (op, p')\<rparr>)\<rparr>)))"
| "qact u (Return i) s =
     (case t_call (s_threads s i) of
        Some (op, Done r c) \<Rightarrow>
          Some (s\<lparr>s_threads := (s_threads s)(i := \<lparr>t_hold = after_call op r (t_hold (s_threads s i)), t_call = None\<rparr>)\<rparr>)
      | _ \<Rightarrow> None)"

fun qact_thread :: "qaction \<Rightarrow> nat" where
  "qact_thread (Call i op) = i"
| "qact_thread (Exec i now flag) = i"
| "qact_thread (Return i) = i"

fun qrun :: "(nat \<Rightarrow> u32) \<Rightarrow> qaction list \<Rightarrow> qsystem \<Rightarrow> qsystem option" where
  "qrun u [] s = Some s"
| "qrun u (a # as) s = (case qact u a s of None \<Rightarrow> None | Some s' \<Rightarrow> qrun u as s')"

lemma qact_step: "qact u a s = Some s' \<Longrightarrow> qact_thread a \<in> T \<Longrightarrow> qstep T u s s'"
  by (cases a)
    (auto intro: qstep.call split: if_splits option.splits prod.splits qprog.splits, metis qstep.exec, metis qstep.return)

lemma qrun_reach:
  assumes "qreach T u s" "qrun u as s = Some s'" "qact_thread ` set as \<subseteq> T"
  shows "qreach T u s'"
  using assms
proof (induction as arbitrary: s)
  case (Cons a as)
  then show ?case using qact_step [of u a s] qreach.step by (fastforce split: option.splits)
qed simp

end
