(* ===== verification/Ob_Qlock_Progress.thy ===== *)
theory Ob_Qlock_Progress
  imports Ob_Qlock_Safety
begin

text \<open>
  When calls on a lock return. A call with a deadline returns once the clock has passed it, whatever the other threads do to
  the lock in the meantime; the calls without a loop always return.
\<close>

section \<open>Programs that end\<close>

text \<open>
  All runs from \<open>p\<close> end if every access sees a clock beyond \<open>t\<close>. Each access may find any lock: between two of them the
  other threads may have run.
\<close>

inductive finishes :: "int \<Rightarrow> qprog \<Rightarrow> bool" for t where
  ended: "finishes t (Done r c)"
| access: "(\<And>now flag l. now > t \<Longrightarrow> finishes t (fst (qexec now flag p l))) \<Longrightarrow> finishes t p"

text \<open>A loop's body that never starts over once the clock is beyond \<open>t\<close>.\<close>

primrec no_again :: "int \<Rightarrow> qprog \<Rightarrow> bool" where
  "no_again t (Done r c) \<longleftrightarrow> True"
| "no_again t Again \<longleftrightarrow> False"
| "no_again t (ReadUid k) \<longleftrightarrow> (\<forall>v. no_again t (k v))"
| "no_again t (ReadRef k) \<longleftrightarrow> (\<forall>v. no_again t (k v))"
| "no_again t (FetchAdd d p) \<longleftrightarrow> no_again t p"
| "no_again t (CasUid old new k) \<longleftrightarrow> (\<forall>b. no_again t (k b))"
| "no_again t (WriteUid v p) \<longleftrightarrow> no_again t p"
| "no_again t (ReadClock k) \<longleftrightarrow> (\<forall>now>t. no_again t (k now))"
| "no_again t (ReadFlag k) \<longleftrightarrow> (\<forall>b. no_again t (k b))"
| "no_again t (Loop b k) \<longleftrightarrow> no_again t b \<and> (\<forall>r c. no_again t (k r c))"

text \<open>A program all of whose loops have such a body; \<open>a\<close> says whether it may start over itself.\<close>

primrec timely :: "int \<Rightarrow> bool \<Rightarrow> qprog \<Rightarrow> bool" where
  "timely t a (Done r c) \<longleftrightarrow> True"
| "timely t a Again \<longleftrightarrow> a"
| "timely t a (ReadUid k) \<longleftrightarrow> (\<forall>v. timely t a (k v))"
| "timely t a (ReadRef k) \<longleftrightarrow> (\<forall>v. timely t a (k v))"
| "timely t a (FetchAdd d p) \<longleftrightarrow> timely t a p"
| "timely t a (CasUid old new k) \<longleftrightarrow> (\<forall>b. timely t a (k b))"
| "timely t a (WriteUid v p) \<longleftrightarrow> timely t a p"
| "timely t a (ReadClock k) \<longleftrightarrow> (\<forall>now. timely t a (k now))"
| "timely t a (ReadFlag k) \<longleftrightarrow> (\<forall>b. timely t a (k b))"
| "timely t a (Loop b k) \<longleftrightarrow> no_again t b \<and> timely t True b \<and> (\<forall>r c. timely t a (k r c))"

lemma finishes_step: "(\<And>now flag l. now > t \<Longrightarrow> finishes t (fst (qexec now flag p l))) \<Longrightarrow> finishes t p"
  by (rule finishes.access)

lemma finishes_accesses:
  "\<forall>v. finishes t (k v) \<Longrightarrow> finishes t (ReadUid k)"
  "\<forall>v. finishes t (k' v) \<Longrightarrow> finishes t (ReadRef k')"
  "finishes t p \<Longrightarrow> finishes t (FetchAdd d p)"
  "\<forall>b. finishes t (f b) \<Longrightarrow> finishes t (CasUid old new f)"
  "finishes t p \<Longrightarrow> finishes t (WriteUid v p)"
  "\<forall>now>t. finishes t (g now) \<Longrightarrow> finishes t (ReadClock g)"
  "\<forall>b. finishes t (f b) \<Longrightarrow> finishes t (ReadFlag f)"
  "finishes t (plug b b h) \<Longrightarrow> finishes t (Loop b h)"
  by (rule finishes_step, simp)+

lemma finishes_plug:
  "no_again t p \<Longrightarrow> \<forall>r c. finishes t (k r c) \<Longrightarrow> finishes t (plug p b k)"
proof (induction p arbitrary: k b)
  case (Loop b' k')
  have "finishes t (plug (k' r c) b k)" for r c using Loop.IH(2) [OF rangeI rangeI] Loop.prems by simp
  then have "finishes t (plug b' b' (\<lambda>r c. plug (k' r c) b k))" using Loop.IH(1) Loop.prems(1) by simp
  then show ?case by (simp add: finishes_accesses)
qed (simp_all add: finishes_accesses)

lemma timely_finishes: "timely t False p \<Longrightarrow> finishes t p"
proof (induction p)
  case (Loop b k)
  then have "finishes t (plug b b k)" by (intro finishes_plug) auto
  then show ?case by (simp add: finishes_accesses)
qed (simp_all add: finishes_accesses finishes.ended)

section \<open>Timely programs stay timely\<close>

lemma timely_plug: "timely t True p \<Longrightarrow> timely t a (Loop b k) \<Longrightarrow> timely t a (plug p b k)"
  by (induction p) auto

lemma timely_andthen: "timely t a p \<Longrightarrow> (\<And>r c. timely t a (f r c)) \<Longrightarrow> timely t a (andthen p f)"
proof (induction p)
  case (Loop b' k')
  then show ?case using Loop.IH(2) [OF rangeI rangeI] by simp
qed auto

lemma timely_mono: "timely t False p \<Longrightarrow> timely t a p"
  by (induction p) auto

lemma timely_no_again: "timely t False p \<Longrightarrow> no_again t p"
  by (induction p) auto

lemma no_again_andthen: "no_again t p \<Longrightarrow> (\<And>r c. no_again t (f r c)) \<Longrightarrow> no_again t (andthen p f)"
proof (induction p)
  case (Loop b' k')
  then show ?case using Loop.IH(2) [OF rangeI rangeI] by simp
qed auto

lemma timely_exec: "timely t False p \<Longrightarrow> timely t False (fst (qexec now flag p l))"
  by (cases p) (auto simp: timely_plug)

section \<open>The calls\<close>

text \<open>A deadline is set and not later than \<open>t\<close>, or the call has no loop.\<close>

fun due :: "int \<Rightarrow> qop \<Rightarrow> bool" where
  "due t (SharedLock e) \<longleftrightarrow> 0 < e \<and> e \<le> t"
| "due t (SharedLockFlag e) \<longleftrightarrow> 0 < e \<and> e \<le> t"
| "due t (ExclusiveLock e) \<longleftrightarrow> 0 < e \<and> e \<le> t"
| "due t (ExclusiveLockFlag e) \<longleftrightarrow> 0 < e \<and> e \<le> t"
| "due t (Share2ExclusiveLock e) \<longleftrightarrow> 0 < e \<and> e \<le> t"
| "due t op \<longleftrightarrow> True"

lemma timely_retry:
  assumes "timely t False p" "0 < e" "e \<le> t"
  shows "timely t a (retry p e)" "timely t a (retry_flag p e)"
proof -
  have n: "no_again t p" "timely t True p" using assms(1) by (auto intro: timely_no_again timely_mono)
  show "timely t a (retry p e)" "timely t a (retry_flag p e)"
    using assms(2,3) n
    by (auto simp: retry_def retry_flag_def is_timeout_def intro!: no_again_andthen timely_andthen)
qed

lemma timely_try:
  "timely t a (try_shared_lock u)" "timely t a (try_wait_shared_lock_release u)" "timely t a (try_exclusive_lock u)"
  "timely t a (shared_unlock u)" "timely t a (exclusive_unlock u)"
  by (auto simp: try_shared_lock_def try_wait_shared_lock_release_def try_exclusive_lock_def shared_unlock_def try_shared_unlock_def
      exclusive_unlock_def try_exclusive_unlock_def add_shared_ref_def del_shared_ref_def)

lemma timely_call:
  assumes "due t op"
  shows "timely t False (qcode u op)"
proof -
  have w: "timely t False (wait_shared_lock_release u e)" "timely t False (wait_shared_lock_release_flag u e)" if "0 < e" "e \<le> t" for e
    unfolding wait_shared_lock_release_def wait_shared_lock_release_flag_def using that by (simp_all add: timely_retry timely_try)
  show ?thesis
  proof (cases op)
    case (SharedLock e)
    then show ?thesis using assms by (auto simp: shared_lock_def intro!: timely_retry timely_try)
  next
    case (SharedLockFlag e)
    then show ?thesis using assms by (auto simp: shared_lock_flag_def intro!: timely_retry timely_try)
  next
    case (ExclusiveLock e)
    then show ?thesis using assms w [of e] by (auto simp: exclusive_lock_def is_timeout_def intro!: timely_andthen)
  next
    case (ExclusiveLockFlag e)
    then show ?thesis using assms w [of e] by (auto simp: exclusive_lock_flag_def is_timeout_def intro!: timely_andthen)
  next
    case (Share2ExclusiveLock e)
    then show ?thesis
      using assms w [of e] by (auto simp: share2exclusive_lock_def is_timeout_def add_shared_ref_def intro!: timely_andthen timely_try)
  qed (auto simp: try_upgrade_lock_def try_upgrade_unlock_def exclusive2shared_lock_def add_shared_ref_def del_shared_ref_def timely_try
      intro!: timely_andthen)
qed

text \<open>In a reachable state every call that is due is timely.\<close>

lemma reach_timely:
  assumes "qreach T u s"
  shows "t_call (s_threads s i) = Some (op, p) \<Longrightarrow> due t op \<Longrightarrow> timely t False p"
  using assms
proof (induction arbitrary: i op p)
  case start
  then show ?case by (simp add: qinit_def)
next
  case (step s s')
  from step(2) show ?case
  proof cases
    case (call j op')
    then show ?thesis using step by (auto simp: timely_call split: if_splits)
  next
    case (exec j op' q now flag q' l')
    have "timely t False q \<Longrightarrow> timely t False q'" using timely_exec [of t q now flag "s_lock s"] exec(4) by simp
    then show ?thesis using step exec by (auto split: if_splits)
  next
    case (return j op' r c)
    then show ?thesis using step by (auto split: if_splits)
  qed
qed

section \<open>The words of a lock at rest\<close>

definition uid_word :: "nat set \<Rightarrow> (nat \<Rightarrow> u32) \<Rightarrow> u32 \<Rightarrow> bool" where
  "uid_word T u v \<longleftrightarrow> v = 0 \<or> (\<exists>i\<in>T. v = u i \<or> v = u i OR EXCLUSIVE_BIT)"

lemma exec_word:
  assumes "uids_ok T u" "lock_inv T u l gs" "i \<in> T" "wp (u i) p Q A (gs i)" "uid_word T u (lock_uid l)"
  shows "uid_word T u (lock_uid (snd (qexec now flag p l)))"
proof (cases p)
  case (CasUid old new k)
  show ?thesis
  proof (cases "lock_uid l = old")
    case True
    then obtain g where "cas_result (u i) (gs i) old new = Some g" using assms(4) CasUid inv_sees [OF assms(1-3)] by auto
    then have "new = u i \<or> new = u i OR EXCLUSIVE_BIT" by (auto simp: cas_result_def split: if_splits)
    then show ?thesis using True CasUid assms(3) by (auto simp: uid_word_def)
  next
    case False
    then show ?thesis using CasUid assms(5) by simp
  qed
next
  case (WriteUid v q)
  then have "v = 0 \<or> v = u i" using assms(4) by (auto simp: write_result_def split: if_splits)
  then show ?thesis using WriteUid assms(3) by (auto simp: uid_word_def)
qed (use assms(5) in auto)

lemma reach_word:
  assumes "qreach T u s" "uids_ok T u"
  shows "uid_word T u (lock_uid (s_lock s))"
  using assms(1)
proof induction
  case start
  show ?case by (simp add: uid_word_def qinit_def qlock_reset_def)
next
  case (step s s')
  obtain gs where inv: "system_inv T u s gs" using reach_inv [OF step(1) assms(2)] by blast
  from step(2) show ?case
  proof cases
    case (exec i op p now flag p' l')
    then have "wp (u i) p (call_post op (t_hold (s_threads s i))) (\<lambda>_. False) (gs i)" "lock_inv T u (s_lock s) gs"
      using inv by (auto simp: system_inv_def thread_ok_def)
    then show ?thesis using exec_word [OF assms(2) _ exec(2) _ step(3), of gs p _ _ now flag] exec(1,4) by simp
  qed (use step(3) in auto)
qed

text \<open>What the words say when no call is under way.\<close>

lemma rest_words:
  assumes "qreach T u s" "uids_ok T u" "\<forall>i\<in>T. t_call (s_threads s i) = None"
  shows "n_ref (s_lock s) = of_nat (card {i \<in> T. h_shared (t_hold (s_threads s i))})"
    and "i \<in> T \<Longrightarrow> lock_uid (s_lock s) = u i OR EXCLUSIVE_BIT \<longleftrightarrow> h_exclusive (t_hold (s_threads s i))"
    and "i \<in> T \<Longrightarrow> lock_uid (s_lock s) = u i \<longleftrightarrow> h_intent (t_hold (s_threads s i))"
proof -
  obtain gs where inv: "system_inv T u s gs" using reach_inv [OF assms(1,2)] by blast
  then have l: "lock_inv T u (s_lock s) gs" by (simp add: system_inv_def)
  have g: "gs i = ghost_of (t_hold (s_threads s i))" if "i \<in> T" for i using idle_ghost [OF inv that] assms(3) that by simp
  then have "{i \<in> T. g_ref (gs i)} = {i \<in> T. h_shared (t_hold (s_threads s i))}" by (auto simp: ghost_of_def)
  then show "n_ref (s_lock s) = of_nat (card {i \<in> T. h_shared (t_hold (s_threads s i))})" using l by (simp add: lock_inv_def)
  show "lock_uid (s_lock s) = u i OR EXCLUSIVE_BIT \<longleftrightarrow> h_exclusive (t_hold (s_threads s i))"
    "lock_uid (s_lock s) = u i \<longleftrightarrow> h_intent (t_hold (s_threads s i))" if "i \<in> T"
    using lock_invD(1,2) [OF l that] g [OF that] by (simp_all add: ghost_of_def)
qed

lemma locked_by_iff:
  assumes "uid AND EXCLUSIVE_BIT = 0"
  shows "lock_uid l = uid OR EXCLUSIVE_BIT \<longleftrightarrow> lock_uid l AND NOT UID_MASK \<noteq> 0 \<and> lock_uid l AND UID_MASK = uid"
  using or_bit_neq [OF assms assms] masked_eq by metis

section \<open>Running alone\<close>

text \<open>\<open>n\<close> accesses of one thread while no other thread runs; \<open>now\<close> and \<open>flag\<close> say what it reads outside the lock.\<close>

primrec qsolo :: "nat \<Rightarrow> (nat \<Rightarrow> int) \<Rightarrow> (nat \<Rightarrow> bool) \<Rightarrow> qprog \<Rightarrow> qlock \<Rightarrow> qprog \<times> qlock" where
  "qsolo 0 now flag p l = (p, l)"
| "qsolo (Suc n) now flag p l = (let (p', l') = qexec (now n) (flag n) p l in qsolo n now flag p' l')"

lemma locked_by_alone:
  assumes "uid AND EXCLUSIVE_BIT = 0"
  shows "qsolo 2 now flag (is_exclusive_locked_by uid) l = (Done (Ok ()) (if lock_uid l = uid OR EXCLUSIVE_BIT then 1 else 0), l)"
  using locked_by_iff [OF assms, of l] by (auto simp: is_exclusive_locked_by_def numeral_2_eq_2)




lemma zero_word:
  assumes "qreach T u s" "uids_ok T u" "\<forall>i\<in>T. t_call (s_threads s i) = None"
    "\<forall>j\<in>T. \<not> h_exclusive (t_hold (s_threads s j)) \<and> \<not> h_intent (t_hold (s_threads s j))"
  shows "lock_uid (s_lock s) = 0"
  using reach_word [OF assms(1,2)] rest_words(2,3) [OF assms(1-3)] assms(4) by (auto simp: uid_word_def)

section \<open>The guarantees of the lock\<close>

text \<open>
  C2: however the calls of finitely many threads interleave, between any two of their atomic accesses, while one thread holds the lock
  exclusively no other thread holds it, neither exclusively nor shared. The threads have uids that differ from each other, are not zero and
  lack the top bit (several threads with one uid, which a comment of the file allows, are not covered), and keep to the discipline of
  calls: a thread locks what it does not hold and releases, upgrades or downgrades what it holds.
\<close>
theorem qlock_exclusion:
  assumes "qreach T u s" "uids_ok T u" "i \<in> T" "j \<in> T" "i \<noteq> j"
    and "t_call (s_threads s i) = None" "t_call (s_threads s j) = None" "h_exclusive (t_hold (s_threads s i))"
  shows "\<not> h_exclusive (t_hold (s_threads s j)) \<and> \<not> h_shared (t_hold (s_threads s j))"
proof -
  obtain gs where inv: "system_inv T u s gs" using reach_inv [OF assms(1,2)] by blast
  then have l: "lock_inv T u (s_lock s) gs" by (simp add: system_inv_def)
  have g: "g_ex (gs i)" "g_sh (gs j) = h_shared (t_hold (s_threads s j))" "g_own (gs j) = h_exclusive (t_hold (s_threads s j))"
    using idle_ghost [OF inv] assms(3,4,6-8) by (simp_all add: ghost_of_def)
  have "\<not> g_own (gs j)"
    using lock_invD(1) [OF l assms(3)] lock_invD(4) [OF l assms(3) g(1)] lock_invD(1) [OF l assms(4)]
      uids_okD(3) [OF assms(2-4)] assms(5) by simp
  then show ?thesis using lock_invD(5) [OF l assms(3,4) _ g(1)] assms(5) g(2,3) by simp
qed

text \<open>A schedule of two threads with the uids 1 and 2: the first one takes the lock, the second one is refused.\<close>

definition two_uids :: "nat \<Rightarrow> u32" where "two_uids i = of_nat (Suc i)"

definition contention :: "qaction list" where
  "contention = Call 0 (ExclusiveLock 5) # replicate 2 (Exec 0 0 True) @ [Call 1 TrySharedLock] @ replicate 5 (Exec 0 1 True) @
     [Exec 1 1 True, Return 0, Return 1]"

lemma two_uids_ok: "uids_ok {0, 1} two_uids"
  by (auto simp: uids_ok_def two_uids_def inj_on_def EXCLUSIVE_BIT_def)

definition at_rest :: "hold \<Rightarrow> qthread \<Rightarrow> bool" where
  "at_rest h t \<longleftrightarrow> t_hold t = h \<and> t_call t = None"

lemma contention_run:
  obtains s where "qreach {0, 1} two_uids s"
    "at_rest \<lparr>h_shared = False, h_exclusive = True, h_intent = False\<rparr> (s_threads s 0)"
    "at_rest \<lparr>h_shared = False, h_exclusive = False, h_intent = False\<rparr> (s_threads s 1)"
proof -
  have r: "(case qrun two_uids contention qinit of None \<Rightarrow> False
    | Some s \<Rightarrow> at_rest \<lparr>h_shared = False, h_exclusive = True, h_intent = False\<rparr> (s_threads s 0) \<and>
        at_rest \<lparr>h_shared = False, h_exclusive = False, h_intent = False\<rparr> (s_threads s 1))" by code_simp
  then obtain s where "qrun two_uids contention qinit = Some s" by (auto split: option.splits)
  moreover have "qreach {0, 1} two_uids s"
    using qrun_reach [OF qreach.start calculation] by (simp add: contention_def)
  ultimately show thesis using that r by simp
qed

theorem qlock_exclusion_witness:
  "\<exists>s. qreach {0, 1} two_uids s \<and> h_exclusive (t_hold (s_threads s 0)) \<and> \<not> h_exclusive (t_hold (s_threads s 1)) \<and>
    \<not> h_shared (t_hold (s_threads s 1))"
proof -
  obtain s where s: "qreach {0, 1} two_uids s"
    "at_rest \<lparr>h_shared = False, h_exclusive = True, h_intent = False\<rparr> (s_threads s 0)"
    "at_rest \<lparr>h_shared = False, h_exclusive = False, h_intent = False\<rparr> (s_threads s 1)"
    by (rule contention_run)
  then show ?thesis
    using qlock_exclusion [OF s(1) two_uids_ok, of 0 1] by (intro exI [of _ s]) (simp add: at_rest_def)
qed

text \<open>
  C15: in every reachable state (threads with different uids that keep to the discipline of calls) in which no call is under way, the reference count is the number of threads that hold the
  lock shared, \<^verbatim>\<open>is_exclusive_locked_by\<close>, run then, answers for exactly the thread that holds it so, and its uid is zero when no thread
  holds it exclusively or has announced an upgrade.
\<close>
theorem qlock_words:
  assumes "qreach T u s" "uids_ok T u" "\<forall>i\<in>T. t_call (s_threads s i) = None"
  shows "n_ref (s_lock s) = of_nat (card {i \<in> T. h_shared (t_hold (s_threads s i))}) \<and>
    (\<forall>i\<in>T. qsolo 2 now flag (is_exclusive_locked_by (u i)) (s_lock s) =
       (Done (Ok ()) (if h_exclusive (t_hold (s_threads s i)) then 1 else 0), s_lock s)) \<and>
    (get_uid (s_lock s) = 0 \<longleftrightarrow> (\<forall>i\<in>T. \<not> h_exclusive (t_hold (s_threads s i)) \<and> \<not> h_intent (t_hold (s_threads s i))))"
proof (intro conjI)
  note r = rest_words [OF assms]
  have e: "u i AND EXCLUSIVE_BIT = 0" "u i \<noteq> 0" if "i \<in> T" for i using assms(2) that by (auto simp: uids_ok_def)
  show "n_ref (s_lock s) = of_nat (card {i \<in> T. h_shared (t_hold (s_threads s i))})" by (rule r(1))
  show "\<forall>i\<in>T. qsolo 2 now flag (is_exclusive_locked_by (u i)) (s_lock s) =
      (Done (Ok ()) (if h_exclusive (t_hold (s_threads s i)) then 1 else 0), s_lock s)"
    using r(2) locked_by_alone e by simp
  have "get_uid (s_lock s) \<noteq> 0" if "i \<in> T" "lock_uid (s_lock s) = u i \<or> lock_uid (s_lock s) = u i OR EXCLUSIVE_BIT" for i
    using that or_bit_neq(4,7) [OF e(1) e(1)] e(2) by (auto simp: get_uid_def)
  then show "get_uid (s_lock s) = 0 \<longleftrightarrow> (\<forall>i\<in>T. \<not> h_exclusive (t_hold (s_threads s i)) \<and> \<not> h_intent (t_hold (s_threads s i)))"
    using r(2,3) zero_word [OF assms] by (auto simp: get_uid_def)
qed

theorem qlock_words_witness:
  "\<exists>s. qreach {0, 1} two_uids s \<and> n_ref (s_lock s) = 0 \<and>
     fst (qsolo 2 (\<lambda>_. 0) (\<lambda>_. True) (is_exclusive_locked_by 1) (s_lock s)) = Done (Ok ()) 1 \<and>
     fst (qsolo 2 (\<lambda>_. 0) (\<lambda>_. True) (is_exclusive_locked_by 2) (s_lock s)) = Done (Ok ()) 0"
proof -
  obtain s where s: "qreach {0, 1} two_uids s"
    "at_rest \<lparr>h_shared = False, h_exclusive = True, h_intent = False\<rparr> (s_threads s 0)"
    "at_rest \<lparr>h_shared = False, h_exclusive = False, h_intent = False\<rparr> (s_threads s 1)"
    by (rule contention_run)
  then have "\<not> h_shared (t_hold (s_threads s 0))" "\<not> h_shared (t_hold (s_threads s 1))" by (simp_all add: at_rest_def)
  then have n: "{i \<in> {0, 1}. h_shared (t_hold (s_threads s i))} = {}" by blast
  have "\<forall>i\<in>{0, 1}. t_call (s_threads s i) = None" using s by (simp add: at_rest_def)
  note w = qlock_words [OF s(1) two_uids_ok this, unfolded n, of "\<lambda>_. 0" "\<lambda>_. True"]
  show ?thesis using w s by (intro exI [of _ s]) (simp add: at_rest_def two_uids_def)
qed



text \<open>A program that finishes reaches its end along every sequence of accesses.\<close>

lemma finishes_sequence:
  assumes "finishes t p" "ps 0 = p" "\<And>n. \<exists>now>t. \<exists>flag l. ps (Suc n) = fst (qexec now flag (ps n) l)"
  shows "\<exists>n r c. ps n = Done r c"
  using assms
proof (induction arbitrary: ps)
  case (access p)
  obtain now flag l where "now > t" "ps (Suc 0) = fst (qexec now flag p l)" using access.prems by metis
  then have "\<exists>n r c. ps (Suc n) = Done r c" using access.IH [of now "\<lambda>n. ps (Suc n)" flag l] access.prems(2) by simp
  then show ?case by blast
qed blast

text \<open>
  C14: a call that has a deadline, or makes a single attempt, returns: once the clock is past the deadline every sequence of its
  accesses ends, whatever the other threads do to the lock between any two of them.
\<close>
theorem qlock_timed_call_returns:
  assumes "qreach T u s" "t_call (s_threads s i) = Some (op, p)" "due t op"
    and "ps 0 = p" "\<And>n. \<exists>now>t. \<exists>flag l. ps (Suc n) = fst (qexec now flag (ps n) l)"
  shows "\<exists>n r c. ps n = Done r c"
  using finishes_sequence [of t p ps] timely_finishes reach_timely [OF assms(1-3)] assms(4,5) by blast

theorem qlock_timed_call_returns_witness:
  "\<exists>n r c. ((\<lambda>q. fst (qexec 6 True q \<lparr>n_ref = 1, lock_uid = 0x80000007\<rparr>)) ^^ n) (exclusive_lock 1 5) = Done r c"
proof (rule qlock_timed_call_returns)
  show "qreach {0, 1} two_uids (the (qrun two_uids [Call 0 (ExclusiveLock 5)] qinit))"
    by (rule qrun_reach [OF qreach.start, of _ "[Call 0 (ExclusiveLock 5)]"]) (simp_all add: qinit_def)
  show "t_call (s_threads (the (qrun two_uids [Call 0 (ExclusiveLock 5)] qinit)) 0) = Some (ExclusiveLock 5, exclusive_lock 1 5)"
    by (simp add: qinit_def two_uids_def)
  show "due 5 (ExclusiveLock 5)" by simp
  show "\<exists>now>5. \<exists>flag l. ((\<lambda>q. fst (qexec 6 True q \<lparr>n_ref = 1, lock_uid = 0x80000007\<rparr>)) ^^ Suc n) (exclusive_lock 1 5) =
      fst (qexec now flag (((\<lambda>q. fst (qexec 6 True q \<lparr>n_ref = 1, lock_uid = 0x80000007\<rparr>)) ^^ n) (exclusive_lock 1 5)) l)" for n
    by (rule exI [of _ 6]) auto
qed simp




end
