(* ===== verification/Ob_String_Search.thy ===== *)
theory Ob_String_Search
  imports Ob_Prelude "HOL-Library.Monad_Syntax"
begin

text \<open>
  String search and \<^verbatim>\<open>LIKE\<close> matching, \<^verbatim>\<open>common/ob_string_search.{h,cpp}\<close>. A string is a piece of memory, the bytes from
  its pointer on, and a length; the memory may be longer than the string. Reading outside the memory is undefined behaviour.
\<close>

section \<open>Memory\<close>

definition char_at :: "i8 list \<Rightarrow> int \<Rightarrow> i8 option" where
  "char_at m i = (if 0 \<le> i \<and> i < int (length m) then Some (m ! nat i) else None)"

text \<open>\<^verbatim>\<open>memcmp(a + i, b + j, n) == 0\<close>; both pieces must be readable.\<close>

definition mem_equal :: "i8 list \<Rightarrow> int \<Rightarrow> i8 list \<Rightarrow> int \<Rightarrow> nat \<Rightarrow> bool option" where
  "mem_equal a i b j n =
     (if 0 \<le> i \<and> i + int n \<le> int (length a) \<and> 0 \<le> j \<and> j + int n \<le> int (length b)
      then Some (take n (drop (nat i) a) = take n (drop (nat j) b)) else None)"

section \<open>Karp-Rabin search\<close>

text \<open>One step of a print; a \<^verbatim>\<open>char\<close> is signed.\<close>

definition add_print :: "u64 \<Rightarrow> i8 \<Rightarrow> u64" where
  "add_print p c = push_bit 4 p + p + scast c"

fun print_loop :: "i8 list \<Rightarrow> int \<Rightarrow> nat \<Rightarrow> u64 \<Rightarrow> u64 option" where
  "print_loop pat i 0 p = Some p"
| "print_loop pat i (Suc n) p = do {
     c \<leftarrow> char_at pat i;
     print_loop pat (i + 1) n (add_print p c)
   }"

definition cal_print :: "i8 list option \<Rightarrow> int \<Rightarrow> u64 option" where
  "cal_print pat pat_len =
     (case pat of
        None \<Rightarrow> Some 0
      | Some m \<Rightarrow> if 0 \<ge> pat_len then Some 0 else print_loop m 0 (nat pat_len) 0)"

text \<open>The first loop of \<^verbatim>\<open>kr_search\<close>; it returns \<^verbatim>\<open>text_print\<close> and \<^verbatim>\<open>shift\<close>.\<close>

fun kr_init_loop :: "i8 list \<Rightarrow> int \<Rightarrow> nat \<Rightarrow> u64 \<Rightarrow> u64 \<Rightarrow> (u64 \<times> u64) option" where
  "kr_init_loop txt i 0 text_print shift = Some (text_print, shift)"
| "kr_init_loop txt i (Suc n) text_print shift = do {
     c \<leftarrow> char_at txt i;
     kr_init_loop txt (i + 1) n (add_print text_print c) (push_bit 4 shift + shift)
   }"

text \<open>The second loop, \<open>n\<close> positions to go.\<close>

fun kr_loop :: "i8 list \<Rightarrow> nat \<Rightarrow> u64 \<Rightarrow> u64 \<Rightarrow> i8 list \<Rightarrow> int \<Rightarrow> nat \<Rightarrow> u64 \<Rightarrow> int option" where
  "kr_loop pat m pat_print shift txt at 0 text_print = Some (- 1)"
| "kr_loop pat m pat_print shift txt at (Suc n) text_print = do {
     found \<leftarrow> (if pat_print = text_print then mem_equal pat 0 txt at m else Some False);
     if found then Some at
     else do {
       c \<leftarrow> char_at txt at;
       d \<leftarrow> char_at txt (at + int m);
       kr_loop pat m pat_print shift txt (at + 1) n (push_bit 4 text_print + text_print - scast c * shift + scast d)
     }
   }"

definition kr_search_print :: "i8 list option \<Rightarrow> int \<Rightarrow> u64 \<Rightarrow> i8 list option \<Rightarrow> int \<Rightarrow> int option" where
  "kr_search_print pat pat_len pat_print txt text_len =
     (case (pat, txt) of
        (Some p, Some t) \<Rightarrow>
          if 0 \<ge> pat_len \<or> 0 \<ge> text_len then Some (- 1)
          else do {
            (text_print, shift) \<leftarrow> kr_init_loop t 0 (nat pat_len) 0 1;
            kr_loop p (nat pat_len) pat_print shift t 0 (nat (text_len - pat_len + 1)) text_print
          }
      | _ \<Rightarrow> Some (- 1))"

text \<open>The overload that computes the pattern's print in the same loop.\<close>

fun kr_init2_loop :: "i8 list \<Rightarrow> i8 list \<Rightarrow> int \<Rightarrow> nat \<Rightarrow> u64 \<Rightarrow> u64 \<Rightarrow> u64 \<Rightarrow> (u64 \<times> u64 \<times> u64) option" where
  "kr_init2_loop pat txt i 0 text_print pat_print shift = Some (text_print, pat_print, shift)"
| "kr_init2_loop pat txt i (Suc n) text_print pat_print shift = do {
     c \<leftarrow> char_at txt i;
     d \<leftarrow> char_at pat i;
     kr_init2_loop pat txt (i + 1) n (add_print text_print c) (add_print pat_print d) (push_bit 4 shift + shift)
   }"

definition kr_search :: "i8 list option \<Rightarrow> int \<Rightarrow> i8 list option \<Rightarrow> int \<Rightarrow> int option" where
  "kr_search pat pat_len txt text_len =
     (case (pat, txt) of
        (Some p, Some t) \<Rightarrow>
          if 0 \<ge> pat_len \<or> 0 \<ge> text_len then Some (- 1)
          else do {
            (text_print, pat_print, shift) \<leftarrow> kr_init2_loop p t 0 (nat pat_len) 0 0 1;
            kr_loop p (nat pat_len) pat_print shift t 0 (nat (text_len - pat_len + 1)) text_print
          }
      | _ \<Rightarrow> Some (- 1))"

section \<open>Fast search\<close>

text \<open>\<^verbatim>\<open>1 << (c & 0x1F)\<close>, an \<^verbatim>\<open>int\<close> that is widened to \<^verbatim>\<open>long\<close>.\<close>

definition char_bit :: "i8 \<Rightarrow> i64" where
  "char_bit c = scast (push_bit (unat (c AND 0x1F)) (1 :: i32))"

text \<open>The loop over the pattern without its last character: mask and skip.\<close>

fun delta_loop :: "i8 list \<Rightarrow> int \<Rightarrow> int \<Rightarrow> nat \<Rightarrow> i64 \<Rightarrow> int \<Rightarrow> (i64 \<times> int) option" where
  "delta_loop pat mlast i 0 bloom skip = Some (bloom, skip)"
| "delta_loop pat mlast i (Suc n) bloom skip = do {
     c \<leftarrow> char_at pat i;
     l \<leftarrow> char_at pat mlast;
     delta_loop pat mlast (i + 1) n (bloom OR char_bit c) (if c = l then mlast - i - 1 else skip)
   }"

text \<open>The loop of the special case of one character.\<close>

fun find_char :: "i8 list \<Rightarrow> int \<Rightarrow> nat \<Rightarrow> i8 \<Rightarrow> int option" where
  "find_char txt i 0 c = Some (- 1)"
| "find_char txt i (Suc n) c = do {
     d \<leftarrow> char_at txt i;
     if d = c then Some i else find_char txt (i + 1) n c
   }"

text \<open>The candidate loop: whether \<^verbatim>\<open>j\<close> reaches \<^verbatim>\<open>mlast\<close>.\<close>

fun candidate_loop :: "i8 list \<Rightarrow> i8 list \<Rightarrow> int \<Rightarrow> int \<Rightarrow> nat \<Rightarrow> bool option" where
  "candidate_loop pat txt i j 0 = Some True"
| "candidate_loop pat txt i j (Suc n) = do {
     c \<leftarrow> char_at txt (i + j);
     d \<leftarrow> char_at pat j;
     if c \<noteq> d then Some False else candidate_loop pat txt i (j + 1) n
   }"

function fast_loop :: "i8 list \<Rightarrow> nat \<Rightarrow> i64 \<Rightarrow> nat \<Rightarrow> i8 list \<Rightarrow> int \<Rightarrow> int \<Rightarrow> int option" where
  "fast_loop pat m bloom skip txt w i =
     (if i \<le> w
      then do {
        c \<leftarrow> char_at txt (i + int m - 1);
        l \<leftarrow> char_at pat (int m - 1);
        if c = l
        then do {
          found \<leftarrow> candidate_loop pat txt i 0 (m - 1);
          if found then Some i
          else do {
            d \<leftarrow> char_at txt (i + int m);
            if bloom AND char_bit d = 0
            then fast_loop pat m bloom skip txt w (i + int m + 1)
            else fast_loop pat m bloom skip txt w (i + int skip + 1)
          }
        }
        else do {
          d \<leftarrow> char_at txt (i + int m);
          if bloom AND char_bit d = 0
          then fast_loop pat m bloom skip txt w (i + int m + 1)
          else fast_loop pat m bloom skip txt w (i + 1)
        }
      }
      else Some (- 1))"
  by pat_completeness auto
termination
  by (relation "measure (\<lambda>(pat, m, bloom, skip, txt, w, i). nat (w + 1 - i))") auto

definition fast_search :: "i8 list option \<Rightarrow> int \<Rightarrow> i8 list option \<Rightarrow> int \<Rightarrow> int option" where
  "fast_search pat pat_len txt text_len =
     (case (pat, txt) of
        (Some p, Some t) \<Rightarrow>
          if 0 \<ge> pat_len \<or> 0 \<ge> text_len then Some (- 1)
          else
            let w = text_len - pat_len in
            if w < 0 then Some (- 1)
            else if pat_len \<le> 1
            then do {
              c \<leftarrow> char_at p 0;
              find_char t 0 (nat text_len) c
            }
            else
              let mlast = pat_len - 1 in
              do {
                (bloom, skip) \<leftarrow> delta_loop p mlast 0 (nat mlast) 0 (mlast - 1);
                l \<leftarrow> char_at p mlast;
                fast_loop p (nat pat_len) (bloom OR char_bit l) (nat skip) t w 0
              }
      | _ \<Rightarrow> Some (- 1))"

section \<open>LIKE: what kind of pattern\<close>

abbreviation PERCENT :: i8 where "PERCENT \<equiv> 37"
abbreviation UNDERLINE :: i8 where "UNDERLINE \<equiv> 95"
abbreviation ESCAPE :: i8 where "ESCAPE \<equiv> 92"

datatype match_state = INIT | START_WITH_PERCENT | ESCAPING | NORMAL | END_WITH_PERCENT

text \<open>The variables of \<^verbatim>\<open>check_if_do_opt\<close>; \<open>sc_return\<close> is its early return.\<close>

record scan =
  sc_state :: match_state
  sc_simple :: bool
  sc_escapes :: int
  sc_first_percent :: bool
  sc_include_percent :: bool
  sc_start :: int
  sc_end :: int
  sc_return :: bool

definition scan_init :: scan where
  "scan_init = \<lparr>sc_state = INIT, sc_simple = True, sc_escapes = 0, sc_first_percent = False, sc_include_percent = False,
     sc_start = - 1, sc_end = - 1, sc_return = False\<rparr>"

fun scan_char :: "i8 \<Rightarrow> int \<Rightarrow> match_state \<Rightarrow> scan \<Rightarrow> scan" where
  "scan_char c i INIT sc =
     (if c = UNDERLINE then sc\<lparr>sc_simple := False, sc_return := True\<rparr>
      else if c = PERCENT then sc\<lparr>sc_simple := False, sc_first_percent := True, sc_state := START_WITH_PERCENT\<rparr>
      else if c = ESCAPE then sc\<lparr>sc_state := ESCAPING\<rparr>
      else sc\<lparr>sc_state := NORMAL\<rparr>)"
| "scan_char c i START_WITH_PERCENT sc =
     (if c = PERCENT then sc
      else if c = ESCAPE then sc\<lparr>sc_start := i, sc_escapes := sc_escapes sc + 1, sc_state := ESCAPING\<rparr>
      else sc\<lparr>sc_start := i, sc_state := NORMAL\<rparr>)"
| "scan_char c i ESCAPING sc = sc\<lparr>sc_state := NORMAL\<rparr>"
| "scan_char c i NORMAL sc =
     (if c = UNDERLINE then sc\<lparr>sc_simple := False\<rparr>
      else if c = PERCENT then sc\<lparr>sc_simple := False, sc_end := i - 1, sc_state := END_WITH_PERCENT\<rparr>
      else if c = ESCAPE then sc\<lparr>sc_escapes := sc_escapes sc + 1, sc_state := ESCAPING\<rparr>
      else sc)"
| "scan_char c i END_WITH_PERCENT sc =
     (if c = PERCENT then sc
      else if c = ESCAPE then sc\<lparr>sc_include_percent := True, sc_state := ESCAPING\<rparr>
      else sc\<lparr>sc_include_percent := True, sc_state := NORMAL\<rparr>)"

fun scan_loop :: "i8 list \<Rightarrow> int \<Rightarrow> nat \<Rightarrow> scan \<Rightarrow> scan option" where
  "scan_loop pat i 0 sc = Some sc"
| "scan_loop pat i (Suc n) sc =
     (if sc_return sc then Some sc
      else do {
        c \<leftarrow> char_at pat i;
        scan_loop pat (i + 1) n (scan_char c i (sc_state sc) sc)
      })"

record opt =
  is_simple_pattern :: bool
  is_special_pattern :: bool
  opt_start :: int
  opt_end :: int
  opt_real_len :: int
  all_percent :: bool

definition scan_result :: "scan \<Rightarrow> opt" where
  "scan_result sc =
     (if sc_return sc
      then \<lparr>is_simple_pattern = sc_simple sc, is_special_pattern = False, opt_start = sc_start sc, opt_end = sc_end sc,
             opt_real_len = 0, all_percent = False\<rparr>
      else
        let special = (sc_first_percent sc \<and> sc_state sc = END_WITH_PERCENT \<and> \<not> sc_include_percent sc)
        in \<lparr>is_simple_pattern = sc_simple sc, is_special_pattern = special, opt_start = sc_start sc, opt_end = sc_end sc,
             opt_real_len = (if special then sc_end sc - sc_start sc + 1 - sc_escapes sc else 0),
             all_percent = (sc_state sc = START_WITH_PERCENT)\<rparr>)"

definition check_if_do_opt :: "i8 list \<Rightarrow> int \<Rightarrow> opt option" where
  "check_if_do_opt pat len = map_option scan_result (scan_loop pat 0 (nat len) scan_init)"

section \<open>LIKE: matching\<close>

function str_cmp :: "i8 list \<Rightarrow> int \<Rightarrow> i8 list \<Rightarrow> int \<Rightarrow> int \<Rightarrow> int \<Rightarrow> bool option" where
  "str_cmp txt len1 pat len2 j k =
     (if k < len2
      then if j \<ge> len1 then Some False
      else do {
        p \<leftarrow> char_at pat k;
        if p = ESCAPE
        then if k = len2 - 1
          then do {
            t \<leftarrow> char_at txt j;
            Some (t = ESCAPE \<and> j = len1 - 1)
          }
          else do {
            p \<leftarrow> char_at pat (k + 1);
            t \<leftarrow> char_at txt j;
            if p = t then str_cmp txt len1 pat len2 (j + 1) (k + 2) else Some False
          }
        else do {
          t \<leftarrow> char_at txt j;
          if p = t then str_cmp txt len1 pat len2 (j + 1) (k + 1) else Some False
        }
      }
      else Some (k = len2 \<and> j = len1))"
  by pat_completeness auto
termination
  by (relation "measure (\<lambda>(txt, len1, pat, len2, j, k). nat (len2 - k))") auto

text \<open>
  \<^verbatim>\<open>is_str_equals(text + base, len1, pattern + off, len2)\<close>, from \<^verbatim>\<open>p1\<close> and \<^verbatim>\<open>p2\<close> on; whether it returns a pointer.
\<close>

function is_str_equals :: "i8 list \<Rightarrow> int \<Rightarrow> int \<Rightarrow> i8 list \<Rightarrow> int \<Rightarrow> int \<Rightarrow> int \<Rightarrow> int \<Rightarrow> bool option" where
  "is_str_equals txt base len1 pat off len2 p1 p2 =
     (if p2 < len2
      then do {
        p \<leftarrow> char_at pat (off + p2);
        if p = ESCAPE
        then if p2 = len2 - 1
          then do {
            t \<leftarrow> char_at txt (base + p1);
            Some (t = ESCAPE \<and> p1 = len1 - 1)
          }
          else do {
            t \<leftarrow> char_at txt (base + p1);
            p \<leftarrow> char_at pat (off + p2 + 1);
            if t = p then is_str_equals txt base len1 pat off len2 (p1 + 1) (p2 + 2) else Some False
          }
        else if p = UNDERLINE then is_str_equals txt base len1 pat off len2 (p1 + 1) (p2 + 1)
        else do {
          t \<leftarrow> char_at txt (base + p1);
          if p = t then is_str_equals txt base len1 pat off len2 (p1 + 1) (p2 + 1) else Some False
        }
      }
      else Some (p2 = len2 \<and> p1 = len1))"
  by pat_completeness auto
termination
  by (relation "measure (\<lambda>(txt, base, len1, pat, off, len2, p1, p2). nat (len2 - p2))") auto

text \<open>\<^verbatim>\<open>my_strstr\<close> on the text from \<open>base\<close> on, forward with \<open>n\<close> positions to go, or at the end only.\<close>

fun strstr_loop :: "i8 list \<Rightarrow> int \<Rightarrow> nat \<Rightarrow> i8 list \<Rightarrow> int \<Rightarrow> int \<Rightarrow> int \<Rightarrow> bool option" where
  "strstr_loop txt base 0 pat off len2 real_len = Some False"
| "strstr_loop txt base (Suc n) pat off len2 real_len = do {
     found \<leftarrow> is_str_equals txt base real_len pat off len2 0 0;
     if found then Some True else strstr_loop txt (base + 1) n pat off len2 real_len
   }"

definition my_strstr :: "i8 list \<Rightarrow> int \<Rightarrow> int \<Rightarrow> i8 list \<Rightarrow> int \<Rightarrow> int \<Rightarrow> int \<Rightarrow> bool \<Rightarrow> bool option" where
  "my_strstr txt base len1 pat off len2 real_len forward =
     (if forward then strstr_loop txt base (nat (len1 - real_len + 1)) pat off len2 real_len
      else is_str_equals txt (base + len1 - real_len) real_len pat off len2 0 0)"

text \<open>The search for the next wildcard: its place, the number of escapes on the way, and \<^verbatim>\<open>last_star\<close>.\<close>

function find_percent :: "i8 list \<Rightarrow> int \<Rightarrow> int \<Rightarrow> int \<Rightarrow> (int \<times> int \<times> bool) option" where
  "find_percent pat len2 p3 escapes =
     (if p3 < len2
      then do {
        p \<leftarrow> char_at pat p3;
        if p = ESCAPE
        then if p3 = len2 - 1 then Some (p3 + 1, escapes, False)
             else find_percent pat len2 (p3 + 2) (escapes + 1)
        else if p = PERCENT then Some (p3, escapes, p3 = len2 - 1)
        else find_percent pat len2 (p3 + 1) escapes
      }
      else Some (p3, escapes, False))"
  by pat_completeness auto
termination
  by (relation "measure (\<lambda>(pat, len2, p3, escapes). nat (len2 - p3))") auto

declare str_cmp.simps [simp del] is_str_equals.simps [simp del] find_percent.simps [simp del]

lemma find_percent_ge: "find_percent pat len2 p3 escapes = Some (q, e, l) \<Longrightarrow> p3 \<le> q"
proof (induction pat len2 p3 escapes rule: find_percent.induct)
  case (1 pat len2 p3 escapes)
  show ?case using 1(3) 1(1,2) by (subst (asm) find_percent.simps) (fastforce split: if_splits Option.bind_splits)
qed

text \<open>The main loop; it returns \<^verbatim>\<open>is_matched\<close>, \<^verbatim>\<open>p1\<close> and \<^verbatim>\<open>p2\<close>.\<close>

function like_loop :: "i8 list \<Rightarrow> int \<Rightarrow> i8 list \<Rightarrow> int \<Rightarrow> int \<Rightarrow> int \<Rightarrow> (bool \<times> int \<times> int) option" where
  "like_loop txt len1 pat len2 p1 p2 =
     (if p1 < len1 \<and> p2 < len2
      then do {
        p \<leftarrow> char_at pat p2;
        if p = ESCAPE
        then if p2 = len2 - 1
          then do {
            t \<leftarrow> char_at txt p1;
            if t = ESCAPE then like_loop txt len1 pat len2 (p1 + 1) (p2 + 1) else Some (False, p1, p2)
          }
          else do {
            t \<leftarrow> char_at txt p1;
            p \<leftarrow> char_at pat (p2 + 1);
            if t = p then like_loop txt len1 pat len2 (p1 + 1) (p2 + 2) else Some (False, p1, p2)
          }
        else if p = PERCENT
        then do {
          (p3, escapes, last_star) \<leftarrow> find_percent pat len2 (p2 + 1) 0;
          let literal_len = p3 - p2 - 1;
          let real_len = literal_len - escapes;
          if last_star \<and> literal_len = 0 then Some (True, p1, p2)
          else if p3 = len2
          then do {
            found \<leftarrow> my_strstr txt p1 (len1 - p1) pat (p2 + 1) literal_len real_len False;
            Some (found, p1, p2)
          }
          else do {
            found \<leftarrow> my_strstr txt p1 (len1 - p1) pat (p2 + 1) literal_len real_len True;
            if \<not> found then Some (False, p1, p2) else like_loop txt len1 pat len2 (p1 + literal_len) p3
          }
        }
        else if p = UNDERLINE then like_loop txt len1 pat len2 (p1 + 1) (p2 + 1)
        else do {
          t \<leftarrow> char_at txt p1;
          if t = p then like_loop txt len1 pat len2 (p1 + 1) (p2 + 1) else Some (False, p1, p2)
        }
      }
      else Some (False, p1, p2))"
  by pat_completeness auto
termination
  by (relation "measure (\<lambda>(txt, len1, pat, len2, p1, p2). nat (len2 - p2))") (auto dest: find_percent_ge)

text \<open>The loop over what is left of the pattern when the text is used up.\<close>

fun only_percent :: "i8 list \<Rightarrow> int \<Rightarrow> nat \<Rightarrow> bool option" where
  "only_percent pat i 0 = Some True"
| "only_percent pat i (Suc n) = do {
     c \<leftarrow> char_at pat i;
     if c \<noteq> PERCENT then Some False else only_percent pat (i + 1) n
   }"

text \<open>What \<^verbatim>\<open>is_matched\<close> does behind the main loop.\<close>

definition like_finish :: "i8 list \<Rightarrow> int \<Rightarrow> int \<Rightarrow> bool \<times> int \<times> int \<Rightarrow> bool option" where
  "like_finish pat len2 len1 = (\<lambda>(matched, p1, p2).
     if p1 = len1
     then if p2 = len2 then Some True
          else if p2 < len2
          then do {
            rest \<leftarrow> only_percent pat p2 (nat (len2 - p2));
            Some (matched \<or> rest)
          }
          else Some matched
     else Some matched)"

definition is_matched :: "i8 list \<Rightarrow> int \<Rightarrow> i8 list \<Rightarrow> int \<Rightarrow> bool option" where
  "is_matched pat len2 txt len1 = do {
     opt \<leftarrow> check_if_do_opt pat len2;
     if is_simple_pattern opt then str_cmp txt len1 pat len2 0 0
     else if is_special_pattern opt
     then my_strstr txt 0 len1 pat (opt_start opt) (opt_end opt - opt_start opt + 1) (opt_real_len opt) True
     else if all_percent opt then Some True
     else like_loop txt len1 pat len2 0 0 \<bind> like_finish pat len2 len1
   }"

declare like_loop.simps [simp del]

end
