(* ===== verification/Ob_String_Search_Laws.thy ===== *)
theory Ob_String_Search_Laws
  imports Ob_String_Search
begin

text \<open>
  The two searches find the first occurrence, and \<^verbatim>\<open>LIKE\<close> agrees with its meaning on the patterns of the common forms. Which
  reads leave the text is part of the statements: both searches look one byte behind the text unless they succeed.
\<close>

section \<open>The reference: the first occurrence\<close>

definition occurs :: "nat \<Rightarrow> i8 list \<Rightarrow> i8 list \<Rightarrow> nat \<Rightarrow> bool" where
  "occurs m p t i \<longleftrightarrow> take m (drop i t) = take m p"

definition first_occurrence :: "nat \<Rightarrow> i8 list \<Rightarrow> i8 list \<Rightarrow> nat \<Rightarrow> nat \<Rightarrow> nat option" where
  "first_occurrence m p t i n = find (occurs m p t) [i..<i + n]"

lemma first_occurrence_Suc:
  "first_occurrence m p t i (Suc n) = (if occurs m p t i then Some i else first_occurrence m p t (Suc i) n)"
proof -
  have "[i..<i + Suc n] = i # [Suc i..<Suc i + n]" by (simp add: upt_rec)
  then show ?thesis by (simp add: first_occurrence_def)
qed

lemma first_occurrence_0 [simp]: "first_occurrence m p t i 0 = None"
  by (simp add: first_occurrence_def)

lemma char_at_nth: "i < length m \<Longrightarrow> char_at m (int i) = Some (m ! i)"
  by (simp add: char_at_def)

lemma char_at_add: "i + j < length m \<Longrightarrow> char_at m (int i + int j) = Some (m ! (i + j))"
  using char_at_nth [of "i + j" m] by simp

section \<open>Prints\<close>

definition prints :: "i8 list \<Rightarrow> u64" where
  "prints xs = foldl add_print 0 xs"

lemma push_bit_4: "push_bit 4 p + p = 17 * (p :: u64)"
  by (simp add: push_bit_eq_mult)

lemma add_print_eq: "add_print p c = 17 * p + scast c"
  by (simp add: add_print_def push_bit_4)

lemma foldl_print: "foldl add_print p xs = p * 17 ^ length xs + prints xs"
proof (induction xs arbitrary: p)
  case (Cons c xs)
  show ?case unfolding prints_def foldl_Cons Cons [of "add_print p c"] Cons [of "add_print 0 c"]
    by (simp add: add_print_eq algebra_simps)
qed (simp add: prints_def)

lemma prints_roll: "17 * prints (c # xs) - scast c * 17 ^ Suc (length xs) + scast d = prints (xs @ [d])"
  using foldl_print [of "add_print 0 c" xs] by (simp add: prints_def add_print_eq algebra_simps)

lemma print_loop_fold: "i + n \<le> length pat \<Longrightarrow> print_loop pat (int i) n p = Some (foldl add_print p (take n (drop i pat)))"
proof (induction n arbitrary: i p)
  case (Suc n)
  then have "take (Suc n) (drop i pat) = pat ! i # take n (drop (Suc i) pat)" by (simp add: take_Suc_conv_app_nth Cons_nth_drop_Suc [symmetric])
  then show ?case using Suc.IH [of "Suc i"] Suc.prems by (simp add: char_at_nth add.commute)
qed simp

lemma take_drop_Suc: "i < length xs \<Longrightarrow> take (Suc n) (drop i xs) = xs ! i # take n (drop (Suc i) xs)"
  by (simp add: Cons_nth_drop_Suc [symmetric])

lemma take_drop_roll: "i + m < length xs \<Longrightarrow> take m (drop (Suc i) xs) = (if m = 0 then [] else take (m - 1) (drop (Suc i) xs) @ [xs ! (i + m)])"
  by (cases m) (simp_all add: take_Suc_conv_app_nth)

section \<open>The Karp-Rabin search\<close>

lemma kr_init2_loop_eq:
  assumes "i + n \<le> length p"
  shows "kr_init2_loop p t (int i) n tp pp sh =
    (if i + n \<le> length t \<or> n = 0
     then Some (foldl add_print tp (take n (drop i t)), foldl add_print pp (take n (drop i p)), sh * 17 ^ n) else None)"
  using assms
proof (induction n arbitrary: i tp pp sh)
  case (Suc n)
  have s: "int i + 1 = int (Suc i)" by simp
  show ?case
  proof (cases "i < length t")
    case True
    then show ?thesis
      using Suc.IH [of "Suc i"] Suc.prems unfolding kr_init2_loop.simps s
      by (auto simp: char_at_nth take_drop_Suc push_bit_4 mult_ac)
  qed (simp add: char_at_def)
qed simp

lemma kr_init_loop_eq:
  "kr_init_loop t (int i) n tp sh =
    (if i + n \<le> length t \<or> n = 0 then Some (foldl add_print tp (take n (drop i t)), sh * 17 ^ n) else None)"
proof (induction n arbitrary: i tp sh)
  case (Suc n)
  have s: "int i + 1 = int (Suc i)" by simp
  show ?case
  proof (cases "i < length t")
    case True
    then show ?thesis
      using Suc.IH [of "Suc i"] unfolding kr_init_loop.simps s
      by (auto simp: char_at_nth take_drop_Suc push_bit_4 mult_ac)
  qed (simp add: char_at_def)
qed simp

text \<open>
  Every window inside the text: the print of the window is that of its characters, so the first window equal to the
  pattern is found. Behind the last window one more byte is read.
\<close>

lemma kr_loop_first:
  assumes "0 < m" "m \<le> length p" "i + n + m \<le> Suc (length t)"
  shows "kr_loop p m (prints (take m p)) (17 ^ m) t (int i) n (prints (take m (drop i t))) =
    (case first_occurrence m p t i n of
       Some j \<Rightarrow> Some (int j)
     | None \<Rightarrow> if n = 0 \<or> i + n + m \<le> length t then Some (- 1) else None)"
  using assms(3)
proof (induction n arbitrary: i)
  case (Suc n)
  have w: "i + m \<le> length t" using Suc.prems by simp
  have e: "mem_equal p 0 t (int i) m = Some (occurs m p t i)"
    using w assms(2) by (auto simp: mem_equal_def occurs_def)
  have f: "(if prints (take m p) = prints (take m (drop i t)) then mem_equal p 0 t (int i) m else Some False) = Some (occurs m p t i)"
    unfolding e by (auto simp: occurs_def)
  obtain k where k: "m = Suc k" using assms(1) by (cases m) auto
  have c: "char_at t (int i) = Some (t ! i)" using w k by (intro char_at_nth) simp
  show ?case
  proof (cases "occurs m p t i")
    case True
    then show ?thesis using f by (simp add: first_occurrence_Suc)
  next
    case o: False
    show ?thesis
    proof (cases "i + m < length t")
      case True
      have "push_bit 4 (prints (take m (drop i t))) + prints (take m (drop i t)) - scast (t ! i) * 17 ^ m + scast (t ! (i + m)) =
          prints (take m (drop (Suc i) t))"
        using prints_roll [of "t ! i" "take k (drop (Suc i) t)" "t ! (i + m)"] True k take_drop_roll [OF True] take_drop_Suc [of i t k]
        by (simp add: push_bit_4)
      then show ?thesis
        using Suc.IH [of "Suc i"] Suc.prems o f c char_at_add [OF True] True by (simp add: first_occurrence_Suc add.commute)
    next
      case False
      then have "n = 0" "char_at t (int i + int m) = None" using Suc.prems by (auto simp: char_at_def)
      then show ?thesis using o f c False by (simp add: first_occurrence_Suc)
    qed
  qed
qed simp

text \<open>
  C29: the Karp-Rabin search returns the place of the first occurrence of the pattern, or -1, whatever prints collide, and the
  variant that is given the pattern's print does the same. Exactly when there is no occurrence and the memory ends with the text (or,
  for a pattern longer than the text, before the pattern's length) it reads outside the memory.
\<close>
theorem kr_search_first:
  assumes "0 < m" "m \<le> length p" "0 < len" "len \<le> length t"
  shows "kr_search (Some p) (int m) (Some t) (int len) =
      (case first_occurrence m p t 0 (Suc len - m) of
         Some j \<Rightarrow> Some (int j)
       | None \<Rightarrow> if max (Suc len) m \<le> length t then Some (- 1) else None) \<and>
    Option.bind (cal_print (Some p) (int m)) (\<lambda>pat_print. kr_search_print (Some p) (int m) pat_print (Some t) (int len)) =
      kr_search (Some p) (int m) (Some t) (int len)"
proof -
  have n: "nat (int len - int m + 1) = Suc len - m" by simp
  have c: "cal_print (Some p) (int m) = Some (prints (take m p))"
    using print_loop_fold [of 0 m p 0] assms(1,2) by (simp add: cal_print_def prints_def)
  have i: "kr_init_loop t 0 m 0 1 = (if m \<le> length t then Some (prints (take m t), 17 ^ m) else None)"
    "kr_init2_loop p t 0 m 0 0 1 = (if m \<le> length t then Some (prints (take m t), prints (take m p), 17 ^ m) else None)"
    using kr_init_loop_eq [of t 0 m 0 1] kr_init2_loop_eq [of 0 m p t 0 0 1] assms(1,2) by (simp_all add: prints_def)
  have e: "kr_search (Some p) (int m) (Some t) (int len) =
      (case first_occurrence m p t 0 (Suc len - m) of
         Some j \<Rightarrow> Some (int j)
       | None \<Rightarrow> if max (Suc len) m \<le> length t then Some (- 1) else None)"
  proof (cases "m \<le> len")
    case True
    then show ?thesis
      using kr_loop_first [OF assms(1,2), of 0 "Suc len - m" t] i assms by (auto simp: kr_search_def n)
  next
    case False
    then show ?thesis using i assms by (auto simp: kr_search_def n)
  qed
  show ?thesis unfolding e [symmetric] using c i assms by (simp add: kr_search_def kr_search_print_def)
qed

definition text_of :: "int list \<Rightarrow> i8 list" where
  "text_of xs = map word_of_int xs"

theorem kr_search_first_witness:
  "kr_search (Some (text_of [2, 1])) 2 (Some (text_of [1, 2, 2, 1, 0])) 4 = Some 2 \<and>
   kr_search (Some (text_of [3])) 1 (Some (text_of [1, 2])) 2 = None"
proof -
  have "first_occurrence 2 (text_of [2, 1]) (text_of [1, 2, 2, 1, 0]) 0 3 = Some 2" "length (text_of [2, 1]) = 2"
    "length (text_of [1, 2, 2, 1, 0]) = 5" "first_occurrence 1 (text_of [3]) (text_of [1, 2]) 0 2 = None" "length (text_of [3]) = 1"
    "length (text_of [1, 2]) = 2"
    by code_simp+
  then show ?thesis
    using kr_search_first [of 2 "text_of [2, 1]" 4 "text_of [1, 2, 2, 1, 0]"] kr_search_first [of 1 "text_of [3]" 2 "text_of [1, 2]"] by simp
qed

section \<open>The fast search\<close>

lemma char_bit_nonzero: "char_bit c \<noteq> 0"
proof -
  have "c AND 0x1F = take_bit 5 c" by (simp add: take_bit_eq_mask mask_eq_exp_minus_1)
  then have "unat (c AND 0x1F) < 32" using take_bit_nat_less_exp [of 5 "unat c"] by (simp add: unsigned_take_bit_eq)
  then have "bit (char_bit c) (unat (c AND 0x1F))"
    by (simp add: char_bit_def bit_simps bit_signed_take_bit_iff)
  then show ?thesis by auto
qed

text \<open>The mask has the bit of every character it was built from.\<close>

definition masks :: "i64 \<Rightarrow> i8 set \<Rightarrow> bool" where
  "masks b S \<longleftrightarrow> (\<forall>c\<in>S. char_bit c AND b = char_bit c)"

lemma masks_or: "masks b S \<Longrightarrow> masks (b OR char_bit c) (insert c S)"
  by (auto simp: masks_def bit_eq_iff bit_simps)

lemma masks_absent: "masks b S \<Longrightarrow> b AND char_bit c = 0 \<Longrightarrow> c \<notin> S"
  using char_bit_nonzero [of c] by (auto simp: masks_def and.commute)

text \<open>
  The skip is small enough: no character of the pattern that it jumps over equals the last one.
\<close>

definition skips :: "i8 list \<Rightarrow> nat \<Rightarrow> nat \<Rightarrow> nat \<Rightarrow> bool" where
  "skips p mlast s i \<longleftrightarrow> (\<forall>j<i. mlast \<le> j + s \<longrightarrow> p ! j \<noteq> p ! mlast)"

lemma delta_loop_spec:
  assumes "i + n = mlast" "mlast < length p" "masks b (set (take i p))" "skips p mlast s i" "s < mlast"
  shows "\<exists>b' s'. delta_loop p (int mlast) (int i) n b (int s) = Some (b', int s') \<and> masks b' (set (take mlast p)) \<and>
    skips p mlast s' mlast \<and> s' < mlast"
  using assms
proof (induction n arbitrary: i b s)
  case 0
  then show ?case by auto
next
  case (Suc n)
  have i: "Suc i + n = mlast" "i < length p" "int i + 1 = int (Suc i)" using Suc.prems by auto
  have m: "masks (b OR char_bit (p ! i)) (set (take (Suc i) p))"
    using masks_or [OF Suc.prems(3), of "p ! i"] i(2) by (simp add: take_Suc_conv_app_nth)
  have s: "skips p mlast (if p ! i = p ! mlast then mlast - i - 1 else s) (Suc i)"
    using Suc.prems(1,4) by (auto simp: skips_def less_Suc_eq)
  have l: "(if p ! i = p ! mlast then mlast - i - 1 else s) < mlast" using Suc.prems(5) by simp
  have e: "(if p ! i = p ! mlast then int mlast - int i - 1 else int s) = int (if p ! i = p ! mlast then mlast - i - 1 else s)"
    using Suc.prems(1) by auto
  show ?case
    using Suc.IH [OF i(1) Suc.prems(2) m s l] i(2) Suc.prems(2) unfolding delta_loop.simps i(3)
    by (simp only: char_at_nth Option.bind_lunit e)
qed

lemma occurs_iff:
  assumes "i + m \<le> length t" "m \<le> length p"
  shows "occurs m p t i \<longleftrightarrow> (\<forall>k<m. t ! (i + k) = p ! k)"
  using assms by (auto simp: occurs_def list_eq_iff_nth_eq)

lemma candidate_loop_eq:
  assumes "i + j + n \<le> length t" "j + n \<le> length p"
  shows "candidate_loop p t (int i) (int j) n = Some (\<forall>k<n. t ! (i + j + k) = p ! (j + k))"
  using assms
proof (induction n arbitrary: j)
  case (Suc n)
  have "(\<forall>k<Suc n. t ! (i + j + k) = p ! (j + k)) \<longleftrightarrow> t ! (i + j) = p ! j \<and> (\<forall>k<n. t ! (i + Suc j + k) = p ! (Suc j + k))"
    by (auto simp: less_Suc_eq_0_disj)
  then show ?case using Suc.IH [of "Suc j"] Suc.prems by (simp add: char_at_nth char_at_add add.commute)
qed simp

lemma first_occurrence_iff:
  assumes "\<forall>j<i. \<not> occurs m p t j"
  shows "i \<le> w \<Longrightarrow> occurs m p t i \<Longrightarrow> first_occurrence m p t 0 (Suc w) = Some i"
    "w < i \<Longrightarrow> first_occurrence m p t 0 (Suc w) = None"
proof -
  show "first_occurrence m p t 0 (Suc w) = Some i" if "i \<le> w" "occurs m p t i"
  proof -
    have "[0..<Suc w] = [0..<i] @ i # [Suc i..<Suc w]" using upt_add_eq_append [of 0 i "Suc w - i"] that(1) by (simp add: upt_conv_Cons del: upt_Suc)
    moreover have "find (occurs m p t) (xs @ ys) = find (occurs m p t) ys" if "\<forall>x\<in>set xs. \<not> occurs m p t x" for xs ys
      using that by (induction xs) auto
    ultimately show ?thesis using assms that(2) by (simp add: first_occurrence_def del: upt_Suc)
  qed
  show "w < i \<Longrightarrow> first_occurrence m p t 0 (Suc w) = None"
    using assms by (simp add: first_occurrence_def find_None_iff del: upt_Suc)
qed

text \<open>What rules out the places that are jumped over.\<close>

lemma no_occurrence_mask:
  assumes "masks b (set (take m p))" "b AND char_bit (t ! (i + m)) = 0" "m \<le> length p" "i < j" "j \<le> i + m" "i + m < length t" "0 < m"
  shows "\<not> occurs m p t j"
proof
  assume "occurs m p t j"
  then have e: "take m (drop j t) = take m p" by (simp add: occurs_def)
  have "t ! (i + m) = take m (drop j t) ! (i + m - j)" using assms(4-7) by simp
  moreover have "i + m - j < length (take m p)" using assms(3-5,7) by auto
  ultimately have "t ! (i + m) \<in> set (take m p)" unfolding e by (metis nth_mem)
  then show False using masks_absent [OF assms(1,2)] by simp
qed

lemma no_occurrence_skip:
  assumes "skips p (m - 1) s (m - 1)" "t ! (i + m - 1) = p ! (m - 1)" "i < j" "j \<le> i + s" "j < i + m" "m \<le> length p"
  shows "\<not> occurs m p t j"
proof
  assume o: "occurs m p t j"
  then have "length (take m (drop j t)) = m" using assms(6) by (simp add: occurs_def)
  then have l: "j + m \<le> length t" using assms(3,5) by auto
  have "i + m - 1 - j < m" using assms(3,5) by auto
  with o have "t ! (j + (i + m - 1 - j)) = p ! (i + m - 1 - j)" using occurs_iff [OF l assms(6)] by blast
  then have "p ! (i + m - 1 - j) = p ! (m - 1)" using assms(2,3,5) by simp
  moreover have "i + m - 1 - j < m - 1" "m - 1 \<le> i + m - 1 - j + s" using assms(3-5) by auto
  ultimately show False using assms(1) by (auto simp: skips_def)
qed

lemma fast_loop_first:
  assumes "1 < m" "m \<le> length p" "w + m \<le> length t" "masks b (set (take m p))" "skips p (m - 1) s (m - 1)" "s < m"
    and "w + m < length t \<or> (\<exists>j\<le>w. occurs m p t j)" "\<forall>j<i. \<not> occurs m p t j"
  shows "fast_loop p m b s t (int w) (int i) = Some (case first_occurrence m p t 0 (Suc w) of Some j \<Rightarrow> int j | None \<Rightarrow> - 1)"
  using assms(8)
proof (induction "Suc w - i" arbitrary: i rule: less_induct)
  case less
  show ?case
  proof (cases "i \<le> w")
    case False
    then show ?thesis using first_occurrence_iff(2) [OF less.prems, of w] by (simp add: fast_loop.simps)
  next
    case True
    have c: "char_at t (int i + int m - 1) = Some (t ! (i + m - 1))" "char_at p (int m - 1) = Some (p ! (m - 1))"
      using char_at_nth [of "i + m - 1" t] char_at_nth [of "m - 1" p] assms(1-3) True by (simp_all add: of_nat_diff)
    have cl: "candidate_loop p t (int i) 0 (m - 1) = Some (\<forall>k<m - 1. t ! (i + k) = p ! k)"
      using candidate_loop_eq [of i 0 "m - 1" t p] assms(1-3) True by simp
    have o: "occurs m p t i \<longleftrightarrow> t ! (i + m - 1) = p ! (m - 1) \<and> (\<forall>k<m - 1. t ! (i + k) = p ! k)"
    proof -
      obtain k where "m = Suc k" using assms(1) by (cases m) auto
      then show ?thesis using occurs_iff [of i m t p] assms(2,3) True by (auto simp: less_Suc_eq)
    qed
    show ?thesis
    proof (cases "occurs m p t i")
      case f: True
      then show ?thesis using first_occurrence_iff(1) [OF less.prems True f] c cl o True by (subst fast_loop.simps) simp
    next
      case False
      have r: "i + m < length t"
        using assms(3,7) True less.prems False by (metis add_le_cancel_right less_le_trans linorder_neqE_nat not_le add_less_cancel_right order_le_less)
      have d: "char_at t (int i + int m) = Some (t ! (i + m))" by (rule char_at_add [OF r])
      have none: "\<forall>j<i + 1. \<not> occurs m p t j" using less.prems False by (auto simp: less_Suc_eq)
      have j1: "\<forall>j<i + m + 1. \<not> occurs m p t j" if "b AND char_bit (t ! (i + m)) = 0"
        using no_occurrence_mask [OF assms(4) that assms(2)] none r assms(1) by (metis Suc_eq_plus1 less_Suc_eq_le not_less not_less_eq order_less_trans zero_less_one)
      have j2: "\<forall>j<i + s + 1. \<not> occurs m p t j" if "t ! (i + m - 1) = p ! (m - 1)"
      proof (intro allI impI)
        fix j assume "j < i + s + 1"
        then show "\<not> occurs m p t j"
          using no_occurrence_skip [OF assms(5) that, of j] none assms(2,6) by (cases "j < i + 1") auto
      qed
      let ?r = "Some (case first_occurrence m p t 0 (Suc w) of Some j \<Rightarrow> int j | None \<Rightarrow> - 1)"
      have ih: "fast_loop p m b s t (int w) (int (i + k + 1)) = ?r" if "\<forall>j<i + k + 1. \<not> occurs m p t j" for k
        using less.hyps [of "i + k + 1"] that True by simp
      have s: "b AND char_bit (t ! (i + m)) = 0 \<Longrightarrow> fast_loop p m b s t (int w) (int i + int m + 1) = ?r"
        "t ! (i + m - 1) = p ! (m - 1) \<Longrightarrow> fast_loop p m b s t (int w) (int i + int s + 1) = ?r"
        "fast_loop p m b s t (int w) (int i + 1) = ?r"
        using ih [OF j1] ih [OF j2] ih [of 0] none by (simp_all add: add.commute)
      show ?thesis using c cl d o s True False by (subst fast_loop.simps) auto
    qed
  qed
qed

text \<open>
  C28: the fast search, which skips ahead by a mask of the pattern's characters, returns the place of the first occurrence, or -1;
  it needs the byte behind the text to be readable unless there is an occurrence.
\<close>
theorem fast_search_first:
  assumes "0 < m" "m \<le> length p" "0 < len" "len \<le> length t"
    and "len < length t \<or> first_occurrence m p t 0 (Suc len - m) \<noteq> None"
  shows "fast_search (Some p) (int m) (Some t) (int len) =
    Some (case first_occurrence m p t 0 (Suc len - m) of Some j \<Rightarrow> int j | None \<Rightarrow> - 1)"
proof -
  consider "len < m" | "m \<le> len" "m = 1" | "m \<le> len" "1 < m" using assms(1) by linarith
  then show ?thesis
  proof cases
    case 1
    then show ?thesis using assms by (simp add: fast_search_def)
  next
    case 2
    have f: "find_char t (int i) n c = Some (case find (\<lambda>j. t ! j = c) [i..<i + n] of Some j \<Rightarrow> int j | None \<Rightarrow> - 1)"
      if "i + n \<le> length t" for i n c
      using that
    proof (induction n arbitrary: i)
      case (Suc n)
      have "[i..<i + Suc n] = i # [Suc i..<Suc i + n]" by (simp add: upt_rec)
      then show ?case using Suc.IH [of "Suc i"] Suc.prems by (simp add: char_at_nth add.commute)
    qed simp
    have "find (occurs 1 p t) [0..<len] = find (\<lambda>j. t ! j = p ! 0) [0..<len]"
      using occurs_iff [of _ 1 t p] assms 2(2) by (intro find_cong) auto
    moreover have "char_at p 0 = Some (p ! 0)" using char_at_nth [of 0 p] assms(1,2) by fastforce
    ultimately show ?thesis
      using f [of 0 len "p ! 0"] assms 2 by (simp add: fast_search_def first_occurrence_def)
  next
    case 3
    have "m - 1 < length p" "m - 2 < m - 1" "masks 0 (set (take 0 p))" "skips p (m - 1) (m - 2) 0"
      using assms(2) 3(2) by (auto simp: masks_def skips_def)
    then obtain b s where d: "delta_loop p (int (m - 1)) 0 (m - 1) 0 (int (m - 2)) = Some (b, int s)" "masks b (set (take (m - 1) p))"
      "skips p (m - 1) s (m - 1)" "s < m - 1"
      using delta_loop_spec [of 0 "m - 1" "m - 1" p 0 "m - 2"] by auto
    have b: "masks (b OR char_bit (p ! (m - 1))) (set (take m p))"
      using masks_or [OF d(2), of "p ! (m - 1)"] take_Suc_conv_app_nth [of "m - 1" p] assms by simp
    have o: "len - m + m < length t \<or> (\<exists>j\<le>len - m. occurs m p t j)"
      using assms(5) 3(1) by (auto simp: first_occurrence_def find_None_iff less_Suc_eq_le Suc_diff_le)
    have i: "int (m - 1) = int m - 1" "int (m - 2) = int m - 1 - 1" "m - 1 = nat (int m - 1)" using 3(2) by auto
    have d': "delta_loop p (int m - 1) 0 (nat (int m - 1)) 0 (int m - 1 - 1) = Some (b, int s)" using d(1) unfolding i(1,2) by (simp only: i(3))
    have l: "char_at p (int m - 1) = Some (p ! (m - 1))" using char_at_nth [of "m - 1" p] assms(1,2) by (simp add: i(1))
    have g: "\<not> (0 \<ge> int m \<or> 0 \<ge> int len)" "\<not> int len - int m < 0" "\<not> int m \<le> 1" using assms(1,3) 3 by auto
    have f: "fast_search (Some p) (int m) (Some t) (int len) = fast_loop p m (b OR char_bit (p ! (m - 1))) s t (int len - int m) 0"
      unfolding fast_search_def Let_def by (simp only: prod.case option.case g if_False d' Option.bind_lunit l nat_int)
    have k: "int len - int m = int (len - m)" "Suc len - m = Suc (len - m)" "len - m + m \<le> length t" "s < m" using 3(1) assms(4) d(4) by auto
    have z: "\<forall>j<0. \<not> occurs m p t j" by simp
    show ?thesis unfolding f k(1,2) by (rule fast_loop_first [OF 3(2) assms(2) k(3) b d(3) k(4) o z, unfolded semiring_1_class.of_nat_0])
  qed
qed

theorem fast_search_first_witness:
  "fast_search (Some (text_of [2, 1, 2])) 3 (Some (text_of [1, 2, 2, 1, 2])) 5 = Some 2"
proof -
  have "first_occurrence 3 (text_of [2, 1, 2]) (text_of [1, 2, 2, 1, 2]) 0 3 = Some 2" "length (text_of [2, 1, 2]) = 3"
    "length (text_of [1, 2, 2, 1, 2]) = 5" by code_simp+
  then show ?thesis using fast_search_first [of 3 "text_of [2, 1, 2]" 5 "text_of [1, 2, 2, 1, 2]"] by simp
qed

end
