(* ===== verification/Ob_String_Like.thy ===== *)
theory Ob_String_Like
  imports Ob_String_Search_Laws
begin

text \<open>
  The meaning of \<^verbatim>\<open>LIKE\<close> patterns, and that \<^verbatim>\<open>ObStringSearch::is_matched\<close> computes it for the patterns without \<^verbatim>\<open>%\<close>, with one
  \<^verbatim>\<open>%\<close>, and of the form \<^verbatim>\<open>%...%\<close>. A pattern is the text of a list of atoms; the ones that end in an open escape are left out.
\<close>

section \<open>Patterns\<close>

lemma special_chars: "UNDERLINE \<noteq> ESCAPE" "UNDERLINE \<noteq> PERCENT" "PERCENT \<noteq> ESCAPE" "ESCAPE \<noteq> PERCENT" "ESCAPE \<noteq> UNDERLINE" "PERCENT \<noteq> UNDERLINE"
  by simp_all

datatype like_atom = Plain i8 | Escaped i8 | One | Many

primrec atom_chars :: "like_atom \<Rightarrow> i8 list" where
  "atom_chars (Plain c) = [c]"
| "atom_chars (Escaped c) = [ESCAPE, c]"
| "atom_chars One = [UNDERLINE]"
| "atom_chars Many = [PERCENT]"

primrec atom_ok :: "like_atom \<Rightarrow> bool" where
  "atom_ok (Plain c) \<longleftrightarrow> c \<noteq> ESCAPE \<and> c \<noteq> UNDERLINE \<and> c \<noteq> PERCENT"
| "atom_ok (Escaped c) \<longleftrightarrow> True"
| "atom_ok One \<longleftrightarrow> True"
| "atom_ok Many \<longleftrightarrow> True"

definition pattern_of :: "like_atom list \<Rightarrow> i8 list" where
  "pattern_of as = concat (map atom_chars as)"

lemma pattern_of_simps [simp]:
  "pattern_of [] = []" "pattern_of (a # as) = atom_chars a @ pattern_of as" "pattern_of (as @ bs) = pattern_of as @ pattern_of bs"
  by (simp_all add: pattern_of_def)

section \<open>The reference\<close>

primrec atom_char :: "like_atom \<Rightarrow> i8 \<Rightarrow> bool" where
  "atom_char (Plain c) x \<longleftrightarrow> x = c"
| "atom_char (Escaped c) x \<longleftrightarrow> x = c"
| "atom_char One x \<longleftrightarrow> True"
| "atom_char Many x \<longleftrightarrow> False"

fun like_match :: "like_atom list \<Rightarrow> i8 list \<Rightarrow> bool" where
  "like_match [] t \<longleftrightarrow> t = []"
| "like_match (Many # as) [] \<longleftrightarrow> like_match as []"
| "like_match (Many # as) (x # t) \<longleftrightarrow> like_match as (x # t) \<or> like_match (Many # as) t"
| "like_match (a # as) [] \<longleftrightarrow> False"
| "like_match (a # as) (x # t) \<longleftrightarrow> atom_char a x \<and> like_match as t"

text \<open>A piece without \<^verbatim>\<open>%\<close> matches as many characters as it has atoms.\<close>

definition free :: "like_atom list \<Rightarrow> bool" where
  "free as \<longleftrightarrow> Many \<notin> set as \<and> list_all atom_ok as"

lemma free_simps [simp]: "free []" "free (a # as) \<longleftrightarrow> a \<noteq> Many \<and> atom_ok a \<and> free as"
  by (auto simp: free_def)

definition matches_at :: "like_atom list \<Rightarrow> i8 list \<Rightarrow> nat \<Rightarrow> bool" where
  "matches_at as t i \<longleftrightarrow> i + length as \<le> length t \<and> list_all2 atom_char as (take (length as) (drop i t))"

lemma matches_at_simps [simp]:
  "matches_at [] t i \<longleftrightarrow> i \<le> length t"
  "matches_at (a # as) t i \<longleftrightarrow> i < length t \<and> atom_char a (t ! i) \<and> matches_at as t (Suc i)"
  by (auto simp: matches_at_def take_drop_Suc)

lemma like_match_free: "free as \<Longrightarrow> like_match (as @ bs) t \<longleftrightarrow> matches_at as t 0 \<and> like_match bs (drop (length as) t)"
proof (induction as arbitrary: t)
  case (Cons a as)
  have m: "matches_at as (x # xs) (Suc 0) = matches_at as xs 0" for x xs by (simp add: matches_at_def)
  show ?case using Cons by (cases t; cases a) (simp_all add: m)
qed simp

lemma like_match_many: "like_match (Many # as) t \<longleftrightarrow> (\<exists>i\<le>length t. like_match as (drop i t))"
proof (induction t)
  case (Cons x t)
  have "(\<exists>i\<le>length (x # t). like_match as (drop i (x # t))) \<longleftrightarrow> like_match as (x # t) \<or> (\<exists>i\<le>length t. like_match as (drop i t))"
    unfolding less_Suc_eq_le [symmetric] by (simp add: Ex_less_Suc2 del: less_Suc_eq_le)
  then show ?case using Cons by simp
qed simp

lemma like_match_one_percent:
  assumes "free pre" "free suf"
  shows "like_match (pre @ Many # suf) t \<longleftrightarrow>
    length pre + length suf \<le> length t \<and> matches_at pre t 0 \<and> matches_at suf t (length t - length suf)"
proof -
  have e: "like_match suf (drop i u) \<longleftrightarrow> length u = i + length suf \<and> matches_at suf u i" if "i \<le> length u" for i u
    using that like_match_free [OF assms(2), of "[]" "drop i u"] by (auto simp: matches_at_def)
  have m: "like_match (Many # suf) u \<longleftrightarrow> length suf \<le> length u \<and> matches_at suf u (length u - length suf)" for u
    unfolding like_match_many
  proof
    assume "\<exists>i\<le>length u. like_match suf (drop i u)"
    then obtain i where "i \<le> length u" "like_match suf (drop i u)" by blast
    then show "length suf \<le> length u \<and> matches_at suf u (length u - length suf)" using e [of i u] by simp
  next
    assume "length suf \<le> length u \<and> matches_at suf u (length u - length suf)"
    then show "\<exists>i\<le>length u. like_match suf (drop i u)" using e [of "length u - length suf" u] by (metis add.commute diff_le_self le_add_diff_inverse)
  qed
  let ?u = "drop (length pre) t"
  have "matches_at suf ?u (length ?u - length suf) \<longleftrightarrow> matches_at suf t (length t - length suf)" if "length pre + length suf \<le> length t"
  proof -
    have "length pre + (length t - length pre - length suf) = length t - length suf" using that by simp
    then show ?thesis using that by (simp add: matches_at_def)
  qed
  moreover have "matches_at pre t 0 \<Longrightarrow> length pre \<le> length t" by (simp add: matches_at_def)
  ultimately show ?thesis unfolding like_match_free [OF assms(1)] m [of ?u] by fastforce
qed

lemma like_match_special:
  assumes "free mid"
  shows "like_match (Many # mid @ [Many]) t \<longleftrightarrow> (\<exists>i\<le>length t. matches_at mid t i)"
proof -
  have "like_match (mid @ [Many]) (drop i t) \<longleftrightarrow> matches_at mid t i" if "i \<le> length t" for i
    using like_match_free [OF assms, of "[Many]" "drop i t"] that by (auto simp: like_match_many matches_at_def)
  then show ?thesis unfolding like_match_many by auto
qed

section \<open>Comparing without \<^verbatim>\<open>%\<close>\<close>

lemma char_at_append [simp]: "char_at (pre @ c # post) (int (length pre)) = Some c"
  by (simp add: char_at_def nth_append)

lemma char_at_after [simp]: "char_at (pre @ c # d # post) (int (length pre) + 1) = Some d"
  using char_at_append [of "pre @ [c]" d post] by (simp add: add.commute)

text \<open>\<^verbatim>\<open>is_str_equals\<close> on a piece of the pattern without \<^verbatim>\<open>%\<close>.\<close>

lemma is_str_equals_free:
  assumes "free as" "base + p1 = int i" "i + length as \<le> length t" "off + p2 = int (length pre)"
    and "len2 = p2 + int (length (pattern_of as))" "len1 = p1 + int (length as)"
  shows "is_str_equals t base len1 (pre @ pattern_of as @ post) off len2 p1 p2 = Some (matches_at as t i)"
  using assms
proof (induction as arbitrary: pre p1 p2 i)
  case Nil
  then show ?case by (subst is_str_equals.simps) simp
next
  case (Cons a as)
  have ih: "is_str_equals t base len1 (pre @ pattern_of (a # as) @ post) off len2 (p1 + 1) (p2 + int (length (atom_chars a))) =
      Some (matches_at as t (Suc i))"
    using Cons.IH [of "p1 + 1" "Suc i" "p2 + int (length (atom_chars a))" "pre @ atom_chars a"] Cons.prems by (simp add: algebra_simps)
  have c: "char_at t (base + p1) = Some (t ! i)" "i < length t" using Cons.prems char_at_nth [of i t] by simp_all
  show ?case using Cons.prems ih c by (cases a; subst is_str_equals.simps) (auto simp: add.assoc)
qed

lemma str_cmp_free:
  assumes "free as" "One \<notin> set as" "j \<le> length t"
  shows "str_cmp t (int (length t)) (pre @ pattern_of as) (int (length pre + length (pattern_of as))) (int j) (int (length pre)) =
    Some (matches_at as t j \<and> length t = j + length as)"
  using assms
proof (induction as arbitrary: pre j)
  case Nil
  then show ?case by (subst str_cmp.simps) auto
next
  case (Cons a as)
  show ?case
  proof (cases "j < length t")
    case False
    then show ?thesis by (cases a; subst str_cmp.simps) auto
  next
    case True
    have ih: "str_cmp t (int (length t)) (pre @ pattern_of (a # as)) (int (length pre + length (pattern_of (a # as)))) (int j + 1)
        (int (length pre) + int (length (atom_chars a))) = Some (matches_at as t (Suc j) \<and> length t = Suc j + length as)"
      using Cons.IH [of "Suc j" "pre @ atom_chars a"] Cons.prems True by (simp add: algebra_simps)
    show ?thesis using Cons.prems ih True char_at_nth [OF True] by (cases a; subst str_cmp.simps) (auto simp: add.assoc)
  qed
qed

lemma strstr_loop_free:
  assumes "free as" "i + n + length as \<le> Suc (length t)"
  shows "strstr_loop t (int i) n (pre @ pattern_of as @ post) (int (length pre)) (int (length (pattern_of as))) (int (length as)) =
    Some (\<exists>j\<ge>i. j < i + n \<and> matches_at as t j)"
  using assms(2)
proof (induction n arbitrary: i)
  case (Suc n)
  have "is_str_equals t (int i) (int (length as)) (pre @ pattern_of as @ post) (int (length pre)) (int (length (pattern_of as))) 0 0 =
      Some (matches_at as t i)"
    using Suc.prems by (intro is_str_equals_free [OF assms(1)]) simp_all
  moreover have "(\<exists>j\<ge>i. j < i + Suc n \<and> matches_at as t j) \<longleftrightarrow> matches_at as t i \<or> (\<exists>j\<ge>Suc i. j < Suc i + n \<and> matches_at as t j)"
    by (metis Suc_le_eq add_Suc_right add_Suc_shift le_eq_less_or_eq less_add_Suc1 less_or_eq_imp_le)
  ultimately show ?case using Suc.IH [of "Suc i"] Suc.prems by (simp add: add.commute)
qed simp

lemma find_percent_free:
  assumes "free as"
  shows "find_percent (pre @ pattern_of as) (int (length pre + length (pattern_of as))) (int (length pre)) e =
    Some (int (length pre + length (pattern_of as)), e + int (length (pattern_of as)) - int (length as), False)"
  using assms
proof (induction as arbitrary: pre e)
  case Nil
  then show ?case by (subst find_percent.simps) simp
next
  case (Cons a as)
  have ih: "find_percent (pre @ pattern_of (a # as)) (int (length pre + length (pattern_of (a # as)))) (int (length pre) + int (length (atom_chars a))) e' =
      Some (int (length pre + length (pattern_of (a # as))), e' + int (length (pattern_of as)) - int (length as), False)" for e'
    using Cons.IH [of "pre @ atom_chars a" e'] Cons.prems by (simp add: algebra_simps)
  show ?case using Cons.prems ih [of e] ih [of "e + 1"] by (cases a; subst find_percent.simps) (simp_all add: special_chars add.assoc)
qed

section \<open>The kind of a pattern\<close>

fun escapes :: "like_atom list \<Rightarrow> int" where
  "escapes [] = 0"
| "escapes (a # as) = (case a of Escaped c \<Rightarrow> 1 | _ \<Rightarrow> 0) + escapes as"

lemma escapes_eq: "escapes as = int (length (pattern_of as)) - int (length as)"
  by (induction as) (auto split: like_atom.splits)

lemma same_state: "sc_state sc = s \<Longrightarrow> sc\<lparr>sc_state := s\<rparr> = sc"
  by (cases sc) simp

text \<open>From the state \<^verbatim>\<open>NORMAL\<close> a piece without \<^verbatim>\<open>%\<close> leads to \<^verbatim>\<open>NORMAL\<close> again.\<close>

lemma scan_free:
  assumes "free as" "sc_state sc = NORMAL" "\<not> sc_return sc"
  shows "scan_loop (pre @ pattern_of as @ post) (int (length pre)) (length (pattern_of as) + n) sc =
    scan_loop (pre @ pattern_of as @ post) (int (length pre + length (pattern_of as))) n
      (sc\<lparr>sc_simple := (sc_simple sc \<and> One \<notin> set as), sc_escapes := sc_escapes sc + escapes as\<rparr>)"
  using assms
proof (induction as arbitrary: pre sc)
  case (Cons a as)
  have ih: "scan_loop (pre @ pattern_of (a # as) @ post) (int (length pre) + int (length (atom_chars a))) (length (pattern_of as) + n) sc' =
    scan_loop (pre @ pattern_of (a # as) @ post) (int (length pre + length (pattern_of (a # as)))) n
      (sc'\<lparr>sc_simple := (sc_simple sc' \<and> One \<notin> set as), sc_escapes := sc_escapes sc' + escapes as\<rparr>)"
    if "sc_state sc' = NORMAL" "\<not> sc_return sc'" for sc'
    using Cons.IH [of sc' "pre @ atom_chars a"] Cons.prems(1) that by (simp add: add.assoc)
  show ?case
  proof (cases a)
    case (Escaped c)
    then show ?thesis
      using ih [of "sc\<lparr>sc_escapes := sc_escapes sc + 1\<rparr>"] Cons.prems by (simp add: add.assoc special_chars same_state)
  qed (use ih [of sc] ih [of "sc\<lparr>sc_simple := False\<rparr>"] Cons.prems in \<open>auto simp: special_chars\<close>)
qed (cases sc, simp)

text \<open>The first atom in the other states.\<close>

lemma scan_atom:
  assumes "a \<noteq> Many" "atom_ok a" "\<not> sc_return sc"
  shows "sc_state sc = INIT \<Longrightarrow> a \<noteq> One \<Longrightarrow> scan_loop (pre @ atom_chars a @ post) (int (length pre)) (length (atom_chars a) + n) sc =
      scan_loop (pre @ atom_chars a @ post) (int (length pre) + int (length (atom_chars a))) n (sc\<lparr>sc_state := NORMAL\<rparr>)"
    "sc_state sc = START_WITH_PERCENT \<Longrightarrow> scan_loop (pre @ atom_chars a @ post) (int (length pre)) (length (atom_chars a) + n) sc =
      scan_loop (pre @ atom_chars a @ post) (int (length pre) + int (length (atom_chars a))) n
        (sc\<lparr>sc_start := int (length pre), sc_escapes := sc_escapes sc + escapes [a], sc_state := NORMAL\<rparr>)"
    "sc_state sc = END_WITH_PERCENT \<Longrightarrow> scan_loop (pre @ atom_chars a @ post) (int (length pre)) (length (atom_chars a) + n) sc =
      scan_loop (pre @ atom_chars a @ post) (int (length pre) + int (length (atom_chars a))) n (sc\<lparr>sc_include_percent := True, sc_state := NORMAL\<rparr>)"
proof -
  show "sc_state sc = INIT \<Longrightarrow> a \<noteq> One \<Longrightarrow> scan_loop (pre @ atom_chars a @ post) (int (length pre)) (length (atom_chars a) + n) sc =
      scan_loop (pre @ atom_chars a @ post) (int (length pre) + int (length (atom_chars a))) n (sc\<lparr>sc_state := NORMAL\<rparr>)"
    using assms by (cases a) (simp_all add: special_chars add.assoc)
  show "sc_state sc = START_WITH_PERCENT \<Longrightarrow> scan_loop (pre @ atom_chars a @ post) (int (length pre)) (length (atom_chars a) + n) sc =
      scan_loop (pre @ atom_chars a @ post) (int (length pre) + int (length (atom_chars a))) n
        (sc\<lparr>sc_start := int (length pre), sc_escapes := sc_escapes sc + escapes [a], sc_state := NORMAL\<rparr>)"
    using assms by (cases a) (simp_all add: special_chars add.assoc)
  show "sc_state sc = END_WITH_PERCENT \<Longrightarrow> scan_loop (pre @ atom_chars a @ post) (int (length pre)) (length (atom_chars a) + n) sc =
      scan_loop (pre @ atom_chars a @ post) (int (length pre) + int (length (atom_chars a))) n (sc\<lparr>sc_include_percent := True, sc_state := NORMAL\<rparr>)"
    using assms by (cases a) (simp_all add: special_chars add.assoc)
qed

lemma scan_many:
  assumes "\<not> sc_return sc"
  shows "sc_state sc = INIT \<Longrightarrow> scan_loop (pre @ PERCENT # post) (int (length pre)) (Suc n) sc =
      scan_loop (pre @ PERCENT # post) (int (length pre) + 1) n (sc\<lparr>sc_simple := False, sc_first_percent := True, sc_state := START_WITH_PERCENT\<rparr>)"
    "sc_state sc = NORMAL \<Longrightarrow> scan_loop (pre @ PERCENT # post) (int (length pre)) (Suc n) sc =
      scan_loop (pre @ PERCENT # post) (int (length pre) + 1) n (sc\<lparr>sc_simple := False, sc_end := int (length pre) - 1, sc_state := END_WITH_PERCENT\<rparr>)"
  using assms by (simp_all add: special_chars)

text \<open>A piece without \<^verbatim>\<open>%\<close> at the start of a pattern, up to an early return.\<close>

lemma scan_start:
  assumes "free as" "as \<noteq> []"
  shows "scan_loop (pattern_of as @ post) 0 (length (pattern_of as) + n) scan_init =
    (if hd as = One then Some (scan_init\<lparr>sc_simple := False, sc_return := True\<rparr>)
     else scan_loop (pattern_of as @ post) (int (length (pattern_of as))) n
       (scan_init\<lparr>sc_state := NORMAL, sc_simple := (One \<notin> set as), sc_escapes := escapes (tl as)\<rparr>))"
proof -
  obtain a bs where as: "as = a # bs" using assms(2) by (cases as) auto
  show ?thesis
  proof (cases "a = One")
    case True
    have "sc_return sc \<Longrightarrow> scan_loop pat i k sc = Some sc" for pat i k sc by (cases k) simp_all
    then show ?thesis using as True by (simp add: scan_init_def char_at_def)
  next
    case False
    then show ?thesis
      using scan_atom(1) [of a scan_init "[]" "pattern_of bs @ post" "length (pattern_of bs) + n"] assms as
        scan_free [of bs "scan_init\<lparr>sc_state := NORMAL\<rparr>" "atom_chars a" post n]
      by (simp add: scan_init_def add.assoc)
  qed
qed

lemma check_opt: "check_if_do_opt pat (int (length pat)) = map_option scan_result (scan_loop pat 0 (length pat) scan_init)"
  by (simp only: check_if_do_opt_def nat_int)

lemma opt_free:
  assumes "free as"
  shows "\<exists>opt. check_if_do_opt (pattern_of as) (int (length (pattern_of as))) = Some opt \<and>
    is_simple_pattern opt = (One \<notin> set as) \<and> \<not> is_special_pattern opt \<and> \<not> all_percent opt"
proof (cases "as = []")
  case True
  then show ?thesis unfolding check_opt by (simp add: scan_result_def scan_init_def)
next
  case False
  then have "hd as = One \<Longrightarrow> One \<in> set as" by (metis list.set_sel(1))
  then show ?thesis unfolding check_opt using scan_start [OF assms False, of "[]" 0] by (auto simp: scan_result_def scan_init_def)
qed

text \<open>The rest of a pattern behind \<^verbatim>\<open>%\<close>.\<close>

lemma scan_behind_first:
  assumes "free as" "as \<noteq> []" "\<not> sc_return sc" "sc_state sc = START_WITH_PERCENT"
  shows "scan_loop (pre @ pattern_of as @ post) (int (length pre)) (length (pattern_of as) + n) sc =
    scan_loop (pre @ pattern_of as @ post) (int (length pre + length (pattern_of as))) n
      (sc\<lparr>sc_start := int (length pre), sc_state := NORMAL, sc_simple := (sc_simple sc \<and> One \<notin> set (tl as)),
         sc_escapes := sc_escapes sc + escapes as\<rparr>)"
proof -
  obtain a bs where as: "as = a # bs" using assms(2) by (cases as) auto
  then show ?thesis
    using scan_atom(2) [of a sc pre "pattern_of bs @ post" "length (pattern_of bs) + n"] assms
      scan_free [of bs "sc\<lparr>sc_start := int (length pre), sc_escapes := sc_escapes sc + escapes [a], sc_state := NORMAL\<rparr>" "pre @ atom_chars a" post n]
    by (simp add: add.assoc)
qed

lemma scan_behind_later:
  assumes "free as" "as \<noteq> []" "\<not> sc_return sc" "sc_state sc = END_WITH_PERCENT"
  shows "scan_loop (pre @ pattern_of as) (int (length pre)) (length (pattern_of as)) sc =
    Some (sc\<lparr>sc_include_percent := True, sc_state := NORMAL, sc_simple := (sc_simple sc \<and> One \<notin> set (tl as)), sc_escapes := sc_escapes sc + escapes (tl as)\<rparr>)"
proof -
  obtain a bs where as: "as = a # bs" using assms(2) by (cases as) auto
  then show ?thesis
    using scan_atom(3) [of a sc pre "pattern_of bs" "length (pattern_of bs)"] assms
      scan_free [of bs "sc\<lparr>sc_include_percent := True, sc_state := NORMAL\<rparr>" "pre @ atom_chars a" "[]" 0]
    by (simp add: add.assoc)
qed

lemma opt_one_percent:
  assumes "free pre" "free suf" "pre \<noteq> [] \<or> suf \<noteq> []"
  shows "\<exists>opt. check_if_do_opt (pattern_of (pre @ Many # suf)) (int (length (pattern_of (pre @ Many # suf)))) = Some opt \<and>
    \<not> is_simple_pattern opt \<and> \<not> is_special_pattern opt \<and> \<not> all_percent opt"
proof (cases "pre = []")
  case True
  let ?s = "scan_init\<lparr>sc_simple := False, sc_first_percent := True, sc_state := START_WITH_PERCENT\<rparr>"
  have "scan_loop (PERCENT # pattern_of suf) 0 (Suc (length (pattern_of suf))) scan_init = scan_loop (PERCENT # pattern_of suf) 1 (length (pattern_of suf)) ?s"
    using scan_many(1) [of scan_init "[]"] by (simp add: scan_init_def)
  moreover have "scan_loop (PERCENT # pattern_of suf) 1 (length (pattern_of suf)) ?s = Some (?s\<lparr>sc_start := 1, sc_state := NORMAL, sc_escapes := escapes suf\<rparr>)"
    using scan_behind_first [of suf ?s "[PERCENT]" "[]" 0] assms True by (simp add: scan_init_def)
  moreover have "length (PERCENT # pattern_of suf) = Suc (length (pattern_of suf))" "pattern_of (pre @ Many # suf) = PERCENT # pattern_of suf"
    using True by simp_all
  ultimately show ?thesis unfolding check_opt by (simp only:) (simp add: scan_result_def scan_init_def)
next
  case False
  let ?s = "scan_init\<lparr>sc_state := NORMAL, sc_simple := (One \<notin> set pre), sc_escapes := escapes (tl pre)\<rparr>"
  let ?t = "?s\<lparr>sc_simple := False, sc_end := int (length (pattern_of pre)) - 1, sc_state := END_WITH_PERCENT\<rparr>"
  have a: "scan_loop (pattern_of pre @ PERCENT # pattern_of suf) (int (length (pattern_of pre))) (Suc (length (pattern_of suf))) ?s =
      scan_loop (pattern_of pre @ PERCENT # pattern_of suf) (int (length (pattern_of pre)) + 1) (length (pattern_of suf)) ?t"
    using scan_many(2) [of ?s "pattern_of pre"] by (simp add: scan_init_def)
  obtain sc where b: "scan_loop (pattern_of pre @ PERCENT # pattern_of suf) (int (length (pattern_of pre)) + 1) (length (pattern_of suf)) ?t = Some sc"
      "\<not> sc_simple sc" "\<not> sc_first_percent sc" "\<not> sc_return sc" "sc_state sc \<noteq> START_WITH_PERCENT"
  proof (cases "suf = []")
    case True
    then show thesis using that [of ?t] by (simp add: scan_init_def)
  next
    case False
    let ?u = "?t\<lparr>sc_include_percent := True, sc_state := NORMAL, sc_simple := (sc_simple ?t \<and> One \<notin> set (tl suf)), sc_escapes := sc_escapes ?t + escapes (tl suf)\<rparr>"
    have "scan_loop ((pattern_of pre @ [PERCENT]) @ pattern_of suf) (int (length (pattern_of pre @ [PERCENT]))) (length (pattern_of suf)) ?t = Some ?u"
      by (rule scan_behind_later [OF assms(2) False]) (simp_all add: scan_init_def)
    then have "scan_loop (pattern_of pre @ PERCENT # pattern_of suf) (int (length (pattern_of pre)) + 1) (length (pattern_of suf)) ?t = Some ?u"
      by (simp add: add.commute)
    then show thesis by (rule that) (simp_all add: scan_init_def)
  qed
  have l: "length (pattern_of pre @ PERCENT # pattern_of suf) = length (pattern_of pre) + Suc (length (pattern_of suf))"
    "pattern_of (pre @ Many # suf) = pattern_of pre @ PERCENT # pattern_of suf" by simp_all
  show ?thesis
    unfolding check_opt unfolding l(2) unfolding l(1) scan_start [OF assms(1) False] a b(1)
    using b(2-5) by (cases "hd pre = One") (simp_all add: scan_result_def scan_init_def)
qed

lemma opt_special:
  assumes "free mid" "mid \<noteq> []"
  shows "\<exists>opt. check_if_do_opt (pattern_of (Many # mid @ [Many])) (int (length (pattern_of (Many # mid @ [Many])))) = Some opt \<and>
    \<not> is_simple_pattern opt \<and> is_special_pattern opt \<and> opt_start opt = 1 \<and> opt_end opt = int (length (pattern_of mid)) \<and>
    opt_real_len opt = int (length mid)"
proof -
  let ?p = "PERCENT # pattern_of mid @ [PERCENT]"
  let ?s = "scan_init\<lparr>sc_simple := False, sc_first_percent := True, sc_state := START_WITH_PERCENT\<rparr>"
  let ?t = "?s\<lparr>sc_start := 1, sc_escapes := escapes mid, sc_state := NORMAL\<rparr>"
  have a: "scan_loop ?p 0 (Suc (Suc (length (pattern_of mid)))) scan_init = scan_loop ?p 1 (Suc (length (pattern_of mid))) ?s"
    using scan_many(1) [of scan_init "[]" "pattern_of mid @ [PERCENT]" "Suc (length (pattern_of mid))"] by (simp add: scan_init_def del: scan_loop.simps)
  have b: "scan_loop ?p 1 (Suc (length (pattern_of mid))) ?s = scan_loop ?p (int (length (pattern_of mid)) + 1) 1 ?t"
    using scan_behind_first [OF assms, of ?s "[PERCENT]" "[PERCENT]" 1] by (simp add: scan_init_def add.commute del: scan_loop.simps)
  have c: "scan_loop ?p (int (length (pattern_of mid)) + 1) 1 ?t =
      Some (?t\<lparr>sc_end := int (length (pattern_of mid)), sc_state := END_WITH_PERCENT\<rparr>)"
    using scan_many(2) [of ?t "PERCENT # pattern_of mid" "[]" 0] by (simp add: scan_init_def add.commute)
  have l: "length ?p = Suc (Suc (length (pattern_of mid)))" "pattern_of (Many # mid @ [Many]) = ?p" by simp_all
  show ?thesis unfolding check_opt unfolding l(2) unfolding l(1) a b c by (simp add: scan_result_def scan_init_def escapes_eq)
qed

section \<open>The main loop\<close>

text \<open>
  The loop consumes a piece without \<^verbatim>\<open>%\<close>, or the pattern does not match. When the text ends inside the piece, what is left of the
  pattern does not start with \<^verbatim>\<open>%\<close>.
\<close>

lemma like_finish_simps:
  "p1 \<noteq> len1 \<Longrightarrow> like_finish pat len2 len1 (b, p1, p2) = Some b"
  "like_finish pat len2 len1 (b, len1, len2) = Some True"
  "p2 < len2 \<Longrightarrow> like_finish pat len2 len1 (b, len1, p2) = Option.bind (only_percent pat p2 (nat (len2 - p2))) (\<lambda>rest. Some (b \<or> rest))"
  by (simp_all add: like_finish_def)

lemma only_percent_start: "c \<noteq> PERCENT \<Longrightarrow> 0 < n \<Longrightarrow> only_percent (pre @ c # post) (int (length pre)) n = Some False"
  by (cases n) simp_all

lemma like_loop_free:
  fixes t :: "i8 list" and as :: "like_atom list" and pre post :: "i8 list"
  defines "pat \<equiv> \<lambda>as pre. pre @ pattern_of as @ post"
  assumes "free as" "i \<le> length t" "len2 = int (length (pat as pre))"
  shows "Option.bind (like_loop t (int (length t)) (pat as pre) len2 (int i) (int (length pre))) (like_finish (pat as pre) len2 (int (length t))) =
    (if matches_at as t i
     then Option.bind (like_loop t (int (length t)) (pat as pre) len2 (int (i + length as)) (int (length (pre @ pattern_of as))))
            (like_finish (pat as pre) len2 (int (length t)))
     else Some False)"
  using assms(2-4) unfolding pat_def
proof (induction as arbitrary: pre i)
  case (Cons a as)
  let ?p = "pre @ pattern_of (a # as) @ post" and ?n = "int (length t)"
  have len: "int (length pre) < len2" using Cons.prems by (cases a) auto
  show ?case
  proof (cases "i < length t")
    case False
    then have i: "i = length t" using Cons.prems by simp
    obtain c cs where c: "atom_chars a = c # cs" "c \<noteq> PERCENT" using Cons.prems(1) by (cases a) auto
    have "only_percent ?p (int (length pre)) (nat (len2 - int (length pre))) = Some False"
      using only_percent_start [OF c(2)] len c(1) by simp
    then show ?thesis
      using i len like_finish_simps(3) [OF len] by (subst like_loop.simps) simp
  next
    case True
    have ih: "Option.bind (like_loop t ?n ?p len2 (int i + 1) (int (length pre) + int (length (atom_chars a)))) (like_finish ?p len2 ?n) =
        (if matches_at as t (Suc i)
         then Option.bind (like_loop t ?n ?p len2 (int (i + length (a # as))) (int (length (pre @ pattern_of (a # as))))) (like_finish ?p len2 ?n)
         else Some False)"
      using Cons.IH [of "Suc i" "pre @ atom_chars a"] Cons.prems True by (simp add: add.assoc add.commute)
    have "like_loop t ?n ?p len2 (int i) (int (length pre)) =
        (if atom_char a (t ! i) then like_loop t ?n ?p len2 (int i + 1) (int (length pre) + int (length (atom_chars a)))
         else Some (False, int i, int (length pre)))"
      using True len Cons.prems char_at_nth [OF True] by (cases a; subst like_loop.simps) (auto simp: special_chars)
    then show ?thesis using ih True like_finish_simps(1) [of "int i" ?n] by simp
  qed
qed simp

section \<open>LIKE\<close>

text \<open>The forms of patterns on a text of length \<open>n\<close>.\<close>

inductive like_form :: "nat \<Rightarrow> like_atom list \<Rightarrow> bool" for n where
  without: "free as \<Longrightarrow> like_form n as"
| one: "free pre \<Longrightarrow> free suf \<Longrightarrow> length pre + length suf \<le> n \<Longrightarrow> like_form n (pre @ Many # suf)"
| inside: "free mid \<Longrightarrow> like_form n (Many # mid @ [Many])"

lemma is_matched_free:
  assumes "free as"
  shows "is_matched (pattern_of as) (int (length (pattern_of as))) t (int (length t)) = Some (like_match as t)"
proof -
  have m: "like_match as t \<longleftrightarrow> matches_at as t 0 \<and> length t = length as"
    using like_match_free [OF assms, of "[]" t] by (auto simp: matches_at_def)
  have s: "str_cmp t (int (length t)) (pattern_of as) (int (length (pattern_of as))) 0 0 = Some (like_match as t)" if "One \<notin> set as"
    using str_cmp_free [OF assms that, of 0 t "[]"] by (simp add: m)
  have e: "like_loop t (int (length t)) (pattern_of as) l p1 l = Some (False, p1, l)" for p1 l by (subst like_loop.simps) simp
  have f: "like_finish (pattern_of as) (int (length (pattern_of as))) (int (length t)) (False, int (length as), int (length (pattern_of as))) =
      Some (length as = length t)" by (auto simp: like_finish_def)
  have "Option.bind (like_loop t (int (length t)) (pattern_of as) (int (length (pattern_of as))) 0 0)
      (like_finish (pattern_of as) (int (length (pattern_of as))) (int (length t))) = Some (like_match as t)"
    using like_loop_free [OF assms, of 0 t _ "[]" "[]"] e f by (auto simp: m)
  then show ?thesis using opt_free [OF assms] s by (auto simp: is_matched_def)
qed

lemma is_matched_inside:
  assumes "free mid" "mid \<noteq> []"
  shows "is_matched (pattern_of (Many # mid @ [Many])) (int (length (pattern_of (Many # mid @ [Many])))) t (int (length t)) =
    Some (like_match (Many # mid @ [Many]) t)"
proof -
  have n: "nat (int (length t) - int (length mid) + 1) = Suc (length t) - length mid" by simp
  have "strstr_loop t 0 (Suc (length t) - length mid) (PERCENT # pattern_of mid @ [PERCENT]) 1 (int (length (pattern_of mid))) (int (length mid)) =
      Some (\<exists>i\<le>length t. matches_at mid t i)"
  proof (cases "length mid \<le> length t")
    case True
    have "j < Suc (length t) - length mid \<and> matches_at mid t j \<longleftrightarrow> j \<le> length t \<and> matches_at mid t j" for j
      by (auto simp: matches_at_def)
    then have "(\<exists>j\<ge>0. j < 0 + (Suc (length t) - length mid) \<and> matches_at mid t j) \<longleftrightarrow> (\<exists>i\<le>length t. matches_at mid t i)" by simp
    then show ?thesis using strstr_loop_free [OF assms(1), of 0 "Suc (length t) - length mid" t "[PERCENT]" "[PERCENT]"] True by simp
  next
    case False
    then show ?thesis by (auto simp: matches_at_def)
  qed
  then show ?thesis
    using opt_special [OF assms] like_match_special [OF assms(1)] by (auto simp: is_matched_def my_strstr_def n)
qed

text \<open>At the only \<^verbatim>\<open>%\<close> the rest of the pattern is compared with the end of the text.\<close>

lemma like_loop_one:
  assumes "free suf" "i + length suf \<le> length t" "P = pre @ PERCENT # pattern_of suf"
  shows "Option.bind (like_loop t (int (length t)) P (int (length P)) (int i) (int (length pre))) (like_finish P (int (length P)) (int (length t))) =
    Some (matches_at suf t (length t - length suf))"
proof (cases "i < length t")
  case False
  then have "i = length t" "length suf = 0" using assms(2) by linarith+
  then have i: "i = length t" "suf = []" by simp_all
  have "only_percent P (int (length pre)) 1 = Some True" using i(2) by (simp add: assms(3))
  then show ?thesis using i like_finish_simps(3) [of "int (length pre)" "int (length P)"] by (subst like_loop.simps) (simp add: assms(3))
next
  case True
  have p: "find_percent P (int (length P)) (int (length pre) + 1) 0 = Some (int (length P), int (length (pattern_of suf)) - int (length suf), False)"
    using find_percent_free [OF assms(1), of "pre @ [PERCENT]" 0] by (simp add: assms(3) add.commute add.left_commute)
  have q: "is_str_equals t (int (length t) - int (length suf)) (int (length suf)) P (int (length pre) + 1) (int (length (pattern_of suf))) 0 0 =
      Some (matches_at suf t (length t - length suf))"
    using is_str_equals_free [OF assms(1), of "int (length t) - int (length suf)" 0 "length t - length suf" t "int (length pre) + 1" 0 "pre @ [PERCENT]"
        "int (length (pattern_of suf))" "int (length suf)" "[]"] assms(2)
    by (simp add: assms(3) of_nat_diff add.commute)
  have l: "int (length P) - int (length pre) - 1 = int (length (pattern_of suf))" by (simp add: assms(3))
  have "char_at P (int (length pre)) = Some PERCENT" by (simp add: assms(3))
  moreover have "int (length pre) < int (length P)" by (simp add: assms(3))
  ultimately have "like_loop t (int (length t)) P (int (length P)) (int i) (int (length pre)) =
      Some (matches_at suf t (length t - length suf), int i, int (length pre))"
    using True p q l by (subst like_loop.simps) (simp add: special_chars my_strstr_def Let_def)
  then show ?thesis using True like_finish_simps(1) [of "int i" "int (length t)"] by simp
qed

lemma is_matched_one:
  assumes "free pre" "free suf" "length pre + length suf \<le> length t"
  shows "is_matched (pattern_of (pre @ Many # suf)) (int (length (pattern_of (pre @ Many # suf)))) t (int (length t)) =
    Some (like_match (pre @ Many # suf) t)"
proof (cases "pre = [] \<and> suf = []")
  case True
  then show ?thesis
    by (auto simp: is_matched_def check_if_do_opt_def scan_init_def scan_result_def special_chars like_match_many char_at_def intro: exI [of _ "length t"])
next
  case False
  let ?P = "pattern_of pre @ PERCENT # pattern_of suf" and ?n = "int (length t)"
  have a: "Option.bind (like_loop t ?n ?P (int (length ?P)) 0 0) (like_finish ?P (int (length ?P)) ?n) =
      (if matches_at pre t 0
       then Option.bind (like_loop t ?n ?P (int (length ?P)) (int (length pre)) (int (length (pattern_of pre)))) (like_finish ?P (int (length ?P)) ?n)
       else Some False)"
    using like_loop_free [OF assms(1), of 0 t "int (length ?P)" "[]" "PERCENT # pattern_of suf"] by simp
  also have "\<dots> = Some (like_match (pre @ Many # suf) t)"
    using like_loop_one [OF assms(2), of "length pre" t ?P "pattern_of pre"] assms(3) like_match_one_percent [OF assms(1,2)] by simp
  finally show ?thesis using opt_one_percent [OF assms(1,2)] False by (auto simp: is_matched_def)
qed

lemma is_matched_percents: "is_matched [PERCENT, PERCENT] 2 t (int (length t)) = Some (like_match [Many, Many] t)"
proof -
  have "like_match [Many, Many] t" by (auto simp: like_match_many intro: exI [of _ 0] exI [of _ "length t"])
  moreover have "map_option (\<lambda>opt. (is_simple_pattern opt, is_special_pattern opt, all_percent opt)) (check_if_do_opt [PERCENT, PERCENT] 2) =
      Some (False, False, True)"
    by code_simp
  ultimately show ?thesis by (auto simp: is_matched_def)
qed

text \<open>
  C27: \<^verbatim>\<open>is_matched\<close> decides \<^verbatim>\<open>LIKE\<close> for patterns without \<^verbatim>\<open>%\<close>, with one \<^verbatim>\<open>%\<close> when the text has room for the rest of the pattern,
  and of the form \<^verbatim>\<open>%...%\<close>, with \<^verbatim>\<open>_\<close> and escaped characters anywhere; it reads nothing outside the text and the pattern.
\<close>
theorem like_correct:
  assumes "like_form (length t) as"
  shows "is_matched (pattern_of as) (int (length (pattern_of as))) t (int (length t)) = Some (like_match as t)"
  using assms
proof cases
  case without
  then show ?thesis by (rule is_matched_free)
next
  case (one pre suf)
  then show ?thesis using is_matched_one by simp
next
  case (inside mid)
  show ?thesis
  proof (cases "mid = []")
    case True
    then show ?thesis
      using inside is_matched_percents by simp
  qed (use inside is_matched_inside in simp)
qed

theorem like_correct_witness:
  "is_matched (pattern_of [Plain 97, One, Many, Escaped 37]) 5 (text_of [97, 98, 99, 37]) 4 = Some True"
proof -
  have "like_form 4 ([Plain 97, One] @ Many # [Escaped 37])" by (rule like_form.one) simp_all
  moreover have "length (pattern_of [Plain 97, One, Many, Escaped 37]) = 5" "length (text_of [97, 98, 99, 37]) = 4"
    "like_match [Plain 97, One, Many, Escaped 37] (text_of [97, 98, 99, 37])" by code_simp+
  ultimately show ?thesis using like_correct [of "text_of [97, 98, 99, 37]" "[Plain 97, One, Many, Escaped 37]"] by simp
qed

text \<open>Two \<^verbatim>\<open>%\<close> with text between and behind them: a match is reported that is none, and the text is read before its start.\<close>

lemma like_two_percent_wrong:
  "is_matched (pattern_of [Many, Plain 97, Many, Plain 98, Many]) 5 (text_of [120, 98, 97]) 3 = Some True"
  "\<not> like_match [Many, Plain 97, Many, Plain 98, Many] (text_of [120, 98, 97])"
  "is_matched (pattern_of [Plain 97, Many, Plain 98, Plain 99, Plain 100]) 5 (text_of [97, 98]) 2 = None"
  by code_simp+

end
