(* ===== verification/Ob_Server.thy ===== *)
theory Ob_Server
  imports Serialization
begin

text \<open>
  Addresses of servers, \<^verbatim>\<open>common/ob_server.{h,cpp}\<close>, and the role of a cluster, \<^verbatim>\<open>common/ob_obi_role.{h,cpp}\<close>: equality, order, identifiers
  and their codecs. A reader fills an object that exists; the members it does not read keep their values.
\<close>

unbundle bit_operations_syntax

section \<open>Addresses\<close>

record ob_server =
  srv_version :: i32
  srv_port :: i32
  ip_v4 :: u32
  ip_v6 :: "u32 list"

abbreviation IPV4 :: i32 where "IPV4 \<equiv> 4"
abbreviation IPV6 :: i32 where "IPV6 \<equiv> 6"

definition server_new :: ob_server where
  "server_new = \<lparr>srv_version = IPV4, srv_port = 0, ip_v4 = 0, ip_v6 = replicate 4 0xA6A6A6A6\<rparr>"

definition server_reset :: "ob_server \<Rightarrow> ob_server" where
  "server_reset a = a\<lparr>srv_port := 0, ip_v4 := 0, ip_v6 := replicate 4 0\<rparr>"

definition set_ipv4_addr :: "u32 \<Rightarrow> i32 \<Rightarrow> ob_server \<Rightarrow> ob_server" where
  "set_ipv4_addr ip port a = a\<lparr>srv_version := IPV4, ip_v4 := ip, srv_port := port\<rparr>"

text \<open>\<open>inet\<close> and \<open>host\<close> are \<^verbatim>\<open>inet_addr\<close> and \<^verbatim>\<open>gethostbyname\<close> of the system.\<close>

definition convert_ipv4_addr :: "(string \<Rightarrow> u32) \<Rightarrow> (string \<Rightarrow> u32 option) \<Rightarrow> string option \<Rightarrow> u32" where
  "convert_ipv4_addr inet host ip =
     (case ip of
        None \<Rightarrow> 0
      | Some ip \<Rightarrow> if inet ip = 0xFFFFFFFF then (case host ip of None \<Rightarrow> 0 | Some x \<Rightarrow> x) else inet ip)"

definition set_ipv4_addr_str ::
  "(string \<Rightarrow> u32) \<Rightarrow> (string \<Rightarrow> u32 option) \<Rightarrow> string option \<Rightarrow> i32 \<Rightarrow> ob_server \<Rightarrow> bool \<times> ob_server" where
  "set_ipv4_addr_str inet host ip port a =
     (if ip = None \<or> port \<le>s 0 then (False, a)
      else (True, a\<lparr>srv_version := IPV4, srv_port := port, ip_v4 := convert_ipv4_addr inet host ip\<rparr>))"

text \<open>\<open>UINT32_MAX\<close> stored in the signed port is -1.\<close>

definition set_max :: "ob_server \<Rightarrow> ob_server" where
  "set_max a = a\<lparr>ip_v4 := 0xFFFFFFFF, srv_port := 0xFFFFFFFF, ip_v6 := replicate 4 0xFFFFFFFF\<rparr>"

definition reset_ipv4_10 :: "i32 \<Rightarrow> ob_server \<Rightarrow> ob_server" where
  "reset_ipv4_10 ip a = a\<lparr>ip_v4 := (ip_v4 a AND 0xFFFFFF00) + ip\<rparr>"

definition set_port :: "i32 \<Rightarrow> ob_server \<Rightarrow> ob_server" where
  "set_port port a = a\<lparr>srv_port := port\<rparr>"

definition server_is_valid :: "ob_server \<Rightarrow> bool" where
  "server_is_valid a =
     (if srv_port a \<le>s 0 then False
      else if srv_version a = IPV4 then ip_v4 a \<noteq> 0
      else ip_v6 a ! 0 \<noteq> 0 \<or> ip_v6 a ! 1 \<noteq> 0 \<or> ip_v6 a ! 2 \<noteq> 0 \<or> ip_v6 a ! 3 \<noteq> 0)"

definition get_ipv4_server_id :: "ob_server \<Rightarrow> i64" where
  "get_ipv4_server_id a =
     (if srv_version a = IPV4 then push_bit 32 (scast (srv_port a)) OR ucast (ip_v4 a) else 0)"

definition server_eq :: "ob_server \<Rightarrow> ob_server \<Rightarrow> bool" where
  "server_eq a b =
     (if srv_version a \<noteq> srv_version b then False
      else if srv_port a \<noteq> srv_port b then False
      else if srv_version a = IPV4 then ip_v4 a = ip_v4 b
      else if srv_version a = IPV6
      then ip_v6 a ! 0 = ip_v6 b ! 0 \<and> ip_v6 a ! 1 = ip_v6 b ! 1 \<and> ip_v6 a ! 2 = ip_v6 b ! 2 \<and> ip_v6 a ! 3 = ip_v6 b ! 3
      else True)"

definition server_ne :: "ob_server \<Rightarrow> ob_server \<Rightarrow> bool" where
  "server_ne a b = (if server_eq a b then False else True)"

definition is_same_ip :: "ob_server \<Rightarrow> ob_server \<Rightarrow> bool" where
  "is_same_ip a b =
     (if srv_version a \<noteq> srv_version b then False
      else if srv_version a = IPV4 then ip_v4 a = ip_v4 b
      else if srv_version a = IPV6
      then ip_v6 a ! 0 = ip_v6 b ! 0 \<and> ip_v6 a ! 1 = ip_v6 b ! 1 \<and> ip_v6 a ! 2 = ip_v6 b ! 2 \<and> ip_v6 a ! 3 = ip_v6 b ! 3
      else True)"

text \<open>The bytes of a word in the memory of a little-endian machine, and \<^verbatim>\<open>memcmp(a, b, n) < 0\<close> on two pieces of the same length.\<close>

definition word_mem :: "u32 \<Rightarrow> u8 list" where
  "word_mem w = [ucast w, ucast (drop_bit 8 w), ucast (drop_bit 16 w), ucast (drop_bit 24 w)]"

fun mem_less :: "u8 list \<Rightarrow> u8 list \<Rightarrow> bool" where
  "mem_less (x # xs) (y # ys) = (x < y \<or> x = y \<and> mem_less xs ys)"
| "mem_less _ _ = False"

definition compare_by_ip :: "ob_server \<Rightarrow> ob_server \<Rightarrow> bool" where
  "compare_by_ip a b =
     (if srv_version a \<noteq> srv_version b then srv_version a <s srv_version b
      else if srv_version a = IPV4 then ip_v4 a < ip_v4 b
      else if srv_version a = IPV6 then mem_less (concat (map word_mem (ip_v6 a))) (concat (map word_mem (ip_v6 b)))
      else True)"

definition server_less :: "ob_server \<Rightarrow> ob_server \<Rightarrow> bool" where
  "server_less a b =
     (if compare_by_ip a b then True
      else if \<not> compare_by_ip b a then srv_port a <s srv_port b
      else False)"

subsection \<open>Codec\<close>

text \<open>The four words of an address are written and read by a loop over an index.\<close>

fun v6_serialize_loop :: "ob_server \<Rightarrow> nat \<Rightarrow> nat \<Rightarrow> unit run" where
  "v6_serialize_loop a i 0 = ret ()"
| "v6_serialize_loop a i (Suc n) = bind (encode_vi32 (ip_v6 a ! i)) (\<lambda>_. v6_serialize_loop a (Suc i) n)"

definition server_serialize :: "ob_server \<Rightarrow> unit run" where
  "server_serialize a =
     bind (encode_vi32 (srv_version a)) (\<lambda>_.
     bind (encode_vi32 (srv_port a)) (\<lambda>_.
     if srv_version a = IPV4 then encode_vi32 (ip_v4 a) else v6_serialize_loop a 0 4))"

fun v6_deserialize_loop :: "nat \<Rightarrow> nat \<Rightarrow> ob_server \<Rightarrow> ob_server run" where
  "v6_deserialize_loop i 0 a = ret a"
| "v6_deserialize_loop i (Suc n) a =
     bind decode_vi32 (\<lambda>w. v6_deserialize_loop (Suc i) n (a\<lparr>ip_v6 := (ip_v6 a)[i := w]\<rparr>))"

definition server_deserialize :: "ob_server \<Rightarrow> ob_server run" where
  "server_deserialize a =
     bind decode_vi32 (\<lambda>version.
     bind decode_vi32 (\<lambda>port.
     let a = a\<lparr>srv_version := version, srv_port := port\<rparr> in
     if version = IPV4 then bind decode_vi32 (\<lambda>ip. ret (a\<lparr>ip_v4 := ip\<rparr>))
     else v6_deserialize_loop 0 4 a))"

fun v6_size_loop :: "ob_server \<Rightarrow> nat \<Rightarrow> nat \<Rightarrow> int" where
  "v6_size_loop a i 0 = 0"
| "v6_size_loop a i (Suc n) = encoded_length_vi32 (ip_v6 a ! i) + v6_size_loop a (Suc i) n"

definition server_get_serialize_size :: "ob_server \<Rightarrow> int" where
  "server_get_serialize_size a =
     encoded_length_vi32 (srv_version a) + encoded_length_vi32 (srv_port a) +
     (if srv_version a = IPV4 then encoded_length_vi32 (ip_v4 a) else v6_size_loop a 0 4)"

section \<open>Roles\<close>

text \<open>The role is kept as the number of its enumerator; a reader stores what it reads.\<close>

type_synonym obi_role = i32

abbreviation OBI_MASTER :: obi_role where "OBI_MASTER \<equiv> 0"
abbreviation OBI_SLAVE :: obi_role where "OBI_SLAVE \<equiv> 1"
abbreviation OBI_INIT :: obi_role where "OBI_INIT \<equiv> 2"

definition role_serialize :: "obi_role \<Rightarrow> unit run" where
  "role_serialize role = encode_vi32 role"

definition role_deserialize :: "obi_role run" where
  "role_deserialize = bind decode_vi32 (\<lambda>val. ret val)"

definition role_get_serialize_size :: "obi_role \<Rightarrow> int" where
  "role_get_serialize_size role = encoded_length_vi32 role"

section \<open>Laws\<close>

text \<open>An object of the class has four words for an IPv6 address, and is of one of the two versions.\<close>

definition server_ok :: "ob_server \<Rightarrow> bool" where
  "server_ok a \<longleftrightarrow> length (ip_v6 a) = 4"

definition server_proper :: "ob_server \<Rightarrow> bool" where
  "server_proper a \<longleftrightarrow> server_ok a \<and> (srv_version a = IPV4 \<or> srv_version a = IPV6)"

text \<open>An address set by name is valid exactly when the name was resolved; the call succeeds even when it was not.\<close>

lemma set_ipv4_addr_str_valid:
  assumes "set_ipv4_addr_str inet host ip port a = (True, b)"
  shows "server_is_valid b \<longleftrightarrow> convert_ipv4_addr inet host ip \<noteq> 0"
  using assms by (auto simp: set_ipv4_addr_str_def server_is_valid_def split: if_splits)

lemma server_eq_refl [simp]: "server_eq a a"
  by (simp add: server_eq_def)

lemma server_eq_sym: "server_eq a b \<longleftrightarrow> server_eq b a"
  by (auto simp: server_eq_def)

lemma server_eq_trans: "server_eq a b \<Longrightarrow> server_eq b c \<Longrightarrow> server_eq a c"
  by (auto simp: server_eq_def split: if_splits)

lemma server_ne_iff: "server_ne a b \<longleftrightarrow> \<not> server_eq a b"
  by (simp add: server_ne_def)

subsection \<open>The order\<close>

lemma mem_less_linear:
  assumes "length xs = length ys"
  shows "mem_less xs ys \<or> xs = ys \<or> mem_less ys xs" "\<not> (mem_less xs ys \<and> mem_less ys xs)" "\<not> mem_less xs xs"
proof -
  show "mem_less xs ys \<or> xs = ys \<or> mem_less ys xs" using assms by (induction xs ys rule: list_induct2) auto
  show "\<not> (mem_less xs ys \<and> mem_less ys xs)" using assms by (induction xs ys rule: list_induct2) auto
  show "\<not> mem_less xs xs" by (induction xs) auto
qed

lemma mem_less_trans: "mem_less xs ys \<Longrightarrow> mem_less ys zs \<Longrightarrow> mem_less xs zs"
proof (induction xs ys arbitrary: zs rule: mem_less.induct)
  case (1 x xs y ys)
  then show ?case by (cases zs) auto
qed auto

lemma byte_bit:
  fixes v w :: u32
  assumes "(ucast (drop_bit k v) :: u8) = ucast (drop_bit k w)" "k \<le> n" "n < k + 8"
  shows "bit v n = bit w n"
proof -
  have "bit (ucast (drop_bit k v) :: u8) (n - k) = bit (ucast (drop_bit k w) :: u8) (n - k)" using assms(1) by simp
  moreover have "n - k < 8" using assms(2,3) by linarith
  ultimately show ?thesis using assms(2) by (simp add: bit_simps)
qed

lemma word_mem_inj: "word_mem v = word_mem w \<longleftrightarrow> v = w"
proof
  assume a: "word_mem v = word_mem w"
  have "bit v n = bit w n" if n: "n < 32" for n
  proof -
    consider "n < 8" | "8 \<le> n" "n < 16" | "16 \<le> n" "n < 24" | "24 \<le> n" "n < 32" using n by linarith
    then show ?thesis
      using a byte_bit [of 0 v w n] byte_bit [of 8 v w n] byte_bit [of 16 v w n] byte_bit [of 24 v w n]
      by cases (simp_all add: word_mem_def)
  qed
  then show "v = w" by (auto intro: bit_word_eqI)
qed simp

lemma v6_mem_inj: "length vs = length ws \<Longrightarrow> concat (map word_mem vs) = concat (map word_mem ws) \<longleftrightarrow> vs = ws"
proof (induction vs ws rule: list_induct2)
  case (Cons v vs w ws)
  have "length (word_mem v) = length (word_mem w)" by (simp add: word_mem_def)
  then show ?case using Cons by (simp add: word_mem_inj)
qed simp

lemma v6_mem_length: "length (concat (map word_mem vs)) = 4 * length vs"
  by (induction vs) (simp_all add: word_mem_def)

lemma list_4: "length xs = 4 \<Longrightarrow> xs = [xs ! 0, xs ! 1, xs ! 2, xs ! 3]"
  by (auto simp: list_eq_iff_nth_eq less_Suc_eq numeral_eq_Suc)

lemma v6_eq: "length vs = 4 \<Longrightarrow> length ws = 4 \<Longrightarrow>
    (vs ! 0 = ws ! 0 \<and> vs ! 1 = ws ! 1 \<and> vs ! 2 = ws ! 2 \<and> vs ! 3 = ws ! 3) \<longleftrightarrow> vs = ws"
  by (metis list_4)

lemma ip_linear:
  assumes "server_proper a" "server_proper b"
  shows "compare_by_ip a b \<or> is_same_ip a b \<or> compare_by_ip b a" "compare_by_ip a b \<Longrightarrow> \<not> compare_by_ip b a"
    "is_same_ip a b \<Longrightarrow> \<not> compare_by_ip a b \<and> \<not> compare_by_ip b a"
proof -
  have v: "length (ip_v6 a) = 4" "length (ip_v6 b) = 4" using assms by (simp_all add: server_proper_def server_ok_def)
  have l: "length (concat (map word_mem (ip_v6 a))) = length (concat (map word_mem (ip_v6 b)))" using v by (simp add: v6_mem_length del: length_concat)
  have m: "is_same_ip a b \<longleftrightarrow> concat (map word_mem (ip_v6 a)) = concat (map word_mem (ip_v6 b))"
    if "srv_version a = IPV6" "srv_version b = IPV6" using that v v6_mem_inj [of "ip_v6 a" "ip_v6 b"] v6_eq [OF v] by (simp add: is_same_ip_def)
  consider (diff) "srv_version a \<noteq> srv_version b" | (v4) "srv_version a = IPV4" "srv_version b = IPV4" | (v6) "srv_version a = IPV6" "srv_version b = IPV6"
    using assms by (auto simp: server_proper_def)
  then have "(compare_by_ip a b \<or> is_same_ip a b \<or> compare_by_ip b a) \<and> (compare_by_ip a b \<longrightarrow> \<not> compare_by_ip b a) \<and>
      (is_same_ip a b \<longrightarrow> \<not> compare_by_ip a b \<and> \<not> compare_by_ip b a)"
  proof cases
    case diff
    then have "sint (srv_version a) \<noteq> sint (srv_version b)" using signed_word_eqI by blast
    then show ?thesis using diff by (auto simp: compare_by_ip_def is_same_ip_def word_sless_alt)
  next
    case v4
    then show ?thesis by (auto simp: compare_by_ip_def is_same_ip_def)
  next
    case v6
    then show ?thesis using mem_less_linear [OF l] mem_less_linear(3) m [OF v6] by (auto simp: compare_by_ip_def)
  qed
  then show "compare_by_ip a b \<or> is_same_ip a b \<or> compare_by_ip b a" "compare_by_ip a b \<Longrightarrow> \<not> compare_by_ip b a"
    "is_same_ip a b \<Longrightarrow> \<not> compare_by_ip a b \<and> \<not> compare_by_ip b a" by blast+
qed

lemma server_eq_ip: "server_eq a b \<longleftrightarrow> is_same_ip a b \<and> srv_port a = srv_port b"
  by (auto simp: server_eq_def is_same_ip_def)

lemma server_order_linear:
  assumes "server_proper a" "server_proper b"
  shows "server_less a b \<or> server_eq a b \<or> server_less b a" "\<not> (server_less a b \<and> server_less b a)"
    "server_eq a b \<Longrightarrow> \<not> server_less a b"
proof -
  have p: "srv_port a = srv_port b \<longleftrightarrow> sint (srv_port a) = sint (srv_port b)" using signed_word_eqI by metis
  show "server_less a b \<or> server_eq a b \<or> server_less b a" "\<not> (server_less a b \<and> server_less b a)"
    "server_eq a b \<Longrightarrow> \<not> server_less a b"
    using ip_linear [OF assms] p by (auto simp: server_less_def server_eq_ip word_sless_alt split: if_splits)
qed

subsection \<open>The identifier\<close>

lemma get_ipv4_server_id_inj:
  assumes "srv_version a = IPV4" "srv_version b = IPV4" "get_ipv4_server_id a = get_ipv4_server_id b"
  shows "server_eq a b"
proof -
  let ?f = "\<lambda>c. push_bit 32 (scast (srv_port c)) OR ucast (ip_v4 c) :: i64"
  have e: "bit (?f a) n = bit (?f b) n" for n using assms by (simp add: get_ipv4_server_id_def)
  have "bit (ip_v4 a) n = bit (ip_v4 b) n" if "n < 32" for n using e [of n] that by (simp add: bit_simps)
  moreover have "bit (srv_port a) n = bit (srv_port b) n" if "n < 32" for n
  proof -
    have "\<not> bit (ip_v4 c) (n + 32)" for c :: ob_server using bit_imp_le_length [of "ip_v4 c" "n + 32"] by auto
    then show ?thesis using e [of "n + 32"] that by (simp add: bit_simps)
  qed
  ultimately have "ip_v4 a = ip_v4 b" "srv_port a = srv_port b" by (auto intro: bit_word_eqI)
  then show ?thesis using assms by (simp add: server_eq_def)
qed

subsection \<open>The codecs\<close>

definition server_bytes :: "ob_server \<Rightarrow> u8 list" where
  "server_bytes a = vi_bytes (unat (srv_version a)) @ vi_bytes (unat (srv_port a)) @
     (if srv_version a = IPV4 then vi_bytes (unat (ip_v4 a)) else concat (map (\<lambda>w. vi_bytes (unat w)) (ip_v6 a)))"

text \<open>What a reader makes of the object \<open>this\<close> when it reads \<open>a\<close>.\<close>

definition server_read :: "ob_server \<Rightarrow> ob_server \<Rightarrow> ob_server" where
  "server_read a this = (let b = this\<lparr>srv_version := srv_version a, srv_port := srv_port a\<rparr>
     in if srv_version a = IPV4 then b\<lparr>ip_v4 := ip_v4 a\<rparr> else b\<lparr>ip_v6 := ip_v6 a\<rparr>)"

lemma server_read_eq [simp]: "server_eq (server_read a this) b \<longleftrightarrow> server_eq a b" "server_eq b (server_read a this) \<longleftrightarrow> server_eq b a"
  by (simp_all add: server_read_def server_eq_def Let_def)

lemma server_read_ok [simp]: "server_ok a \<Longrightarrow> server_ok this \<Longrightarrow> server_ok (server_read a this)"
  by (simp add: server_read_def server_ok_def Let_def)

lemma v6_loop_spec:
  assumes "i + n \<le> length (ip_v6 a)"
  shows "emits (v6_serialize_loop a i n) (concat (map (\<lambda>w. vi_bytes (unat w)) (take n (drop i (ip_v6 a)))))"
    "refuses (v6_serialize_loop a i n) (length (concat (map (\<lambda>w. vi_bytes (unat w)) (take n (drop i (ip_v6 a))))))"
proof -
  have "emits (v6_serialize_loop a i n) (concat (map (\<lambda>w. vi_bytes (unat w)) (take n (drop i (ip_v6 a))))) \<and>
      refuses (v6_serialize_loop a i n) (length (concat (map (\<lambda>w. vi_bytes (unat w)) (take n (drop i (ip_v6 a))))))"
    using assms
  proof (induction n arbitrary: i)
    case (Suc n)
    have d: "take (Suc n) (drop i (ip_v6 a)) = ip_v6 a ! i # take n (drop (Suc i) (ip_v6 a))"
      using Suc.prems by (simp add: Cons_nth_drop_Suc [symmetric])
    then show ?case
      using Suc.IH [of "Suc i"] Suc.prems emits_bind [OF vi32.enc_emits] refuses_bind [OF vi32.enc_emits vi32.enc_refuses]
      by (simp del: length_concat)
  qed (simp add: emits_ret refuses_ret)
  then show "emits (v6_serialize_loop a i n) (concat (map (\<lambda>w. vi_bytes (unat w)) (take n (drop i (ip_v6 a)))))"
    "refuses (v6_serialize_loop a i n) (length (concat (map (\<lambda>w. vi_bytes (unat w)) (take n (drop i (ip_v6 a))))))" by simp_all
qed

lemma v6_loop_reads:
  assumes "i + length ws \<le> length (ip_v6 a)"
  shows "reads (v6_deserialize_loop i (length ws) a) (concat (map (\<lambda>w. vi_bytes (unat w)) ws))
    (a\<lparr>ip_v6 := take i (ip_v6 a) @ ws @ drop (i + length ws) (ip_v6 a)\<rparr>)"
  using assms
proof (induction ws arbitrary: i a)
  case Nil
  then show ?case by (simp add: reads_ret)
next
  case (Cons w ws)
  let ?b = "a\<lparr>ip_v6 := (ip_v6 a)[i := w]\<rparr>"
  have "take (Suc i) (ip_v6 ?b) @ ws @ drop (Suc i + length ws) (ip_v6 ?b) = take i (ip_v6 a) @ (w # ws) @ drop (i + length (w # ws)) (ip_v6 a)"
    using Cons.prems by (simp add: take_Suc_conv_app_nth)
  moreover have "reads (v6_deserialize_loop (Suc i) (length ws) ?b) (concat (map (\<lambda>w. vi_bytes (unat w)) ws))
      (?b\<lparr>ip_v6 := take (Suc i) (ip_v6 ?b) @ ws @ drop (Suc i + length ws) (ip_v6 ?b)\<rparr>)"
    using Cons.prems by (intro Cons.IH) simp
  ultimately show ?case
    using reads_bind [OF vi32.dec_reads [OF TrueI, of w], of "\<lambda>w. v6_deserialize_loop (Suc i) (length ws) (a\<lparr>ip_v6 := (ip_v6 a)[i := w]\<rparr>)"] by simp
qed

lemma server_emits: "server_ok a \<Longrightarrow> emits (server_serialize a) (server_bytes a)"
  unfolding server_serialize_def server_bytes_def server_ok_def
  using v6_loop_spec(1) [of 0 4 a] by (intro emits_bind vi32.enc_emits TrueI) (auto simp: vi32.enc_emits)

lemma server_refuses: "server_ok a \<Longrightarrow> refuses (server_serialize a) (length (server_bytes a))"
  unfolding server_serialize_def server_bytes_def server_ok_def length_append
  using v6_loop_spec(2) [of 0 4 a] by (intro refuses_bind vi32.enc_emits vi32.enc_refuses TrueI) (auto simp: vi32.enc_refuses)

lemma server_reads: "server_ok a \<Longrightarrow> server_ok this \<Longrightarrow> reads (server_deserialize this) (server_bytes a) (server_read a this)"
  unfolding server_deserialize_def server_bytes_def server_ok_def
  using v6_loop_reads [of 0 "ip_v6 a" "this\<lparr>srv_version := srv_version a, srv_port := srv_port a\<rparr>"]
  by (intro reads_bind [OF vi32.dec_reads [OF TrueI]]) (auto simp: server_read_def Let_def intro: reads_bind_ret vi32.dec_reads)

lemma server_size: "server_ok a \<Longrightarrow> server_get_serialize_size a = int (length (server_bytes a))"
proof -
  have "v6_size_loop a i n = int (length (concat (map (\<lambda>w. vi_bytes (unat w)) (take n (drop i (ip_v6 a))))))" if "i + n \<le> length (ip_v6 a)" for i n
    using that
  proof (induction n arbitrary: i)
    case (Suc n)
    then have "take (Suc n) (drop i (ip_v6 a)) = ip_v6 a ! i # take n (drop (Suc i) (ip_v6 a))" by (simp add: Cons_nth_drop_Suc [symmetric])
    then show ?case using Suc by (simp add: encoded_length_vi32_eq del: length_concat)
  qed simp
  from this [of 0 4] show "server_ok a \<Longrightarrow> server_get_serialize_size a = int (length (server_bytes a))"
    by (simp add: server_get_serialize_size_def server_bytes_def encoded_length_vi32_eq server_ok_def del: length_concat)
qed

interpretation role: codec role_serialize role_deserialize "\<lambda>v. vi_bytes (unat v)" "\<lambda>_. True"
proof
  show "reads role_deserialize (vi_bytes (unat v)) v" for v
    using reads_bind_ret [OF vi32.dec_reads [OF TrueI], of "\<lambda>v. v"] by (simp add: role_deserialize_def)
qed (simp_all add: role_serialize_def vi32.enc_emits vi32.enc_refuses)

end
