(* ===== verification/Ob_Ups_Info.thy ===== *)
theory Ob_Ups_Info
  imports Ob_Server
begin

text \<open>
  The list of update servers that the root server publishes, \<^verbatim>\<open>common/ob_ups_info.{h,cpp}\<close>, and the messages between root server and
  update servers, \<^verbatim>\<open>common/ob_rs_ups_message.{h,cpp}\<close>. Their readers fill objects that exist.
\<close>

section \<open>One update server\<close>

datatype ups_info_stat = UPS_SLAVE | UPS_MASTER

definition stat_code :: "ups_info_stat \<Rightarrow> i32" where
  "stat_code st = (case st of UPS_SLAVE \<Rightarrow> 0 | UPS_MASTER \<Rightarrow> 1)"

datatype server_type = CHUNK_SERVER | MERGE_SERVER

record ups_info =
  info_addr :: ob_server
  info_inner_port :: i32
  info_stat :: ups_info_stat
  info_ms_read_percentage :: i8
  info_cs_read_percentage :: i8
  info_reserve2 :: i16
  info_reserve3 :: i32

definition info_new :: ups_info where
  "info_new = \<lparr>info_addr = server_new, info_inner_port = 0, info_stat = UPS_SLAVE, info_ms_read_percentage = 0,
     info_cs_read_percentage = 0, info_reserve2 = 0, info_reserve3 = 0\<rparr>"

definition get_read_percentage :: "server_type \<Rightarrow> ups_info \<Rightarrow> i8" where
  "get_read_percentage ty u = (case ty of CHUNK_SERVER \<Rightarrow> info_cs_read_percentage u | MERGE_SERVER \<Rightarrow> info_ms_read_percentage u)"

definition get_server :: "server_type \<Rightarrow> ups_info \<Rightarrow> ob_server" where
  "get_server ty u = (case ty of CHUNK_SERVER \<Rightarrow> set_port (info_inner_port u) (info_addr u) | MERGE_SERVER \<Rightarrow> info_addr u)"

definition info_serialize :: "ups_info \<Rightarrow> unit run" where
  "info_serialize u =
     bind (server_serialize (info_addr u)) (\<lambda>_.
     bind (encode_vi32 (info_inner_port u)) (\<lambda>_.
     bind (encode_vi32 (stat_code (info_stat u))) (\<lambda>_.
     bind (encode_i8 (info_ms_read_percentage u)) (\<lambda>_.
     bind (encode_i8 (info_cs_read_percentage u)) (\<lambda>_.
     bind (encode_i16 (info_reserve2 u)) (\<lambda>_.
     encode_vi32 (info_reserve3 u)))))))"

text \<open>A status that is none is logged; the object keeps its old one and the call succeeds.\<close>

definition info_deserialize :: "ups_info \<Rightarrow> ups_info run" where
  "info_deserialize this =
     bind (server_deserialize (info_addr this)) (\<lambda>addr.
     bind decode_vi32 (\<lambda>inner_port.
     bind decode_vi32 (\<lambda>stat.
     bind decode_i8 (\<lambda>ms_read_percentage.
     bind decode_i8 (\<lambda>cs_read_percentage.
     bind decode_i16 (\<lambda>reserve2.
     bind decode_vi32 (\<lambda>reserve3.
     ret (\<lparr>info_addr = addr, info_inner_port = inner_port,
       info_stat = (if stat = stat_code UPS_SLAVE then UPS_SLAVE else if stat = stat_code UPS_MASTER then UPS_MASTER else info_stat this),
       info_ms_read_percentage = ms_read_percentage, info_cs_read_percentage = cs_read_percentage,
       info_reserve2 = reserve2, info_reserve3 = reserve3\<rparr>))))))))"

section \<open>The list\<close>

definition LIST_MAX_UPS_COUNT :: nat where
  "LIST_MAX_UPS_COUNT = 8"

record ups_list =
  list_array :: "ups_info list"
  list_count :: i32
  list_reserve :: i32
  sum_ms_percentage :: i32
  sum_cs_percentage :: i32

definition list_new :: ups_list where
  "list_new = \<lparr>list_array = replicate LIST_MAX_UPS_COUNT info_new, list_count = 0, list_reserve = 0,
     sum_ms_percentage = 0, sum_cs_percentage = 0\<rparr>"

definition get_sum_percentage :: "server_type \<Rightarrow> ups_list \<Rightarrow> i32" where
  "get_sum_percentage ty l = (case ty of CHUNK_SERVER \<Rightarrow> sum_cs_percentage l | MERGE_SERVER \<Rightarrow> sum_ms_percentage l)"

text \<open>An index outside the array is undefined behaviour.\<close>

fun list_serialize_loop :: "ups_list \<Rightarrow> nat \<Rightarrow> nat \<Rightarrow> unit run" where
  "list_serialize_loop l i 0 = ret ()"
| "list_serialize_loop l i (Suc n) =
     (if i < length (list_array l)
      then bind (info_serialize (list_array l ! i)) (\<lambda>_. list_serialize_loop l (Suc i) n)
      else (\<lambda>_. None))"

definition list_serialize :: "ups_list \<Rightarrow> unit run" where
  "list_serialize l = bind (encode_vi32 (list_count l)) (\<lambda>_. list_serialize_loop l 0 (nat (sint (list_count l))))"

definition list_add_sums :: "ups_info \<Rightarrow> ups_list \<Rightarrow> ups_list" where
  "list_add_sums u l = l\<lparr>sum_ms_percentage := sum_ms_percentage l + scast (info_ms_read_percentage u),
     sum_cs_percentage := sum_cs_percentage l + scast (info_cs_read_percentage u)\<rparr>"

fun list_deserialize_loop :: "nat \<Rightarrow> nat \<Rightarrow> ups_list \<Rightarrow> ups_list run" where
  "list_deserialize_loop i 0 l = ret l"
| "list_deserialize_loop i (Suc n) l =
     (if i < LIST_MAX_UPS_COUNT
      then bind (with_err OB_INVALID_ARGUMENT (info_deserialize (list_array l ! i))) (\<lambda>u.
        list_deserialize_loop (Suc i) n (list_add_sums u (l\<lparr>list_array := (list_array l)[i := u]\<rparr>)))
      else ret l)"

definition list_deserialize :: "ups_list \<Rightarrow> ups_list run" where
  "list_deserialize this =
     bind (with_err OB_INVALID_ARGUMENT decode_vi32) (\<lambda>count.
     list_deserialize_loop 0 (nat (sint count)) (this\<lparr>list_count := count, sum_cs_percentage := 0, sum_ms_percentage := 0\<rparr>))"

section \<open>Messages\<close>

record heartbeat =
  hb_ups_master :: ob_server
  hb_self_lease :: i64
  hb_obi_role :: obi_role
  hb_schema_version :: i64
  hb_config_version :: i64

definition heartbeat_serialize :: "heartbeat \<Rightarrow> unit run" where
  "heartbeat_serialize m =
     bind (server_serialize (hb_ups_master m)) (\<lambda>_.
     bind (encode_vi64 (hb_self_lease m)) (\<lambda>_.
     bind (role_serialize (hb_obi_role m)) (\<lambda>_.
     bind (encode_vi64 (hb_schema_version m)) (\<lambda>_.
     encode_vi64 (hb_config_version m)))))"

definition heartbeat_deserialize :: "heartbeat \<Rightarrow> heartbeat run" where
  "heartbeat_deserialize this =
     bind (with_err OB_INVALID_ARGUMENT (server_deserialize (hb_ups_master this))) (\<lambda>master.
     bind (with_err OB_INVALID_ARGUMENT decode_vi64) (\<lambda>lease.
     bind role_deserialize (\<lambda>role.
     bind decode_vi64 (\<lambda>schema.
     bind decode_vi64 (\<lambda>config.
     ret \<lparr>hb_ups_master = master, hb_self_lease = lease, hb_obi_role = role, hb_schema_version = schema, hb_config_version = config\<rparr>)))))"

datatype sync_status = RESP_SYNC | RESP_NOTSYNC

definition sync_code :: "sync_status \<Rightarrow> i32" where
  "sync_code st = (case st of RESP_SYNC \<Rightarrow> 0 | RESP_NOTSYNC \<Rightarrow> 1)"

record heartbeat_resp =
  resp_addr :: ob_server
  resp_status :: sync_status
  resp_obi_role :: obi_role

definition resp_serialize :: "heartbeat_resp \<Rightarrow> unit run" where
  "resp_serialize m =
     bind (server_serialize (resp_addr m)) (\<lambda>_.
     bind (encode_vi32 (sync_code (resp_status m))) (\<lambda>_.
     role_serialize (resp_obi_role m)))"

definition resp_deserialize :: "heartbeat_resp \<Rightarrow> heartbeat_resp run" where
  "resp_deserialize this =
     bind (with_err OB_INVALID_ARGUMENT (server_deserialize (resp_addr this))) (\<lambda>addr.
     bind (with_err OB_INVALID_ARGUMENT decode_vi32) (\<lambda>status.
     bind role_deserialize (\<lambda>role.
     if status = sync_code RESP_SYNC then ret \<lparr>resp_addr = addr, resp_status = RESP_SYNC, resp_obi_role = role\<rparr>
     else if status = sync_code RESP_NOTSYNC then ret \<lparr>resp_addr = addr, resp_status = RESP_NOTSYNC, resp_obi_role = role\<rparr>
     else fail OB_INVALID_ARGUMENT)))"

record slave_failure_msg =
  fail_my_addr :: ob_server
  fail_slave_addr :: ob_server

definition failure_serialize :: "slave_failure_msg \<Rightarrow> unit run" where
  "failure_serialize m = bind (server_serialize (fail_my_addr m)) (\<lambda>_. server_serialize (fail_slave_addr m))"

definition failure_deserialize :: "slave_failure_msg \<Rightarrow> slave_failure_msg run" where
  "failure_deserialize this =
     bind (with_err OB_INVALID_ARGUMENT (server_deserialize (fail_my_addr this))) (\<lambda>a.
     bind (with_err OB_INVALID_ARGUMENT (server_deserialize (fail_slave_addr this))) (\<lambda>b.
     ret \<lparr>fail_my_addr = a, fail_slave_addr = b\<rparr>))"

record revoke_msg =
  rev_lease :: i64
  rev_ups_master :: ob_server

definition revoke_serialize :: "revoke_msg \<Rightarrow> unit run" where
  "revoke_serialize m = bind (encode_vi64 (rev_lease m)) (\<lambda>_. server_serialize (rev_ups_master m))"

definition revoke_deserialize :: "revoke_msg \<Rightarrow> revoke_msg run" where
  "revoke_deserialize this =
     bind (with_err OB_INVALID_ARGUMENT decode_vi64) (\<lambda>lease.
     bind (with_err OB_INVALID_ARGUMENT (server_deserialize (rev_ups_master this))) (\<lambda>master.
     ret \<lparr>rev_lease = lease, rev_ups_master = master\<rparr>))"

text \<open>
  The registration carries a version in an array of 64 bytes. It is written as a C string, and undefined where there is none; what
  is read is copied into the array without a look at its length.
\<close>

definition OB_SERVER_VERSION_LENGTH :: nat where
  "OB_SERVER_VERSION_LENGTH = 64"

record register_msg =
  reg_addr :: ob_server
  reg_inner_port :: i32
  reg_log_seq_num :: i64
  reg_lease :: i64
  reg_server_version :: "u8 list"

definition c_string :: "u8 list \<Rightarrow> u8 list option" where
  "c_string m = (if 0 \<in> set m then Some (takeWhile (\<lambda>c. c \<noteq> 0) m) else None)"

definition register_serialize :: "register_msg \<Rightarrow> unit run" where
  "register_serialize m =
     bind (server_serialize (reg_addr m)) (\<lambda>_.
     bind (encode_vi32 (reg_inner_port m)) (\<lambda>_.
     bind (encode_vi64 (reg_log_seq_num m)) (\<lambda>_.
     bind (encode_vi64 (reg_lease m)) (\<lambda>_.
     case c_string (reg_server_version m) of None \<Rightarrow> (\<lambda>_. None) | Some cs \<Rightarrow> encode_vstr_cstr (Some cs)))))"

definition copy_version :: "int \<Rightarrow> int \<Rightarrow> u8 list \<Rightarrow> u8 list run" where
  "copy_version p len version = (\<lambda>s.
     if len \<le> int (length version)
     then case mem_slice s p len of None \<Rightarrow> None | Some bs \<Rightarrow> ret (bs @ drop (length bs) version) s
     else None)"

definition read_version :: "u8 list \<Rightarrow> u8 list run" where
  "read_version version =
     bind decode_vstr (\<lambda>(p, len).
     case p of
       None \<Rightarrow> fail OB_INVALID_ARGUMENT
     | Some p \<Rightarrow> copy_version p (case len of None \<Rightarrow> 0 | Some len \<Rightarrow> len) version)"

definition register_deserialize :: "register_msg \<Rightarrow> register_msg run" where
  "register_deserialize this =
     bind (with_err OB_INVALID_ARGUMENT (server_deserialize (reg_addr this))) (\<lambda>addr.
     bind (with_err OB_INVALID_ARGUMENT decode_vi32) (\<lambda>inner_port.
     bind (with_err OB_INVALID_ARGUMENT decode_vi64) (\<lambda>lsn.
     bind (with_err OB_INVALID_ARGUMENT decode_vi64) (\<lambda>lease.
     bind (read_version (reg_server_version this)) (\<lambda>version.
     ret \<lparr>reg_addr = addr, reg_inner_port = inner_port, reg_log_seq_num = lsn, reg_lease = lease, reg_server_version = version\<rparr>)))))"

section \<open>Codecs that fill an object\<close>

text \<open>The interface of such a codec: \<open>read v this\<close> is what reading \<open>v\<close> makes of \<open>this\<close>, and \<open>same\<close> says that it is as good as \<open>v\<close>.\<close>

locale object_codec =
  fixes enc :: "'a \<Rightarrow> unit run" and dec :: "'a \<Rightarrow> 'a run" and bytes :: "'a \<Rightarrow> u8 list" and good :: "'a \<Rightarrow> bool"
    and read :: "'a \<Rightarrow> 'a \<Rightarrow> 'a" and same :: "'a \<Rightarrow> 'a \<Rightarrow> bool"
  assumes obj_emits: "good v \<Longrightarrow> emits (enc v) (bytes v)"
    and obj_refuses: "good v \<Longrightarrow> refuses (enc v) (length (bytes v))"
    and obj_reads: "good v \<Longrightarrow> good this \<Longrightarrow> reads (dec this) (bytes v) (read v this)"
    and read_good: "good v \<Longrightarrow> good this \<Longrightarrow> good (read v this)"
    and read_same: "good v \<Longrightarrow> good this \<Longrightarrow> same (read v this) v"
begin

lemma roundtrip:
  assumes "good v" "good this" "room (length (bytes v)) s"
  shows "\<exists>s' w s''. enc v s = Some (Ok (), s') \<and> dec this (s'\<lparr>pos := pos s\<rparr>) = Some (Ok w, s'') \<and> pos s'' = pos s' \<and> same w v \<and> good w"
proof -
  have e: "enc v s = Some (Ok (), overlay (bytes v) s)" using emitsD [OF obj_emits [OF assms(1)] assms(3)] by simp
  have "holds (bytes v) ((overlay (bytes v) s)\<lparr>pos := pos s\<rparr>)" using holds_overlay [OF assms(3)] by simp
  then have "dec this ((overlay (bytes v) s)\<lparr>pos := pos s\<rparr>) = Some (Ok (read v this), adv (length (bytes v)) ((overlay (bytes v) s)\<lparr>pos := pos s\<rparr>))"
    using readsD [OF obj_reads [OF assms(1,2)]] by simp
  then show ?thesis using e read_same [OF assms(1,2)] read_good [OF assms(1,2)] by (simp add: pos_overlay)
qed

end

interpretation server: object_codec server_serialize server_deserialize server_bytes server_ok server_read server_eq
  by unfold_locales (simp_all add: server_emits server_refuses server_reads)

lemmas fill_emits = server_emits vi32.enc_emits [OF TrueI] vi64.enc_emits [OF TrueI] i8.enc_emits [OF TrueI] i16.enc_emits [OF TrueI]
  role.enc_emits [OF TrueI]

lemmas fill_refuses = server_refuses vi32.enc_refuses [OF TrueI] vi64.enc_refuses [OF TrueI] i8.enc_refuses [OF TrueI]
  i16.enc_refuses [OF TrueI] role.enc_refuses [OF TrueI]

lemmas fill_reads = server_reads vi32.dec_reads [OF TrueI] vi64.dec_reads [OF TrueI] i8.dec_reads [OF TrueI] i16.dec_reads [OF TrueI]
  role.dec_reads [OF TrueI]

definition info_bytes :: "ups_info \<Rightarrow> u8 list" where
  "info_bytes u = server_bytes (info_addr u) @ vi_bytes (unat (info_inner_port u)) @ vi_bytes (unat (stat_code (info_stat u))) @
     [info_ms_read_percentage u] @ [info_cs_read_percentage u] @ be_bytes 2 (info_reserve2 u) @ vi_bytes (unat (info_reserve3 u))"

definition info_read :: "ups_info \<Rightarrow> ups_info \<Rightarrow> ups_info" where
  "info_read u this = u\<lparr>info_addr := server_read (info_addr u) (info_addr this)\<rparr>"

definition info_same :: "ups_info \<Rightarrow> ups_info \<Rightarrow> bool" where
  "info_same u v \<longleftrightarrow> server_eq (info_addr u) (info_addr v) \<and> u\<lparr>info_addr := info_addr v\<rparr> = v"

lemma stat_code_inj [simp]: "stat_code a = stat_code b \<longleftrightarrow> a = b"
  by (cases a; cases b) (simp_all add: stat_code_def)

interpretation info: object_codec info_serialize info_deserialize info_bytes "\<lambda>u. server_ok (info_addr u)" info_read info_same
proof
  fix u this :: ups_info
  assume ok: "server_ok (info_addr u)"
  show "emits (info_serialize u) (info_bytes u)"
    unfolding info_serialize_def info_bytes_def by (intro emits_bind fill_emits ok)
  show "refuses (info_serialize u) (length (info_bytes u))"
    unfolding info_serialize_def info_bytes_def length_append by (intro refuses_bind fill_emits fill_refuses ok)
  assume ok2: "server_ok (info_addr this)"
  have "reads (info_deserialize this) (info_bytes u @ []) (\<lparr>info_addr = server_read (info_addr u) (info_addr this), info_inner_port = info_inner_port u,
       info_stat = (if stat_code (info_stat u) = stat_code UPS_SLAVE then UPS_SLAVE
         else if stat_code (info_stat u) = stat_code UPS_MASTER then UPS_MASTER else info_stat this),
       info_ms_read_percentage = info_ms_read_percentage u, info_cs_read_percentage = info_cs_read_percentage u,
       info_reserve2 = info_reserve2 u, info_reserve3 = info_reserve3 u\<rparr>)"
    unfolding info_deserialize_def info_bytes_def append_assoc
    by (rule reads_bind [OF server_reads [OF ok ok2]] reads_bind [OF vi32.dec_reads [OF TrueI]] reads_bind [OF i8.dec_reads [OF TrueI]]
        reads_bind [OF i16.dec_reads [OF TrueI]] reads_ret)+
  moreover have "(if stat_code (info_stat u) = stat_code UPS_SLAVE then UPS_SLAVE
         else if stat_code (info_stat u) = stat_code UPS_MASTER then UPS_MASTER else info_stat this) = info_stat u"
    by (cases "info_stat u") simp_all
  ultimately show "reads (info_deserialize this) (info_bytes u) (info_read u this)" by (cases u) (simp add: info_read_def)
  show "server_ok (info_addr (info_read u this))" using ok ok2 by (simp add: info_read_def)
  show "info_same (info_read u this) u" by (simp add: info_same_def info_read_def)
qed

subsection \<open>The messages\<close>

definition heartbeat_bytes :: "heartbeat \<Rightarrow> u8 list" where
  "heartbeat_bytes m = server_bytes (hb_ups_master m) @ vi_bytes (unat (hb_self_lease m)) @ vi_bytes (unat (hb_obi_role m)) @
     vi_bytes (unat (hb_schema_version m)) @ vi_bytes (unat (hb_config_version m))"

definition heartbeat_read :: "heartbeat \<Rightarrow> heartbeat \<Rightarrow> heartbeat" where
  "heartbeat_read m this = m\<lparr>hb_ups_master := server_read (hb_ups_master m) (hb_ups_master this)\<rparr>"

definition heartbeat_same :: "heartbeat \<Rightarrow> heartbeat \<Rightarrow> bool" where
  "heartbeat_same m n \<longleftrightarrow> server_eq (hb_ups_master m) (hb_ups_master n) \<and> m\<lparr>hb_ups_master := hb_ups_master n\<rparr> = n"

interpretation heartbeat: object_codec heartbeat_serialize heartbeat_deserialize heartbeat_bytes "\<lambda>m. server_ok (hb_ups_master m)" heartbeat_read
  heartbeat_same
proof
  fix m this :: heartbeat
  assume ok: "server_ok (hb_ups_master m)"
  show "emits (heartbeat_serialize m) (heartbeat_bytes m)"
    unfolding heartbeat_serialize_def heartbeat_bytes_def by (intro emits_bind fill_emits ok)
  show "refuses (heartbeat_serialize m) (length (heartbeat_bytes m))"
    unfolding heartbeat_serialize_def heartbeat_bytes_def length_append by (intro refuses_bind fill_emits fill_refuses ok)
  assume ok2: "server_ok (hb_ups_master this)"
  have "reads (heartbeat_deserialize this) (heartbeat_bytes m @ []) \<lparr>hb_ups_master = server_read (hb_ups_master m) (hb_ups_master this),
      hb_self_lease = hb_self_lease m, hb_obi_role = hb_obi_role m, hb_schema_version = hb_schema_version m, hb_config_version = hb_config_version m\<rparr>"
    unfolding heartbeat_deserialize_def heartbeat_bytes_def append_assoc
    by (rule reads_bind [OF reads_with_err [OF server_reads [OF ok ok2]]] reads_bind [OF reads_with_err [OF vi64.dec_reads [OF TrueI]]]
        reads_bind [OF role.dec_reads [OF TrueI]] reads_bind [OF vi64.dec_reads [OF TrueI]] reads_ret)+
  then show "reads (heartbeat_deserialize this) (heartbeat_bytes m) (heartbeat_read m this)" by (cases m) (simp add: heartbeat_read_def)
  show "server_ok (hb_ups_master (heartbeat_read m this))" using ok ok2 by (simp add: heartbeat_read_def)
  show "heartbeat_same (heartbeat_read m this) m" by (simp add: heartbeat_same_def heartbeat_read_def)
qed

definition resp_bytes :: "heartbeat_resp \<Rightarrow> u8 list" where
  "resp_bytes m = server_bytes (resp_addr m) @ vi_bytes (unat (sync_code (resp_status m))) @ vi_bytes (unat (resp_obi_role m))"

definition resp_read :: "heartbeat_resp \<Rightarrow> heartbeat_resp \<Rightarrow> heartbeat_resp" where
  "resp_read m this = m\<lparr>resp_addr := server_read (resp_addr m) (resp_addr this)\<rparr>"

definition resp_same :: "heartbeat_resp \<Rightarrow> heartbeat_resp \<Rightarrow> bool" where
  "resp_same m n \<longleftrightarrow> server_eq (resp_addr m) (resp_addr n) \<and> m\<lparr>resp_addr := resp_addr n\<rparr> = n"

interpretation resp: object_codec resp_serialize resp_deserialize resp_bytes "\<lambda>m. server_ok (resp_addr m)" resp_read resp_same
proof
  fix m this :: heartbeat_resp
  assume ok: "server_ok (resp_addr m)"
  show "emits (resp_serialize m) (resp_bytes m)"
    unfolding resp_serialize_def resp_bytes_def by (intro emits_bind fill_emits ok)
  show "refuses (resp_serialize m) (length (resp_bytes m))"
    unfolding resp_serialize_def resp_bytes_def length_append by (intro refuses_bind fill_emits fill_refuses ok)
  assume ok2: "server_ok (resp_addr this)"
  let ?rest = "\<lambda>addr status role. if status = sync_code RESP_SYNC then ret \<lparr>resp_addr = addr, resp_status = RESP_SYNC, resp_obi_role = role\<rparr>
     else if status = sync_code RESP_NOTSYNC then ret \<lparr>resp_addr = addr, resp_status = RESP_NOTSYNC, resp_obi_role = role\<rparr>
     else fail OB_INVALID_ARGUMENT"
  have "reads (?rest (server_read (resp_addr m) (resp_addr this)) (sync_code (resp_status m)) (resp_obi_role m)) [] (resp_read m this)"
    using reads_ret by (cases m; cases "resp_status m") (simp_all add: resp_read_def sync_code_def)
  then have "reads (resp_deserialize this) (resp_bytes m @ []) (resp_read m this)"
    unfolding resp_deserialize_def resp_bytes_def append_assoc
    by (rule reads_bind [OF reads_with_err [OF server_reads [OF ok ok2]]
        reads_bind [OF reads_with_err [OF vi32.dec_reads [OF TrueI]] reads_bind [OF role.dec_reads [OF TrueI]]]])
  then show "reads (resp_deserialize this) (resp_bytes m) (resp_read m this)" by simp
  show "server_ok (resp_addr (resp_read m this))" using ok ok2 by (simp add: resp_read_def)
  show "resp_same (resp_read m this) m" by (simp add: resp_same_def resp_read_def)
qed

definition failure_bytes :: "slave_failure_msg \<Rightarrow> u8 list" where
  "failure_bytes m = server_bytes (fail_my_addr m) @ server_bytes (fail_slave_addr m)"

definition failure_read :: "slave_failure_msg \<Rightarrow> slave_failure_msg \<Rightarrow> slave_failure_msg" where
  "failure_read m this = \<lparr>fail_my_addr = server_read (fail_my_addr m) (fail_my_addr this),
     fail_slave_addr = server_read (fail_slave_addr m) (fail_slave_addr this)\<rparr>"

interpretation failure: object_codec failure_serialize failure_deserialize failure_bytes
  "\<lambda>m. server_ok (fail_my_addr m) \<and> server_ok (fail_slave_addr m)" failure_read
  "\<lambda>m n. server_eq (fail_my_addr m) (fail_my_addr n) \<and> server_eq (fail_slave_addr m) (fail_slave_addr n)"
proof
  fix m this :: slave_failure_msg
  assume ok: "server_ok (fail_my_addr m) \<and> server_ok (fail_slave_addr m)"
  show "emits (failure_serialize m) (failure_bytes m)"
    unfolding failure_serialize_def failure_bytes_def using ok by (intro emits_bind fill_emits) auto
  show "refuses (failure_serialize m) (length (failure_bytes m))"
    unfolding failure_serialize_def failure_bytes_def length_append using ok by (intro refuses_bind fill_emits fill_refuses) auto
  assume ok2: "server_ok (fail_my_addr this) \<and> server_ok (fail_slave_addr this)"
  have "reads (failure_deserialize this) (failure_bytes m @ []) (failure_read m this)"
    unfolding failure_deserialize_def failure_bytes_def failure_read_def append_assoc
    by (rule reads_bind [OF reads_with_err [OF server_reads] reads_bind [OF reads_with_err [OF server_reads] reads_ret]]) (use ok ok2 in simp_all)
  then show "reads (failure_deserialize this) (failure_bytes m) (failure_read m this)" by simp
qed (simp_all add: failure_read_def)

definition revoke_bytes :: "revoke_msg \<Rightarrow> u8 list" where
  "revoke_bytes m = vi_bytes (unat (rev_lease m)) @ server_bytes (rev_ups_master m)"

definition revoke_read :: "revoke_msg \<Rightarrow> revoke_msg \<Rightarrow> revoke_msg" where
  "revoke_read m this = \<lparr>rev_lease = rev_lease m, rev_ups_master = server_read (rev_ups_master m) (rev_ups_master this)\<rparr>"

interpretation revoke: object_codec revoke_serialize revoke_deserialize revoke_bytes "\<lambda>m. server_ok (rev_ups_master m)" revoke_read
  "\<lambda>m n. rev_lease m = rev_lease n \<and> server_eq (rev_ups_master m) (rev_ups_master n)"
proof
  fix m this :: revoke_msg
  assume ok: "server_ok (rev_ups_master m)"
  show "emits (revoke_serialize m) (revoke_bytes m)"
    unfolding revoke_serialize_def revoke_bytes_def by (intro emits_bind fill_emits ok)
  show "refuses (revoke_serialize m) (length (revoke_bytes m))"
    unfolding revoke_serialize_def revoke_bytes_def length_append by (intro refuses_bind fill_emits fill_refuses ok)
  assume ok2: "server_ok (rev_ups_master this)"
  have "reads (revoke_deserialize this) (revoke_bytes m @ []) (revoke_read m this)"
    unfolding revoke_deserialize_def revoke_bytes_def revoke_read_def append_assoc
    by (rule reads_bind [OF reads_with_err [OF vi64.dec_reads [OF TrueI]] reads_bind [OF reads_with_err [OF server_reads [OF ok ok2]] reads_ret]])
  then show "reads (revoke_deserialize this) (revoke_bytes m) (revoke_read m this)" by simp
qed (simp_all add: revoke_read_def)

subsection \<open>The registration\<close>

lemma encode_vstr_refuses:
  assumes "length (vstr_bytes bs) < 2 ^ 31"
  shows "refuses (encode_vstr (Some bs) (int (length bs))) (length (vstr_bytes bs))"
proof (rule refusesI)
  fix s assume s: "buf_wf s" "\<not> room (length (vstr_bytes bs)) s"
  have "length bs < 2 ^ 31" using assms by (simp add: vstr_bytes_def)
  then have "sint (of_int (encoded_length_vstr (int (length bs))) :: i32) = int (length (vstr_bytes bs))" using assms by (simp add: encoded_length_vstr_eq)
  then show "\<exists>e s'. encode_vstr (Some bs) (int (length bs)) s = Some (Err e, s')"
    using s by (auto simp: encode_vstr_def fail_def room_def)
qed

lemma c_string_length: "c_string m = Some cs \<Longrightarrow> length cs < length m"
proof -
  have "0 \<in> set m \<Longrightarrow> length (takeWhile (\<lambda>c. c \<noteq> 0) m) < length m"
    by (induction m) auto
  then show "c_string m = Some cs \<Longrightarrow> length cs < length m" by (auto simp: c_string_def split: if_splits)
qed

lemma c_string_read: "c_string m = Some cs \<Longrightarrow> c_string (cs @ 0 # ys) = Some cs"
proof -
  have "takeWhile (\<lambda>c. c \<noteq> 0) (takeWhile (\<lambda>c. c \<noteq> 0) m @ 0 # ys) = takeWhile (\<lambda>c. c \<noteq> 0) m" by (induction m) simp_all
  then show "c_string m = Some cs \<Longrightarrow> c_string (cs @ 0 # ys) = Some cs" by (auto simp: c_string_def split: if_splits)
qed

definition register_good :: "register_msg \<Rightarrow> bool" where
  "register_good m \<longleftrightarrow> server_ok (reg_addr m) \<and> length (reg_server_version m) = OB_SERVER_VERSION_LENGTH \<and> c_string (reg_server_version m) \<noteq> None"

definition version_bytes :: "register_msg \<Rightarrow> u8 list" where
  "version_bytes m = the (c_string (reg_server_version m)) @ [0]"

definition register_bytes :: "register_msg \<Rightarrow> u8 list" where
  "register_bytes m = server_bytes (reg_addr m) @ vi_bytes (unat (reg_inner_port m)) @ vi_bytes (unat (reg_log_seq_num m)) @
     vi_bytes (unat (reg_lease m)) @ vstr_bytes (version_bytes m)"

definition register_read :: "register_msg \<Rightarrow> register_msg \<Rightarrow> register_msg" where
  "register_read m this = m\<lparr>reg_addr := server_read (reg_addr m) (reg_addr this),
     reg_server_version := version_bytes m @ drop (length (version_bytes m)) (reg_server_version this)\<rparr>"

definition register_same :: "register_msg \<Rightarrow> register_msg \<Rightarrow> bool" where
  "register_same m n \<longleftrightarrow> server_eq (reg_addr m) (reg_addr n) \<and> c_string (reg_server_version m) = c_string (reg_server_version n) \<and>
     m\<lparr>reg_addr := reg_addr n, reg_server_version := reg_server_version n\<rparr> = n"

lemma version_length: "register_good m \<Longrightarrow> length (version_bytes m) \<le> 64 \<and> length (vstr_bytes (version_bytes m)) < 2 ^ 31"
  using c_string_length [of "reg_server_version m"]
  by (auto simp: register_good_def version_bytes_def OB_SERVER_VERSION_LENGTH_def vstr_bytes_def vi_bytes_small)

lemma read_version_reads:
  assumes "length bs \<le> length version" "length bs < 2 ^ 63"
  shows "reads (read_version version) (vstr_bytes bs) (bs @ drop (length bs) version)"
proof (rule readsI)
  fix s assume "holds (vstr_bytes bs) s"
  then have h: "holds (vi_bytes (length bs) @ bs) s" unfolding vstr_bytes_def append_assoc [symmetric] by (simp only: holds_append)
  have "mem_slice (adv k s) p n = mem_slice s p n" for k p n by (simp add: mem_slice_def adv_def)
  then show "read_version version s = Some (Ok (bs @ drop (length bs) version), adv (length (vstr_bytes bs)) s)"
    using decode_vstr_holds [OF h assms(2)] assms(1) by (simp add: bind_def read_version_def copy_version_def ret_def vstr_bytes_def)
qed

interpretation register: object_codec register_serialize register_deserialize register_bytes register_good register_read register_same
proof
  fix m this :: register_msg
  assume good: "register_good m"
  then have ok: "server_ok (reg_addr m)" by (simp add: register_good_def)
  obtain cs where cs: "c_string (reg_server_version m) = Some cs" using good by (auto simp: register_good_def)
  have l: "length (version_bytes m) \<le> 64" "length (vstr_bytes (version_bytes m)) < 2 ^ 31" "length (version_bytes m) < 2 ^ 63"
    using version_length [OF good] by auto
  have v: "encode_vstr_cstr (Some cs) = encode_vstr (Some (version_bytes m)) (int (length (version_bytes m)))"
    by (simp add: encode_vstr_cstr_def version_bytes_def cs add.commute)
  show "emits (register_serialize m) (register_bytes m)"
    unfolding register_serialize_def register_bytes_def cs option.case v by (intro emits_bind fill_emits encode_vstr_emits ok l)
  show "refuses (register_serialize m) (length (register_bytes m))"
    unfolding register_serialize_def register_bytes_def length_append cs option.case v
    by (intro refuses_bind fill_emits fill_refuses encode_vstr_refuses ok l)
  assume good2: "register_good this"
  have r: "reads (read_version (reg_server_version this)) (vstr_bytes (version_bytes m))
      (version_bytes m @ drop (length (version_bytes m)) (reg_server_version this))"
    using read_version_reads l(1,3) good2 by (simp add: register_good_def OB_SERVER_VERSION_LENGTH_def)
  have ok2: "server_ok (reg_addr this)" using good2 by (simp add: register_good_def)
  have "reads (register_deserialize this) (register_bytes m @ []) \<lparr>reg_addr = server_read (reg_addr m) (reg_addr this), reg_inner_port = reg_inner_port m,
      reg_log_seq_num = reg_log_seq_num m, reg_lease = reg_lease m,
      reg_server_version = version_bytes m @ drop (length (version_bytes m)) (reg_server_version this)\<rparr>"
    unfolding register_deserialize_def register_bytes_def append_assoc
    by (rule reads_bind [OF reads_with_err [OF server_reads [OF ok ok2]]] reads_bind [OF reads_with_err [OF vi32.dec_reads [OF TrueI]]]
        reads_bind [OF reads_with_err [OF vi64.dec_reads [OF TrueI]]] reads_bind [OF r] reads_ret)+
  then show "reads (register_deserialize this) (register_bytes m) (register_read m this)" by (cases m) (simp add: register_read_def)
  have c: "c_string (version_bytes m @ ys) = Some cs" for ys using c_string_read [OF cs] by (simp add: version_bytes_def cs)
  show "register_good (register_read m this)"
    using ok ok2 l(1) good2 by (simp add: register_good_def register_read_def c OB_SERVER_VERSION_LENGTH_def)
  show "register_same (register_read m this) m" by (simp add: register_same_def register_read_def c cs)
qed

subsection \<open>The published list\<close>

definition list_size :: "ups_list \<Rightarrow> nat" where
  "list_size l = nat (sint (list_count l))"

definition list_items :: "ups_list \<Rightarrow> ups_info list" where
  "list_items l = take (list_size l) (list_array l)"

definition list_ok :: "ups_list \<Rightarrow> bool" where
  "list_ok l \<longleftrightarrow> length (list_array l) = LIST_MAX_UPS_COUNT \<and> (\<forall>u\<in>set (list_array l). server_ok (info_addr u)) \<and>
     0 \<le> sint (list_count l) \<and> list_size l \<le> LIST_MAX_UPS_COUNT"

definition ms_sum :: "ups_info list \<Rightarrow> i32" where
  "ms_sum us = sum_list (map (\<lambda>u. scast (info_ms_read_percentage u)) us)"

definition cs_sum :: "ups_info list \<Rightarrow> i32" where
  "cs_sum us = sum_list (map (\<lambda>u. scast (info_cs_read_percentage u)) us)"

definition list_bytes :: "ups_list \<Rightarrow> u8 list" where
  "list_bytes l = vi_bytes (unat (list_count l)) @ concat (map info_bytes (list_items l))"

text \<open>What the reader's loop makes of a list from the place \<open>i\<close> on when it reads \<open>us\<close>.\<close>

definition list_filled :: "nat \<Rightarrow> ups_info list \<Rightarrow> ups_list \<Rightarrow> ups_list" where
  "list_filled i us l = l\<lparr>list_array := take i (list_array l) @ map2 info_read us (take (length us) (drop i (list_array l))) @
       drop (i + length us) (list_array l),
     sum_ms_percentage := sum_ms_percentage l + ms_sum us, sum_cs_percentage := sum_cs_percentage l + cs_sum us\<rparr>"

definition list_read :: "ups_list \<Rightarrow> ups_list \<Rightarrow> ups_list" where
  "list_read l this = list_filled 0 (list_items l) (this\<lparr>list_count := list_count l, sum_cs_percentage := 0, sum_ms_percentage := 0\<rparr>)"

definition list_same :: "ups_list \<Rightarrow> ups_list \<Rightarrow> bool" where
  "list_same l m \<longleftrightarrow> list_count l = list_count m \<and> list_all2 info_same (list_items l) (list_items m) \<and>
     sum_ms_percentage l = ms_sum (list_items m) \<and> sum_cs_percentage l = cs_sum (list_items m)"

lemma list_loop_spec:
  assumes "\<forall>u\<in>set (list_array l). server_ok (info_addr u)" "i + n \<le> length (list_array l)"
  shows "emits (list_serialize_loop l i n) (concat (map info_bytes (take n (drop i (list_array l))))) \<and>
    refuses (list_serialize_loop l i n) (length (concat (map info_bytes (take n (drop i (list_array l))))))"
  using assms(2)
proof (induction n arbitrary: i)
  case (Suc n)
  then have d: "take (Suc n) (drop i (list_array l)) = list_array l ! i # take n (drop (Suc i) (list_array l))"
    by (simp add: Cons_nth_drop_Suc [symmetric])
  have "server_ok (info_addr (list_array l ! i))" using Suc.prems assms(1) by simp
  then show ?case
    using Suc.IH [of "Suc i"] Suc.prems d emits_bind [OF info.obj_emits] refuses_bind [OF info.obj_emits info.obj_refuses]
    by (simp del: length_concat)
qed (simp add: emits_ret refuses_ret)

lemma list_loop_reads:
  assumes "\<forall>u\<in>set (list_array l). server_ok (info_addr u)" "\<forall>u\<in>set us. server_ok (info_addr u)"
    "length (list_array l) = LIST_MAX_UPS_COUNT" "i + length us \<le> LIST_MAX_UPS_COUNT"
  shows "reads (list_deserialize_loop i (length us) l) (concat (map info_bytes us)) (list_filled i us l)"
  using assms
proof (induction us arbitrary: i l)
  case Nil
  then show ?case by (simp add: reads_ret list_filled_def ms_sum_def cs_sum_def)
next
  case (Cons u us)
  let ?v = "info_read u (list_array l ! i)"
  let ?m = "list_add_sums ?v (l\<lparr>list_array := (list_array l)[i := ?v]\<rparr>)"
  have i: "i < LIST_MAX_UPS_COUNT" "i < length (list_array l)" using Cons.prems by simp_all
  have ok: "server_ok (info_addr u)" "server_ok (info_addr (list_array l ! i))" using Cons.prems i by simp_all
  have "drop i (list_array l) = list_array l ! i # drop (Suc i) (list_array l)" using i by (simp add: Cons_nth_drop_Suc)
  then have "list_filled i (u # us) l = list_filled (Suc i) us ?m"
    using i by (simp add: list_filled_def list_add_sums_def ms_sum_def cs_sum_def info_read_def take_Suc_conv_app_nth add.assoc)
  moreover have "reads (list_deserialize_loop (Suc i) (length us) ?m) (concat (map info_bytes us)) (list_filled (Suc i) us ?m)"
    using Cons.prems ok info.read_good [OF ok] by (intro Cons.IH) (auto simp: list_add_sums_def dest!: set_update_subset_insert [THEN subsetD])
  ultimately show ?case using i reads_bind [OF reads_with_err [OF info.obj_reads [OF ok]]] by simp
qed

interpretation ups_list: object_codec list_serialize list_deserialize list_bytes list_ok list_read list_same
proof
  fix l this :: ups_list
  assume ok: "list_ok l"
  then have n: "list_size l \<le> length (list_array l)" and a: "\<forall>u\<in>set (list_array l). server_ok (info_addr u)" by (simp_all add: list_ok_def)
  note s = list_loop_spec [OF a, of 0 "list_size l"]
  show "emits (list_serialize l) (list_bytes l)"
    unfolding list_serialize_def list_bytes_def list_items_def list_size_def [symmetric] using s n by (intro emits_bind fill_emits) simp
  show "refuses (list_serialize l) (length (list_bytes l))"
    unfolding list_serialize_def list_bytes_def list_items_def list_size_def [symmetric] length_append
    using s n by (intro refuses_bind fill_emits fill_refuses) simp
  assume ok2: "list_ok this"
  let ?b = "this\<lparr>list_count := list_count l, sum_cs_percentage := 0, sum_ms_percentage := 0\<rparr>"
  have len: "length (list_items l) = list_size l" using n by (simp add: list_items_def)
  have i: "\<forall>u\<in>set (list_items l). server_ok (info_addr u)" using a by (auto simp: list_items_def dest: in_set_takeD)
  have "reads (list_deserialize_loop 0 (list_size l) ?b) (concat (map info_bytes (list_items l))) (list_read l this)"
    using list_loop_reads [of ?b "list_items l" 0] ok ok2 len i by (simp add: list_ok_def list_read_def)
  then show "reads (list_deserialize this) (list_bytes l) (list_read l this)"
    unfolding list_deserialize_def list_bytes_def by (intro reads_bind [OF reads_with_err [OF vi32.dec_reads [OF TrueI]]]) (simp add: list_size_def)
  have z: "\<forall>u\<in>set (map2 info_read (list_items l) (take (list_size l) (list_array this))). server_ok (info_addr u)"
    using i ok2 by (auto simp: list_ok_def info_read_def in_set_zip dest!: in_set_takeD)
  show "list_ok (list_read l this)"
    using ok ok2 len z by (auto simp: list_ok_def list_read_def list_filled_def list_size_def dest: in_set_dropD)
  have "list_items (list_read l this) = map2 info_read (list_items l) (take (list_size l) (list_array this))"
    using ok ok2 len by (simp add: list_items_def list_read_def list_filled_def list_size_def list_ok_def)
  then show "list_same (list_read l this) l"
    using ok ok2 len by (auto simp: list_same_def list_ok_def list_read_def list_filled_def list_all2_conv_all_nth info_same_def info_read_def)
qed

end
