(* ===== verification/Ob_Task_Queue.thy ===== *)
theory Ob_Task_Queue
  imports Ob_Server
begin

text \<open>
  The bounded queue of \<^verbatim>\<open>common/ob_single_pop_queue.h\<close>, a ring in an array with two counters, and the queue of tasks for the internal
  tables of the root server on it, \<^verbatim>\<open>rootserver/ob_root_async_task_queue.{h,cpp}\<close>. Each method holds the queue's lock from its first
  access to its last, so that a method is one step.
\<close>

section \<open>The ring\<close>

text \<open>
  The counters have 64 bits and only grow. Their increment wraps here; in the source it overflows after \<open>2 ^ 63\<close> calls, which is undefined,
  and the laws below are about fewer calls. The counters are not negative until then, so that \<^verbatim>\<open>%\<close> is \<open>mod\<close>.
\<close>

record 'a ring =
  q_inited :: bool
  q_max_num :: i64
  q_array :: "'a list"
  q_consumer :: i64
  q_producer :: i64

definition ring_new :: "'a ring" where
  "ring_new = \<lparr>q_inited = False, q_max_num = 0, q_array = [], q_consumer = 0, q_producer = 0\<rparr>"

text \<open>\<open>alloc\<close> says whether the allocation succeeds; the memory is cleared, which gives \<open>max_num\<close> items \<open>zero\<close>.\<close>

definition ring_init :: "bool \<Rightarrow> 'a \<Rightarrow> i64 \<Rightarrow> 'a ring \<Rightarrow> unit result \<times> 'a ring" where
  "ring_init alloc zero max_num q =
     (if q_inited q then (Err OB_INIT_TWICE, q)
      else if max_num \<le>s 0 then (Err OB_INVALID_ARGUMENT, q)
      else if \<not> alloc then (Err OB_ALLOCATE_MEMORY_FAILED, q\<lparr>q_array := []\<rparr>)
      else (Ok (), q\<lparr>q_array := replicate (nat (sint max_num)) zero, q_max_num := max_num, q_consumer := 0, q_producer := 0, q_inited := True\<rparr>))"

definition ring_destroy :: "'a ring \<Rightarrow> 'a ring" where
  "ring_destroy q =
     (if q_inited q then \<lparr>q_inited = False, q_max_num = 0, q_array = [], q_consumer = 0, q_producer = 0\<rparr> else q)"

definition ring_size :: "'a ring \<Rightarrow> i64" where
  "ring_size q = q_producer q - q_consumer q"

definition ring_place :: "i64 \<Rightarrow> 'a ring \<Rightarrow> nat" where
  "ring_place k q = nat (sint k mod sint (q_max_num q))"

definition ring_push :: "'a \<Rightarrow> 'a ring \<Rightarrow> unit result \<times> 'a ring" where
  "ring_push item q =
     (if \<not> q_inited q then (Err OB_NOT_INIT, q)
      else if q_producer q - q_consumer q <s q_max_num q
      then (Ok (), q\<lparr>q_array := (q_array q)[ring_place (q_producer q) q := item], q_producer := q_producer q + 1\<rparr>)
      else (Err OB_SIZE_OVERFLOW, q))"

definition ring_pop :: "'a ring \<Rightarrow> 'a result \<times> 'a ring" where
  "ring_pop q =
     (if \<not> q_inited q then (Err OB_NOT_INIT, q)
      else if 0 <s q_producer q - q_consumer q
      then (Ok (q_array q ! ring_place (q_consumer q) q), q\<lparr>q_consumer := q_consumer q + 1\<rparr>)
      else (Err OB_ENTRY_NOT_EXIST, q))"

definition ring_head :: "'a ring \<Rightarrow> 'a result" where
  "ring_head q =
     (if \<not> q_inited q then Err OB_NOT_INIT
      else if 0 <s q_producer q - q_consumer q then Ok (q_array q ! ring_place (q_consumer q) q)
      else Err OB_ENTRY_NOT_EXIST)"

definition ring_drop :: "'a ring \<Rightarrow> unit result \<times> 'a ring" where
  "ring_drop q =
     (if \<not> q_inited q then (Err OB_NOT_INIT, q)
      else if 0 <s q_producer q - q_consumer q then (Ok (), q\<lparr>q_consumer := q_consumer q + 1\<rparr>)
      else (Err OB_ENTRY_NOT_EXIST, q))"

section \<open>Tasks\<close>

datatype task_type =
  SERVER_OFFLINE | SERVER_ONLINE | CONFIG_CHANGE | SCHEMA_CHANGE | PRIV_CHANGE | LMS_ONLINE | OBI_ROLE_CHANGE | ROLE_CHANGE

datatype ob_role = OB_INVALID | OB_ROOTSERVER | OB_CHUNKSERVER | OB_MERGESERVER | OB_UPDATESERVER | OB_PROXYSERVER

text \<open>A task; the member \<open>cluster_id_\<close> is left out, which no constructor and no caller sets.\<close>

record seq_task =
  task_type :: task_type
  task_inner_port :: i32
  task_server_status :: int
  task_remain_times :: int
  task_max_timeout :: int
  task_role :: ob_role
  task_flow_percent :: int
  task_server :: ob_server
  task_cluster_role :: int
  task_server_version :: string
  task_id :: u64
  task_timestamp :: int

record async_queue =
  aq_id_allocator :: u64
  aq_queue :: "seq_task ring"

definition async_new :: async_queue where
  "async_new = \<lparr>aq_id_allocator = 0, aq_queue = ring_new\<rparr>"

definition async_init :: "bool \<Rightarrow> seq_task \<Rightarrow> i64 \<Rightarrow> async_queue \<Rightarrow> unit result \<times> async_queue" where
  "async_init alloc zero max_count q = (let (r, ring) = ring_init alloc zero max_count (aq_queue q) in (r, q\<lparr>aq_queue := ring\<rparr>))"

text \<open>\<open>now\<close> is what the clock says; \<^verbatim>\<open>atomic_inc\<close> returns the new value of the counter.\<close>

definition async_push :: "int \<Rightarrow> seq_task \<Rightarrow> async_queue \<Rightarrow> unit result \<times> async_queue" where
  "async_push now task q =
     (let id = aq_id_allocator q + 1;
          (r, ring) = ring_push (task\<lparr>task_timestamp := now, task_id := id\<rparr>) (aq_queue q)
      in (r, \<lparr>aq_id_allocator = id, aq_queue = ring\<rparr>))"

definition async_head :: "async_queue \<Rightarrow> seq_task result" where
  "async_head q = ring_head (aq_queue q)"

definition async_pop :: "async_queue \<Rightarrow> seq_task result \<times> async_queue" where
  "async_pop q = (let (r, ring) = ring_pop (aq_queue q) in (r, q\<lparr>aq_queue := ring\<rparr>))"

definition async_size :: "async_queue \<Rightarrow> i64" where
  "async_size q = ring_size (aq_queue q)"

section \<open>Queues as lists\<close>

text \<open>
  The interface of a bounded first-in first-out queue: \<open>content\<close> is what it holds, \<open>cap\<close> how much it can hold, and \<open>valid k\<close> says that it can
  take \<open>k\<close> more calls.
\<close>

locale fifo =
  fixes push :: "'a \<Rightarrow> 'q \<Rightarrow> unit result \<times> 'q" and pop :: "'q \<Rightarrow> 'a result \<times> 'q" and drop_head :: "'q \<Rightarrow> unit result \<times> 'q"
    and head :: "'q \<Rightarrow> 'a result" and count :: "'q \<Rightarrow> i64"
    and content :: "'q \<Rightarrow> 'a list" and cap :: "'q \<Rightarrow> nat" and valid :: "nat \<Rightarrow> 'q \<Rightarrow> bool"
  assumes valid_less: "valid (Suc k) q \<Longrightarrow> valid k q"
    and push_room: "valid (Suc k) q \<Longrightarrow> length (content q) < cap q \<Longrightarrow> push x q = (r, q') \<Longrightarrow>
      r = Ok () \<and> content q' = content q @ [x] \<and> cap q' = cap q \<and> valid k q'"
    and push_full: "valid k q \<Longrightarrow> length (content q) = cap q \<Longrightarrow> push x q = (Err OB_SIZE_OVERFLOW, q)"
    and pop_item: "valid k q \<Longrightarrow> content q = x # xs \<Longrightarrow> pop q = (a, q') \<Longrightarrow> a = Ok x \<and> content q' = xs \<and> cap q' = cap q \<and> valid k q'"
    and pop_empty: "valid k q \<Longrightarrow> content q = [] \<Longrightarrow> pop q = (Err OB_ENTRY_NOT_EXIST, q)"
    and drop_pop: "drop_head q = (case pop q of (Ok x, q) \<Rightarrow> (Ok (), q) | (Err e, q) \<Rightarrow> (Err e, q))"
    and head_item: "valid k q \<Longrightarrow> head q = (case content q of [] \<Rightarrow> Err OB_ENTRY_NOT_EXIST | x # xs \<Rightarrow> Ok x)"
    and count_items: "valid k q \<Longrightarrow> count q = word_of_nat (length (content q))"
    and within: "valid k q \<Longrightarrow> length (content q) \<le> cap q"

text \<open>A client's calls and their answers, on a queue and on the list it stands for.\<close>

datatype 'a queue_call = Push 'a | Pop | Drop | Head | Size

datatype 'a queue_answer = Code "unit result" | Item "'a result" | Count i64

text \<open>One call of the methods \<open>push\<close>, \<open>pop\<close>, \<open>drop_head\<close>, \<open>head\<close> and \<open>count\<close> of a queue.\<close>

fun serve1 :: "('a \<Rightarrow> 'q \<Rightarrow> unit result \<times> 'q) \<Rightarrow> ('q \<Rightarrow> 'a result \<times> 'q) \<Rightarrow> ('q \<Rightarrow> unit result \<times> 'q) \<Rightarrow> ('q \<Rightarrow> 'a result) \<Rightarrow> ('q \<Rightarrow> i64) \<Rightarrow>
    'a queue_call \<Rightarrow> 'q \<Rightarrow> 'a queue_answer \<times> 'q" where
  "serve1 push pop drop_head head count (Push x) q = (let (r, q) = push x q in (Code r, q))"
| "serve1 push pop drop_head head count Pop q = (let (r, q) = pop q in (Item r, q))"
| "serve1 push pop drop_head head count Drop q = (let (r, q) = drop_head q in (Code r, q))"
| "serve1 push pop drop_head head count Head q = (Item (head q), q)"
| "serve1 push pop drop_head head count Size q = (Count (count q), q)"

fun serve :: "('c \<Rightarrow> 'q \<Rightarrow> 'r \<times> 'q) \<Rightarrow> 'c list \<Rightarrow> 'q \<Rightarrow> 'r list \<times> 'q" where
  "serve call [] q = ([], q)"
| "serve call (c # cs) q = (let (r, q) = call c q; (rs, q) = serve call cs q in (r # rs, q))"

definition list_push :: "nat \<Rightarrow> 'a \<Rightarrow> 'a list \<Rightarrow> unit result \<times> 'a list" where
  "list_push n x xs = (if length xs < n then (Ok (), xs @ [x]) else (Err OB_SIZE_OVERFLOW, xs))"

definition list_pop :: "'a list \<Rightarrow> 'a result \<times> 'a list" where
  "list_pop xs = (case xs of [] \<Rightarrow> (Err OB_ENTRY_NOT_EXIST, []) | x # xs \<Rightarrow> (Ok x, xs))"

definition list_drop :: "'a list \<Rightarrow> unit result \<times> 'a list" where
  "list_drop xs = (case xs of [] \<Rightarrow> (Err OB_ENTRY_NOT_EXIST, []) | x # xs \<Rightarrow> (Ok (), xs))"

definition list_head :: "'a list \<Rightarrow> 'a result" where
  "list_head xs = (case xs of [] \<Rightarrow> Err OB_ENTRY_NOT_EXIST | x # xs \<Rightarrow> Ok x)"

definition list_serve :: "nat \<Rightarrow> 'a queue_call \<Rightarrow> 'a list \<Rightarrow> 'a queue_answer \<times> 'a list" where
  "list_serve n = serve1 (list_push n) list_pop list_drop list_head (\<lambda>xs. word_of_nat (length xs))"

context fifo
begin

abbreviation queue_serve :: "'a queue_call \<Rightarrow> 'q \<Rightarrow> 'a queue_answer \<times> 'q" where
  "queue_serve \<equiv> serve1 push pop drop_head head count"

lemma serve1_refines:
  assumes "valid (Suc k) q" "queue_serve c q = (r, q')"
  shows "list_serve (cap q) c (content q) = (r, content q') \<and> cap q' = cap q \<and> valid k q'"
proof -
  have v: "valid k q" by (rule valid_less [OF assms(1)])
  show ?thesis
  proof (cases c)
    case (Push x)
    show ?thesis
    proof (cases "length (content q) < cap q")
      case True
      then show ?thesis using push_room [OF assms(1) True, of x] assms(2) Push by (auto simp: list_serve_def list_push_def split: prod.splits)
    next
      case False
      then have "length (content q) = cap q" using within [OF v] by simp
      then show ?thesis using push_full [OF v, of x] v assms(2) Push by (auto simp: list_serve_def list_push_def)
    qed
  next
    case Pop
    then have p: "pop q = (case r of Item a \<Rightarrow> a | _ \<Rightarrow> Err OB_ERROR, q')" "\<exists>a. r = Item a" using assms(2) by (auto split: prod.splits)
    show ?thesis
    proof (cases "content q")
      case Nil
      then show ?thesis using p pop_empty [OF v Nil] v Pop by (auto simp: list_serve_def list_pop_def)
    next
      case (Cons x xs)
      then show ?thesis using p pop_item [OF v Cons p(1)] Pop by (auto simp: list_serve_def list_pop_def)
    qed
  next
    case Drop
    obtain a p where p: "pop q = (a, p)" by fastforce
    show ?thesis
    proof (cases "content q")
      case Nil
      then show ?thesis using assms(2) pop_empty [OF v Nil] v Drop by (auto simp: list_serve_def list_drop_def drop_pop)
    next
      case (Cons x xs)
      then show ?thesis using assms(2) p pop_item [OF v Cons p] Drop by (auto simp: list_serve_def list_drop_def drop_pop)
    qed
  next
    case Head
    then show ?thesis using assms(2) v head_item [OF v] by (auto simp: list_serve_def list_head_def)
  next
    case Size
    then show ?thesis using assms(2) v count_items [OF v] by (auto simp: list_serve_def)
  qed
qed

lemma serve_refines:
  assumes "valid (length calls) q"
  shows "fst (serve queue_serve calls q) = fst (serve (list_serve (cap q)) calls (content q)) \<and>
    content (snd (serve queue_serve calls q)) = snd (serve (list_serve (cap q)) calls (content q))"
  using assms
proof (induction calls arbitrary: q)
  case (Cons c calls)
  obtain r q' where c: "queue_serve c q = (r, q')" by fastforce
  have "valid (Suc (length calls)) q" using Cons.prems by simp
  note s = serve1_refines [OF this c]
  show ?case using s c Cons.IH [of q'] by (auto split: prod.splits)
qed simp

end

section \<open>The ring is such a queue\<close>

definition ring_len :: "'a ring \<Rightarrow> nat" where
  "ring_len q = nat (sint (q_producer q) - sint (q_consumer q))"

definition ring_content :: "'a ring \<Rightarrow> 'a list" where
  "ring_content q = map (\<lambda>k. q_array q ! nat ((sint (q_consumer q) + int k) mod sint (q_max_num q))) [0..<ring_len q]"

definition ring_valid :: "nat \<Rightarrow> 'a ring \<Rightarrow> bool" where
  "ring_valid k q \<longleftrightarrow> q_inited q \<and> 0 < sint (q_max_num q) \<and> length (q_array q) = nat (sint (q_max_num q)) \<and>
     0 \<le> sint (q_consumer q) \<and> sint (q_consumer q) \<le> sint (q_producer q) \<and>
     sint (q_producer q) \<le> sint (q_consumer q) + sint (q_max_num q) \<and> sint (q_producer q) + int k < 2 ^ 63"

definition ring_cap :: "'a ring \<Rightarrow> nat" where
  "ring_cap q = nat (sint (q_max_num q))"

lemma sint_next: "- 1 \<le> sint (k :: i64) \<Longrightarrow> sint k + 1 < 2 ^ 63 \<Longrightarrow> sint (k + 1) = sint k + 1"
  by (simp add: sint_word_ariths signed_take_bit_int_eq_self)

lemma ring_diff:
  assumes "ring_valid k q"
  shows "sint (q_producer q - q_consumer q) = sint (q_producer q) - sint (q_consumer q)"
proof -
  have "0 \<le> sint (q_producer q) - sint (q_consumer q)" "sint (q_producer q) - sint (q_consumer q) < 2 ^ 63"
    using assms by (auto simp: ring_valid_def)
  then show ?thesis by (simp add: sint_word_ariths signed_take_bit_int_eq_self)
qed

lemma ring_places_differ:
  fixes c p m :: int
  assumes "c + int k < p" "p - c < m"
  shows "(c + int k) mod m \<noteq> p mod m"
proof
  assume "(c + int k) mod m = p mod m"
  then have "m dvd p - (c + int k)" by (metis mod_eq_dvd_iff)
  then have "m \<le> p - (c + int k)" using assms(1) by (simp add: zdvd_imp_le)
  then show False using assms by simp
qed

lemma ring_push_content:
  assumes "ring_valid (Suc k) q" "length (ring_content q) < ring_cap q" "ring_push x q = (r, q')"
  shows "r = Ok () \<and> ring_content q' = ring_content q @ [x] \<and> ring_cap q' = ring_cap q \<and> ring_valid k q'"
proof -
  let ?m = "sint (q_max_num q)" and ?c = "sint (q_consumer q)" and ?p = "sint (q_producer q)"
  have v: "0 < ?m" "length (q_array q) = nat ?m" "0 \<le> ?c" "?c \<le> ?p" "?p - ?c < ?m" "q_inited q" "?p + int (Suc k) < 2 ^ 63"
    using assms(1,2) by (auto simp: ring_valid_def ring_content_def ring_cap_def ring_len_def)
  have q': "r = Ok ()" "q' = q\<lparr>q_array := (q_array q)[nat (?p mod ?m) := x], q_producer := q_producer q + 1\<rparr>"
    using assms(3) v ring_diff [OF assms(1)] by (auto simp: ring_push_def ring_place_def word_sless_alt)
  have p: "sint (q_producer q + 1) = ?p + 1" using v by (intro sint_next) simp_all
  have l: "nat (?p mod ?m) < length (q_array q)" using v by simp
  have n: "ring_len q' = Suc (ring_len q)" using v p q' by (simp add: ring_len_def)
  have "(q_array q)[nat (?p mod ?m) := x] ! nat ((?c + int k) mod ?m) = q_array q ! nat ((?c + int k) mod ?m)" if "k < ring_len q" for k
  proof -
    have "(?c + int k) mod ?m \<noteq> ?p mod ?m" using that v by (intro ring_places_differ) (simp_all add: ring_len_def)
    moreover have "0 \<le> ?p mod ?m" "0 \<le> (?c + int k) mod ?m" using v(1) by simp_all
    ultimately have "nat (?p mod ?m) \<noteq> nat ((?c + int k) mod ?m)" by (metis nat_0_le)
    then show ?thesis by simp
  qed
  moreover have "?c + int (ring_len q) = ?p" using v by (simp add: ring_len_def)
  ultimately have "ring_content q' = ring_content q @ [x]" using l by (simp add: ring_content_def n) (simp add: q')
  then show ?thesis using v q' p by (simp add: ring_cap_def ring_valid_def)
qed

lemma ring_pop_content:
  assumes "ring_valid k q" "ring_content q = x # xs" "ring_pop q = (r, q')"
  shows "r = Ok x \<and> ring_content q' = xs \<and> ring_cap q' = ring_cap q \<and> ring_valid k q'"
proof -
  let ?m = "sint (q_max_num q)" and ?c = "sint (q_consumer q)" and ?p = "sint (q_producer q)"
  have v: "0 < ?m" "length (q_array q) = nat ?m" "0 \<le> ?c" "?c \<le> ?p" "?p \<le> ?c + ?m" "q_inited q" "?p + int k < 2 ^ 63"
    using assms(1) by (auto simp: ring_valid_def)
  have "ring_len q = length (x # xs)" unfolding assms(2) [symmetric] by (simp add: ring_content_def)
  then have pos: "0 < ?p - ?c" by (simp add: ring_len_def)
  have c: "sint (q_consumer q + 1) = ?c + 1" using v pos by (intro sint_next) simp_all
  have q': "r = Ok (q_array q ! nat (?c mod ?m))" "q' = q\<lparr>q_consumer := q_consumer q + 1\<rparr>"
    using assms(3) v pos ring_diff [OF assms(1)] by (auto simp: ring_pop_def ring_place_def word_sless_alt)
  have n: "ring_len q = Suc (ring_len q')" using pos c by (simp add: ring_len_def q')
  have "ring_content q = q_array q ! nat (?c mod ?m) # ring_content q'"
    by (simp add: ring_content_def n upt_conv_Cons map_Suc_upt [symmetric] del: upt_Suc map_Suc_upt) (simp add: q' c add.assoc)
  then show ?thesis using assms(2) v pos q' c by (auto simp: ring_cap_def ring_valid_def)
qed

lemma ring_empty:
  assumes "ring_valid k q"
  shows "0 <s q_producer q - q_consumer q \<longleftrightarrow> ring_content q \<noteq> []" "q_producer q - q_consumer q <s q_max_num q \<longleftrightarrow> length (ring_content q) < ring_cap q"
  using assms ring_diff [OF assms] by (auto simp: word_sless_alt ring_content_def ring_len_def ring_cap_def ring_valid_def)

interpretation ring: fifo ring_push ring_pop ring_drop ring_head ring_size ring_content ring_cap ring_valid
proof
  fix q :: "'a ring" and k x xs r q'
  show "ring_valid (Suc k) q \<Longrightarrow> ring_valid k q" by (simp add: ring_valid_def)
  show "ring_valid k q \<Longrightarrow> length (ring_content q) = ring_cap q \<Longrightarrow> ring_push x q = (Err OB_SIZE_OVERFLOW, q)"
    using ring_empty(2) [of k q] by (simp add: ring_push_def ring_valid_def)
  show "ring_valid k q \<Longrightarrow> ring_content q = [] \<Longrightarrow> ring_pop q = (Err OB_ENTRY_NOT_EXIST, q)"
    using ring_empty(1) [of k q] by (simp add: ring_pop_def ring_valid_def)
  show "ring_drop q = (case ring_pop q of (Ok x, q) \<Rightarrow> (Ok (), q) | (Err e, q) \<Rightarrow> (Err e, q))"
    by (simp add: ring_drop_def ring_pop_def)
  show "ring_valid k q \<Longrightarrow> ring_head q = (case ring_content q of [] \<Rightarrow> Err OB_ENTRY_NOT_EXIST | x # xs \<Rightarrow> Ok x)"
    using ring_empty(1) [of k q] by (cases "ring_len q") (auto simp: ring_valid_def ring_content_def ring_head_def ring_place_def upt_conv_Cons simp del: upt_Suc)
  show "ring_valid k q \<Longrightarrow> ring_size q = word_of_nat (length (ring_content q))"
  proof -
    assume v: "ring_valid k q"
    have "int (length (ring_content q)) = sint (q_producer q - q_consumer q)"
      using v ring_diff [OF v] by (simp add: ring_content_def ring_len_def ring_valid_def)
    from arg_cong [OF this, of "word_of_int :: int \<Rightarrow> i64"] show "ring_size q = word_of_nat (length (ring_content q))" by (simp add: ring_size_def)
  qed
  show "ring_valid k q \<Longrightarrow> length (ring_content q) \<le> ring_cap q" by (auto simp: ring_valid_def ring_content_def ring_cap_def ring_len_def)
qed (rule ring_push_content ring_pop_content; assumption)+

lemma ring_init_valid:
  assumes "\<not> q_inited q" "0 < sint n" "k < 2 ^ 63"
  shows "fst (ring_init True z n q) = Ok ()" "ring_valid k (snd (ring_init True z n q))" "ring_content (snd (ring_init True z n q)) = []"
    "ring_cap (snd (ring_init True z n q)) = nat (sint n)"
  using assms by (simp_all add: ring_init_def ring_valid_def ring_content_def ring_cap_def ring_len_def word_sle_eq)

definition ring_serve :: "'a queue_call \<Rightarrow> 'a ring \<Rightarrow> 'a queue_answer \<times> 'a ring" where
  "ring_serve = serve1 ring_push ring_pop ring_drop ring_head ring_size"

text \<open>
  C19: the queue of \<^verbatim>\<open>ObSinglePopQueue\<close> answers every sequence of fewer than \<open>2 ^ 63\<close> calls of its methods push, pop with and without an item,
  head and size as the list does that it stands for, first in first out, however often the ring goes round; it refuses an item exactly
  when \<^verbatim>\<open>max_num\<close> items are in it.
\<close>
theorem ring_refines_list:
  assumes "0 < sint n" "length calls < 2 ^ 63"
  shows "fst (serve ring_serve calls (snd (ring_init True z n ring_new))) = fst (serve (list_serve (nat (sint n))) calls [])"
proof -
  have "\<not> q_inited (ring_new :: 'a ring)" by (simp add: ring_new_def)
  note i = ring_init_valid [OF this assms, of z]
  show ?thesis using ring.serve_refines [OF i(2)] i(3,4) by (simp add: ring_serve_def)
qed

theorem ring_refines_list_witness:
  "fst (serve ring_serve [Push 1, Push 2, Push 3, Head, Pop, Push 4, Drop, Size, Pop, Pop] (snd (ring_init True (0 :: nat) 2 ring_new))) =
    [Code (Ok ()), Code (Ok ()), Code (Err OB_SIZE_OVERFLOW), Item (Ok 1), Item (Ok 1), Code (Ok ()), Code (Ok ()), Count 1, Item (Ok 4),
     Item (Err OB_ENTRY_NOT_EXIST)]"
  using ring_refines_list [of 2 "[Push 1, Push 2, Push 3, Head, Pop, Push 4, Drop, Size, Pop, Pop]" "0 :: nat"]
  by (simp add: list_serve_def list_push_def list_pop_def list_drop_def list_head_def)

end
