(* ===== verification/Ob_Ups_Manager.thy ===== *)
theory Ob_Ups_Manager
  imports Ob_Ups_Info Ob_Task_Queue
begin

text \<open>
  The manager of the update servers in the root server, \<^verbatim>\<open>rootserver/ob_ups_manager.{h,cpp}\<close>: update servers register, renew their leases,
  are taken off when a lease runs out, and one of them is the master. A piece of code that holds the mutex is one function here; a
  method that takes the mutex several times is composed of several, and other threads may run in between.

  The clock and the answers of other servers are parameters: \<open>env_time e k\<close> is the \<open>k\<close>-th reading of the clock, \<open>env_lsn e k\<close> and
  \<open>env_revoke e k\<close> answer the \<open>k\<close>-th remote call.
\<close>

section \<open>State\<close>

datatype ups_status = UPS_STAT_OFFLINE | UPS_STAT_NOTSYNC | UPS_STAT_SYNC | UPS_STAT_MASTER

record ob_ups =
  ups_addr :: ob_server
  ups_inner_port :: i32
  ups_stat :: ups_status
  ups_obi_role :: obi_role
  log_seq_num :: int
  ups_lease :: int
  ms_read_percentage :: int
  cs_read_percentage :: int
  did_renew_received :: bool

definition ups_new :: ob_ups where
  "ups_new = \<lparr>ups_addr = server_new, ups_inner_port = 0, ups_stat = UPS_STAT_OFFLINE, ups_obi_role = OBI_INIT, log_seq_num = 0,
     ups_lease = 0, ms_read_percentage = 0, cs_read_percentage = 0, did_renew_received = False\<rparr>"

definition ups_reset :: "ob_ups \<Rightarrow> ob_ups" where
  "ups_reset u = u\<lparr>ups_addr := server_reset (ups_addr u), ups_inner_port := 0, ups_stat := UPS_STAT_OFFLINE, log_seq_num := 0,
     ups_lease := 0, ms_read_percentage := 0, cs_read_percentage := 0, did_renew_received := False\<rparr>"

definition convert_to :: "ob_ups \<Rightarrow> ups_info \<Rightarrow> ups_info" where
  "convert_to u info = info\<lparr>info_addr := ups_addr u, info_inner_port := ups_inner_port u,
     info_stat := (if UPS_STAT_MASTER = ups_stat u then UPS_MASTER else UPS_SLAVE),
     info_ms_read_percentage := word_of_int (ms_read_percentage u), info_cs_read_percentage := word_of_int (cs_read_percentage u)\<rparr>"

definition MAX_UPS_COUNT :: nat where
  "MAX_UPS_COUNT = 17"

definition MAX_CLOCK_SKEW_US :: int where
  "MAX_CLOCK_SKEW_US = 200000"

definition OB_MAX_UPS_LEASE_DURATION_US :: int where
  "OB_MAX_UPS_LEASE_DURATION_US = 9223372036854775807"

text \<open>The remote calls made, newest first: a lease granted, a lease revoked and whether the server confirmed it.\<close>

datatype ups_call = Granted ob_server heartbeat | Revoked ob_server int ob_server bool

record ups_manager =
  mgr_queue :: "async_queue option"
  obi_role :: obi_role
  ups_array :: "ob_ups list"
  lease_duration_us :: int
  lease_reserved_us :: int
  ups_master_idx :: int
  waiting_ups_register_duration :: int
  waiting_ups_finish_time :: int
  schema_version :: i64
  config_version :: i64
  master_master_ups_read_percentage :: int
  slave_master_ups_read_percentage :: int
  is_flow_control_by_ip :: bool
  clock_reads :: nat
  remote_calls :: nat
  call_log :: "ups_call list"

record ups_env =
  env_time :: "nat \<Rightarrow> int"
  env_lsn :: "nat \<Rightarrow> ob_server \<Rightarrow> u64 option"
  env_revoke :: "nat \<Rightarrow> bool"

definition ups_manager_new :: "int \<Rightarrow> int \<Rightarrow> int \<Rightarrow> obi_role \<Rightarrow> i64 \<Rightarrow> i64 \<Rightarrow> ups_manager" where
  "ups_manager_new lease_duration lease_reserved waiting_duration role schema config =
     \<lparr>mgr_queue = None, obi_role = role, ups_array = replicate MAX_UPS_COUNT ups_new, lease_duration_us = lease_duration,
      lease_reserved_us = lease_reserved, ups_master_idx = - 1, waiting_ups_register_duration = waiting_duration,
      waiting_ups_finish_time = 0, schema_version = schema, config_version = config,
      master_master_ups_read_percentage = - 1, slave_master_ups_read_percentage = - 1, is_flow_control_by_ip = False,
      clock_reads = 0, remote_calls = 0, call_log = []\<rparr>"

definition set_async_queue :: "async_queue option \<Rightarrow> ups_manager \<Rightarrow> ups_manager" where
  "set_async_queue q s = s\<lparr>mgr_queue := q\<rparr>"

text \<open>The places of the array, a change at one, and a reading of the clock.\<close>

abbreviation ups_places :: "nat list" where "ups_places \<equiv> [0..<MAX_UPS_COUNT]"

definition ups_at :: "ups_manager \<Rightarrow> nat \<Rightarrow> ob_ups" where
  "ups_at s i = ups_array s ! i"

definition change_ups :: "nat \<Rightarrow> (ob_ups \<Rightarrow> ob_ups) \<Rightarrow> ups_manager \<Rightarrow> ups_manager" where
  "change_ups i f s = s\<lparr>ups_array := (ups_array s)[i := f (ups_at s i)]\<rparr>"

definition get_time :: "ups_env \<Rightarrow> ups_manager \<Rightarrow> int \<times> ups_manager" where
  "get_time e s = (env_time e (clock_reads s), s\<lparr>clock_reads := Suc (clock_reads s)\<rparr>)"

section \<open>Reading the array\<close>

definition ups_online :: "ups_manager \<Rightarrow> nat \<Rightarrow> bool" where
  "ups_online s i \<longleftrightarrow> UPS_STAT_OFFLINE \<noteq> ups_stat (ups_at s i)"

definition find_ups_index :: "ob_server \<Rightarrow> ups_manager \<Rightarrow> int" where
  "find_ups_index addr s =
     (case find (\<lambda>i. server_eq (ups_addr (ups_at s i)) addr \<and> ups_online s i) ups_places of Some i \<Rightarrow> int i | None \<Rightarrow> - 1)"

definition did_ups_exist :: "ob_server \<Rightarrow> ups_manager \<Rightarrow> bool" where
  "did_ups_exist addr s \<longleftrightarrow> - 1 \<noteq> find_ups_index addr s"

definition is_ups_master :: "ob_server \<Rightarrow> ups_manager \<Rightarrow> bool" where
  "is_ups_master addr s =
     (let i = find_ups_index addr s in if - 1 \<noteq> i then UPS_STAT_MASTER = ups_stat (ups_at s (nat i)) else False)"

definition has_master :: "ups_manager \<Rightarrow> bool" where
  "has_master s \<longleftrightarrow> int MAX_UPS_COUNT > ups_master_idx s \<and> 0 \<le> ups_master_idx s"

definition is_idx_valid :: "int \<Rightarrow> bool" where
  "is_idx_valid i \<longleftrightarrow> 0 \<le> i \<and> i < int MAX_UPS_COUNT"

definition master_at :: "ups_manager \<Rightarrow> ob_ups" where
  "master_at s = ups_at s (nat (ups_master_idx s))"

definition is_master_lease_valid :: "ups_env \<Rightarrow> ups_manager \<Rightarrow> bool \<times> ups_manager" where
  "is_master_lease_valid e s =
     (if has_master s then let (now, s) = get_time e s in (ups_lease (master_at s) > now, s) else (False, s))"

definition get_active_ups_count :: "ups_manager \<Rightarrow> int" where
  "get_active_ups_count s =
     int (length (filter (\<lambda>i. ups_online s i \<and> UPS_STAT_NOTSYNC \<noteq> ups_stat (ups_at s i)) ups_places))"

definition get_ups_count :: "ups_manager \<Rightarrow> int" where
  "get_ups_count s = int (length (filter (ups_online s) ups_places))"

definition get_ups_master :: "ups_manager \<Rightarrow> ob_ups result" where
  "get_ups_master s = (if has_master s then Ok (master_at s) else Err OB_ENTRY_NOT_EXIST)"

section \<open>Changes that several methods share\<close>

definition change_ups_stat :: "nat \<Rightarrow> ups_status \<Rightarrow> ups_manager \<Rightarrow> ups_manager" where
  "change_ups_stat index new_stat s = change_ups index (\<lambda>u. u\<lparr>ups_stat := new_stat\<rparr>) s"

definition task_for :: "task_type \<Rightarrow> ob_ups \<Rightarrow> string \<Rightarrow> seq_task" where
  "task_for ty u server_version =
     \<lparr>task_type = ty, task_inner_port = ups_inner_port u, task_server_status = (if ups_stat u = UPS_STAT_MASTER then 1 else 2),
      task_remain_times = - 1, task_max_timeout = - 1, task_role = OB_UPDATESERVER, task_flow_percent = 0, task_server = ups_addr u,
      task_cluster_role = 0,
      task_server_version =
        (if length server_version < OB_SERVER_VERSION_LENGTH then server_version else take (OB_SERVER_VERSION_LENGTH - 1) server_version),
      task_id = 0, task_timestamp = - 1\<rparr>"

definition refresh_inner_table :: "ups_env \<Rightarrow> task_type \<Rightarrow> ob_ups \<Rightarrow> string \<Rightarrow> ups_manager \<Rightarrow> unit result \<times> ups_manager" where
  "refresh_inner_table e ty u server_version s =
     (case mgr_queue s of
        None \<Rightarrow> (Ok (), s)
      | Some q \<Rightarrow>
          let (now, s) = get_time e s;
              (r, q) = async_push now (task_for ty u server_version) q
          in (r, s\<lparr>mgr_queue := Some q\<rparr>))"

text \<open>Every caller ignores the code of \<^verbatim>\<open>refresh_inner_table\<close>.\<close>

definition refresh :: "ups_env \<Rightarrow> task_type \<Rightarrow> nat \<Rightarrow> string \<Rightarrow> ups_manager \<Rightarrow> ups_manager" where
  "refresh e ty i server_version s = snd (refresh_inner_table e ty (ups_at s i) server_version s)"

text \<open>The percentages of master and slaves; the operands of the divisions are not negative.\<close>

definition read_percents :: "ups_manager \<Rightarrow> int \<times> int" where
  "read_percents s =
     (let ups_count = get_active_ups_count s in
      if ups_count < 1 then (100, 0)
      else if ups_count = 1 then (100, 100)
      else if - 1 = ups_master_idx s \<or>
              OBI_MASTER = obi_role s \<and> - 1 = master_master_ups_read_percentage s \<or>
              OBI_MASTER \<noteq> obi_role s \<and> - 1 = slave_master_ups_read_percentage s
      then (100 div ups_count, 100 div ups_count)
      else
        let master_read_percent =
              (if OBI_MASTER = obi_role s then master_master_ups_read_percentage s else slave_master_ups_read_percentage s)
        in (master_read_percent, (100 - master_read_percent) div (ups_count - 1)))"

definition set_read_percent :: "int \<Rightarrow> int \<Rightarrow> ob_ups \<Rightarrow> ob_ups" where
  "set_read_percent master_read_percent slave_read_percent u =
     (case ups_stat u of
        UPS_STAT_SYNC \<Rightarrow> u\<lparr>ms_read_percentage := slave_read_percent, cs_read_percentage := slave_read_percent\<rparr>
      | UPS_STAT_MASTER \<Rightarrow> u\<lparr>ms_read_percentage := master_read_percent, cs_read_percentage := master_read_percent\<rparr>
      | UPS_STAT_NOTSYNC \<Rightarrow> u\<lparr>ms_read_percentage := 0, cs_read_percentage := 0\<rparr>
      | UPS_STAT_OFFLINE \<Rightarrow> u)"

definition reset_ups_read_percent :: "ups_manager \<Rightarrow> ups_manager" where
  "reset_ups_read_percent s =
     (let s = s\<lparr>ups_array := map (\<lambda>u. u\<lparr>ms_read_percentage := 0, cs_read_percentage := 0\<rparr>) (ups_array s), is_flow_control_by_ip := False\<rparr>;
          (master_read_percent, slave_read_percent) = read_percents s
      in s\<lparr>ups_array := map (set_read_percent master_read_percent slave_read_percent) (ups_array s)\<rparr>)"

section \<open>Registration and renewal\<close>

definition register_ups :: "ups_env \<Rightarrow> ob_server \<Rightarrow> i32 \<Rightarrow> int \<Rightarrow> int \<Rightarrow> string \<Rightarrow> ups_manager \<Rightarrow> unit result \<times> ups_manager" where
  "register_ups e addr inner_port lsn lease server_version s =
     (if did_ups_exist addr s then (Err OB_ALREADY_REGISTERED, s)
      else case find (\<lambda>i. \<not> ups_online s i) ups_places of
        None \<Rightarrow> (Err OB_SIZE_OVERFLOW, s)
      | Some i \<Rightarrow>
          let (now, s) = get_time e s;
              s = (if 0 = waiting_ups_finish_time s
                   then s\<lparr>waiting_ups_finish_time := now + waiting_ups_register_duration s\<rparr> else s);
              s = change_ups i (\<lambda>u. u\<lparr>ups_addr := addr, ups_inner_port := inner_port, log_seq_num := lsn,
                     ups_lease := now + lease_duration_us s, did_renew_received := True,
                     cs_read_percentage := 0, ms_read_percentage := 0\<rparr>) s;
              s = refresh e SERVER_ONLINE i server_version s;
              (r, s) =
                (if lease > now
                 then if has_master s then (Err OB_CONFLICT_VALUE, s)
                      else
                        let s = change_ups_stat i UPS_STAT_MASTER s;
                            s = s\<lparr>ups_master_idx := int i\<rparr>;
                            s = refresh e ROLE_CHANGE i ''null'' s
                        in (Ok (), s\<lparr>waiting_ups_finish_time := - 1\<rparr>)
                 else (Ok (), change_ups_stat i UPS_STAT_NOTSYNC s))
          in (r, reset_ups_read_percent s))"

definition renew_lease :: "ob_server \<Rightarrow> ups_status \<Rightarrow> obi_role \<Rightarrow> ups_manager \<Rightarrow> unit result \<times> ups_manager" where
  "renew_lease addr stat role s =
     (let i = find_ups_index addr s in
      if - 1 = i then (Ok (), s)
      else
        let i = nat i;
            s = change_ups i (\<lambda>u. u\<lparr>did_renew_received := True\<rparr>) s;
            s = (if (UPS_STAT_SYNC = stat \<or> UPS_STAT_NOTSYNC = stat) \<and>
                    (UPS_STAT_SYNC = ups_stat (ups_at s i) \<or> UPS_STAT_NOTSYNC = ups_stat (ups_at s i)) \<and>
                    ups_stat (ups_at s i) \<noteq> stat
                 then
                   let s = change_ups_stat i stat s
                   in if \<not> is_flow_control_by_ip s then reset_ups_read_percent s else s
                 else s);
            s = (if OBI_INIT \<noteq> role then change_ups i (\<lambda>u. u\<lparr>ups_obi_role := role\<rparr>) s else s)
        in (Ok (), s))"

definition slave_failure :: "ups_env \<Rightarrow> ob_server \<Rightarrow> ob_server \<Rightarrow> ups_manager \<Rightarrow> unit result \<times> ups_manager" where
  "slave_failure e addr slave_addr s =
     (if \<not> is_ups_master addr s then (Err OB_NOT_REGISTERED, s)
      else
        let i = find_ups_index slave_addr s in
        if - 1 = i then (Err OB_ENTRY_NOT_EXIST, s)
        else
          let s = change_ups_stat (nat i) UPS_STAT_OFFLINE s;
              ups = ups_at s (nat i);
              s = reset_ups_read_percent s;
              s = snd (refresh_inner_table e SERVER_OFFLINE ups ''null'' s)
          in (Ok (), s))"

section \<open>Leases\<close>

definition need_grant :: "int \<Rightarrow> ob_ups \<Rightarrow> ups_manager \<Rightarrow> bool" where
  "need_grant now u s \<longleftrightarrow> did_renew_received u \<and> now > ups_lease u - lease_reserved_us s \<and> now < ups_lease u"

definition heartbeat_for :: "ob_server \<Rightarrow> int \<Rightarrow> ups_manager \<Rightarrow> heartbeat" where
  "heartbeat_for master lease s = \<lparr>hb_ups_master = master, hb_self_lease = word_of_int lease, hb_obi_role = obi_role s,
     hb_schema_version = schema_version s, hb_config_version = config_version s\<rparr>"

definition send_granting_msg :: "ob_server \<Rightarrow> heartbeat \<Rightarrow> ups_manager \<Rightarrow> ups_manager" where
  "send_granting_msg addr msg s = s\<lparr>call_log := Granted addr msg # call_log s\<rparr>"

definition master_addr :: "ups_manager \<Rightarrow> ob_server" where
  "master_addr s = (if has_master s then ups_addr (master_at s) else server_new)"

definition grant_slot :: "ob_server \<Rightarrow> int \<Rightarrow> bool \<Rightarrow> nat \<Rightarrow> ups_manager \<Rightarrow> ups_manager" where
  "grant_slot master now did_force i s =
     (if ups_online s i \<and> (need_grant now (ups_at s i) s \<or> did_force)
      then
        let s = change_ups i (\<lambda>u. u\<lparr>did_renew_received := False, ups_lease := now + lease_duration_us s\<rparr>) s
        in send_granting_msg (ups_addr (ups_at s i)) (heartbeat_for master (ups_lease (ups_at s i)) s) s
      else s)"

definition grant_lease :: "ups_env \<Rightarrow> bool \<Rightarrow> ups_manager \<Rightarrow> unit result \<times> ups_manager" where
  "grant_lease e did_force s =
     (let master = master_addr s;
          (now, s) = get_time e s
      in (Ok (), fold (grant_slot master now did_force) ups_places s))"

definition grant_eternal_slot :: "ob_server \<Rightarrow> nat \<Rightarrow> ups_manager \<Rightarrow> ups_manager" where
  "grant_eternal_slot master i s =
     (if ups_online s i
      then send_granting_msg (ups_addr (ups_at s i)) (heartbeat_for master OB_MAX_UPS_LEASE_DURATION_US s) s else s)"

definition grant_eternal_lease :: "ups_manager \<Rightarrow> unit result \<times> ups_manager" where
  "grant_eternal_lease s = (let master = master_addr s in (Ok (), fold (grant_eternal_slot master) ups_places s))"

section \<open>Choosing a master\<close>

text \<open>The loop that looks for the highest log sequence number; it returns the number and the first place that has it.\<close>

definition highest_step :: "ups_manager \<Rightarrow> nat \<Rightarrow> int \<times> int \<Rightarrow> int \<times> int" where
  "highest_step s i = (\<lambda>(highest_lsn, master_idx).
     if ups_online s i \<and> log_seq_num (ups_at s i) > highest_lsn then (log_seq_num (ups_at s i), int i) else (highest_lsn, master_idx))"

definition highest_lsn :: "ups_manager \<Rightarrow> int \<times> int" where
  "highest_lsn s = fold (highest_step s) ups_places (- 1, - 1)"

definition select_ups_master_with_highest_lsn :: "ups_env \<Rightarrow> ups_manager \<Rightarrow> unit result \<times> ups_manager" where
  "select_ups_master_with_highest_lsn e s =
     (if - 1 \<noteq> ups_master_idx s then (Err OB_UPS_MASTER_EXISTS, s)
      else
        let (highest, master_idx) = highest_lsn s in
        if - 1 = master_idx then (Err OB_ERROR, s)
        else
          let s = change_ups_stat (nat master_idx) UPS_STAT_MASTER s;
              s = s\<lparr>ups_master_idx := master_idx\<rparr>;
              s = refresh e ROLE_CHANGE (nat master_idx) ''null'' s;
              s = reset_ups_read_percent s
          in (Ok (), s))"

definition update_slot_lsn :: "ups_env \<Rightarrow> nat \<Rightarrow> ups_manager \<Rightarrow> ups_manager" where
  "update_slot_lsn e i s =
     (if ups_online s i
      then
        let answer = env_lsn e (remote_calls s) (ups_addr (ups_at s i));
            s = s\<lparr>remote_calls := Suc (remote_calls s)\<rparr>
        in case answer of None \<Rightarrow> s | Some lsn \<Rightarrow> change_ups i (\<lambda>u. u\<lparr>log_seq_num := sint lsn\<rparr>) s
      else s)"

definition update_ups_lsn :: "ups_env \<Rightarrow> ups_manager \<Rightarrow> ups_manager" where
  "update_ups_lsn e s = fold (update_slot_lsn e) ups_places s"

definition select_new_ups_master :: "ups_env \<Rightarrow> ups_manager \<Rightarrow> unit result \<times> ups_manager" where
  "select_new_ups_master e s =
     (if - 1 = ups_master_idx s
      then
        let (valid, s) = is_master_lease_valid e s in
        if \<not> valid then select_ups_master_with_highest_lsn e (update_ups_lsn e s) else (Err OB_ERROR, s)
      else (Err OB_ERROR, s))"

definition is_ups_with_highest_lsn :: "ups_env \<Rightarrow> int \<Rightarrow> ups_manager \<Rightarrow> bool \<times> ups_manager" where
  "is_ups_with_highest_lsn e ups_idx s =
     (if is_idx_valid ups_idx
      then let s = update_ups_lsn e s in (fst (highest_lsn s) = log_seq_num (ups_at s (nat ups_idx)), s)
      else (False, s))"

section \<open>The check thread\<close>

definition check_all_ups_offline :: "ups_manager \<Rightarrow> ups_manager" where
  "check_all_ups_offline s =
     (if list_all (\<lambda>i. \<not> ups_online s i) ups_places then s\<lparr>waiting_ups_finish_time := 0\<rparr> else s)"

text \<open>One round of the loop of \<^verbatim>\<open>check_lease\<close>, which holds the mutex; it returns whether a new master must be selected.\<close>

definition check_slot :: "ups_env \<Rightarrow> nat \<Rightarrow> ups_manager \<Rightarrow> bool \<times> ups_manager" where
  "check_slot e i s =
     (let (now, s) = get_time e s in
      if ups_online s i \<and> now > ups_lease (ups_at s i) + MAX_CLOCK_SKEW_US
      then
        let was_master = (ups_stat (ups_at s i) = UPS_STAT_MASTER);
            s = (if was_master then s\<lparr>ups_master_idx := - 1\<rparr> else s);
            s = reset_ups_read_percent s;
            s = change_ups_stat i UPS_STAT_OFFLINE s;
            ups = ups_at s i;
            s = change_ups i ups_reset s;
            s = check_all_ups_offline s;
            s = snd (refresh_inner_table e SERVER_OFFLINE ups ''null'' s)
        in (was_master, s)
      else (False, s))"

text \<open>
  The mutex is free between two rounds and after them: \<open>others k\<close> is what other threads do to the state before the method takes it for the
  \<open>k\<close>-th time.
\<close>

definition check_slots :: "ups_env \<Rightarrow> (nat \<Rightarrow> ups_manager \<Rightarrow> ups_manager) \<Rightarrow> nat list \<Rightarrow> bool \<times> ups_manager \<Rightarrow> bool \<times> ups_manager" where
  "check_slots e others =
     fold (\<lambda>i (did_select_new_master, s). let (b, s) = check_slot e i (others i s) in (did_select_new_master \<or> b, s))"

text \<open>
  The whole method. The second test of \<^verbatim>\<open>has_master()\<close> is outside the mutex, which \<^verbatim>\<open>grant_lease\<close> takes again, so that other threads may run
  before and after it.
\<close>

definition check_lease :: "ups_env \<Rightarrow> (nat \<Rightarrow> ups_manager \<Rightarrow> ups_manager) \<Rightarrow> ups_manager \<Rightarrow> unit result \<times> ups_manager" where
  "check_lease e others s =
     (let (did_select_new_master, s) = check_slots e others ups_places (False, s) in
      if did_select_new_master
      then
        let s = snd (select_new_ups_master e (others MAX_UPS_COUNT s));
            s = others (MAX_UPS_COUNT + 1) s
        in (Ok (), if has_master s then snd (grant_lease e True (others (MAX_UPS_COUNT + 2) s)) else s)
      else (Ok (), s))"

definition check_ups_master_exist :: "ups_env \<Rightarrow> ups_manager \<Rightarrow> unit result \<times> ups_manager" where
  "check_ups_master_exist e s =
     (if 0 < waiting_ups_finish_time s
      then
        let (now, s) = get_time e s in
        if now > waiting_ups_finish_time s
        then
          let (r, s) = select_ups_master_with_highest_lsn e s
          in (r, if r = Ok () \<or> r = Err OB_UPS_MASTER_EXISTS then s\<lparr>waiting_ups_finish_time := - 1\<rparr> else s)
        else (Ok (), s)
      else if 0 > waiting_ups_finish_time s then select_new_ups_master e s
      else (Ok (), s))"

section \<open>Setting the master by hand\<close>

definition revoke_master_lease :: "ups_env \<Rightarrow> ups_manager \<Rightarrow> int \<times> ups_manager" where
  "revoke_master_lease e s =
     (if has_master s
      then
        let (valid, s) = is_master_lease_valid e s;
            master_lease = ups_lease (master_at s);
            (waiting_lease_us, s) =
              (if valid
               then
                 let ok = env_revoke e (remote_calls s);
                     s = s\<lparr>remote_calls := Suc (remote_calls s),
                           call_log := Revoked (ups_addr (master_at s)) master_lease (ups_addr (master_at s)) ok # call_log s\<rparr>
                 in if \<not> ok
                    then
                      let (now2, s) = get_time e s
                      in if master_lease > now2 then (master_lease - now2, s\<lparr>waiting_ups_finish_time := 0\<rparr>) else (0, s)
                    else (0, s)
               else (0, s));
            i = nat (ups_master_idx s);
            s = change_ups_stat i UPS_STAT_SYNC s;
            s = refresh e ROLE_CHANGE i ''null'' s
        in (waiting_lease_us, s\<lparr>ups_master_idx := - 1\<rparr>)
      else (0, s))"

text \<open>
  The part of \<^verbatim>\<open>set_ups_master\<close> under its first lock: the code, the place of the server and how long to wait.
\<close>

definition set_master_first :: "ups_env \<Rightarrow> ob_server \<Rightarrow> bool \<Rightarrow> ups_manager \<Rightarrow> (unit result \<times> int \<times> int) \<times> ups_manager" where
  "set_master_first e master did_force s =
     (let i = find_ups_index master s in
      if \<not> is_idx_valid i then ((Err OB_NOT_REGISTERED, i, 0), s)
      else if UPS_STAT_MASTER = ups_stat (ups_at s (nat i)) then ((Err OB_INVALID_ARGUMENT, i, 0), s)
      else
        let (behind, s) =
              (if UPS_STAT_SYNC \<noteq> ups_stat (ups_at s (nat i)) then (True, s)
               else let (highest, s) = is_ups_with_highest_lsn e i s in (\<not> highest, s))
        in if behind \<and> \<not> did_force then ((Err OB_INVALID_ARGUMENT, i, 0), s)
           else let (waiting_lease_us, s) = revoke_master_lease e s in ((Ok (), i, waiting_lease_us), s))"

text \<open>The part under its second lock, after the wait.\<close>

definition set_master_second :: "ups_env \<Rightarrow> nat \<Rightarrow> ob_server \<Rightarrow> bool \<Rightarrow> ups_manager \<Rightarrow> unit result \<times> ups_manager" where
  "set_master_second e i master did_force s =
     (let (ready, s) =
            (if UPS_STAT_SYNC = ups_stat (ups_at s i)
             then let (highest, s) = is_ups_with_highest_lsn e (int i) s in (highest \<or> did_force, s)
             else (did_force, s));
          (free, s) =
            (if ready \<and> server_eq master (ups_addr (ups_at s i))
             then let (valid, s) = is_master_lease_valid e s in (\<not> valid, s)
             else (False, s))
      in if free
         then
           let s = change_ups_stat i UPS_STAT_MASTER s;
               s = s\<lparr>ups_master_idx := int i\<rparr>;
               s = refresh e ROLE_CHANGE i ''null'' s;
               s = s\<lparr>waiting_ups_finish_time := - 1\<rparr>
           in (Ok (), reset_ups_read_percent s)
         else (Err OB_CONFLICT_VALUE, s\<lparr>waiting_ups_finish_time := - 1\<rparr>))"

text \<open>The whole method; \<open>others\<close> is what other threads do to the state while it sleeps.\<close>

definition set_ups_master :: "ups_env \<Rightarrow> ob_server \<Rightarrow> bool \<Rightarrow> (ups_manager \<Rightarrow> ups_manager) \<Rightarrow> ups_manager \<Rightarrow> unit result \<times> ups_manager" where
  "set_ups_master e master did_force others s =
     (let ((r, i, waiting_lease_us), s) = set_master_first e master did_force s;
          s = others s;
          (r, new_master_selected, s) =
            (if r = Ok () \<and> is_idx_valid i
             then let (r, s) = set_master_second e (nat i) master did_force s in (r, r = Ok (), s)
             else (r, False, s))
      in (r, if new_master_selected then snd (grant_lease e True s) else s))"

section \<open>Configuration and what clients are told\<close>

definition set_ups_config_percent :: "int \<Rightarrow> int \<Rightarrow> ups_manager \<Rightarrow> unit result \<times> ups_manager" where
  "set_ups_config_percent master_master slave_master s =
     (if - 1 \<noteq> master_master \<and> (0 > master_master \<or> 100 < master_master) then (Err OB_INVALID_ARGUMENT, s)
      else if - 1 \<noteq> slave_master \<and> (0 > slave_master \<or> 100 < slave_master) then (Err OB_INVALID_ARGUMENT, s)
      else (Ok (), reset_ups_read_percent
              (s\<lparr>master_master_ups_read_percentage := master_master, slave_master_ups_read_percentage := slave_master\<rparr>)))"

definition get_master_ups_config :: "ups_manager \<Rightarrow> int \<times> int" where
  "get_master_ups_config s = (master_master_ups_read_percentage s, slave_master_ups_read_percentage s)"

definition set_ups_config_server :: "ob_server \<Rightarrow> int \<Rightarrow> int \<Rightarrow> ups_manager \<Rightarrow> unit result \<times> ups_manager" where
  "set_ups_config_server addr ms_percentage cs_percentage s =
     (if 0 > ms_percentage \<or> 100 < ms_percentage then (Err OB_INVALID_ARGUMENT, s)
      else if 0 > cs_percentage \<or> 100 < cs_percentage then (Err OB_INVALID_ARGUMENT, s)
      else
        let s = s\<lparr>is_flow_control_by_ip := True\<rparr>;
            i = find_ups_index addr s
        in if - 1 = i then (Err OB_ENTRY_NOT_EXIST, s)
           else (Ok (), change_ups (nat i) (\<lambda>u. u\<lparr>ms_read_percentage := ms_percentage, cs_read_percentage := cs_percentage\<rparr>) s))"

text \<open>The loop of \<^verbatim>\<open>get_ups_list\<close> over the places left, with \<open>count\<close> servers in the list.\<close>

fun ups_list_loop :: "ups_manager \<Rightarrow> nat list \<Rightarrow> nat \<Rightarrow> ups_list \<Rightarrow> nat \<times> ups_list" where
  "ups_list_loop s [] count l = (count, l)"
| "ups_list_loop s (i # places) count l =
     (if count < LIST_MAX_UPS_COUNT
      then
        if ups_online s i \<and> (is_flow_control_by_ip s \<or> UPS_STAT_NOTSYNC \<noteq> ups_stat (ups_at s i))
        then ups_list_loop s places (Suc count)
               (l\<lparr>list_array := (list_array l)[count := convert_to (ups_at s i) (list_array l ! count)]\<rparr>)
        else ups_list_loop s places count l
      else (count, l))"

definition get_ups_list :: "ups_list \<Rightarrow> ups_manager \<Rightarrow> ups_list" where
  "get_ups_list l s = (let (count, l) = ups_list_loop s ups_places 0 l in l\<lparr>list_count := word_of_nat count\<rparr>)"

text \<open>
  \<^verbatim>\<open>send_obi_role\<close> grants leases, then looks every 111 ms whether the master has taken over the role, until a lease would have
  run out; \<open>seen k\<close> is the state at its \<open>k\<close>-th look. It resets the percentages at the end without the mutex.
\<close>

definition obi_role_taken :: "ups_manager \<Rightarrow> bool" where
  "obi_role_taken s \<longleftrightarrow> (if has_master s then obi_role s = ups_obi_role (master_at s) else True)"

function obi_role_wait :: "(nat \<Rightarrow> ups_manager) \<Rightarrow> int \<Rightarrow> nat \<Rightarrow> int \<Rightarrow> unit result \<times> nat" where
  "obi_role_wait seen duration k total_sleep_us =
     (if obi_role_taken (seen k) then (Ok (), k)
      else if total_sleep_us + 111000 < duration then obi_role_wait seen duration (Suc k) (total_sleep_us + 111000)
      else (Err OB_RESPONSE_TIME_OUT, k))"
  by pat_completeness auto
termination
  by (relation "measure (\<lambda>(seen, duration, k, total). nat (duration - total))") auto

declare obi_role_wait.simps [simp del]

definition send_obi_role :: "ups_env \<Rightarrow> (nat \<Rightarrow> ups_manager \<Rightarrow> ups_manager) \<Rightarrow> ups_manager \<Rightarrow> unit result \<times> ups_manager" where
  "send_obi_role e others s =
     (let s = snd (grant_lease e True s);
          (r, k) = obi_role_wait (\<lambda>k. others k s) (lease_duration_us s) 0 0
      in (r, reset_ups_read_percent (others (Suc k) s)))"

end
