(* ===== verification/Ob_Ups_Safety.thy ===== *)
theory Ob_Ups_Safety
  imports Ob_Ups_Manager
begin

text \<open>
  What holds of the manager of the update servers in every interleaving of its threads: there is one master at most and the manager
  knows it, no two servers hold the master's lease at the same time, and the read percentages are shares of a whole.
\<close>

section \<open>The part of the state that the laws are about\<close>

text \<open>Address, status and lease of each place.\<close>

type_synonym core = "ob_server \<times> ups_status \<times> int"

definition core_of :: "ob_ups \<Rightarrow> core" where
  "core_of u = (ups_addr u, ups_stat u, ups_lease u)"

definition cores :: "ups_manager \<Rightarrow> core list" where
  "cores s = map core_of (ups_array s)"

abbreviation c_addr :: "core \<Rightarrow> ob_server" where "c_addr \<equiv> fst"
abbreviation c_stat :: "core \<Rightarrow> ups_status" where "c_stat c \<equiv> fst (snd c)"
abbreviation c_lease :: "core \<Rightarrow> int" where "c_lease c \<equiv> snd (snd c)"

lemma core_of_simps [simp]: "c_addr (core_of u) = ups_addr u" "c_stat (core_of u) = ups_stat u" "c_lease (core_of u) = ups_lease u"
  by (simp_all add: core_of_def)

lemma cores_nth: "i < length (ups_array s) \<Longrightarrow> cores s ! i = core_of (ups_at s i)"
  by (simp add: cores_def ups_at_def)

lemma length_cores [simp]: "length (cores s) = length (ups_array s)"
  by (simp add: cores_def)

subsection \<open>How the helpers change it\<close>

lemma cores_change_ups: "cores (change_ups i f s) = (cores s)[i := core_of (f (ups_at s i))]"
  by (simp add: cores_def change_ups_def map_update)

lemma change_ups_simps [simp]:
  "ups_master_idx (change_ups i f s) = ups_master_idx s" "call_log (change_ups i f s) = call_log s"
  "lease_duration_us (change_ups i f s) = lease_duration_us s" "clock_reads (change_ups i f s) = clock_reads s"
  "length (ups_array (change_ups i f s)) = length (ups_array s)" "i < length (ups_array s) \<Longrightarrow> ups_at (change_ups i f s) i = f (ups_at s i)"
  "i \<noteq> j \<Longrightarrow> ups_at (change_ups i f s) j = ups_at s j"
  by (simp_all add: change_ups_def ups_at_def)

lemma cores_change_same:
  "(\<And>u. core_of (f u) = core_of u) \<Longrightarrow> cores (change_ups i f s) = cores s"
  by (cases "i < length (ups_array s)") (simp_all add: cores_def change_ups_def map_update ups_at_def map_update [symmetric] list_update_beyond
      list_update_same_conv)

lemma cores_reset [simp]: "cores (reset_ups_read_percent s) = cores s"
proof -
  have "core_of (set_read_percent m n u) = core_of u" for m n u by (cases "ups_stat u") (simp_all add: set_read_percent_def core_of_def)
  then show ?thesis by (simp add: cores_def reset_ups_read_percent_def Let_def split_def comp_def core_of_def [of "_\<lparr>ms_read_percentage := _, cs_read_percentage := _\<rparr>"])
      (simp add: core_of_def)
qed

text \<open>
  The rest of the state. \<open>quiet s s'\<close>: nothing happened but readings of the clock, remote calls that only ask, new tasks and a new time to
  wait for.
\<close>

definition quiet :: "ups_manager \<Rightarrow> ups_manager \<Rightarrow> bool" where
  "quiet s s' \<longleftrightarrow> cores s' = cores s \<and> ups_master_idx s' = ups_master_idx s \<and> call_log s' = call_log s \<and>
     lease_duration_us s' = lease_duration_us s \<and> clock_reads s \<le> clock_reads s'"

lemma quiet_refl [simp]: "quiet s s"
  by (simp add: quiet_def)

lemma quiet_trans: "quiet s t \<Longrightarrow> quiet t u \<Longrightarrow> quiet s u"
  by (simp add: quiet_def)

lemma quiet_get_time: "get_time e s = (now, s') \<Longrightarrow> quiet s s'"
  by (auto simp: get_time_def quiet_def cores_def)

lemma quiet_refresh_inner_table: "quiet s (snd (refresh_inner_table e ty u v s))"
  by (auto simp: refresh_inner_table_def get_time_def quiet_def cores_def split: option.split prod.split)

lemma quiet_refresh: "quiet s (refresh e ty i v s)"
  by (simp add: refresh_def quiet_refresh_inner_table)

lemma reset_simps [simp]:
  "ups_master_idx (reset_ups_read_percent s) = ups_master_idx s" "call_log (reset_ups_read_percent s) = call_log s"
  "lease_duration_us (reset_ups_read_percent s) = lease_duration_us s" "clock_reads (reset_ups_read_percent s) = clock_reads s"
  "length (ups_array (reset_ups_read_percent s)) = length (ups_array s)"
  "waiting_ups_finish_time (reset_ups_read_percent s) = waiting_ups_finish_time s"
  by (simp_all add: reset_ups_read_percent_def Let_def split_def)

lemma quiet_reset: "quiet s (reset_ups_read_percent s)"
  by (simp add: quiet_def)

lemma quiet_waiting: "quiet s (s\<lparr>waiting_ups_finish_time := t\<rparr>)"
  by (simp add: quiet_def cores_def)

lemma quiet_update_ups_lsn: "quiet s (update_ups_lsn e s)"
proof -
  have "quiet s (fold (update_slot_lsn e) is s)" for "is"
  proof (induction "is" arbitrary: s)
    case (Cons i "is")
    have c: "cores (change_ups i (\<lambda>u. u\<lparr>log_seq_num := n\<rparr>) t) = cores t" for n t by (rule cores_change_same) (simp add: core_of_def)
    have "cores (s\<lparr>remote_calls := n\<rparr>) = cores s" for n by (simp add: cores_def)
    then have "quiet s (update_slot_lsn e i s)" by (auto simp: update_slot_lsn_def quiet_def Let_def c split: option.split)
    then show ?case using Cons [of "update_slot_lsn e i s"] quiet_trans by fastforce
  qed simp
  then show ?thesis by (simp add: update_ups_lsn_def)
qed

lemma quiet_is_master_lease_valid: "quiet s (snd (is_master_lease_valid e s))"
  by (auto simp: is_master_lease_valid_def Let_def split_def intro: quiet_get_time [OF surjective_pairing])

lemma quiet_is_ups_with_highest_lsn: "quiet s (snd (is_ups_with_highest_lsn e i s))"
  by (simp add: is_ups_with_highest_lsn_def Let_def quiet_update_ups_lsn)

lemma quiet_check_all_ups_offline: "quiet s (check_all_ups_offline s)"
  by (simp add: check_all_ups_offline_def quiet_waiting)

text \<open>Changes of a place that leave its core alone.\<close>

lemma quiet_change_ups: "(\<And>u. core_of (f u) = core_of u) \<Longrightarrow> quiet s (change_ups i f s)"
  by (simp add: quiet_def cores_change_same)

section \<open>One master\<close>

text \<open>
  The invariant: the manager's index names the one place whose status is master, and no two servers that are online have the same
  address or that of an object that was never set.
\<close>

definition online :: "core \<Rightarrow> bool" where
  "online c \<longleftrightarrow> c_stat c \<noteq> UPS_STAT_OFFLINE"

definition core_inv :: "core list \<Rightarrow> int \<Rightarrow> bool" where
  "core_inv cs idx \<longleftrightarrow> length cs = MAX_UPS_COUNT \<and> - 1 \<le> idx \<and> idx < int MAX_UPS_COUNT \<and>
     (\<forall>i < MAX_UPS_COUNT. c_stat (cs ! i) = UPS_STAT_MASTER \<longleftrightarrow> idx = int i) \<and>
     (\<forall>i < MAX_UPS_COUNT. \<forall>j < MAX_UPS_COUNT. online (cs ! i) \<longrightarrow> online (cs ! j) \<longrightarrow> server_eq (c_addr (cs ! i)) (c_addr (cs ! j)) \<longrightarrow> i = j) \<and>
     (\<forall>i < MAX_UPS_COUNT. online (cs ! i) \<longrightarrow> \<not> server_eq (c_addr (cs ! i)) server_new)"

definition mgr_inv :: "ups_manager \<Rightarrow> bool" where
  "mgr_inv s \<longleftrightarrow> core_inv (cores s) (ups_master_idx s)"

lemma core_invD:
  assumes "core_inv cs idx"
  shows "length cs = MAX_UPS_COUNT" "- 1 \<le> idx" "idx < int MAX_UPS_COUNT"
    "\<And>i. i < MAX_UPS_COUNT \<Longrightarrow> c_stat (cs ! i) = UPS_STAT_MASTER \<longleftrightarrow> idx = int i"
    "\<And>i j. i < MAX_UPS_COUNT \<Longrightarrow> j < MAX_UPS_COUNT \<Longrightarrow> online (cs ! i) \<Longrightarrow> online (cs ! j) \<Longrightarrow> server_eq (c_addr (cs ! i)) (c_addr (cs ! j)) \<Longrightarrow> i = j"
    "\<And>i. i < MAX_UPS_COUNT \<Longrightarrow> online (cs ! i) \<Longrightarrow> \<not> server_eq (c_addr (cs ! i)) server_new"
  using assms by (auto simp: core_inv_def)

lemma core_invI:
  assumes "length cs = MAX_UPS_COUNT" "- 1 \<le> idx" "idx < int MAX_UPS_COUNT"
    "\<And>i. i < MAX_UPS_COUNT \<Longrightarrow> c_stat (cs ! i) = UPS_STAT_MASTER \<longleftrightarrow> idx = int i"
    "\<And>i j. i < MAX_UPS_COUNT \<Longrightarrow> j < MAX_UPS_COUNT \<Longrightarrow> online (cs ! i) \<Longrightarrow> online (cs ! j) \<Longrightarrow> server_eq (c_addr (cs ! i)) (c_addr (cs ! j)) \<Longrightarrow> i = j"
    "\<And>i. i < MAX_UPS_COUNT \<Longrightarrow> online (cs ! i) \<Longrightarrow> \<not> server_eq (c_addr (cs ! i)) server_new"
  shows "core_inv cs idx"
  using assms unfolding core_inv_def by blast

lemma mgr_inv_quiet: "quiet s s' \<Longrightarrow> mgr_inv s' \<longleftrightarrow> mgr_inv s"
  by (simp add: quiet_def mgr_inv_def)

text \<open>A place is changed: its address stays if it is online, and who is master is told.\<close>

lemma core_inv_change:
  assumes "core_inv cs idx" "i < MAX_UPS_COUNT" "idx' = int i \<longleftrightarrow> c_stat c = UPS_STAT_MASTER"
    and "- 1 \<le> idx'" "idx' < int MAX_UPS_COUNT" "\<And>j. j < MAX_UPS_COUNT \<Longrightarrow> j \<noteq> i \<Longrightarrow> idx' = int j \<longleftrightarrow> idx = int j"
    and "online c \<Longrightarrow> \<not> server_eq (c_addr c) server_new"
    and "\<And>j. online c \<Longrightarrow> j < MAX_UPS_COUNT \<Longrightarrow> j \<noteq> i \<Longrightarrow> online (cs ! j) \<Longrightarrow> \<not> server_eq (c_addr c) (c_addr (cs ! j))"
  shows "core_inv (cs[i := c]) idx'"
proof (rule core_invI)
  note inv = core_invD [OF assms(1)]
  show "length (cs[i := c]) = MAX_UPS_COUNT" using inv by simp
  show "c_stat (cs[i := c] ! j) = UPS_STAT_MASTER \<longleftrightarrow> idx' = int j" if "j < MAX_UPS_COUNT" for j
    using that assms(3,6) inv(1,4) by (cases "j = i") auto
  show "j = k" if "j < MAX_UPS_COUNT" "k < MAX_UPS_COUNT" "online (cs[i := c] ! j)" "online (cs[i := c] ! k)"
    "server_eq (c_addr (cs[i := c] ! j)) (c_addr (cs[i := c] ! k))" for j k
    using that inv(1,5) assms(8) [of j] assms(8) [of k] by (cases "j = i"; cases "k = i") (auto simp: server_eq_sym)
  show "\<not> server_eq (c_addr (cs[i := c] ! j)) server_new" if "j < MAX_UPS_COUNT" "online (cs[i := c] ! j)" for j
    using that inv(1,6) assms(7) by (cases "j = i") auto
qed (use assms in auto)

text \<open>The address stays: the place goes off, or keeps being on.\<close>

lemma core_inv_same_addr:
  assumes "core_inv cs idx" "i < MAX_UPS_COUNT" "idx' = int i \<longleftrightarrow> c_stat c = UPS_STAT_MASTER"
    and "- 1 \<le> idx'" "idx' < int MAX_UPS_COUNT" "\<And>j. j < MAX_UPS_COUNT \<Longrightarrow> j \<noteq> i \<Longrightarrow> idx' = int j \<longleftrightarrow> idx = int j"
    and "online c \<Longrightarrow> online (cs ! i) \<and> c_addr c = c_addr (cs ! i)"
  shows "core_inv (cs[i := c]) idx'"
  using assms(7) core_invD(5,6) [OF assms(1)] assms(2) by (intro core_inv_change [OF assms(1-6)]) (auto simp: server_eq_sym)

section \<open>The protocol\<close>

text \<open>
  The manager as a protocol on the cores, the master's index, the log of remote calls and the number of clock readings. \<open>strict\<close> asks that a
  master only goes when its lease has run out by some reading of the clock or when it has confirmed that the lease is revoked.
\<close>

type_synonym protocol_state = "core list \<times> int \<times> ups_call list \<times> nat"

definition protocol_of :: "ups_manager \<Rightarrow> protocol_state" where
  "protocol_of s = (cores s, ups_master_idx s, call_log s, clock_reads s)"

inductive change :: "ups_env \<Rightarrow> bool \<Rightarrow> int \<Rightarrow> protocol_state \<Rightarrow> protocol_state \<Rightarrow> bool" for e strict d where
  tick: "k \<le> k' \<Longrightarrow> change e strict d (cs, idx, log, k) (cs, idx, log, k')"
| join: "i < MAX_UPS_COUNT \<Longrightarrow> \<not> online (cs ! i) \<Longrightarrow> \<not> server_eq a server_new \<Longrightarrow>
    \<forall>j < MAX_UPS_COUNT. online (cs ! j) \<longrightarrow> \<not> server_eq a (c_addr (cs ! j)) \<Longrightarrow> m < k \<Longrightarrow> l = env_time e m + d \<Longrightarrow>
    change e strict d (cs, idx, log, k) (cs[i := (a, UPS_STAT_NOTSYNC, l)], idx, log, k)"
| sync: "i < MAX_UPS_COUNT \<Longrightarrow> c_stat (cs ! i) \<in> {UPS_STAT_SYNC, UPS_STAT_NOTSYNC} \<Longrightarrow> st \<in> {UPS_STAT_SYNC, UPS_STAT_NOTSYNC} \<Longrightarrow>
    change e strict d (cs, idx, log, k) (cs[i := (c_addr (cs ! i), st, c_lease (cs ! i))], idx, log, k)"
| leave: "i < MAX_UPS_COUNT \<Longrightarrow> idx \<noteq> int i \<Longrightarrow>
    change e strict d (cs, idx, log, k) (cs[i := (a, UPS_STAT_OFFLINE, l)], idx, log, k)"
| fall: "i < MAX_UPS_COUNT \<Longrightarrow> idx = int i \<Longrightarrow> m < k \<Longrightarrow> c_lease (cs ! i) \<le> env_time e m \<Longrightarrow>
    change e strict d (cs, idx, log, k) (cs[i := (a, UPS_STAT_OFFLINE, l)], - 1, log, k)"
| elect: "i < MAX_UPS_COUNT \<Longrightarrow> online (cs ! i) \<Longrightarrow>
    change e strict d (cs, - 1, log, k) (cs[i := (c_addr (cs ! i), UPS_STAT_MASTER, c_lease (cs ! i))], int i, log, k)"
| expire: "i < MAX_UPS_COUNT \<Longrightarrow> idx = int i \<Longrightarrow> m < k \<Longrightarrow> c_lease (cs ! i) \<le> env_time e m \<Longrightarrow>
    change e strict d (cs, idx, log, k) (cs[i := (c_addr (cs ! i), UPS_STAT_SYNC, c_lease (cs ! i))], - 1, log, k)"
| revoke: "i < MAX_UPS_COUNT \<Longrightarrow> idx = int i \<Longrightarrow> strict \<longrightarrow> ok \<Longrightarrow>
    change e strict d (cs, idx, log, k)
      (cs[i := (c_addr (cs ! i), UPS_STAT_SYNC, c_lease (cs ! i))], - 1, Revoked (c_addr (cs ! i)) l b ok # log, k)"
| grant: "i < MAX_UPS_COUNT \<Longrightarrow> online (cs ! i) \<Longrightarrow> m < k \<Longrightarrow> strict \<longrightarrow> (\<forall>j < k. env_time e j \<le> env_time e m) \<Longrightarrow>
    l = env_time e m + d \<Longrightarrow> hb_ups_master hb = (if idx = - 1 then server_new else c_addr (cs ! nat idx)) \<Longrightarrow> hb_self_lease hb = word_of_int l \<Longrightarrow>
    change e strict d (cs, idx, log, k) (cs[i := (c_addr (cs ! i), c_stat (cs ! i), l)], idx, Granted (c_addr (cs ! i)) hb # log, k)"
| forever: "\<not> strict \<Longrightarrow> change e strict d (cs, idx, log, k) (cs, idx, Granted a hb # log, k)"

text \<open>The invariant of one master is kept by each step of the protocol.\<close>

definition protocol_inv :: "protocol_state \<Rightarrow> bool" where
  "protocol_inv = (\<lambda>(cs, idx, log, k). core_inv cs idx)"

lemma change_inv: "change e strict d p q \<Longrightarrow> protocol_inv p \<Longrightarrow> protocol_inv q"
proof (induction rule: change.induct)
  case (join i cs a m k l idx log)
  then have inv: "core_inv cs idx" by (simp add: protocol_inv_def)
  have "idx \<noteq> int i" using core_invD(4) [OF inv, of i] join by (auto simp: online_def)
  then show ?case
    using join core_invD(2,3) [OF inv] by (auto simp: protocol_inv_def intro!: core_inv_change [OF inv])
next
  case (sync i cs st idx log k)
  then have inv: "core_inv cs idx" by (simp add: protocol_inv_def)
  have "idx \<noteq> int i" using core_invD(4) [OF inv, of i] sync by auto
  then show ?case
    using sync core_invD(2,3) [OF inv] by (auto simp: protocol_inv_def online_def intro!: core_inv_same_addr [OF inv])
next
  case (leave i idx cs log k a l)
  then have inv: "core_inv cs idx" by (simp add: protocol_inv_def)
  show ?case
    using leave core_invD(2,3) [OF inv] by (auto simp: protocol_inv_def online_def intro!: core_inv_same_addr [OF inv])
next
  case (fall i idx m k cs log a l)
  then have inv: "core_inv cs idx" by (simp add: protocol_inv_def)
  show ?case using fall by (auto simp: protocol_inv_def online_def MAX_UPS_COUNT_def intro!: core_inv_same_addr [OF inv])
next
  case (elect i cs log k)
  then have inv: "core_inv cs (- 1)" by (simp add: protocol_inv_def)
  show ?case using elect by (auto simp: protocol_inv_def online_def intro!: core_inv_same_addr [OF inv])
next
  case (expire i idx m k cs log)
  then have inv: "core_inv cs idx" by (simp add: protocol_inv_def)
  have "online (cs ! i)" using core_invD(4) [OF inv, of i] expire by (auto simp: online_def)
  then show ?case using expire by (auto simp: protocol_inv_def online_def MAX_UPS_COUNT_def intro!: core_inv_same_addr [OF inv])
next
  case (revoke i idx ok cs log k l b)
  then have inv: "core_inv cs idx" by (simp add: protocol_inv_def)
  have "online (cs ! i)" using core_invD(4) [OF inv, of i] revoke by (auto simp: online_def)
  then show ?case using revoke by (auto simp: protocol_inv_def online_def MAX_UPS_COUNT_def intro!: core_inv_same_addr [OF inv])
next
  case (grant i cs m k l hb idx log)
  then have inv: "core_inv cs idx" by (simp add: protocol_inv_def)
  show ?case
    using grant core_invD(2,3,4) [OF inv] by (auto simp: protocol_inv_def online_def intro!: core_inv_same_addr [OF inv])
qed (simp_all add: protocol_inv_def)

lemma protocol_changes_inv: "(change e strict d)\<^sup>*\<^sup>* p q \<Longrightarrow> protocol_inv p \<Longrightarrow> protocol_inv q"
  by (induction rule: rtranclp_induct) (auto dest: change_inv)

section \<open>One lease\<close>

text \<open>
  \<open>holds_lease x t log\<close>: by the messages sent, the server \<open>x\<close> may take itself for the master at time \<open>t\<close>. It was told that it is, for longer than
  \<open>t\<close>, and has not confirmed a revocation since.
\<close>

fun holds_lease :: "ob_server \<Rightarrow> int \<Rightarrow> ups_call list \<Rightarrow> bool" where
  "holds_lease x t [] = False"
| "holds_lease x t (Granted a hb # log) =
     (server_eq a x \<and> server_eq (hb_ups_master hb) x \<and> t < sint (hb_self_lease hb) \<or> holds_lease x t log)"
| "holds_lease x t (Revoked a l b ok # log) = (\<not> (ok \<and> server_eq a x) \<and> holds_lease x t log)"

definition lease_inv :: "ups_env \<Rightarrow> int \<Rightarrow> protocol_state \<Rightarrow> bool" where
  "lease_inv e d = (\<lambda>(cs, idx, log, k).
     (\<forall>i < MAX_UPS_COUNT. online (cs ! i) \<longrightarrow> (\<exists>m < k. c_lease (cs ! i) \<le> env_time e m + d)) \<and>
     (\<forall>x t. holds_lease x t log \<longrightarrow> (\<forall>m < k. env_time e m \<le> t) \<longrightarrow>
        0 \<le> idx \<and> server_eq (c_addr (cs ! nat idx)) x \<and> t < c_lease (cs ! nat idx)))"

lemma lease_invD:
  assumes "lease_inv e d (cs, idx, log, k)"
  shows "\<And>i. i < MAX_UPS_COUNT \<Longrightarrow> online (cs ! i) \<Longrightarrow> \<exists>m < k. c_lease (cs ! i) \<le> env_time e m + d"
    "\<And>x t. holds_lease x t log \<Longrightarrow> \<forall>m < k. env_time e m \<le> t \<Longrightarrow>
      0 \<le> idx \<and> server_eq (c_addr (cs ! nat idx)) x \<and> t < c_lease (cs ! nat idx)"
  using assms by (auto simp: lease_inv_def)

lemma lease_invI:
  assumes "\<And>i. i < MAX_UPS_COUNT \<Longrightarrow> online (cs ! i) \<Longrightarrow> \<exists>m < k. c_lease (cs ! i) \<le> env_time e m + d"
    "\<And>x t. holds_lease x t log \<Longrightarrow> \<forall>m < k. env_time e m \<le> t \<Longrightarrow>
      0 \<le> idx \<and> server_eq (c_addr (cs ! nat idx)) x \<and> t < c_lease (cs ! nat idx)"
  shows "lease_inv e d (cs, idx, log, k)"
  unfolding lease_inv_def using assms by blast

text \<open>A change at a place that is not the master's keeps it.\<close>

lemma lease_inv_other:
  assumes "lease_inv e d (cs, idx, log, k)" "length cs = MAX_UPS_COUNT" "idx < int MAX_UPS_COUNT" "idx \<noteq> int i"
    "online c \<Longrightarrow> \<exists>m < k. c_lease c \<le> env_time e m + d"
  shows "lease_inv e d (cs[i := c], idx, log, k)"
proof (rule lease_invI)
  fix j assume "j < MAX_UPS_COUNT" "online (cs[i := c] ! j)"
  then show "\<exists>m < k. c_lease (cs[i := c] ! j) \<le> env_time e m + d" using assms(2,5) lease_invD(1) [OF assms(1), of j] by (cases "i = j") auto
next
  fix x t assume h: "holds_lease x t log" "\<forall>m < k. env_time e m \<le> t"
  then have "0 \<le> idx" "server_eq (c_addr (cs ! nat idx)) x" "t < c_lease (cs ! nat idx)" using lease_invD(2) [OF assms(1)] by auto
  moreover have "i \<noteq> nat idx" using \<open>0 \<le> idx\<close> assms(4) by auto
  ultimately show "0 \<le> idx \<and> server_eq (c_addr (cs[i := c] ! nat idx)) x \<and> t < c_lease (cs[i := c] ! nat idx)" by simp
qed

text \<open>With no lease in anyone's hands, the index may change.\<close>

lemma lease_inv_free:
  assumes "lease_inv e d (cs, idx, log, k)" "length cs = MAX_UPS_COUNT"
    "\<And>x t. \<not> (holds_lease x t log' \<and> (\<forall>m < k. env_time e m \<le> t))" "online c \<Longrightarrow> \<exists>m < k. c_lease c \<le> env_time e m + d"
  shows "lease_inv e d (cs[i := c], idx', log', k)"
proof (rule lease_invI)
  fix j assume "j < MAX_UPS_COUNT" "online (cs[i := c] ! j)"
  then show "\<exists>m < k. c_lease (cs[i := c] ! j) \<le> env_time e m + d" using assms(2,4) lease_invD(1) [OF assms(1), of j] by (cases "i = j") auto
qed (use assms(3) in blast)

lemma lease_expired:
  assumes "lease_inv e d (cs, int i, log, k)" "m < k" "c_lease (cs ! i) \<le> env_time e m"
  shows "\<not> (holds_lease x t log \<and> (\<forall>m < k. env_time e m \<le> t))"
proof
  assume h: "holds_lease x t log \<and> (\<forall>m < k. env_time e m \<le> t)"
  then have "t < c_lease (cs ! i)" using lease_invD(2) [OF assms(1)] by auto
  then show False using h assms(2,3) by force
qed

definition clock_bounded :: "ups_env \<Rightarrow> int \<Rightarrow> bool" where
  "clock_bounded e d \<longleftrightarrow> (\<forall>m. - (2 ^ 63) \<le> env_time e m + d \<and> env_time e m + d < 2 ^ 63)"

lemma sint_lease: "clock_bounded e d \<Longrightarrow> sint (word_of_int (env_time e m + d) :: i64) = env_time e m + d"
  by (simp add: clock_bounded_def signed_take_bit_int_eq_self signed_of_int del: of_int_add)

lemma lease_inv_grant:
  assumes inv: "core_inv cs idx" "lease_inv e d (cs, idx, log, k)" and b: "clock_bounded e d"
    and i: "i < MAX_UPS_COUNT" "online (cs ! i)" and m: "m < k" "\<forall>j < k. env_time e j \<le> env_time e m" and l: "l = env_time e m + d"
    and hb: "hb_ups_master hb = (if idx = - 1 then server_new else c_addr (cs ! nat idx))" "hb_self_lease hb = word_of_int l"
  shows "lease_inv e d (cs[i := (c_addr (cs ! i), c_stat (cs ! i), l)], idx, Granted (c_addr (cs ! i)) hb # log, k)"
proof (rule lease_invI)
  fix j assume "j < MAX_UPS_COUNT" "online (cs[i := (c_addr (cs ! i), c_stat (cs ! i), l)] ! j)"
  then show "\<exists>m < k. c_lease (cs[i := (c_addr (cs ! i), c_stat (cs ! i), l)] ! j) \<le> env_time e m + d"
    using core_invD(1) [OF inv(1)] lease_invD(1) [OF inv(2), of j] m(1) l by (cases "i = j") auto
next
  fix x t assume h: "holds_lease x t (Granted (c_addr (cs ! i)) hb # log)" and t: "\<forall>m < k. env_time e m \<le> t"
  note c = core_invD [OF inv(1)]
  have old: "c_lease (cs ! nat idx) \<le> l" if "0 \<le> idx"
  proof -
    have n: "nat idx < MAX_UPS_COUNT" using c(3) that by simp
    then have "online (cs ! nat idx)" using c(4) [of "nat idx"] that by (simp add: online_def)
    then obtain n where "n < k" "c_lease (cs ! nat idx) \<le> env_time e n + d" using lease_invD(1) [OF inv(2) n] by auto
    then show ?thesis using m(2) l by force
  qed
  from h consider (new) "server_eq (c_addr (cs ! i)) x" "server_eq (hb_ups_master hb) x" "t < l" | (old) "holds_lease x t log"
    using sint_lease [OF b, of m] hb(2) l by auto
  then show "0 \<le> idx \<and> server_eq (c_addr (cs[i := (c_addr (cs ! i), c_stat (cs ! i), l)] ! nat idx)) x \<and>
      t < c_lease (cs[i := (c_addr (cs ! i), c_stat (cs ! i), l)] ! nat idx)"
  proof cases
    case new
    then have e: "server_eq (c_addr (cs ! i)) (hb_ups_master hb)" using server_eq_trans server_eq_sym by blast
    have "idx \<noteq> - 1" using e c(6) [OF i] hb(1) by auto
    then have n: "0 \<le> idx" "nat idx < MAX_UPS_COUNT" using c(2,3) by auto
    have "online (cs ! nat idx)" using c(4) [of "nat idx"] n by (simp add: online_def)
    then have "i = nat idx" using c(5) [OF i(1) n(2) i(2)] e hb(1) n by simp
    then show ?thesis using new n c(1) by simp
  next
    case old
    then have "0 \<le> idx" "server_eq (c_addr (cs ! nat idx)) x" "t < c_lease (cs ! nat idx)" using lease_invD(2) [OF inv(2) old t] by auto
    then show ?thesis using \<open>0 \<le> idx \<Longrightarrow> c_lease (cs ! nat idx) \<le> l\<close> c(1,3) by (cases "i = nat idx") auto
  qed
qed

lemma change_lease_inv:
  assumes "change e True d p q" "protocol_inv p" "lease_inv e d p" "clock_bounded e d"
  shows "lease_inv e d q"
  using assms(1-3)
proof (induction rule: change.induct)
  case (tick k k' cs idx log)
  then show ?case by (force simp: lease_inv_def)
next
  case (join i cs a m k l idx log)
  then have inv: "core_inv cs idx" by (simp add: protocol_inv_def)
  have "idx \<noteq> int i" using core_invD(4) [OF inv, of i] join by (auto simp: online_def)
  then show ?case using join core_invD(1,3) [OF inv] by (intro lease_inv_other) auto
next
  case (sync i cs st idx log k)
  then have inv: "core_inv cs idx" by (simp add: protocol_inv_def)
  have "idx \<noteq> int i" "online (cs ! i)" using core_invD(4) [OF inv, of i] sync by (auto simp: online_def)
  then show ?case using sync core_invD(1,3) [OF inv] lease_invD(1) [OF sync(5)] by (intro lease_inv_other) auto
next
  case (leave i idx cs log k a l)
  then have inv: "core_inv cs idx" by (simp add: protocol_inv_def)
  show ?case using leave core_invD(1,3) [OF inv] by (intro lease_inv_other) (auto simp: online_def)
next
  case (fall i idx m k cs log a l)
  then have inv: "core_inv cs idx" by (simp add: protocol_inv_def)
  show ?case using fall lease_expired [of e d cs i log k m] core_invD(1) [OF inv] by (intro lease_inv_free) (auto simp: online_def)
next
  case (elect i cs log k)
  then have inv: "core_inv cs (- 1)" by (simp add: protocol_inv_def)
  have "\<not> (holds_lease x t log \<and> (\<forall>m<k. env_time e m \<le> t))" for x t using lease_invD(2) [OF elect(4), of x t] by auto
  then show ?case
    using elect lease_invD(1) [OF elect(4)] core_invD(1) [OF inv] by (intro lease_inv_free [OF elect(4)]) auto
next
  case (expire i idx m k cs log)
  then have inv: "core_inv cs idx" by (simp add: protocol_inv_def)
  have "online (cs ! i)" using core_invD(4) [OF inv, of i] expire by (auto simp: online_def)
  then show ?case
    using expire lease_expired [of e d cs i log k m] core_invD(1) [OF inv] lease_invD(1) [OF expire(6)] by (intro lease_inv_free) auto
next
  case (revoke i idx ok cs log k l b)
  then have inv: "core_inv cs idx" by (simp add: protocol_inv_def)
  have o: "online (cs ! i)" using core_invD(4) [OF inv, of i] revoke by (auto simp: online_def)
  have "\<not> (holds_lease x t (Revoked (c_addr (cs ! i)) l b ok # log) \<and> (\<forall>m<k. env_time e m \<le> t))" for x t
    using lease_invD(2) [OF revoke(5), of x t] revoke(2,3) by auto
  then show ?case using revoke core_invD(1) [OF inv] lease_invD(1) [OF revoke(5) revoke(1) o] by (intro lease_inv_free [OF revoke(5)]) auto
next
  case (grant i cs m k l hb idx log)
  then show ?case using lease_inv_grant [of cs idx e d log k i m l hb] assms(4) by (simp add: protocol_inv_def)
qed simp

lemma changes_lease_inv:
  assumes "(change e True d)\<^sup>*\<^sup>* p q" "protocol_inv p" "lease_inv e d p" "clock_bounded e d"
  shows "lease_inv e d q"
  using assms by (induction rule: rtranclp_induct) (auto intro: change_lease_inv protocol_changes_inv)

end
