(* ===== verification/Ob_Ups_Runs.thy ===== *)
theory Ob_Ups_Runs
  imports Ob_Ups_Safety
begin

text \<open>
  The threads of the root server as actions on the manager, one for each stretch of code under the mutex, and the proof that every
  action is a sequence of steps of the protocol.
\<close>

section \<open>Actions\<close>

datatype ups_action =
    Register ob_server i32 int int string
  | Renew ob_server ups_status obi_role
  | Slave_Failure ob_server ob_server
  | Grant_Lease bool
  | Grant_Eternal_Lease
  | Check_Slot nat
  | Select_New
  | Check_Master_Exist
  | Set_Master_First ob_server bool
  | Set_Master_Second nat ob_server bool
  | Set_Config_Percent int int
  | Set_Config_Server ob_server int int
  | Reset_Percent
  | Set_Queue "async_queue option"
  | Refer obi_role i64 i64

fun ups_act :: "ups_env \<Rightarrow> ups_action \<Rightarrow> ups_manager \<Rightarrow> ups_manager" where
  "ups_act e (Register addr port lsn lease version) s = snd (register_ups e addr port lsn lease version s)"
| "ups_act e (Renew addr stat role) s = snd (renew_lease addr stat role s)"
| "ups_act e (Slave_Failure addr slave) s = snd (slave_failure e addr slave s)"
| "ups_act e (Grant_Lease force) s = snd (grant_lease e force s)"
| "ups_act e Grant_Eternal_Lease s = snd (grant_eternal_lease s)"
| "ups_act e (Check_Slot i) s = snd (check_slot e i s)"
| "ups_act e Select_New s = snd (select_new_ups_master e s)"
| "ups_act e Check_Master_Exist s = snd (check_ups_master_exist e s)"
| "ups_act e (Set_Master_First master force) s = snd (set_master_first e master force s)"
| "ups_act e (Set_Master_Second i master force) s = snd (set_master_second e i master force s)"
| "ups_act e (Set_Config_Percent mm sm) s = snd (set_ups_config_percent mm sm s)"
| "ups_act e (Set_Config_Server addr ms cs) s = snd (set_ups_config_server addr ms cs s)"
| "ups_act e Reset_Percent s = reset_ups_read_percent s"
| "ups_act e (Set_Queue q) s = set_async_queue q s"
| "ups_act e (Refer role schema config) s = s\<lparr>obi_role := role, schema_version := schema, config_version := config\<rparr>"

text \<open>
  When an action is in order: a server registers under a proper address, a master does not report itself, and when \<^verbatim>\<open>set_ups_master\<close> comes
  back from its sleep, the server is still registered and no other master has been chosen whose lease has run out since.
\<close>

fun in_order :: "ups_env \<Rightarrow> ups_action \<Rightarrow> ups_manager \<Rightarrow> bool" where
  "in_order e (Register addr port lsn lease version) s \<longleftrightarrow> server_is_valid addr \<and> server_ok addr"
| "in_order e (Slave_Failure addr slave) s \<longleftrightarrow> \<not> server_eq addr slave"
| "in_order e (Check_Slot i) s \<longleftrightarrow> i < MAX_UPS_COUNT"
| "in_order e (Set_Master_Second i master force) s \<longleftrightarrow>
     i < MAX_UPS_COUNT \<and> ups_online s i \<and> (has_master s \<longrightarrow> env_time e (clock_reads s) < ups_lease (master_at s))"
| "in_order e a s \<longleftrightarrow> True"

section \<open>Actions as steps of the protocol\<close>

definition changes :: "ups_env \<Rightarrow> bool \<Rightarrow> ups_manager \<Rightarrow> ups_manager \<Rightarrow> bool" where
  "changes e strict s s' \<longleftrightarrow>
     (change e strict (lease_duration_us s))\<^sup>*\<^sup>* (protocol_of s) (protocol_of s') \<and> lease_duration_us s' = lease_duration_us s"

lemma changes_trans: "changes e strict s t \<Longrightarrow> changes e strict t u \<Longrightarrow> changes e strict s u"
  by (auto simp: changes_def)

lemma changes_quiet: "quiet s s' \<Longrightarrow> changes e strict s s'"
  by (auto simp: changes_def quiet_def protocol_of_def intro!: r_into_rtranclp change.tick)

lemma changes_step:
  "change e strict (lease_duration_us s) (protocol_of s) (protocol_of s') \<Longrightarrow> lease_duration_us s' = lease_duration_us s \<Longrightarrow> changes e strict s s'"
  by (auto simp: changes_def)

lemma changes_inv: "changes e strict s s' \<Longrightarrow> mgr_inv s \<Longrightarrow> mgr_inv s'"
  using protocol_changes_inv [of e strict "lease_duration_us s" "protocol_of s" "protocol_of s'"]
  by (simp add: changes_def mgr_inv_def protocol_inv_def protocol_of_def)

text \<open>The invariant in terms of the manager.\<close>

lemma mgr_invD:
  assumes "mgr_inv s"
  shows "length (ups_array s) = MAX_UPS_COUNT" "- 1 \<le> ups_master_idx s" "ups_master_idx s < int MAX_UPS_COUNT"
    "\<And>i. i < MAX_UPS_COUNT \<Longrightarrow> ups_stat (ups_at s i) = UPS_STAT_MASTER \<longleftrightarrow> ups_master_idx s = int i"
    "\<And>i j. i < MAX_UPS_COUNT \<Longrightarrow> j < MAX_UPS_COUNT \<Longrightarrow> ups_online s i \<Longrightarrow> ups_online s j \<Longrightarrow> server_eq (ups_addr (ups_at s i)) (ups_addr (ups_at s j)) \<Longrightarrow> i = j"
    "\<And>i. i < MAX_UPS_COUNT \<Longrightarrow> ups_online s i \<Longrightarrow> \<not> server_eq (ups_addr (ups_at s i)) server_new"
proof -
  note c = core_invD [OF assms [unfolded mgr_inv_def]]
  show l: "length (ups_array s) = MAX_UPS_COUNT" using c(1) by simp
  show "- 1 \<le> ups_master_idx s" "ups_master_idx s < int MAX_UPS_COUNT" using c(2,3) by simp_all
  have n: "cores s ! i = core_of (ups_at s i)" "online (cores s ! i) \<longleftrightarrow> ups_online s i" if "i < MAX_UPS_COUNT" for i
    using that l by (auto simp: cores_nth online_def ups_online_def)
  show "\<And>i. i < MAX_UPS_COUNT \<Longrightarrow> ups_stat (ups_at s i) = UPS_STAT_MASTER \<longleftrightarrow> ups_master_idx s = int i" using c(4) n by simp
  show "\<And>i j. i < MAX_UPS_COUNT \<Longrightarrow> j < MAX_UPS_COUNT \<Longrightarrow> ups_online s i \<Longrightarrow> ups_online s j \<Longrightarrow>
      server_eq (ups_addr (ups_at s i)) (ups_addr (ups_at s j)) \<Longrightarrow> i = j" using c(5) n by simp
  show "\<And>i. i < MAX_UPS_COUNT \<Longrightarrow> ups_online s i \<Longrightarrow> \<not> server_eq (ups_addr (ups_at s i)) server_new" using c(6) n by simp
qed

lemma online_cores: "mgr_inv s \<Longrightarrow> i < MAX_UPS_COUNT \<Longrightarrow> online (cores s ! i) \<longleftrightarrow> ups_online s i"
  using mgr_invD(1) [of s] by (auto simp: cores_nth online_def ups_online_def)

lemma nth_cores: "mgr_inv s \<Longrightarrow> i < MAX_UPS_COUNT \<Longrightarrow> cores s ! i = core_of (ups_at s i)"
  using mgr_invD(1) [of s] by (simp add: cores_nth)

lemma has_master_idx: "mgr_inv s \<Longrightarrow> has_master s \<longleftrightarrow> ups_master_idx s \<noteq> - 1"
  using mgr_invD(2,3) [of s] by (auto simp: has_master_def)

lemma cores_upd [simp]:
  "cores (s\<lparr>ups_master_idx := x\<rparr>) = cores s" "cores (s\<lparr>waiting_ups_finish_time := t\<rparr>) = cores s" "cores (s\<lparr>call_log := l\<rparr>) = cores s"
  "cores (s\<lparr>remote_calls := n\<rparr>) = cores s" "cores (s\<lparr>clock_reads := n\<rparr>) = cores s" "cores (s\<lparr>is_flow_control_by_ip := b\<rparr>) = cores s"
  by (simp_all add: cores_def)

lemma ups_at_upd [simp]:
  "ups_at (s\<lparr>ups_master_idx := x\<rparr>) i = ups_at s i" "ups_at (s\<lparr>waiting_ups_finish_time := t\<rparr>) i = ups_at s i"
  "ups_at (s\<lparr>clock_reads := n\<rparr>) i = ups_at s i" "ups_at (s\<lparr>remote_calls := n\<rparr>) i = ups_at s i" "ups_at (s\<lparr>call_log := l\<rparr>) i = ups_at s i"
  by (simp_all add: ups_at_def)

lemma find_ups_index_cases:
  obtains "find_ups_index addr s = - 1" "\<And>i. i < MAX_UPS_COUNT \<Longrightarrow> ups_online s i \<Longrightarrow> \<not> server_eq (ups_addr (ups_at s i)) addr"
  | i where "find_ups_index addr s = int i" "i < MAX_UPS_COUNT" "ups_online s i" "server_eq (ups_addr (ups_at s i)) addr"
proof (cases "find (\<lambda>i. server_eq (ups_addr (ups_at s i)) addr \<and> ups_online s i) ups_places")
  case None
  then have a: "find_ups_index addr s = - 1" by (simp add: find_ups_index_def)
  from None have "\<And>i. i < MAX_UPS_COUNT \<Longrightarrow> ups_online s i \<Longrightarrow> \<not> server_eq (ups_addr (ups_at s i)) addr"
    by (auto simp: find_None_iff)
  with a show ?thesis by (rule that(1))
next
  case (Some i)
  then have a: "find_ups_index addr s = int i" by (simp add: find_ups_index_def)
  from Some have "i < MAX_UPS_COUNT" "ups_online s i" "server_eq (ups_addr (ups_at s i)) addr" by (auto simp: find_Some_iff)
  with a show ?thesis by (rule that(2))
qed

lemma did_ups_exist_iff: "did_ups_exist addr s \<longleftrightarrow> (\<exists>i<MAX_UPS_COUNT. ups_online s i \<and> server_eq (ups_addr (ups_at s i)) addr)"
  by (rule find_ups_index_cases [of addr s]) (auto simp: did_ups_exist_def)

subsection \<open>Choosing a master\<close>

lemma elect_changes:
  assumes "mgr_inv s" "ups_master_idx s = - 1" "i < MAX_UPS_COUNT" "ups_online s i"
  shows "changes e strict s ((change_ups_stat i UPS_STAT_MASTER s)\<lparr>ups_master_idx := int i\<rparr>)"
proof (rule changes_step)
  have "core_of (ups_at s i\<lparr>ups_stat := UPS_STAT_MASTER\<rparr>) = (c_addr (cores s ! i), UPS_STAT_MASTER, c_lease (cores s ! i))"
    using nth_cores [OF assms(1,3)] by (simp add: core_of_def)
  then show "change e strict (lease_duration_us s) (protocol_of s) (protocol_of ((change_ups_stat i UPS_STAT_MASTER s)\<lparr>ups_master_idx := int i\<rparr>))"
    using change.elect [OF assms(3), of "cores s" e strict "lease_duration_us s" "call_log s" "clock_reads s"] assms online_cores [OF assms(1,3)]
    by (simp add: protocol_of_def change_ups_stat_def cores_change_ups)
qed (simp add: change_ups_stat_def)

definition highest_ok :: "ups_manager \<Rightarrow> nat list \<Rightarrow> int \<times> int \<Rightarrow> bool" where
  "highest_ok s is = (\<lambda>(h, m).
     (\<forall>i\<in>set is. ups_online s i \<longrightarrow> log_seq_num (ups_at s i) \<le> h) \<and>
     (m = - 1 \<and> h = - 1 \<or> (\<exists>i\<in>set is. m = int i \<and> ups_online s i \<and> log_seq_num (ups_at s i) = h \<and> - 1 < h)))"

lemma highest_lsn_ok: "highest_ok s ups_places (highest_lsn s)"
proof -
  have "highest_ok s [0..<n] (fold (highest_step s) [0..<n] (- 1, - 1))" for n
  proof (induction n)
    case (Suc n)
    obtain h m where h: "fold (highest_step s) [0..<n] (- 1, - 1) = (h, m)" by fastforce
    then have ih: "\<And>i. i < n \<Longrightarrow> ups_online s i \<Longrightarrow> log_seq_num (ups_at s i) \<le> h"
      "m = - 1 \<and> h = - 1 \<or> (\<exists>i<n. m = int i \<and> ups_online s i \<and> log_seq_num (ups_at s i) = h \<and> - 1 < h)"
      using Suc by (auto simp: highest_ok_def)
    have f: "fold (highest_step s) [0..<Suc n] (- 1, - 1) = highest_step s n (h, m)" using h by simp
    show ?case
    proof (cases "ups_online s n \<and> log_seq_num (ups_at s n) > h")
      case True
      have "log_seq_num (ups_at s i) \<le> log_seq_num (ups_at s n)" if "i < Suc n" "ups_online s i" for i
        using that ih(1) [of i] True by (cases "i = n") auto
      moreover have "- 1 < log_seq_num (ups_at s n)" using True ih(2) by auto
      moreover have "highest_step s n (h, m) = (log_seq_num (ups_at s n), int n)" using True by (simp add: highest_step_def)
      ultimately show ?thesis unfolding f using True by (auto simp: highest_ok_def)
    next
      case False
      have "log_seq_num (ups_at s i) \<le> h" if "i < Suc n" "ups_online s i" for i using that ih(1) [of i] False by (cases "i = n") auto
      moreover have "m = - 1 \<and> h = - 1 \<or> (\<exists>i<Suc n. m = int i \<and> ups_online s i \<and> log_seq_num (ups_at s i) = h \<and> - 1 < h)"
        using ih(2) less_SucI by blast
      moreover have "highest_step s n (h, m) = (h, m)" using False by (simp add: highest_step_def)
      ultimately show ?thesis unfolding f by (simp add: highest_ok_def atLeast0LessThan [symmetric] Bex_def Ball_def del: upt_Suc)
    qed
  qed (simp add: highest_ok_def)
  then show ?thesis by (simp add: highest_lsn_def)
qed

lemma highest_lsnD:
  assumes "highest_lsn s = (h, m)" "m \<noteq> - 1"
  shows "0 \<le> m" "nat m < MAX_UPS_COUNT" "ups_online s (nat m)" "log_seq_num (ups_at s (nat m)) = h"
    "\<And>i. i < MAX_UPS_COUNT \<Longrightarrow> ups_online s i \<Longrightarrow> log_seq_num (ups_at s i) \<le> h"
proof -
  have o: "\<And>i. i < MAX_UPS_COUNT \<Longrightarrow> ups_online s i \<Longrightarrow> log_seq_num (ups_at s i) \<le> h"
    "\<exists>i<MAX_UPS_COUNT. m = int i \<and> ups_online s i \<and> log_seq_num (ups_at s i) = h"
    using highest_lsn_ok [of s] assms by (auto simp: highest_ok_def)
  show "\<And>i. i < MAX_UPS_COUNT \<Longrightarrow> ups_online s i \<Longrightarrow> log_seq_num (ups_at s i) \<le> h" by (rule o(1))
  show "0 \<le> m" "nat m < MAX_UPS_COUNT" "ups_online s (nat m)" "log_seq_num (ups_at s (nat m)) = h" using o(2) by auto
qed

lemma changes_select:
  assumes "mgr_inv s"
  shows "changes e strict s (snd (select_ups_master_with_highest_lsn e s))"
proof (cases "ups_master_idx s = - 1 \<and> snd (highest_lsn s) \<noteq> - 1")
  case True
  obtain h m where h: "highest_lsn s = (h, m)" by fastforce
  note m = highest_lsnD [OF h]
  let ?t = "(change_ups_stat (nat m) UPS_STAT_MASTER s)\<lparr>ups_master_idx := m\<rparr>"
  have "changes e strict s ?t" using elect_changes [OF assms, of "nat m" e strict] m True h by simp
  moreover have "quiet ?t (reset_ups_read_percent (refresh e ROLE_CHANGE (nat m) ''null'' ?t))" using quiet_refresh quiet_reset quiet_trans by blast
  ultimately show ?thesis
    using True h by (auto simp: select_ups_master_with_highest_lsn_def Let_def intro: changes_trans [OF _ changes_quiet])
next
  case False
  then show ?thesis
    by (auto simp: select_ups_master_with_highest_lsn_def Let_def split_def intro: changes_quiet)
qed

lemma quiet_inv: "quiet s s' \<Longrightarrow> mgr_inv s \<Longrightarrow> mgr_inv s'"
  by (simp add: mgr_inv_quiet)

lemma changes_select_new:
  assumes "mgr_inv s"
  shows "changes e strict s (snd (select_new_ups_master e s))"
proof -
  let ?u = "update_ups_lsn e (snd (is_master_lease_valid e s))"
  have q: "quiet s ?u" using quiet_trans [OF quiet_is_master_lease_valid quiet_update_ups_lsn] .
  have "changes e strict s (snd (select_ups_master_with_highest_lsn e ?u))"
    by (rule changes_trans [OF changes_quiet [OF q] changes_select [OF quiet_inv [OF q assms]]])
  then show ?thesis
    using changes_quiet [OF quiet_is_master_lease_valid, of e strict s e] changes_quiet [OF quiet_refl, of e strict s]
    by (simp add: select_new_ups_master_def Let_def split_def)
qed

lemma changes_check_master_exist:
  assumes "mgr_inv s"
  shows "changes e strict s (snd (check_ups_master_exist e s))"
proof -
  let ?t = "snd (get_time e s)"
  let ?u = "snd (select_ups_master_with_highest_lsn e ?t)"
  have q: "quiet s ?t" by (rule quiet_get_time [OF surjective_pairing])
  have u: "changes e strict s ?u" by (rule changes_trans [OF changes_quiet [OF q] changes_select [OF quiet_inv [OF q assms]]])
  have w: "changes e strict s (?u\<lparr>waiting_ups_finish_time := - 1\<rparr>)" by (rule changes_trans [OF u changes_quiet [OF quiet_waiting]])
  show ?thesis
    using u w changes_quiet [OF q, of e strict] changes_select_new [OF assms, of e strict] changes_quiet [OF quiet_refl, of e strict s]
    by (simp add: check_ups_master_exist_def Let_def split_def)
qed

subsection \<open>Registration, renewal, failure of a slave\<close>

lemma offline_not_master: "mgr_inv s \<Longrightarrow> i < MAX_UPS_COUNT \<Longrightarrow> \<not> ups_online s i \<Longrightarrow> ups_master_idx s \<noteq> int i"
  using mgr_invD(4) [of s i] by (auto simp: ups_online_def)

lemma changes_leave:
  assumes "mgr_inv s" "i < MAX_UPS_COUNT" "ups_master_idx s \<noteq> int i" "\<And>u. ups_stat (f u) = UPS_STAT_OFFLINE \<or> u \<noteq> ups_at s i"
  shows "changes e strict s (change_ups i f s)"
proof (rule changes_step)
  have "core_of (f (ups_at s i)) = (ups_addr (f (ups_at s i)), UPS_STAT_OFFLINE, ups_lease (f (ups_at s i)))"
    using assms(4) [of "ups_at s i"] by (simp add: core_of_def)
  then show "change e strict (lease_duration_us s) (protocol_of s) (protocol_of (change_ups i f s))"
    using assms(2,3) by (simp add: protocol_of_def cores_change_ups change.leave)
qed simp

lemma changes_join:
  assumes "mgr_inv s" "i < MAX_UPS_COUNT" "\<not> ups_online s i" "\<not> server_eq (ups_addr (ups_at s i)) server_new"
    "\<And>j. j < MAX_UPS_COUNT \<Longrightarrow> ups_online s j \<Longrightarrow> \<not> server_eq (ups_addr (ups_at s i)) (ups_addr (ups_at s j))"
    "m < clock_reads s" "ups_lease (ups_at s i) = env_time e m + lease_duration_us s"
  shows "changes e strict s (change_ups_stat i UPS_STAT_NOTSYNC s)"
proof (rule changes_step)
  let ?a = "ups_addr (ups_at s i)" and ?l = "ups_lease (ups_at s i)"
  have "\<forall>j<MAX_UPS_COUNT. online (cores s ! j) \<longrightarrow> \<not> server_eq ?a (c_addr (cores s ! j))"
    using assms(5) online_cores [OF assms(1)] nth_cores [OF assms(1)] by auto
  then show "change e strict (lease_duration_us s) (protocol_of s) (protocol_of (change_ups_stat i UPS_STAT_NOTSYNC s))"
    using change.join [of i "cores s" ?a m "clock_reads s" ?l e "lease_duration_us s"] assms online_cores [OF assms(1,2)]
    by (simp add: protocol_of_def change_ups_stat_def cores_change_ups core_of_def)
qed (simp add: change_ups_stat_def)

lemma server_valid_not_new: "server_is_valid a \<Longrightarrow> \<not> server_eq a server_new"
  by (auto simp: server_is_valid_def server_eq_def server_new_def split: if_splits)

lemma ups_online_change [simp]:
  "i \<noteq> j \<Longrightarrow> ups_online (change_ups i f s) j = ups_online s j"
  "i < length (ups_array s) \<Longrightarrow> ups_online (change_ups i f s) i = (ups_stat (f (ups_at s i)) \<noteq> UPS_STAT_OFFLINE)"
  by (auto simp: ups_online_def)

text \<open>What a quiet change leaves of a place.\<close>

lemma quiet_ups_at:
  assumes "quiet s s'" "i < length (ups_array s)"
  shows "ups_addr (ups_at s' i) = ups_addr (ups_at s i)" "ups_stat (ups_at s' i) = ups_stat (ups_at s i)"
    "ups_lease (ups_at s' i) = ups_lease (ups_at s i)" "ups_online s' i = ups_online s i"
proof -
  have "length (ups_array s') = length (ups_array s)" using assms(1) by (metis length_cores quiet_def)
  then have "core_of (ups_at s' i) = core_of (ups_at s i)" using assms cores_nth [of i s] cores_nth [of i s'] by (simp add: quiet_def)
  then show "ups_addr (ups_at s' i) = ups_addr (ups_at s i)" "ups_stat (ups_at s' i) = ups_stat (ups_at s i)"
    "ups_lease (ups_at s' i) = ups_lease (ups_at s i)" "ups_online s' i = ups_online s i" by (simp_all add: core_of_def ups_online_def)
qed

lemma quietD:
  assumes "quiet s s'"
  shows "ups_master_idx s' = ups_master_idx s" "lease_duration_us s' = lease_duration_us s" "clock_reads s \<le> clock_reads s'"
    "length (ups_array s') = length (ups_array s)"
proof -
  show "length (ups_array s') = length (ups_array s)" using assms by (metis length_cores quiet_def)
qed (use assms in \<open>simp_all add: quiet_def\<close>)

text \<open>A new server comes in at a free place: its data is written, then its status.\<close>

lemma changes_enter:
  assumes "mgr_inv s" "i < MAX_UPS_COUNT" "\<not> ups_online s i" "server_is_valid addr" "\<not> did_ups_exist addr s"
    "m < clock_reads s" "lease = env_time e m + lease_duration_us s"
    "\<And>u. ups_addr (f u) = addr \<and> ups_lease (f u) = lease \<and> ups_stat (f u) = ups_stat u"
    "quiet (change_ups i f s) t"
  shows "changes e strict s t" "changes e strict s (change_ups_stat i UPS_STAT_NOTSYNC t)"
    "ups_master_idx t = - 1 \<Longrightarrow> changes e strict s ((change_ups_stat i UPS_STAT_MASTER t)\<lparr>ups_master_idx := int i\<rparr>)"
proof -
  let ?c = "change_ups i f s"
  have len: "length (ups_array s) = MAX_UPS_COUNT" by (rule mgr_invD(1) [OF assms(1)])
  have off: "ups_stat (ups_at s i) = UPS_STAT_OFFLINE" using assms(3) by (simp add: ups_online_def)
  have "ups_stat (f u) = UPS_STAT_OFFLINE \<or> u \<noteq> ups_at s i" for u using assms(8) [of u] off by auto
  then have c: "changes e strict s ?c" by (rule changes_leave [OF assms(1,2) offline_not_master [OF assms(1-3)]])
  show t: "changes e strict s t" by (rule changes_trans [OF c changes_quiet [OF assms(9)]])
  have inv: "mgr_inv t" by (rule changes_inv [OF t assms(1)])
  have at: "ups_addr (ups_at t i) = addr" "ups_lease (ups_at t i) = lease" "\<not> ups_online t i"
    using quiet_ups_at [OF assms(9), of i] len assms(2,8) off by (simp_all add: ups_online_def)
  have fresh: "\<not> server_eq addr (ups_addr (ups_at t j))" if "j < MAX_UPS_COUNT" "ups_online t j" for j
  proof -
    have j: "j \<noteq> i" using at(3) that(2) by auto
    have "ups_addr (ups_at t j) = ups_addr (ups_at s j)" "ups_online s j" using quiet_ups_at [OF assms(9), of j] len that j by simp_all
    then show ?thesis using assms(5) that(1) by (auto simp: did_ups_exist_iff server_eq_sym)
  qed
  have k: "m < clock_reads t" "lease_duration_us t = lease_duration_us s" using quietD [OF assms(9)] assms(6) by simp_all
  have n: "changes e strict t (change_ups_stat i UPS_STAT_NOTSYNC t)"
    using changes_join [OF inv assms(2) at(3), of m e strict] at(1,2) fresh k assms(4,7) server_valid_not_new by simp
  show n2: "changes e strict s (change_ups_stat i UPS_STAT_NOTSYNC t)" by (rule changes_trans [OF t n])
  assume "ups_master_idx t = - 1"
  moreover have "mgr_inv (change_ups_stat i UPS_STAT_NOTSYNC t)" by (rule changes_inv [OF n inv])
  moreover have lt: "length (ups_array t) = MAX_UPS_COUNT" by (rule mgr_invD(1) [OF inv])
  ultimately have "changes e strict (change_ups_stat i UPS_STAT_NOTSYNC t)
      ((change_ups_stat i UPS_STAT_MASTER (change_ups_stat i UPS_STAT_NOTSYNC t))\<lparr>ups_master_idx := int i\<rparr>)"
    using assms(2) by (intro elect_changes) (simp_all add: change_ups_stat_def)
  moreover have "change_ups_stat i UPS_STAT_MASTER (change_ups_stat i UPS_STAT_NOTSYNC t) = change_ups_stat i UPS_STAT_MASTER t"
    using assms(2) lt by (simp add: change_ups_stat_def change_ups_def ups_at_def)
  ultimately show "changes e strict s ((change_ups_stat i UPS_STAT_MASTER t)\<lparr>ups_master_idx := int i\<rparr>)" using n2 changes_trans by metis
qed

lemma changes_register:
  assumes "mgr_inv s" "server_is_valid addr"
  shows "changes e strict s (snd (register_ups e addr port lsn lease version s))"
proof (cases "did_ups_exist addr s \<or> find (\<lambda>i. \<not> ups_online s i) ups_places = None")
  case True
  then show ?thesis by (auto simp: register_ups_def intro: changes_quiet)
next
  case False
  then obtain i where i: "find (\<lambda>i. \<not> ups_online s i) ups_places = Some i" by auto
  then have off: "i < MAX_UPS_COUNT" "\<not> ups_online s i" by (auto simp: find_Some_iff)
  let ?now = "env_time e (clock_reads s)" and ?s1 = "snd (get_time e s)"
  let ?s2 = "if 0 = waiting_ups_finish_time ?s1 then ?s1\<lparr>waiting_ups_finish_time := ?now + waiting_ups_register_duration ?s1\<rparr> else ?s1"
  let ?f = "\<lambda>u. u\<lparr>ups_addr := addr, ups_inner_port := port, log_seq_num := lsn, ups_lease := ?now + lease_duration_us ?s2,
      did_renew_received := True, cs_read_percentage := 0, ms_read_percentage := 0\<rparr>"
  let ?t = "refresh e SERVER_ONLINE i version (change_ups i ?f ?s2)"
  have q1: "quiet s ?s1" by (rule quiet_get_time [OF surjective_pairing])
  have q: "quiet s ?s2" using q1 quiet_trans [OF q1 quiet_waiting] by simp
  have inv: "mgr_inv ?s2" by (rule quiet_inv [OF q assms(1)])
  have len: "length (ups_array s) = MAX_UPS_COUNT" by (rule mgr_invD(1) [OF assms(1)])
  have "\<not> ups_online ?s2 i" "\<not> did_ups_exist addr ?s2"
    using quiet_ups_at [OF q] off False len by (auto simp: did_ups_exist_iff)
  moreover have "clock_reads s < clock_reads ?s2" by (simp add: get_time_def)
  ultimately have e: "changes e strict ?s2 ?t" "changes e strict ?s2 (change_ups_stat i UPS_STAT_NOTSYNC ?t)"
    "ups_master_idx ?t = - 1 \<Longrightarrow> changes e strict ?s2 ((change_ups_stat i UPS_STAT_MASTER ?t)\<lparr>ups_master_idx := int i\<rparr>)"
    using changes_enter [OF inv off(1) _ assms(2), where f = ?f and t = ?t and m = "clock_reads s"] quiet_refresh by auto
  have s: "changes e strict s ?s2" by (rule changes_quiet [OF q])
  have tinv: "mgr_inv ?t" by (rule changes_inv [OF e(1) inv])
  let ?m = "(change_ups_stat i UPS_STAT_MASTER ?t)\<lparr>ups_master_idx := int i\<rparr>"
  have m: "quiet ?m (reset_ups_read_percent ((refresh e ROLE_CHANGE i ''null'' ?m)\<lparr>waiting_ups_finish_time := - 1\<rparr>))"
    by (rule quiet_trans [OF quiet_refresh quiet_trans [OF quiet_waiting quiet_reset]])
  have "snd (register_ups e addr port lsn lease version s) =
      (if lease > ?now then if has_master ?t then reset_ups_read_percent ?t
         else reset_ups_read_percent ((refresh e ROLE_CHANGE i ''null'' ?m)\<lparr>waiting_ups_finish_time := - 1\<rparr>)
       else reset_ups_read_percent (change_ups_stat i UPS_STAT_NOTSYNC ?t))"
    using False i by (simp add: register_ups_def Let_def split_def get_time_def)
  then show ?thesis
    using changes_trans [OF changes_trans [OF s e(1)] changes_quiet [OF quiet_reset]]
      changes_trans [OF changes_trans [OF s e(2)] changes_quiet [OF quiet_reset]]
      changes_trans [OF changes_trans [OF s e(3)] changes_quiet [OF m]] has_master_idx [OF tinv]
    by simp
qed

lemma changes_sync:
  assumes "mgr_inv s" "i < MAX_UPS_COUNT" "ups_stat (ups_at s i) \<in> {UPS_STAT_SYNC, UPS_STAT_NOTSYNC}" "st \<in> {UPS_STAT_SYNC, UPS_STAT_NOTSYNC}"
  shows "changes e strict s (change_ups_stat i st s)"
proof (rule changes_step)
  have "core_of (ups_at s i\<lparr>ups_stat := st\<rparr>) = (c_addr (cores s ! i), st, c_lease (cores s ! i))"
    using nth_cores [OF assms(1,2)] by (simp add: core_of_def)
  then show "change e strict (lease_duration_us s) (protocol_of s) (protocol_of (change_ups_stat i st s))"
    using change.sync [OF assms(2), of "cores s" st e strict "lease_duration_us s" "ups_master_idx s" "call_log s" "clock_reads s"]
      assms nth_cores [OF assms(1,2)] by (simp add: protocol_of_def change_ups_stat_def cores_change_ups)
qed (simp add: change_ups_stat_def)

lemma changes_renew:
  assumes "mgr_inv s"
  shows "changes e strict s (snd (renew_lease addr stat role s))"
proof (rule find_ups_index_cases [of addr s])
  assume "find_ups_index addr s = - 1"
  then show ?thesis by (simp add: renew_lease_def changes_quiet)
next
  fix i assume i: "find_ups_index addr s = int i" "i < MAX_UPS_COUNT" "ups_online s i"
  let ?s1 = "change_ups i (\<lambda>u. u\<lparr>did_renew_received := True\<rparr>) s"
  let ?up = "(UPS_STAT_SYNC = stat \<or> UPS_STAT_NOTSYNC = stat) \<and> (UPS_STAT_SYNC = ups_stat (ups_at ?s1 i) \<or> UPS_STAT_NOTSYNC = ups_stat (ups_at ?s1 i)) \<and>
      ups_stat (ups_at ?s1 i) \<noteq> stat"
  let ?s2 = "if ?up then let s = change_ups_stat i stat ?s1 in if \<not> is_flow_control_by_ip s then reset_ups_read_percent s else s else ?s1"
  let ?s3 = "if OBI_INIT \<noteq> role then change_ups i (\<lambda>u. u\<lparr>ups_obi_role := role\<rparr>) ?s2 else ?s2"
  have q1: "quiet s ?s1" by (rule quiet_change_ups) (simp add: core_of_def)
  have inv: "mgr_inv ?s1" by (rule quiet_inv [OF q1 assms])
  have "changes e strict ?s1 (change_ups_stat i stat ?s1)" if ?up using that by (intro changes_sync [OF inv i(2)]) auto
  then have "changes e strict ?s1 ?s2"
    using changes_trans [OF _ changes_quiet [OF quiet_reset]] by (simp add: Let_def changes_quiet)
  moreover have "quiet ?s2 ?s3" using quiet_change_ups [of "\<lambda>u. u\<lparr>ups_obi_role := role\<rparr>" ?s2 i] by (simp add: core_of_def)
  ultimately have "changes e strict s ?s3" using changes_trans [OF changes_trans [OF changes_quiet [OF q1]] changes_quiet] by blast
  moreover have "snd (renew_lease addr stat role s) = ?s3" using i by (simp add: renew_lease_def Let_def)
  ultimately show ?thesis by simp
qed

lemma is_ups_masterD:
  assumes "mgr_inv s" "is_ups_master addr s"
  shows "\<exists>j<MAX_UPS_COUNT. ups_master_idx s = int j \<and> server_eq (ups_addr (ups_at s j)) addr"
proof (rule find_ups_index_cases [of addr s])
  fix j assume j: "find_ups_index addr s = int j" "j < MAX_UPS_COUNT" "server_eq (ups_addr (ups_at s j)) addr"
  then have "ups_stat (ups_at s j) = UPS_STAT_MASTER" using assms(2) by (simp add: is_ups_master_def Let_def)
  then show ?thesis using j mgr_invD(4) [OF assms(1) j(2)] by auto
qed (use assms(2) in \<open>simp add: is_ups_master_def Let_def\<close>)

lemma changes_slave_failure:
  assumes "mgr_inv s" "\<not> server_eq addr slave"
  shows "changes e strict s (snd (slave_failure e addr slave s))"
proof (cases "is_ups_master addr s \<and> find_ups_index slave s \<noteq> - 1")
  case False
  then show ?thesis by (auto simp: slave_failure_def Let_def intro: changes_quiet)
next
  case True
  obtain j where j: "j < MAX_UPS_COUNT" "ups_master_idx s = int j" "server_eq (ups_addr (ups_at s j)) addr"
    using True is_ups_masterD [OF assms(1)] by blast
  obtain i where i: "find_ups_index slave s = int i" "i < MAX_UPS_COUNT" "server_eq (ups_addr (ups_at s i)) slave"
    using True find_ups_index_cases [of slave s] by metis
  have "i \<noteq> j" using i(3) j(3) assms(2) server_eq_trans server_eq_sym by blast
  then have "changes e strict s (change_ups_stat i UPS_STAT_OFFLINE s)"
    unfolding change_ups_stat_def using j by (intro changes_leave [OF assms(1) i(2)]) simp_all
  moreover have "quiet (change_ups_stat i UPS_STAT_OFFLINE s) (snd (slave_failure e addr slave s))"
    using True i(1) quiet_trans [OF quiet_reset quiet_refresh_inner_table] by (simp add: slave_failure_def Let_def)
  ultimately show ?thesis by (rule changes_trans [OF _ changes_quiet])
qed

subsection \<open>Leases\<close>

lemma changes_grant_slot:
  assumes "mgr_inv s" "i < MAX_UPS_COUNT" "master = master_addr s" "m < clock_reads s" "strict \<longrightarrow> (\<forall>j < clock_reads s. env_time e j \<le> env_time e m)"
  shows "changes e strict s (grant_slot master (env_time e m) force i s)"
    "master_addr (grant_slot master (env_time e m) force i s) = master_addr s"
    "clock_reads (grant_slot master (env_time e m) force i s) = clock_reads s"
proof -
  let ?l = "env_time e m + lease_duration_us s"
  let ?s1 = "change_ups i (\<lambda>u. u\<lparr>did_renew_received := False, ups_lease := ?l\<rparr>) s"
  let ?s2 = "send_granting_msg (ups_addr (ups_at ?s1 i)) (heartbeat_for master (ups_lease (ups_at ?s1 i)) ?s1) ?s1"
  have len: "i < length (ups_array s)" using mgr_invD(1) [OF assms(1)] assms(2) by simp
  have g: "grant_slot master (env_time e m) force i s = (if ups_online s i \<and> (need_grant (env_time e m) (ups_at s i) s \<or> force) then ?s2 else s)"
    unfolding grant_slot_def Let_def by (rule refl)
  have mi: "hb_ups_master (heartbeat_for master (ups_lease (ups_at ?s1 i)) ?s1) =
      (if ups_master_idx s = - 1 then server_new else c_addr (cores s ! nat (ups_master_idx s)))"
    using mgr_invD(2,3) [OF assms(1)] has_master_idx [OF assms(1)] nth_cores [OF assms(1), of "nat (ups_master_idx s)"] assms(3)
    by (simp add: heartbeat_for_def master_addr_def master_at_def)
  have co: "core_of (ups_at s i\<lparr>did_renew_received := False, ups_lease := ?l\<rparr>) = (c_addr (cores s ! i), c_stat (cores s ! i), ?l)"
    using nth_cores [OF assms(1,2)] by (simp add: core_of_def)
  have "changes e strict s ?s2" if "ups_online s i"
  proof (rule changes_step)
    have "change e strict (lease_duration_us s) (cores s, ups_master_idx s, call_log s, clock_reads s)
        ((cores s)[i := (c_addr (cores s ! i), c_stat (cores s ! i), ?l)], ups_master_idx s,
          Granted (c_addr (cores s ! i)) (heartbeat_for master (ups_lease (ups_at ?s1 i)) ?s1) # call_log s, clock_reads s)"
      using online_cores [OF assms(1,2)] that assms(4,5) mi len by (intro change.grant [OF assms(2)]) (simp_all add: heartbeat_for_def)
    then show "change e strict (lease_duration_us s) (protocol_of s) (protocol_of ?s2)"
      using len nth_cores [OF assms(1,2)] co by (simp add: protocol_of_def send_granting_msg_def cores_change_ups)
  qed (simp add: send_granting_msg_def)
  then show "changes e strict s (grant_slot master (env_time e m) force i s)" using g by (simp add: changes_quiet)
  have "ups_addr (ups_at ?s2 j) = ups_addr (ups_at s j)" for j
    using len by (cases "i = j") (simp_all add: send_granting_msg_def ups_at_def change_ups_def)
  then have "master_addr ?s2 = master_addr s" by (simp add: master_addr_def master_at_def has_master_def send_granting_msg_def)
  then show "master_addr (grant_slot master (env_time e m) force i s) = master_addr s" using g by simp
  show "clock_reads (grant_slot master (env_time e m) force i s) = clock_reads s" using g by (simp add: send_granting_msg_def)
qed

lemma changes_grant_lease:
  assumes "mgr_inv s" "strict \<longrightarrow> mono (env_time e)"
  shows "changes e strict s (snd (grant_lease e force s))"
proof -
  let ?m = "clock_reads s" and ?t = "snd (get_time e s)"
  have loop: "changes e strict t (fold (grant_slot master (env_time e ?m) force) is t)"
    if "mgr_inv t" "master = master_addr t" "clock_reads t = Suc ?m" "\<forall>i\<in>set is. i < MAX_UPS_COUNT" for t master "is"
    using that
  proof (induction "is" arbitrary: t)
    case (Cons i "is")
    have "strict \<longrightarrow> (\<forall>j < clock_reads t. env_time e j \<le> env_time e ?m)" using assms(2) Cons.prems(3) by (auto simp: less_Suc_eq_le mono_def)
    then have g: "changes e strict t (grant_slot master (env_time e ?m) force i t)"
      "master_addr (grant_slot master (env_time e ?m) force i t) = master_addr t"
      "clock_reads (grant_slot master (env_time e ?m) force i t) = Suc ?m"
      using changes_grant_slot [OF Cons.prems(1) _ Cons.prems(2), of i ?m strict e force] Cons.prems(3,4) by simp_all
    then have "changes e strict (grant_slot master (env_time e ?m) force i t)
        (fold (grant_slot master (env_time e ?m) force) is (grant_slot master (env_time e ?m) force i t))"
      using Cons.prems changes_inv [OF g(1) Cons.prems(1)] by (intro Cons.IH) simp_all
    then show ?case using changes_trans [OF g(1)] by simp
  qed (simp add: changes_quiet)
  have q: "quiet s ?t" by (rule quiet_get_time [OF surjective_pairing])
  have "master_addr s = master_addr ?t" by (simp add: get_time_def master_addr_def master_at_def has_master_def ups_at_def)
  then have "changes e strict ?t (fold (grant_slot (master_addr s) (env_time e ?m) force) ups_places ?t)"
    using quiet_inv [OF q assms(1)] by (intro loop) (simp_all add: get_time_def)
  moreover have "snd (grant_lease e force s) = fold (grant_slot (master_addr s) (env_time e ?m) force) ups_places ?t"
    by (simp add: grant_lease_def Let_def get_time_def)
  ultimately show ?thesis using changes_trans [OF changes_quiet [OF q]] by metis
qed

lemma changes_grant_eternal:
  assumes "\<not> strict"
  shows "changes e strict s (snd (grant_eternal_lease s))"
proof -
  have "changes e strict s (fold (grant_eternal_slot master) is s)" for master "is"
  proof (induction "is" arbitrary: s)
    case (Cons i "is")
    have "changes e strict s (send_granting_msg a hb s)" for a hb
      by (rule changes_step) (simp_all add: send_granting_msg_def protocol_of_def change.forever [OF assms])
    then have "changes e strict s (grant_eternal_slot master i s)" by (simp add: grant_eternal_slot_def changes_quiet)
    then show ?case using changes_trans [OF _ Cons] by simp
  qed (simp add: changes_quiet)
  then show ?thesis by (simp add: grant_eternal_lease_def Let_def)
qed

subsection \<open>The check of a place\<close>

lemma changes_check_slot:
  assumes "mgr_inv s" "i < MAX_UPS_COUNT"
  shows "changes e strict s (snd (check_slot e i s))"
proof -
  let ?now = "env_time e (clock_reads s)" and ?s1 = "snd (get_time e s)"
  have q: "quiet s ?s1" by (rule quiet_get_time [OF surjective_pairing])
  have inv: "mgr_inv ?s1" by (rule quiet_inv [OF q assms(1)])
  have len: "i < length (ups_array ?s1)" using mgr_invD(1) [OF inv] assms(2) by simp
  show ?thesis
  proof (cases "ups_online ?s1 i \<and> ?now > ups_lease (ups_at ?s1 i) + MAX_CLOCK_SKEW_US")
    case False
    then have "snd (check_slot e i s) = ?s1" by (auto simp: check_slot_def Let_def split_def get_time_def)
    then show ?thesis using changes_quiet [OF q] by simp
  next
    case True
    let ?b = "ups_stat (ups_at ?s1 i) = UPS_STAT_MASTER"
    let ?s2 = "if ?b then ?s1\<lparr>ups_master_idx := - 1\<rparr> else ?s1"
    let ?s4 = "change_ups_stat i UPS_STAT_OFFLINE (reset_ups_read_percent ?s2)"
    let ?s5 = "change_ups i ups_reset ?s4"
    let ?c = "core_of (ups_reset (ups_at ?s4 i))"
    have c: "?c = (c_addr ?c, UPS_STAT_OFFLINE, c_lease ?c)" by (simp add: core_of_def ups_reset_def)
    have five: "protocol_of ?s5 = ((cores ?s1)[i := ?c], if ?b then - 1 else ups_master_idx ?s1, call_log ?s1, clock_reads ?s1)"
      by (simp add: protocol_of_def cores_change_ups change_ups_stat_def)
    have d: "lease_duration_us ?s5 = lease_duration_us ?s1" by (simp add: change_ups_stat_def)
    have "changes e strict ?s1 ?s5"
    proof (cases ?b)
      case True
      then have i: "ups_master_idx ?s1 = int i" using mgr_invD(4) [OF inv assms(2)] by simp
      have "c_lease (cores ?s1 ! i) \<le> ?now" using nth_cores [OF inv assms(2)] \<open>ups_online ?s1 i \<and> _\<close> by (simp add: MAX_CLOCK_SKEW_US_def)
      then have "change e strict (lease_duration_us ?s1) (protocol_of ?s1) ((cores ?s1)[i := ?c], - 1, call_log ?s1, clock_reads ?s1)"
        unfolding protocol_of_def by (subst c) (rule change.fall [OF assms(2) i, of "clock_reads s"], simp_all add: get_time_def)
      then show ?thesis using five True d by (intro changes_step) simp_all
    next
      case False
      then have i: "ups_master_idx ?s1 \<noteq> int i" using mgr_invD(4) [OF inv assms(2)] by simp
      have "change e strict (lease_duration_us ?s1) (protocol_of ?s1) ((cores ?s1)[i := ?c], ups_master_idx ?s1, call_log ?s1, clock_reads ?s1)"
        unfolding protocol_of_def by (subst c) (rule change.leave [OF assms(2) i])
      then show ?thesis using five False d by (intro changes_step) simp_all
    qed
    moreover have "quiet ?s5 (snd (check_slot e i s))"
      using True quiet_trans [OF quiet_check_all_ups_offline quiet_refresh_inner_table]
      by (simp add: check_slot_def Let_def split_def get_time_def)
    ultimately show ?thesis using changes_trans [OF changes_quiet [OF q]] changes_trans [OF _ changes_quiet] by blast
  qed
qed

subsection \<open>Setting the master\<close>

lemma changes_resign:
  assumes "mgr_inv s" "has_master s" "ok \<or> \<not> strict" "log = call_log s \<and> m < clock_reads s \<and> ups_lease (master_at s) \<le> env_time e m \<or>
    log = Revoked (ups_addr (master_at s)) l b ok # call_log s"
    "cores t = (cores s)[nat (ups_master_idx s) := core_of (master_at s\<lparr>ups_stat := UPS_STAT_SYNC\<rparr>)]" "ups_master_idx t = - 1"
    "call_log t = log" "clock_reads s \<le> clock_reads t" "lease_duration_us t = lease_duration_us s"
  shows "changes e strict s t"
proof -
  let ?i = "nat (ups_master_idx s)"
  have i: "?i < MAX_UPS_COUNT" "ups_master_idx s = int ?i" using assms(2) by (auto simp: has_master_def)
  have c: "core_of (master_at s\<lparr>ups_stat := UPS_STAT_SYNC\<rparr>) = (c_addr (cores s ! ?i), UPS_STAT_SYNC, c_lease (cores s ! ?i))"
    "ups_addr (master_at s) = c_addr (cores s ! ?i)" "ups_lease (master_at s) = c_lease (cores s ! ?i)"
    using nth_cores [OF assms(1) i(1)] by (simp_all add: core_of_def master_at_def)
  have "change e strict (lease_duration_us s) (protocol_of s) (cores t, - 1, log, clock_reads s)"
    using assms(3,4) change.expire [OF i, of m "clock_reads s" "cores s" e strict "lease_duration_us s" "call_log s"]
      change.revoke [OF i, of strict ok e "lease_duration_us s" "cores s" "call_log s" "clock_reads s" l b]
    by (auto simp: protocol_of_def assms(5) c)
  moreover have "change e strict (lease_duration_us s) (cores t, - 1, log, clock_reads s) (protocol_of t)"
    using assms(6-8) by (simp add: protocol_of_def change.tick)
  ultimately show ?thesis using assms(9) by (auto simp: changes_def)
qed

lemma changes_revoke:
  assumes "mgr_inv s" "strict \<longrightarrow> (\<forall>k. env_revoke e k)"
  shows "changes e strict s (snd (revoke_master_lease e s))"
proof (cases "has_master s")
  case False
  then show ?thesis by (simp add: revoke_master_lease_def changes_quiet)
next
  case True
  let ?i = "nat (ups_master_idx s)" and ?now = "env_time e (clock_reads s)" and ?s1 = "s\<lparr>clock_reads := Suc (clock_reads s)\<rparr>"
  have q: "quiet s ?s1" by (simp add: quiet_def)
  have inv: "mgr_inv ?s1" by (rule quiet_inv [OF q assms(1)])
  have m: "has_master ?s1" "master_at ?s1 = master_at s" using True by (simp_all add: has_master_def master_at_def ups_at_def)
  define ok where "ok = env_revoke e (remote_calls s)"
  define s2 where "s2 = (if ups_lease (master_at s) > ?now
     then let t = ?s1\<lparr>remote_calls := Suc (remote_calls s), call_log := Revoked (ups_addr (master_at s)) (ups_lease (master_at s)) (ups_addr (master_at s)) ok # call_log s\<rparr>
          in if ok then t else if ups_lease (master_at s) > env_time e (Suc (clock_reads s)) then t\<lparr>clock_reads := Suc (Suc (clock_reads s)), waiting_ups_finish_time := 0\<rparr>
          else t\<lparr>clock_reads := Suc (Suc (clock_reads s))\<rparr>
     else ?s1)"
  let ?s3 = "change_ups_stat ?i UPS_STAT_SYNC s2"
  let ?s4 = "refresh e ROLE_CHANGE ?i ''null'' ?s3"
  have two: "cores s2 = cores s" "ups_master_idx s2 = ups_master_idx s" "Suc (clock_reads s) \<le> clock_reads s2" "lease_duration_us s2 = lease_duration_us s"
    "ups_at s2 j = ups_at s j" for j by (simp_all add: s2_def Let_def ups_at_def)
  have r: "snd (revoke_master_lease e s) = ?s4\<lparr>ups_master_idx := - 1\<rparr>"
    using True by (simp add: revoke_master_lease_def is_master_lease_valid_def get_time_def s2_def Let_def ok_def master_at_def ups_at_def)
  have q4: "quiet ?s3 ?s4" by (rule quiet_refresh)
  have "changes e strict ?s1 (?s4\<lparr>ups_master_idx := - 1\<rparr>)"
  proof (rule changes_resign [OF inv m(1), where ok = ok and m = "clock_reads s" and l = "ups_lease (master_at s)" and b = "ups_addr (master_at s)"])
    show "ok \<or> \<not> strict" using assms(2) by (auto simp: ok_def)
    show "call_log s2 = call_log ?s1 \<and> clock_reads s < clock_reads ?s1 \<and> ups_lease (master_at ?s1) \<le> ?now \<or>
        call_log s2 = Revoked (ups_addr (master_at ?s1)) (ups_lease (master_at s)) (ups_addr (master_at s)) ok # call_log ?s1"
      by (simp add: m s2_def Let_def)
    show "cores (?s4\<lparr>ups_master_idx := - 1\<rparr>) = (cores ?s1)[nat (ups_master_idx ?s1) := core_of (master_at ?s1\<lparr>ups_stat := UPS_STAT_SYNC\<rparr>)]"
      using q4 two by (simp add: quiet_def change_ups_stat_def cores_change_ups m master_at_def)
    show "call_log (?s4\<lparr>ups_master_idx := - 1\<rparr>) = call_log s2" "clock_reads ?s1 \<le> clock_reads (?s4\<lparr>ups_master_idx := - 1\<rparr>)"
      "lease_duration_us (?s4\<lparr>ups_master_idx := - 1\<rparr>) = lease_duration_us ?s1"
      using q4 two by (simp_all add: quiet_def change_ups_stat_def)
  qed simp
  then show ?thesis using changes_trans [OF changes_quiet [OF q]] r by simp
qed

lemma changes_set_first:
  assumes "mgr_inv s" "strict \<longrightarrow> (\<forall>k. env_revoke e k)"
  shows "changes e strict s (snd (set_master_first e master force s))"
proof -
  let ?i = "find_ups_index master s"
  let ?t = "if UPS_STAT_SYNC \<noteq> ups_stat (ups_at s (nat ?i)) then s else snd (is_ups_with_highest_lsn e ?i s)"
  have q: "quiet s ?t" using quiet_is_ups_with_highest_lsn by simp
  have "changes e strict s (snd (revoke_master_lease e ?t))"
    by (rule changes_trans [OF changes_quiet [OF q] changes_revoke [OF quiet_inv [OF q assms(1)] assms(2)]])
  moreover have "snd (set_master_first e master force s) \<in> {s, ?t, snd (revoke_master_lease e ?t)}"
    by (simp add: set_master_first_def Let_def split_def)
  ultimately show ?thesis using changes_quiet [OF q, of e strict] changes_quiet [OF quiet_refl, of e strict s] by (elim insertE emptyE) (simp_all only:)
qed

lemma clock_reads_update_ups_lsn [simp]: "clock_reads (update_ups_lsn e s) = clock_reads s"
proof -
  have "clock_reads (fold (update_slot_lsn e) is s) = clock_reads s" for "is"
    by (induction "is" arbitrary: s) (simp_all add: update_slot_lsn_def Let_def split: option.split)
  then show ?thesis by (simp add: update_ups_lsn_def)
qed

lemma changes_set_second:
  assumes "mgr_inv s" "i < MAX_UPS_COUNT" "ups_online s i" "has_master s \<longrightarrow> env_time e (clock_reads s) < ups_lease (master_at s)"
  shows "changes e strict s (snd (set_master_second e i master force s))"
proof -
  let ?t = "if UPS_STAT_SYNC = ups_stat (ups_at s i) then snd (is_ups_with_highest_lsn e (int i) s) else s"
  let ?v = "is_master_lease_valid e ?t"
  let ?m = "(change_ups_stat i UPS_STAT_MASTER (snd ?v))\<lparr>ups_master_idx := int i\<rparr>"
  let ?n = "reset_ups_read_percent ((refresh e ROLE_CHANGE i ''null'' ?m)\<lparr>waiting_ups_finish_time := - 1\<rparr>)"
  have q: "quiet s ?t" using quiet_is_ups_with_highest_lsn by simp
  have t: "clock_reads ?t = clock_reads s" by (simp add: is_ups_with_highest_lsn_def Let_def)
  have inv: "mgr_inv ?t" by (rule quiet_inv [OF q assms(1)])
  have len: "length (ups_array s) = MAX_UPS_COUNT" by (rule mgr_invD(1) [OF assms(1)])
  have hm: "has_master ?t = has_master s" "has_master s \<Longrightarrow> ups_lease (master_at ?t) = ups_lease (master_at s)"
    using quietD(1) [OF q] quiet_ups_at(3) [OF q, of "nat (ups_master_idx s)"] len by (auto simp: has_master_def master_at_def)
  have qv: "quiet s (snd ?v)" by (rule quiet_trans [OF q quiet_is_master_lease_valid])
  have "fst ?v \<longleftrightarrow> has_master s"
    using assms(4) hm t by (simp add: is_master_lease_valid_def Let_def get_time_def master_at_def)
  then have free: "changes e strict s ?n" if "\<not> fst ?v"
  proof -
    have v: "snd ?v = ?t" using that \<open>fst ?v \<longleftrightarrow> has_master s\<close> hm by (simp add: is_master_lease_valid_def)
    have "ups_master_idx ?t = - 1" using that \<open>fst ?v \<longleftrightarrow> has_master s\<close> hm(1) has_master_idx [OF inv] by simp
    moreover have "ups_online ?t i" using quiet_ups_at(4) [OF q] assms(2,3) len by simp
    ultimately have "changes e strict ?t ?m" unfolding v by (rule elect_changes [OF inv _ assms(2)])
    moreover have "quiet ?m ?n" by (rule quiet_trans [OF quiet_refresh quiet_trans [OF quiet_waiting quiet_reset]])
    ultimately show ?thesis using changes_trans [OF changes_quiet [OF q]] changes_trans [OF _ changes_quiet] by blast
  qed
  have "snd (set_master_second e i master force s) \<in> {?t\<lparr>waiting_ups_finish_time := - 1\<rparr>, (snd ?v)\<lparr>waiting_ups_finish_time := - 1\<rparr>} \<union>
      (if fst ?v then {} else {?n})"
    by (simp add: set_master_second_def Let_def split_def)
  then show ?thesis
    using free changes_quiet [OF quiet_trans [OF q quiet_waiting], of e strict] changes_quiet [OF quiet_trans [OF qv quiet_waiting], of e strict]
    by (cases "fst ?v") auto
qed

subsection \<open>All actions\<close>

lemma act_changes:
  assumes "mgr_inv s" "in_order e a s" "strict \<longrightarrow> mono (env_time e) \<and> (\<forall>k. env_revoke e k) \<and> a \<noteq> Grant_Eternal_Lease"
  shows "changes e strict s (ups_act e a s)"
proof (cases a)
  case (Set_Config_Percent mm sm)
  have "quiet s (snd (set_ups_config_percent mm sm s))" by (simp add: set_ups_config_percent_def quiet_def) (simp add: cores_def)
  then show ?thesis using Set_Config_Percent by (simp add: changes_quiet)
next
  case (Set_Config_Server addr ms cs)
  have "quiet s (snd (set_ups_config_server addr ms cs s))"
    using quiet_change_ups [of "\<lambda>u. u\<lparr>ms_read_percentage := ms, cs_read_percentage := cs\<rparr>"]
    by (auto simp: set_ups_config_server_def Let_def quiet_def core_of_def)
  then show ?thesis using Set_Config_Server by (simp add: changes_quiet)
next
  case (Set_Queue q)
  then show ?thesis by (simp add: set_async_queue_def changes_quiet quiet_def cores_def)
next
  case (Refer role schema config)
  then show ?thesis by (simp add: changes_quiet quiet_def cores_def)
qed (use assms in \<open>auto intro: changes_register changes_renew changes_slave_failure changes_grant_lease changes_grant_eternal changes_check_slot
    changes_select_new changes_check_master_exist changes_set_first changes_set_second changes_quiet quiet_reset\<close>)

section \<open>Runs\<close>

definition ups_run :: "ups_env \<Rightarrow> ups_action list \<Rightarrow> ups_manager \<Rightarrow> ups_manager" where
  "ups_run e = fold (ups_act e)"

fun run_in_order :: "ups_env \<Rightarrow> ups_action list \<Rightarrow> ups_manager \<Rightarrow> bool" where
  "run_in_order e [] s \<longleftrightarrow> True"
| "run_in_order e (a # acts) s \<longleftrightarrow> in_order e a s \<and> run_in_order e acts (ups_act e a s)"

lemma ups_run_simps [simp]: "ups_run e [] s = s" "ups_run e (a # acts) s = ups_run e acts (ups_act e a s)"
  by (simp_all add: ups_run_def)

lemma mgr_inv_new: "mgr_inv (ups_manager_new d r w role schema config)"
proof -
  have "cores (ups_manager_new d r w role schema config) ! i = (server_new, UPS_STAT_OFFLINE, 0)" if "i < MAX_UPS_COUNT" for i
    using that by (simp add: cores_def ups_manager_new_def ups_new_def core_of_def)
  then show ?thesis unfolding mgr_inv_def
    by (intro core_invI) (auto simp: online_def ups_manager_new_def MAX_UPS_COUNT_def)
qed

lemma run_changes:
  assumes "mgr_inv s" "run_in_order e acts s"
    "strict \<longrightarrow> mono (env_time e) \<and> (\<forall>k. env_revoke e k) \<and> Grant_Eternal_Lease \<notin> set acts"
  shows "changes e strict s (ups_run e acts s)"
  using assms
proof (induction acts arbitrary: s)
  case (Cons a acts)
  then have "changes e strict s (ups_act e a s)" by (intro act_changes) auto
  then show ?case using Cons changes_inv changes_trans by (metis list.set_intros(2) run_in_order.simps(2) ups_run_simps(2))
qed (simp add: changes_quiet)

lemma run_mgr_inv: "mgr_inv s \<Longrightarrow> run_in_order e acts s \<Longrightarrow> mgr_inv (ups_run e acts s)"
  using run_changes [of s e acts False] changes_inv by blast

lemma run_lease_inv:
  assumes "mgr_inv s" "run_in_order e acts s" "mono (env_time e)" "\<forall>k. env_revoke e k" "Grant_Eternal_Lease \<notin> set acts"
    "lease_inv e (lease_duration_us s) (protocol_of s)" "clock_bounded e (lease_duration_us s)"
  shows "lease_inv e (lease_duration_us s) (protocol_of (ups_run e acts s))"
proof (rule changes_lease_inv [OF _ _ assms(6,7)])
  show "(change e True (lease_duration_us s))\<^sup>*\<^sup>* (protocol_of s) (protocol_of (ups_run e acts s))"
    using run_changes [OF assms(1,2), of True] assms(3-5) by (simp add: changes_def)
  show "protocol_inv (protocol_of s)" using assms(1) by (simp add: protocol_inv_def protocol_of_def mgr_inv_def)
qed

lemma lease_inv_new: "lease_inv e d (protocol_of (ups_manager_new d r w role schema config))"
  by (simp add: protocol_of_def ups_manager_new_def ups_new_def lease_inv_def cores_def core_of_def online_def)

end
