(* ===== verification/Ob_Ups_Shares.thy ===== *)
theory Ob_Ups_Shares
  imports Ob_Ups_Runs
begin

text \<open>
  The read percentages of the update servers: what \<^verbatim>\<open>reset_ups_read_percent\<close> computes, and that they are shares of a hundred in every run
  as long as no server's percentage is set by hand.
\<close>

section \<open>The part of the state that the percentages depend on\<close>

type_synonym face = "ob_server \<times> int \<times> int"

definition face_of :: "ob_ups \<Rightarrow> face" where
  "face_of u = (ups_addr u, ms_read_percentage u, cs_read_percentage u)"

definition faces :: "ups_manager \<Rightarrow> face list" where
  "faces s = map face_of (ups_array s)"

definition calm :: "ups_manager \<Rightarrow> ups_manager \<Rightarrow> bool" where
  "calm s s' \<longleftrightarrow> faces s' = faces s \<and> is_flow_control_by_ip s' = is_flow_control_by_ip s \<and>
     master_master_ups_read_percentage s' = master_master_ups_read_percentage s \<and>
     slave_master_ups_read_percentage s' = slave_master_ups_read_percentage s"

lemma calm_refl [simp]: "calm s s"
  by (simp add: calm_def)

lemma calm_trans: "calm s t \<Longrightarrow> calm t u \<Longrightarrow> calm s u"
  by (simp add: calm_def)

lemma faces_change_ups: "faces (change_ups i f s) = (faces s)[i := face_of (f (ups_at s i))]"
  by (simp add: faces_def change_ups_def map_update)

lemma calm_change_ups:
  assumes "\<And>u. face_of (f u) = face_of u"
  shows "calm s (change_ups i f s)"
proof -
  have "faces (change_ups i f s) = faces s"
    using assms by (cases "i < length (ups_array s)") (simp_all add: change_ups_def ups_at_def faces_def map_update list_update_same_conv list_update_beyond)
  then show ?thesis by (simp add: calm_def change_ups_def)
qed

lemma calm_change_ups_stat: "calm s (change_ups_stat i st s)"
  unfolding change_ups_stat_def by (rule calm_change_ups) (simp add: face_of_def)

lemma calm_upd:
  "calm s (s\<lparr>waiting_ups_finish_time := t\<rparr>)" "calm s (s\<lparr>ups_master_idx := x\<rparr>)" "calm s (s\<lparr>remote_calls := n\<rparr>)"
  "calm s (s\<lparr>clock_reads := n\<rparr>)" "calm s (s\<lparr>call_log := l\<rparr>)" "calm s (set_async_queue q s)"
  "calm s (s\<lparr>obi_role := role, schema_version := schema, config_version := config\<rparr>)"
  by (simp_all add: calm_def faces_def set_async_queue_def)

lemma calm_get_time: "calm s (snd (get_time e s))"
  by (simp add: get_time_def calm_upd)

lemma calm_refresh_inner_table: "calm s (snd (refresh_inner_table e ty u v s))"
  by (auto simp: refresh_inner_table_def get_time_def calm_def faces_def split: option.split prod.split)

lemma calm_refresh: "calm s (refresh e ty i v s)"
  by (simp add: refresh_def calm_refresh_inner_table)

lemma calm_fold:
  assumes "\<And>i t. calm t (g i t)"
  shows "calm s (fold g is s)"
proof (induction "is" arbitrary: s)
  case (Cons i "is")
  then show ?case using calm_trans [OF assms [of s i]] by simp
qed simp

lemma calm_update_ups_lsn: "calm s (update_ups_lsn e s)"
  unfolding update_ups_lsn_def
proof (rule calm_fold)
  fix i t
  have "calm t (change_ups i (\<lambda>u. u\<lparr>log_seq_num := n\<rparr>) (t\<lparr>remote_calls := Suc (remote_calls t)\<rparr>))" for n
    by (rule calm_trans [OF calm_upd(3) calm_change_ups]) (simp add: face_of_def)
  then show "calm t (update_slot_lsn e i t)" by (auto simp: update_slot_lsn_def Let_def calm_upd split: option.split)
qed

lemma calm_grant_slot: "calm s (grant_slot master now force i s)"
proof -
  have "calm s (change_ups i (\<lambda>u. u\<lparr>did_renew_received := False, ups_lease := l\<rparr>) s)" for l by (rule calm_change_ups) (simp add: face_of_def)
  then show ?thesis by (auto simp: grant_slot_def Let_def send_granting_msg_def intro: calm_trans [OF _ calm_upd(5)])
qed

lemma calm_is_master_lease_valid: "calm s (snd (is_master_lease_valid e s))"
  by (simp add: is_master_lease_valid_def Let_def split_def calm_get_time)

lemma calm_is_ups_with_highest_lsn: "calm s (snd (is_ups_with_highest_lsn e i s))"
  by (simp add: is_ups_with_highest_lsn_def Let_def calm_update_ups_lsn)

lemma calm_check_all_ups_offline: "calm s (check_all_ups_offline s)"
  by (simp add: check_all_ups_offline_def calm_upd)

lemma calm_revoke: "calm s (snd (revoke_master_lease e s))"
proof -
  have "calm s ((refresh e ty i v (change_ups_stat j st t))\<lparr>ups_master_idx := x\<rparr>)" if "calm s t" for ty i v j st t x
    by (rule calm_trans [OF calm_trans [OF calm_trans [OF that calm_change_ups_stat] calm_refresh] calm_upd(2)])
  moreover have "calm s (s\<lparr>remote_calls := m, call_log := l, clock_reads := n, waiting_ups_finish_time := w\<rparr>)"
    "calm s (s\<lparr>remote_calls := m, call_log := l, clock_reads := n\<rparr>)" "calm s (s\<lparr>clock_reads := n, remote_calls := m, call_log := l\<rparr>)"
    "calm s (s\<lparr>clock_reads := n\<rparr>)" for n m l w by (simp_all add: calm_def faces_def)
  ultimately show ?thesis
    by (auto simp: revoke_master_lease_def Let_def split_def is_master_lease_valid_def get_time_def)
qed

section \<open>What the percentages are\<close>

definition percent_ok :: "int \<Rightarrow> bool" where
  "percent_ok p \<longleftrightarrow> 0 \<le> p \<and> p \<le> 100"

definition config_ok :: "ups_manager \<Rightarrow> bool" where
  "config_ok s \<longleftrightarrow> (\<forall>p \<in> {master_master_ups_read_percentage s, slave_master_ups_read_percentage s}. p = - 1 \<or> percent_ok p)"

definition shares_inv :: "ups_manager \<Rightarrow> bool" where
  "shares_inv s \<longleftrightarrow> config_ok s \<and> (\<forall>(a, ms, cs) \<in> set (faces s). server_ok a \<and> percent_ok ms \<and> percent_ok cs) \<and>
     (\<not> is_flow_control_by_ip s \<longrightarrow> sum_list (map (\<lambda>(a, ms, cs). ms) (faces s)) \<le> 100 \<and> sum_list (map (\<lambda>(a, ms, cs). cs) (faces s)) \<le> 100)"

lemma shares_inv_calm: "calm s s' \<Longrightarrow> shares_inv s \<Longrightarrow> shares_inv s'"
  by (simp add: calm_def shares_inv_def config_ok_def)

text \<open>The servers that read requests are sent to, by status.\<close>

definition masters :: "ob_ups list \<Rightarrow> int" where
  "masters us = int (length (filter (\<lambda>u. ups_stat u = UPS_STAT_MASTER) us))"

definition syncs :: "ob_ups list \<Rightarrow> int" where
  "syncs us = int (length (filter (\<lambda>u. ups_stat u = UPS_STAT_SYNC) us))"

lemma length_filter_nth: "length (filter (\<lambda>i. P (xs ! i)) [0..<length xs]) = length (filter P xs)"
proof -
  have "filter P (map ((!) xs) [0..<length xs]) = map ((!) xs) (filter (\<lambda>i. P (xs ! i)) [0..<length xs])" by (simp add: filter_map comp_def)
  then show ?thesis by (metis length_map map_nth)
qed

lemma active_count:
  assumes "length (ups_array s) = MAX_UPS_COUNT"
  shows "get_active_ups_count s = masters (ups_array s) + syncs (ups_array s)"
proof -
  have "length (filter (\<lambda>u. UPS_STAT_OFFLINE \<noteq> ups_stat u \<and> UPS_STAT_NOTSYNC \<noteq> ups_stat u) us) =
      length (filter (\<lambda>u. ups_stat u = UPS_STAT_MASTER) us) + length (filter (\<lambda>u. ups_stat u = UPS_STAT_SYNC) us)" for us :: "ob_ups list"
  proof (induction us)
    case (Cons u us)
    then show ?case by (cases "ups_stat u") simp_all
  qed simp
  then show ?thesis
    using length_filter_nth [of "\<lambda>u. UPS_STAT_OFFLINE \<noteq> ups_stat u \<and> UPS_STAT_NOTSYNC \<noteq> ups_stat u" "ups_array s"] assms
    by (simp add: get_active_ups_count_def ups_online_def ups_at_def masters_def syncs_def)
qed

lemma sum_percents:
  assumes "\<forall>u\<in>set us. ms_read_percentage u = 0 \<and> cs_read_percentage u = 0"
  shows "sum_list (map (\<lambda>u. ms_read_percentage (set_read_percent m n u)) us) = m * masters us + n * syncs us"
    "sum_list (map (\<lambda>u. cs_read_percentage (set_read_percent m n u)) us) = m * masters us + n * syncs us"
proof -
  show "sum_list (map (\<lambda>u. ms_read_percentage (set_read_percent m n u)) us) = m * masters us + n * syncs us"
    using assms
  proof (induction us)
    case (Cons u us)
    then show ?case by (cases "ups_stat u") (simp_all add: masters_def syncs_def set_read_percent_def algebra_simps)
  qed (simp add: masters_def syncs_def)
  show "sum_list (map (\<lambda>u. cs_read_percentage (set_read_percent m n u)) us) = m * masters us + n * syncs us"
    using assms
  proof (induction us)
    case (Cons u us)
    then show ?case by (cases "ups_stat u") (simp_all add: masters_def syncs_def set_read_percent_def algebra_simps)
  qed (simp add: masters_def syncs_def)
qed

lemma masters_one:
  assumes "mgr_inv s" "ups_master_idx s \<noteq> - 1"
  shows "masters (ups_array s) = 1"
proof -
  note inv = mgr_invD [OF assms(1)]
  let ?i = "nat (ups_master_idx s)"
  have i: "?i < MAX_UPS_COUNT" "ups_master_idx s = int ?i" using inv(2,3) assms(2) by auto
  have "filter (\<lambda>i. ups_stat (ups_array s ! i) = UPS_STAT_MASTER) [0..<MAX_UPS_COUNT] = filter (\<lambda>i. i = ?i) [0..<MAX_UPS_COUNT]"
    using inv(4) i by (intro filter_cong) (auto simp: ups_at_def)
  also have "length (filter (\<lambda>i. i = k) [0..<n]) = (if k < n then 1 else 0)" for k n by (induction n) auto
  then have "length (filter (\<lambda>i. i = ?i) [0..<MAX_UPS_COUNT]) = 1" using i(1) by simp
  finally show ?thesis using length_filter_nth [of "\<lambda>u. ups_stat u = UPS_STAT_MASTER" "ups_array s"] inv(1) by (simp add: masters_def)
qed

lemma read_percents_bound:
  assumes "length (ups_array s) = MAX_UPS_COUNT" "config_ok s" "ups_master_idx s = - 1 \<or> masters (ups_array s) = 1" "read_percents s = (m, n)"
  shows "percent_ok m" "percent_ok n" "m * masters (ups_array s) + n * syncs (ups_array s) \<le> 100"
proof -
  let ?M = "masters (ups_array s)" and ?S = "syncs (ups_array s)" and ?c = "get_active_ups_count s"
  have c: "?c = ?M + ?S" "0 \<le> ?M" "0 \<le> ?S" using active_count [OF assms(1)] by (simp_all add: masters_def syncs_def)
  have mul: "(k div d) * d \<le> k" "0 \<le> k div d" "k div d \<le> k" if "0 < d" "0 \<le> k" for k d :: int
  proof -
    show a: "(k div d) * d \<le> k" using that div_mult_mod_eq [of k d] pos_mod_sign [of d k] by linarith
    show b: "0 \<le> k div d" using that by (simp add: pos_imp_zdiv_nonneg_iff)
    show "k div d \<le> k" using mult_left_mono [of 1 d "k div d"] a b that(1) by simp
  qed
  consider "?c < 1" "m = 100" "n = 0" | "?c = 1" "m = 100" "n = 100" | "1 < ?c" "m = 100 div ?c" "n = 100 div ?c"
    | "1 < ?c" "?M = 1" "percent_ok m" "n = (100 - m) div (?c - 1)"
    using assms(2-4) by (fastforce simp: read_percents_def Let_def config_ok_def split: if_splits)
  then have "percent_ok m \<and> percent_ok n \<and> m * ?M + n * ?S \<le> 100"
  proof cases
    case 1
    then have "?M = 0" "?S = 0" using c by auto
    then show ?thesis using 1 by (simp add: percent_ok_def)
  next
    case 2
    then show ?thesis using c by (simp add: percent_ok_def)
  next
    case 3
    then have "m * ?M + n * ?S = (100 div ?c) * ?c" using c by (simp add: algebra_simps)
    then show ?thesis using 3 mul [of ?c 100] by (simp add: percent_ok_def)
  next
    case 4
    then have s: "?S = ?c - 1" using c by simp
    have m: "0 \<le> m" "m \<le> 100" using 4 by (simp_all add: percent_ok_def)
    have "0 < ?c - 1" "0 \<le> 100 - m" using 4(1) m by simp_all
    note k = mul [OF this]
    show ?thesis unfolding 4(2) s 4(4) percent_ok_def using m k by linarith
  qed
  then show "percent_ok m" "percent_ok n" "m * ?M + n * ?S \<le> 100" by simp_all
qed

lemma reset_shares:
  assumes "length (ups_array s) = MAX_UPS_COUNT" "config_ok s" "\<forall>u\<in>set (ups_array s). server_ok (ups_addr u)"
    "ups_master_idx s = - 1 \<or> masters (ups_array s) = 1"
  shows "shares_inv (reset_ups_read_percent s)"
proof -
  define us where "us = map (\<lambda>u. u\<lparr>ms_read_percentage := 0, cs_read_percentage := 0\<rparr>) (ups_array s)"
  let ?s0 = "s\<lparr>ups_array := us, is_flow_control_by_ip := False\<rparr>"
  obtain m n where mn: "read_percents ?s0 = (m, n)" by fastforce
  have cnt: "masters us = masters (ups_array s)" by (simp add: masters_def filter_map comp_def us_def)
  have z: "\<forall>u\<in>set us. ms_read_percentage u = 0 \<and> cs_read_percentage u = 0" and a: "\<forall>u\<in>set us. server_ok (ups_addr u)"
    using assms(3) by (auto simp: us_def)
  have len: "length us = MAX_UPS_COUNT" using assms(1) by (simp add: us_def)
  have b: "percent_ok m" "percent_ok n" "m * masters us + n * syncs us \<le> 100"
    using read_percents_bound [of ?s0 m n] mn assms(2,4) cnt len by (simp_all add: config_ok_def)
  let ?g = "set_read_percent m n"
  have "face_of (?g u) = (ups_addr u, ms_read_percentage (?g u), cs_read_percentage (?g u))" for u
    by (cases "ups_stat u") (simp_all add: face_of_def set_read_percent_def)
  then have f: "faces (reset_ups_read_percent s) = map (\<lambda>u. (ups_addr u, ms_read_percentage (?g u), cs_read_percentage (?g u))) us"
    by (simp add: reset_ups_read_percent_def us_def [symmetric] mn faces_def)
  have p: "percent_ok (ms_read_percentage (?g u)) \<and> percent_ok (cs_read_percentage (?g u))" if "u \<in> set us" for u
    using that z b(1,2) by (cases "ups_stat u") (auto simp: set_read_percent_def percent_ok_def)
  have "sum_list (map (\<lambda>(a, ms, cs). ms) (faces (reset_ups_read_percent s))) \<le> 100"
    "sum_list (map (\<lambda>(a, ms, cs). cs) (faces (reset_ups_read_percent s))) \<le> 100"
    unfolding f map_map comp_def split using sum_percents [OF z, of m n] b(3) by simp_all
  moreover have "\<forall>(a, ms, cs) \<in> set (faces (reset_ups_read_percent s)). server_ok a \<and> percent_ok ms \<and> percent_ok cs"
    unfolding f using p a by auto
  moreover have "config_ok (reset_ups_read_percent s)" using assms(2) by (simp add: config_ok_def reset_ups_read_percent_def Let_def split_def)
  ultimately show ?thesis by (simp add: shares_inv_def)
qed

text \<open>The form in which the actions use it: an invariant state, but for the percentages.\<close>

definition addrs_ok :: "ups_manager \<Rightarrow> bool" where
  "addrs_ok s \<longleftrightarrow> config_ok s \<and> (\<forall>f \<in> set (faces s). server_ok (fst f))"

lemma reset_shares_inv:
  assumes "mgr_inv s \<or> length (ups_array s) = MAX_UPS_COUNT \<and> ups_master_idx s = - 1" "addrs_ok s"
  shows "shares_inv (reset_ups_read_percent s)"
  using assms mgr_invD(1) masters_one by (intro reset_shares) (auto simp: addrs_ok_def faces_def face_of_def)

lemma shares_addrs_ok: "shares_inv s \<Longrightarrow> addrs_ok s"
  by (auto simp: shares_inv_def addrs_ok_def)

lemma addrs_ok_calm: "calm s s' \<Longrightarrow> addrs_ok s \<Longrightarrow> addrs_ok s'"
  by (simp add: calm_def addrs_ok_def config_ok_def)

lemma addrs_ok_change_ups:
  assumes "addrs_ok s" "server_ok (ups_addr (f (ups_at s i)))"
  shows "addrs_ok (change_ups i f s)"
proof -
  have "set (faces (change_ups i f s)) \<subseteq> insert (face_of (f (ups_at s i))) (set (faces s))" by (simp add: faces_change_ups set_update_subset_insert)
  moreover have "config_ok (change_ups i f s) = config_ok s" by (simp add: config_ok_def change_ups_def)
  ultimately show ?thesis using assms by (auto simp: addrs_ok_def face_of_def)
qed

section \<open>The actions keep it\<close>

lemma sum_list_update_zero:
  fixes g :: "'a \<Rightarrow> int"
  assumes "\<forall>x\<in>set xs. 0 \<le> g x" "g y = 0"
  shows "sum_list (map g (xs[i := y])) \<le> sum_list (map g xs)"
  using assms
proof (induction xs arbitrary: i)
  case (Cons x xs)
  then show ?case by (cases i) simp_all
qed simp

text \<open>A place that is reset has no share.\<close>

lemma shares_reset_ups:
  assumes "shares_inv s"
  shows "shares_inv (change_ups i ups_reset s)"
proof (cases "i < length (ups_array s)")
  case True
  let ?b = "server_reset (ups_addr (ups_at s i))"
  let ?y = "(?b, 0, 0) :: face"
  have y: "face_of (ups_reset (ups_at s i)) = ?y" "server_ok ?b" by (simp_all add: face_of_def ups_reset_def server_reset_def server_ok_def)
  have f: "\<forall>(a, ms, cs) \<in> set (faces s). server_ok a \<and> percent_ok ms \<and> percent_ok cs" using assms by (simp add: shares_inv_def)
  have "\<forall>(a, ms, cs) \<in> set ((faces s)[i := ?y]). server_ok a \<and> percent_ok ms \<and> percent_ok cs"
    using f y by (auto dest!: set_update_subset_insert [THEN subsetD] simp: percent_ok_def split: prod.splits)
  moreover have "sum_list (map (\<lambda>(a, ms, cs). ms) ((faces s)[i := ?y])) \<le> sum_list (map (\<lambda>(a, ms, cs). ms) (faces s))"
    using f y by (intro sum_list_update_zero) (auto simp: percent_ok_def split: prod.splits)
  moreover have "sum_list (map (\<lambda>(a, ms, cs). cs) ((faces s)[i := ?y])) \<le> sum_list (map (\<lambda>(a, ms, cs). cs) (faces s))"
    using f y by (intro sum_list_update_zero) (auto simp: percent_ok_def split: prod.splits)
  moreover have "config_ok (change_ups i ups_reset s) = config_ok s" "is_flow_control_by_ip (change_ups i ups_reset s) = is_flow_control_by_ip s"
    by (simp_all add: config_ok_def change_ups_def)
  ultimately show ?thesis using assms unfolding shares_inv_def faces_change_ups y(1) by auto
next
  case False
  then have "change_ups i ups_reset s = s" by (simp add: change_ups_def list_update_beyond)
  then show ?thesis using assms by simp
qed

lemma shares_after_reset:
  assumes "changes e strict s (reset_ups_read_percent t)" "mgr_inv s" "addrs_ok t"
  shows "shares_inv (reset_ups_read_percent t)"
  using changes_inv [OF assms(1,2)] mgr_inv_quiet [OF quiet_reset, of t] assms(3) by (intro reset_shares_inv) simp_all

lemma shares_register:
  assumes "mgr_inv s" "shares_inv s" "server_is_valid addr" "server_ok addr"
  shows "shares_inv (snd (register_ups e addr port lsn lease version s))"
proof -
  have "snd (register_ups e addr port lsn lease version s) = s \<or>
    (\<exists>t. snd (register_ups e addr port lsn lease version s) = reset_ups_read_percent t \<and> addrs_ok t)"
  proof (cases "did_ups_exist addr s \<or> find (\<lambda>i. \<not> ups_online s i) ups_places = None")
    case True
    then show ?thesis by (auto simp: register_ups_def)
  next
    case False
    then obtain i where i: "find (\<lambda>i. \<not> ups_online s i) ups_places = Some i" by auto
    let ?now = "env_time e (clock_reads s)" and ?s1 = "snd (get_time e s)"
    let ?s2 = "if 0 = waiting_ups_finish_time ?s1 then ?s1\<lparr>waiting_ups_finish_time := ?now + waiting_ups_register_duration ?s1\<rparr> else ?s1"
    let ?f = "\<lambda>u. u\<lparr>ups_addr := addr, ups_inner_port := port, log_seq_num := lsn, ups_lease := ?now + lease_duration_us ?s2,
      did_renew_received := True, cs_read_percentage := 0, ms_read_percentage := 0\<rparr>"
    let ?t = "refresh e SERVER_ONLINE i version (change_ups i ?f ?s2)"
    let ?m = "(refresh e ROLE_CHANGE i ''null'' ((change_ups_stat i UPS_STAT_MASTER ?t)\<lparr>ups_master_idx := int i\<rparr>))\<lparr>waiting_ups_finish_time := - 1\<rparr>"
    have "addrs_ok ?s2"
      using addrs_ok_calm [OF calm_get_time shares_addrs_ok [OF assms(2)]] addrs_ok_calm [OF calm_upd(1)] by simp
    then have "addrs_ok (change_ups i ?f ?s2)" using assms(4) by (intro addrs_ok_change_ups) simp_all
    then have t: "addrs_ok ?t" by (rule addrs_ok_calm [OF calm_refresh])
    have "addrs_ok ?m" using calm_trans [OF calm_trans [OF calm_trans [OF calm_change_ups_stat calm_upd(2)] calm_refresh] calm_upd(1)] t addrs_ok_calm by blast
    moreover have "snd (register_ups e addr port lsn lease version s) =
      (if lease > ?now then if has_master ?t then reset_ups_read_percent ?t else reset_ups_read_percent ?m
       else reset_ups_read_percent (change_ups_stat i UPS_STAT_NOTSYNC ?t))"
      using False i by (simp add: register_ups_def Let_def split_def get_time_def)
    ultimately show ?thesis using t addrs_ok_calm [OF calm_change_ups_stat t] by (auto split: if_splits)
  qed
  then show ?thesis
    using shares_after_reset [OF _ assms(1)] changes_register [OF assms(1,3)] assms(2) by metis
qed

lemma shares_renew:
  assumes "mgr_inv s" "shares_inv s"
  shows "shares_inv (snd (renew_lease addr stat role s))"
proof (rule find_ups_index_cases [of addr s])
  assume "find_ups_index addr s = - 1"
  then show ?thesis using assms by (simp add: renew_lease_def)
next
  fix i assume i: "find_ups_index addr s = int i" "i < MAX_UPS_COUNT" "ups_online s i"
  let ?s1 = "change_ups i (\<lambda>u. u\<lparr>did_renew_received := True\<rparr>) s"
  have q: "quiet s ?s1" by (rule quiet_change_ups) (simp add: core_of_def)
  have s1: "shares_inv ?s1" "mgr_inv ?s1"
    using shares_inv_calm [OF calm_change_ups assms(2)] quiet_inv [OF q assms(1)] by (simp_all add: face_of_def)
  let ?up = "(UPS_STAT_SYNC = stat \<or> UPS_STAT_NOTSYNC = stat) \<and> (UPS_STAT_SYNC = ups_stat (ups_at ?s1 i) \<or> UPS_STAT_NOTSYNC = ups_stat (ups_at ?s1 i)) \<and>
      ups_stat (ups_at ?s1 i) \<noteq> stat"
  let ?u = "change_ups_stat i stat ?s1"
  let ?s2 = "if ?up then if \<not> is_flow_control_by_ip ?u then reset_ups_read_percent ?u else ?u else ?s1"
  have "shares_inv (reset_ups_read_percent ?u)" if ?up
    using changes_inv [OF changes_sync [OF s1(2) i(2), where st = stat] s1(2)] that addrs_ok_calm [OF calm_change_ups_stat shares_addrs_ok [OF s1(1)]]
    by (intro reset_shares_inv) auto
  then have "shares_inv ?s2" using s1(1) shares_inv_calm [OF calm_change_ups_stat] by simp
  moreover have "calm ?s2 (change_ups i (\<lambda>u. u\<lparr>ups_obi_role := role\<rparr>) ?s2)" by (rule calm_change_ups) (simp add: face_of_def)
  moreover have "snd (renew_lease addr stat role s) \<in> {?s2, change_ups i (\<lambda>u. u\<lparr>ups_obi_role := role\<rparr>) ?s2}"
    using i by (simp add: renew_lease_def Let_def)
  ultimately show ?thesis by (elim insertE emptyE) (simp_all only: shares_inv_calm)
qed

lemma shares_slave_failure:
  assumes "mgr_inv s" "shares_inv s" "\<not> server_eq addr slave"
  shows "shares_inv (snd (slave_failure e addr slave s))"
proof (cases "is_ups_master addr s \<and> find_ups_index slave s \<noteq> - 1")
  case False
  then show ?thesis using assms by (auto simp: slave_failure_def Let_def)
next
  case True
  let ?t = "change_ups_stat (nat (find_ups_index slave s)) UPS_STAT_OFFLINE s"
  have e: "snd (slave_failure e addr slave s) =
      snd (refresh_inner_table e SERVER_OFFLINE (ups_at ?t (nat (find_ups_index slave s))) ''null'' (reset_ups_read_percent ?t))"
    using True by (simp add: slave_failure_def Let_def)
  have "mgr_inv ?t"
    using changes_inv [OF changes_slave_failure [OF assms(1,3)] assms(1)] quiet_trans [OF quiet_reset quiet_refresh_inner_table] e mgr_inv_quiet
    by metis
  then have "shares_inv (reset_ups_read_percent ?t)"
    using addrs_ok_calm [OF calm_change_ups_stat shares_addrs_ok [OF assms(2)]] by (intro reset_shares_inv) simp_all
  then show ?thesis unfolding e by (rule shares_inv_calm [OF calm_refresh_inner_table])
qed

lemma shares_grant_lease: "shares_inv s \<Longrightarrow> shares_inv (snd (grant_lease e force s))"
  using shares_inv_calm [OF calm_trans [OF calm_get_time [of s e] calm_fold [of "grant_slot (master_addr s) (env_time e (clock_reads s)) force" _ ups_places]]]
  by (simp add: grant_lease_def Let_def split_def calm_grant_slot get_time_def)

lemma shares_grant_eternal: "shares_inv s \<Longrightarrow> shares_inv (snd (grant_eternal_lease s))"
proof -
  have "calm t (grant_eternal_slot master i t)" for master i t
    by (simp add: grant_eternal_slot_def send_granting_msg_def calm_upd)
  then show "shares_inv s \<Longrightarrow> shares_inv (snd (grant_eternal_lease s))"
    using shares_inv_calm [OF calm_fold [of "grant_eternal_slot (master_addr s)" s ups_places]] by (simp add: grant_eternal_lease_def Let_def)
qed

lemma shares_check_slot:
  assumes "mgr_inv s" "shares_inv s"
  shows "shares_inv (snd (check_slot e i s))"
proof -
  let ?s1 = "snd (get_time e s)"
  have inv: "mgr_inv ?s1" by (rule quiet_inv [OF quiet_get_time [OF surjective_pairing] assms(1)])
  have s1: "shares_inv ?s1" by (rule shares_inv_calm [OF calm_get_time assms(2)])
  let ?s2 = "if ups_stat (ups_at ?s1 i) = UPS_STAT_MASTER then ?s1\<lparr>ups_master_idx := - 1\<rparr> else ?s1"
  let ?s4 = "change_ups_stat i UPS_STAT_OFFLINE (reset_ups_read_percent ?s2)"
  let ?s5 = "change_ups i ups_reset ?s4"
  have "shares_inv (reset_ups_read_percent ?s2)"
    using inv mgr_invD(1) [OF inv] addrs_ok_calm [OF _ shares_addrs_ok [OF s1]] calm_upd(2) by (intro reset_shares_inv) auto
  then have s4: "shares_inv ?s4" by (rule shares_inv_calm [OF calm_change_ups_stat])
  have s5: "shares_inv ?s5" by (rule shares_reset_ups [OF s4])
  have "snd (check_slot e i s) = ?s1 \<or>
      snd (check_slot e i s) = snd (refresh_inner_table e SERVER_OFFLINE (ups_at ?s4 i) ''null'' (check_all_ups_offline ?s5))"
    by (simp add: check_slot_def Let_def split_def)
  then show ?thesis using s1 shares_inv_calm [OF calm_trans [OF calm_check_all_ups_offline calm_refresh_inner_table] s5] by auto
qed

lemma shares_select:
  assumes "mgr_inv s" "shares_inv s"
  shows "shares_inv (snd (select_ups_master_with_highest_lsn e s))"
proof -
  let ?m = "snd (highest_lsn s)"
  let ?t = "refresh e ROLE_CHANGE (nat ?m) ''null'' ((change_ups_stat (nat ?m) UPS_STAT_MASTER s)\<lparr>ups_master_idx := ?m\<rparr>)"
  have "calm s ?t" by (rule calm_trans [OF calm_trans [OF calm_change_ups_stat calm_upd(2)] calm_refresh])
  then have t: "addrs_ok ?t" by (rule addrs_ok_calm [OF _ shares_addrs_ok [OF assms(2)]])
  have "snd (select_ups_master_with_highest_lsn e s) = s \<or> snd (select_ups_master_with_highest_lsn e s) = reset_ups_read_percent ?t"
    by (simp add: select_ups_master_with_highest_lsn_def Let_def split_def)
  then show ?thesis using assms(2) shares_after_reset [OF _ assms(1) t] changes_select [OF assms(1)] by metis
qed

lemma shares_select_new:
  assumes "mgr_inv s" "shares_inv s"
  shows "shares_inv (snd (select_new_ups_master e s))"
proof -
  let ?v = "snd (is_master_lease_valid e s)" and ?u = "update_ups_lsn e (snd (is_master_lease_valid e s))"
  have v: "shares_inv ?v" "shares_inv ?u"
    using shares_inv_calm [OF calm_is_master_lease_valid assms(2)] shares_inv_calm [OF calm_trans [OF calm_is_master_lease_valid calm_update_ups_lsn] assms(2)]
    by simp_all
  have "mgr_inv ?u" by (rule quiet_inv [OF quiet_trans [OF quiet_is_master_lease_valid quiet_update_ups_lsn] assms(1)])
  then have "shares_inv (snd (select_ups_master_with_highest_lsn e ?u))" by (rule shares_select [OF _ v(2)])
  then show ?thesis using v assms(2) by (simp add: select_new_ups_master_def Let_def split_def)
qed

lemma shares_check_master_exist:
  assumes "mgr_inv s" "shares_inv s"
  shows "shares_inv (snd (check_ups_master_exist e s))"
proof -
  let ?t = "snd (get_time e s)"
  have t: "shares_inv ?t" by (rule shares_inv_calm [OF calm_get_time assms(2)])
  have "shares_inv (snd (select_ups_master_with_highest_lsn e ?t))"
    by (rule shares_select [OF quiet_inv [OF quiet_get_time [OF surjective_pairing] assms(1)] t])
  then show ?thesis
    using t shares_inv_calm [OF calm_upd(1)] shares_select_new [OF assms] assms(2) by (simp add: check_ups_master_exist_def Let_def split_def)
qed

lemma shares_set_first: "shares_inv s \<Longrightarrow> shares_inv (snd (set_master_first e master force s))"
proof -
  let ?i = "find_ups_index master s"
  let ?t = "if UPS_STAT_SYNC \<noteq> ups_stat (ups_at s (nat ?i)) then s else snd (is_ups_with_highest_lsn e ?i s)"
  have "calm s ?t" using calm_is_ups_with_highest_lsn by simp
  moreover have "snd (set_master_first e master force s) \<in> {s, ?t, snd (revoke_master_lease e ?t)}"
    by (simp add: set_master_first_def Let_def split_def)
  ultimately have "calm s (snd (set_master_first e master force s))"
    using calm_trans [OF _ calm_revoke] by (elim insertE emptyE) (simp_all only: calm_refl)
  then show "shares_inv s \<Longrightarrow> shares_inv (snd (set_master_first e master force s))" by (rule shares_inv_calm)
qed

lemma shares_set_second:
  assumes "mgr_inv s" "shares_inv s" "i < MAX_UPS_COUNT" "ups_online s i" "has_master s \<longrightarrow> env_time e (clock_reads s) < ups_lease (master_at s)"
  shows "shares_inv (snd (set_master_second e i master force s))"
proof -
  let ?t = "if UPS_STAT_SYNC = ups_stat (ups_at s i) then snd (is_ups_with_highest_lsn e (int i) s) else s"
  let ?v = "snd (is_master_lease_valid e ?t)"
  let ?n = "(refresh e ROLE_CHANGE i ''null'' ((change_ups_stat i UPS_STAT_MASTER ?v)\<lparr>ups_master_idx := int i\<rparr>))\<lparr>waiting_ups_finish_time := - 1\<rparr>"
  have t: "calm s ?t" using calm_is_ups_with_highest_lsn by simp
  have v: "calm s ?v" by (rule calm_trans [OF t calm_is_master_lease_valid])
  have "calm s ?n"
    by (rule calm_trans [OF v calm_trans [OF calm_change_ups_stat calm_trans [OF calm_upd(2) calm_trans [OF calm_refresh calm_upd(1)]]]])
  then have n: "addrs_ok ?n" by (rule addrs_ok_calm [OF _ shares_addrs_ok [OF assms(2)]])
  have "snd (set_master_second e i master force s) \<in> {?t\<lparr>waiting_ups_finish_time := - 1\<rparr>, ?v\<lparr>waiting_ups_finish_time := - 1\<rparr>, reset_ups_read_percent ?n}"
    by (simp add: set_master_second_def Let_def split_def)
  moreover have "changes e False s (snd (set_master_second e i master force s))" by (rule changes_set_second [OF assms(1,3-5)])
  moreover have "shares_inv (?t\<lparr>waiting_ups_finish_time := - 1\<rparr>)" "shares_inv (?v\<lparr>waiting_ups_finish_time := - 1\<rparr>)"
    by (rule shares_inv_calm [OF calm_trans [OF _ calm_upd(1)] assms(2)], rule t v)+
  ultimately show ?thesis using shares_after_reset [OF _ assms(1) n] by (elim insertE emptyE) (simp_all only:)
qed

lemma shares_config_percent:
  assumes "mgr_inv s" "shares_inv s"
  shows "shares_inv (snd (set_ups_config_percent mm sm s))"
proof -
  let ?s = "s\<lparr>master_master_ups_read_percentage := mm, slave_master_ups_read_percentage := sm\<rparr>"
  have "mgr_inv ?s" using assms(1) by (simp add: mgr_inv_def cores_def)
  moreover have "addrs_ok ?s" if "mm = - 1 \<or> percent_ok mm" "sm = - 1 \<or> percent_ok sm"
    using that shares_addrs_ok [OF assms(2)] by (simp add: addrs_ok_def config_ok_def faces_def)
  ultimately have "shares_inv (reset_ups_read_percent ?s)" if "mm = - 1 \<or> percent_ok mm" "sm = - 1 \<or> percent_ok sm"
    using that by (intro reset_shares_inv) simp_all
  then show ?thesis using assms(2) by (auto simp: set_ups_config_percent_def percent_ok_def)
qed

lemma shares_config_server:
  assumes "shares_inv s"
  shows "shares_inv (snd (set_ups_config_server addr ms cs s))"
proof -
  let ?s = "s\<lparr>is_flow_control_by_ip := True\<rparr>"
  have s: "shares_inv ?s" using assms by (simp add: shares_inv_def config_ok_def faces_def)
  let ?f = "\<lambda>u. u\<lparr>ms_read_percentage := ms, cs_read_percentage := cs\<rparr>"
  have "shares_inv (change_ups i ?f ?s)" if "percent_ok ms" "percent_ok cs" for i
  proof (cases "i < length (ups_array s)")
    case True
    let ?a = "ups_addr (ups_at ?s i)"
    have "face_of (ups_at ?s i) \<in> set (faces ?s)" using True by (simp add: faces_def ups_at_def)
    then have "server_ok ?a" using s by (auto simp: shares_inv_def face_of_def)
    moreover have "set (faces (change_ups i ?f ?s)) \<subseteq> insert (?a, ms, cs) (set (faces ?s))"
      unfolding faces_change_ups by (rule subset_trans [OF set_update_subset_insert]) (simp add: face_of_def)
    moreover have "config_ok (change_ups i ?f ?s) = config_ok ?s" "is_flow_control_by_ip (change_ups i ?f ?s)" by (simp_all add: config_ok_def change_ups_def)
    ultimately show ?thesis using s that unfolding shares_inv_def by auto
  next
    case False
    then have "change_ups i ?f ?s = ?s" by (simp add: change_ups_def list_update_beyond)
    then show ?thesis using s by simp
  qed
  then show ?thesis using assms s by (auto simp: set_ups_config_server_def Let_def percent_ok_def)
qed

lemma act_shares:
  assumes "mgr_inv s" "shares_inv s" "in_order e a s"
  shows "shares_inv (ups_act e a s)"
proof (cases a)
  case Reset_Percent
  then show ?thesis using reset_shares_inv assms(1) shares_addrs_ok [OF assms(2)] by simp
next
  case (Set_Queue q)
  then show ?thesis using shares_inv_calm [OF calm_upd(6) assms(2)] by simp
next
  case (Refer role schema config)
  then show ?thesis using shares_inv_calm [OF calm_upd(7) assms(2)] by simp
qed (use assms in \<open>auto intro: shares_register shares_renew shares_slave_failure shares_grant_lease shares_grant_eternal shares_check_slot
    shares_select_new shares_check_master_exist shares_set_first shares_set_second shares_config_percent shares_config_server\<close>)

lemma run_shares:
  assumes "mgr_inv s" "shares_inv s" "run_in_order e acts s"
  shows "shares_inv (ups_run e acts s)"
  using assms
proof (induction acts arbitrary: s)
  case (Cons a acts)
  have "mgr_inv (ups_act e a s)" using changes_inv [OF act_changes [of s e a False]] Cons.prems by simp
  then show ?case using Cons act_shares by simp
qed simp

lemma shares_inv_new: "shares_inv (ups_manager_new l r w role schema config)"
  by (simp add: shares_inv_def ups_manager_new_def ups_new_def faces_def face_of_def config_ok_def server_new_def server_ok_def percent_ok_def
    sum_list_replicate map_replicate_const)

end
