(* ===== verification/Ob_Ups_Sample.thy ===== *)
theory Ob_Ups_Sample
  imports Ob_Ups_Runs
begin

text \<open>
  A run of the manager to look at, for the examples of the theorems: a clock that moves ten microseconds a reading, servers that answer,
  and two update servers. The first claims the lease it had, the second registers and becomes synchronous, and both are granted leases.
\<close>

definition sample_env :: ups_env where
  "sample_env = \<lparr>env_time = (\<lambda>k. 10 * int (min k 1000)), env_lsn = (\<lambda>k a. Some (if ip_v4 a = 1 then 7 else 5)), env_revoke = (\<lambda>k. True)\<rparr>"

definition sample_addr :: "u32 \<Rightarrow> ob_server" where
  "sample_addr ip = set_ipv4_addr ip 2700 server_new"

definition sample_ups :: "u32 \<Rightarrow> ups_status \<Rightarrow> obi_role \<Rightarrow> int \<Rightarrow> int \<Rightarrow> int \<Rightarrow> bool \<Rightarrow> ob_ups" where
  "sample_ups ip st role lsn lease share renewed = \<lparr>ups_addr = sample_addr ip, ups_inner_port = 2701, ups_stat = st, ups_obi_role = role,
     log_seq_num = lsn, ups_lease = lease, ms_read_percentage = share, cs_read_percentage = share, did_renew_received = renewed\<rparr>"

definition sample_start :: ups_manager where
  "sample_start = ups_manager_new 1000 500 5 OBI_MASTER 1 1"

definition sample_manager :: "ob_ups list \<Rightarrow> nat \<Rightarrow> ups_manager" where
  "sample_manager us k = sample_start\<lparr>ups_array := us @ replicate (MAX_UPS_COUNT - length us) ups_new, ups_master_idx := 0,
     waiting_ups_finish_time := - 1, clock_reads := k\<rparr>"

definition sample_acts :: "ups_action list" where
  "sample_acts = [Register (sample_addr 1) 2701 7 50 ''1'', Register (sample_addr 2) 2701 5 0 ''1'',
     Renew (sample_addr 2) UPS_STAT_SYNC OBI_MASTER, Grant_Lease True]"

definition sample_granted :: "u32 \<Rightarrow> ups_call" where
  "sample_granted ip = Granted (sample_addr ip) \<lparr>hb_ups_master = sample_addr 1, hb_self_lease = 1020, hb_obi_role = OBI_MASTER,
     hb_schema_version = 1, hb_config_version = 1\<rparr>"

definition sample_state :: ups_manager where
  "sample_state = (sample_manager [sample_ups 1 UPS_STAT_MASTER OBI_INIT 7 1020 50 False, sample_ups 2 UPS_STAT_SYNC OBI_MASTER 5 1020 50 False] 3)
     \<lparr>call_log := [sample_granted 2, sample_granted 1]\<rparr>"

lemma places_eval: "[0..<17] = [0, 1, 2, 3, 4, 5, 6, 7, 8, 9, 10, 11, 12, 13, 14, 15, 16]"
  by (simp add: upt_conv_Cons)

lemma replicate_eval: "replicate (numeral n) u = u # replicate (pred_numeral n) u"
  by (simp add: numeral_eq_Suc)

text \<open>What evaluates the operations on given states; the states before and after each action of the run are written out.\<close>

lemmas ups_eval = places_eval replicate_eval MAX_UPS_COUNT_def register_ups_def renew_lease_def did_ups_exist_def find_ups_index_def ups_online_def
  ups_at_def get_time_def change_ups_def change_ups_stat_def refresh_def refresh_inner_table_def reset_ups_read_percent_def read_percents_def
  get_active_ups_count_def set_read_percent_def has_master_def master_at_def

lemmas sample_eval = sample_manager_def sample_ups_def sample_start_def ups_manager_new_def ups_new_def sample_addr_def sample_env_def server_eq_def
  set_ipv4_addr_def server_new_def

lemma grant_offline: "\<forall>i\<in>set is. \<not> ups_online s i \<Longrightarrow> fold (grant_slot master now force) is s = s"
  by (induction "is") (simp_all add: grant_slot_def)

lemma sample_run:
  "ups_run sample_env sample_acts sample_start = sample_state"
proof -
  have 1: "ups_act sample_env (Register (sample_addr 1) 2701 7 50 ''1'') sample_start =
      sample_manager [sample_ups 1 UPS_STAT_MASTER OBI_INIT 7 1000 100 True] 1"
    by (simp add: ups_eval sample_eval Let_def cong: let_weak_cong prod.case_cong_weak)
  have 2: "ups_act sample_env (Register (sample_addr 2) 2701 5 0 ''1'') (sample_manager [sample_ups 1 UPS_STAT_MASTER OBI_INIT 7 1000 100 True] 1) =
      sample_manager [sample_ups 1 UPS_STAT_MASTER OBI_INIT 7 1000 100 True, sample_ups 2 UPS_STAT_NOTSYNC OBI_INIT 5 1010 0 True] 2"
    by (simp add: ups_eval sample_eval Let_def cong: let_weak_cong prod.case_cong_weak)
  have 3: "ups_act sample_env (Renew (sample_addr 2) UPS_STAT_SYNC OBI_MASTER)
        (sample_manager [sample_ups 1 UPS_STAT_MASTER OBI_INIT 7 1000 100 True, sample_ups 2 UPS_STAT_NOTSYNC OBI_INIT 5 1010 0 True] 2) =
      sample_manager [sample_ups 1 UPS_STAT_MASTER OBI_INIT 7 1000 50 True, sample_ups 2 UPS_STAT_SYNC OBI_MASTER 5 1010 50 True] 2"
    by (simp add: ups_eval sample_eval Let_def cong: let_weak_cong prod.case_cong_weak)
  let ?s = "sample_manager [sample_ups 1 UPS_STAT_MASTER OBI_INIT 7 1000 50 True, sample_ups 2 UPS_STAT_SYNC OBI_MASTER 5 1010 50 True] 2"
  let ?g = "grant_slot (sample_addr 1) 20 True"
  let ?t = "(sample_manager [sample_ups 1 UPS_STAT_MASTER OBI_INIT 7 1020 50 False, sample_ups 2 UPS_STAT_SYNC OBI_MASTER 5 1010 50 True] 3)
    \<lparr>call_log := [sample_granted 1]\<rparr>"
  have g: "?g 0 (?s\<lparr>clock_reads := 3\<rparr>) = ?t" "?g 1 ?t = sample_state"
    by (simp_all add: ups_eval sample_eval grant_slot_def send_granting_msg_def heartbeat_for_def sample_state_def sample_granted_def Let_def
      cong: let_weak_cong prod.case_cong_weak)
  have off: "\<not> ups_online sample_state i" if "i \<in> {2..<17}" for i
    using that by (auto simp: ups_online_def ups_at_def sample_state_def sample_manager_def nth_append nth_Cons' ups_new_def MAX_UPS_COUNT_def)
  have "ups_places = 0 # 1 # [2..<17]" by (simp add: MAX_UPS_COUNT_def upt_conv_Cons)
  then have "fold ?g ups_places (?s\<lparr>clock_reads := 3\<rparr>) = fold ?g [2..<17] sample_state" using g by simp
  also have "\<dots> = sample_state" using off by (intro grant_offline) simp
  finally have "fold ?g ups_places (?s\<lparr>clock_reads := 3\<rparr>) = sample_state" .
  moreover have "master_addr ?s = sample_addr 1" "get_time sample_env ?s = (20, ?s\<lparr>clock_reads := 3\<rparr>)"
    by (simp_all add: master_addr_def has_master_def master_at_def ups_at_def get_time_def sample_manager_def sample_ups_def sample_env_def MAX_UPS_COUNT_def)
  ultimately have 4: "ups_act sample_env (Grant_Lease True) ?s = sample_state" by (simp add: grant_lease_def)
  show ?thesis unfolding sample_acts_def ups_run_simps 1 2 3 4 by (rule refl)
qed

lemma sample_in_order: "run_in_order sample_env sample_acts sample_start"
  by (simp add: sample_acts_def sample_addr_def set_ipv4_addr_def server_new_def server_is_valid_def server_ok_def word_sle_eq)

end
