(* ===== verification/Ob_Ups_Contract.thy ===== *)
theory Ob_Ups_Contract
  imports Ob_Ups_Shares Ob_Ups_Sample
begin

text \<open>
  What the manager of the update servers promises: one master, one lease, percentages that are shares, a list that clients read as the
  manager has it, and a new master when the lease of the old one has run out. At the end, runs that are not in order and break it.
\<close>

section \<open>The list that clients get\<close>

definition shown :: "ups_manager \<Rightarrow> nat \<Rightarrow> bool" where
  "shown s i \<longleftrightarrow> ups_online s i \<and> (is_flow_control_by_ip s \<or> UPS_STAT_NOTSYNC \<noteq> ups_stat (ups_at s i))"

definition published :: "ups_manager \<Rightarrow> nat list" where
  "published s = take LIST_MAX_UPS_COUNT (filter (shown s) ups_places)"

lemma ups_list_loop_spec:
  assumes "length (list_array l) = LIST_MAX_UPS_COUNT" "count \<le> LIST_MAX_UPS_COUNT"
    "\<forall>j. count \<le> j \<and> j < LIST_MAX_UPS_COUNT \<longrightarrow> list_array l ! j = info_new"
    "us = map (\<lambda>i. convert_to (ups_at s i) info_new) (take (LIST_MAX_UPS_COUNT - count) (filter (shown s) places))"
  shows "ups_list_loop s places count l =
    (count + length us, l\<lparr>list_array := take count (list_array l) @ us @ drop (count + length us) (list_array l)\<rparr>)"
  using assms
proof (induction places arbitrary: count l us)
  case (Cons i places)
  show ?case
  proof (cases "count < LIST_MAX_UPS_COUNT \<and> shown s i")
    case True
    let ?v = "convert_to (ups_at s i) info_new"
    let ?us = "map (\<lambda>i. convert_to (ups_at s i) info_new) (take (LIST_MAX_UPS_COUNT - Suc count) (filter (shown s) places))"
    let ?l = "l\<lparr>list_array := (list_array l)[count := ?v]\<rparr>"
    have "LIST_MAX_UPS_COUNT - count = Suc (LIST_MAX_UPS_COUNT - Suc count)" using True by (simp add: Suc_diff_Suc)
    then have us: "us = ?v # ?us" using True Cons.prems(4) by simp
    have "ups_list_loop s places (Suc count) ?l =
        (Suc count + length ?us, ?l\<lparr>list_array := take (Suc count) (list_array ?l) @ ?us @ drop (Suc count + length ?us) (list_array ?l)\<rparr>)"
      using Cons.prems True by (intro Cons.IH) auto
    moreover have "take (Suc count) ((list_array l)[count := ?v]) = take count (list_array l) @ [?v]"
      using True Cons.prems(1) by (simp add: take_Suc_conv_app_nth)
    moreover have "ups_list_loop s (i # places) count l = ups_list_loop s places (Suc count) ?l"
      using True Cons.prems(3) by (simp add: shown_def)
    ultimately show ?thesis unfolding us by simp
  next
    case False
    show ?thesis
    proof (cases "count < LIST_MAX_UPS_COUNT")
      case True
      then have "ups_list_loop s (i # places) count l = ups_list_loop s places count l" using False by (auto simp: shown_def)
      then show ?thesis using Cons.IH [of l count us] Cons.prems True False by simp
    next
      case full: False
      then show ?thesis using Cons.prems by simp
    qed
  qed
qed simp

lemma get_ups_list_spec:
  "list_size (get_ups_list list_new s) = length (published s)"
  "list_items (get_ups_list list_new s) = map (\<lambda>i. convert_to (ups_at s i) info_new) (published s)"
  "length (list_array (get_ups_list list_new s)) = LIST_MAX_UPS_COUNT"
  "set (list_array (get_ups_list list_new s)) \<subseteq> insert info_new ((\<lambda>i. convert_to (ups_at s i) info_new) ` set (published s))"
  "0 \<le> sint (list_count (get_ups_list list_new s))"
proof -
  define us where "us = map (\<lambda>i. convert_to (ups_at s i) info_new) (published s)"
  have l: "get_ups_list list_new s = list_new\<lparr>list_array := us @ drop (length us) (list_array list_new), list_count := word_of_nat (length us)\<rparr>"
    using ups_list_loop_spec [of list_new 0 us s ups_places]
    by (simp add: get_ups_list_def us_def published_def list_new_def)
  have len: "length us = length (published s)" "length us \<le> LIST_MAX_UPS_COUNT" by (simp_all add: us_def published_def)
  then have "length us < 2 ^ 31" by (simp add: LIST_MAX_UPS_COUNT_def)
  then have c: "sint (word_of_nat (length us) :: i32) = int (length us)" by (simp add: signed_of_nat signed_take_bit_int_eq_self)
  show size: "list_size (get_ups_list list_new s) = length (published s)" using c len by (simp add: l list_size_def)
  show "list_items (get_ups_list list_new s) = map (\<lambda>i. convert_to (ups_at s i) info_new) (published s)"
    unfolding list_items_def size using len by (simp add: l us_def)
  show "length (list_array (get_ups_list list_new s)) = LIST_MAX_UPS_COUNT" unfolding l using len by (simp add: list_new_def)
  show "set (list_array (get_ups_list list_new s)) \<subseteq> insert info_new ((\<lambda>i. convert_to (ups_at s i) info_new) ` set (published s))"
    unfolding l by (auto simp: us_def list_new_def)
  show "0 \<le> sint (list_count (get_ups_list list_new s))" using c by (simp add: l)
qed

text \<open>Percentages are kept in the bytes and in the sums of the list.\<close>

lemma percent_i8:
  assumes "percent_ok p"
  shows "sint (word_of_int p :: i8) = p" "(scast (word_of_int p :: i8) :: i32) = word_of_int p"
proof -
  show s: "sint (word_of_int p :: i8) = p" using assms by (simp add: percent_ok_def signed_of_int signed_take_bit_int_eq_self)
  show "(scast (word_of_int p :: i8) :: i32) = word_of_int p" by (metis s of_int_sint)
qed

lemma sum_percent_words:
  assumes "\<forall>p\<in>set ps. percent_ok p" "length ps \<le> LIST_MAX_UPS_COUNT"
  shows "sint (sum_list (map (\<lambda>p. scast (word_of_int p :: i8)) ps) :: i32) = sum_list ps" "0 \<le> sum_list ps"
proof -
  have w: "(sum_list (map (\<lambda>p. scast (word_of_int p :: i8)) ps) :: i32) = word_of_int (sum_list ps)"
    using assms(1) by (induction ps) (simp_all add: percent_i8)
  have b: "0 \<le> sum_list ps \<and> sum_list ps \<le> 100 * int (length ps)"
    using assms(1) by (induction ps) (auto simp: percent_ok_def algebra_simps)
  then show "0 \<le> sum_list ps" by simp
  have "sum_list ps < 2 ^ 31" using b assms(2) by (simp add: LIST_MAX_UPS_COUNT_def)
  then show "sint (sum_list (map (\<lambda>p. scast (word_of_int p :: i8)) ps) :: i32) = sum_list ps"
    unfolding w using b by (simp add: signed_of_int signed_take_bit_int_eq_self)
qed

lemma sum_filter_le:
  fixes g :: "'a \<Rightarrow> int"
  assumes "\<forall>x\<in>set xs. 0 \<le> g x"
  shows "sum_list (map g (take n (filter P xs))) \<le> sum_list (map g xs)"
proof -
  have "sum_list (map g (take n ys)) \<le> sum_list (map g ys)" if "\<forall>x\<in>set ys. 0 \<le> g x" for ys
  proof -
    have "sum_list (map g ys) = sum_list (map g (take n ys)) + sum_list (map g (drop n ys))"
      by (metis append_take_drop_id map_append sum_list_append)
    moreover have "0 \<le> sum_list (map g (drop n ys))" using that by (intro sum_list_nonneg) (auto dest: in_set_dropD)
    ultimately show ?thesis by simp
  qed
  moreover have "sum_list (map g (filter P xs)) \<le> sum_list (map g xs)" using assms by (induction xs) auto
  ultimately show ?thesis using assms by (meson filter_is_subset order_trans subsetD)
qed

lemma sharesD:
  assumes "mgr_inv s" "shares_inv s"
  shows "i < MAX_UPS_COUNT \<Longrightarrow> server_ok (ups_addr (ups_at s i)) \<and> percent_ok (ms_read_percentage (ups_at s i)) \<and> percent_ok (cs_read_percentage (ups_at s i))"
    "\<not> is_flow_control_by_ip s \<Longrightarrow> sum_list (map (\<lambda>i. ms_read_percentage (ups_at s i)) ups_places) \<le> 100"
    "\<not> is_flow_control_by_ip s \<Longrightarrow> sum_list (map (\<lambda>i. cs_read_percentage (ups_at s i)) ups_places) \<le> 100"
proof -
  have f: "faces s = map (\<lambda>i. face_of (ups_at s i)) ups_places"
    using mgr_invD(1) [OF assms(1)] by (intro nth_equalityI) (simp_all add: faces_def ups_at_def)
  show "server_ok (ups_addr (ups_at s i)) \<and> percent_ok (ms_read_percentage (ups_at s i)) \<and> percent_ok (cs_read_percentage (ups_at s i))"
    if "i < MAX_UPS_COUNT" using assms(2) that by (auto simp: shares_inv_def f face_of_def)
  show "\<not> is_flow_control_by_ip s \<Longrightarrow> sum_list (map (\<lambda>i. ms_read_percentage (ups_at s i)) ups_places) \<le> 100"
    "\<not> is_flow_control_by_ip s \<Longrightarrow> sum_list (map (\<lambda>i. cs_read_percentage (ups_at s i)) ups_places) \<le> 100"
    using assms(2) by (simp_all add: shares_inv_def f face_of_def comp_def)
qed

text \<open>An entry of the list tells of a server what the manager has.\<close>

definition tells :: "ups_manager \<Rightarrow> ups_info \<Rightarrow> nat \<Rightarrow> bool" where
  "tells s u i \<longleftrightarrow> server_eq (info_addr u) (ups_addr (ups_at s i)) \<and> info_inner_port u = ups_inner_port (ups_at s i) \<and>
     (info_stat u = UPS_MASTER \<longleftrightarrow> ups_master_idx s = int i) \<and>
     sint (info_ms_read_percentage u) = ms_read_percentage (ups_at s i) \<and> sint (info_cs_read_percentage u) = cs_read_percentage (ups_at s i)"

lemma published_sub: "i \<in> set (published s) \<Longrightarrow> i < MAX_UPS_COUNT \<and> shown s i"
  by (auto simp: published_def dest: in_set_takeD)

lemma get_ups_list_ok:
  assumes "mgr_inv s" "shares_inv s"
  shows "list_ok (get_ups_list list_new s)"
proof -
  have "server_ok (info_addr u)" if "u \<in> set (list_array (get_ups_list list_new s))" for u
    using that subsetD [OF get_ups_list_spec(4)] sharesD(1) [OF assms] published_sub [of _ s]
    by (fastforce simp: info_new_def server_new_def server_ok_def convert_to_def)
  then show ?thesis using get_ups_list_spec [of s] by (simp add: list_ok_def) (simp add: published_def)
qed

lemma list_same_tells:
  assumes "mgr_inv s" "shares_inv s" "list_same l (get_ups_list list_new s)"
  shows "list_all2 (tells s) (list_items l) (published s)"
    "sint (get_sum_percentage MERGE_SERVER l) = sum_list (map (\<lambda>i. ms_read_percentage (ups_at s i)) (published s))"
    "sint (get_sum_percentage CHUNK_SERVER l) = sum_list (map (\<lambda>i. cs_read_percentage (ups_at s i)) (published s))"
    "\<not> is_flow_control_by_ip s \<Longrightarrow> sint (get_sum_percentage ty l) \<le> 100"
proof -
  let ?c = "\<lambda>i. convert_to (ups_at s i) info_new"
  have p: "percent_ok (ms_read_percentage (ups_at s i))" "percent_ok (cs_read_percentage (ups_at s i))"
    "ups_stat (ups_at s i) = UPS_STAT_MASTER \<longleftrightarrow> ups_master_idx s = int i" if "i \<in> set (published s)" for i
    using published_sub [OF that] sharesD(1) [OF assms(1,2)] mgr_invD(4) [OF assms(1)] by blast+
  have len: "length (published s) \<le> LIST_MAX_UPS_COUNT" by (simp add: published_def)
  have t: "tells s u i" if "info_same u (?c i)" "i \<in> set (published s)" for u i
  proof -
    have "u = (?c i)\<lparr>info_addr := info_addr u\<rparr>" using that(1) unfolding info_same_def by (metis ups_info.surjective ups_info.update_convs(1))
    then show ?thesis using that p [OF that(2)] percent_i8(1)
      by (cases u) (auto simp: tells_def info_same_def convert_to_def info_new_def)
  qed
  have "list_all2 info_same (list_items l) (map ?c (published s))" using assms(3) by (simp add: list_same_def get_ups_list_spec(2))
  then show "list_all2 (tells s) (list_items l) (published s)"
    using t by (auto simp: list_all2_conv_all_nth)
  show ms: "sint (get_sum_percentage MERGE_SERVER l) = sum_list (map (\<lambda>i. ms_read_percentage (ups_at s i)) (published s))"
    using sum_percent_words(1) [of "map (\<lambda>i. ms_read_percentage (ups_at s i)) (published s)"] p len assms(3)
    by (simp add: get_sum_percentage_def list_same_def ms_sum_def get_ups_list_spec(2) comp_def convert_to_def)
  show cs: "sint (get_sum_percentage CHUNK_SERVER l) = sum_list (map (\<lambda>i. cs_read_percentage (ups_at s i)) (published s))"
    using sum_percent_words(1) [of "map (\<lambda>i. cs_read_percentage (ups_at s i)) (published s)"] p len assms(3)
    by (simp add: get_sum_percentage_def list_same_def cs_sum_def get_ups_list_spec(2) comp_def convert_to_def)
  have nn: "\<forall>i\<in>set ups_places. 0 \<le> ms_read_percentage (ups_at s i)" "\<forall>i\<in>set ups_places. 0 \<le> cs_read_percentage (ups_at s i)"
    using sharesD(1) [OF assms(1,2)] by (auto simp: percent_ok_def)
  show "sint (get_sum_percentage ty l) \<le> 100" if "\<not> is_flow_control_by_ip s"
    using ms cs sum_filter_le [OF nn(1), of LIST_MAX_UPS_COUNT "shown s"] sum_filter_le [OF nn(2), of LIST_MAX_UPS_COUNT "shown s"]
      sharesD(2,3) [OF assms(1,2) that] by (cases ty) (simp_all add: published_def)
qed

section \<open>Methods that take the mutex several times are runs\<close>

lemma ups_run_append: "ups_run e (xs @ ys) s = ups_run e ys (ups_run e xs s)"
  by (simp add: ups_run_def)

lemma check_slots_run:
  "snd (check_slots e (\<lambda>k. ups_run e (mids k)) places (b, s)) = ups_run e (concat (map (\<lambda>i. mids i @ [Check_Slot i]) places)) s"
proof (induction places arbitrary: b s)
  case (Cons i places)
  let ?t = "ups_run e (mids i) s"
  show ?case
    using Cons.IH [of "b \<or> fst (check_slot e i ?t)" "snd (check_slot e i ?t)"]
    by (simp add: check_slots_def split_def Let_def ups_run_append)
qed (simp add: check_slots_def)

lemma check_lease_run:
  "\<exists>acts. set acts \<subseteq> {Select_New, Grant_Lease True} \<union> (\<Union>k. set (mids k)) \<and>
     snd (check_lease e (\<lambda>k. ups_run e (mids k)) s) = ups_run e (concat (map (\<lambda>i. mids i @ [Check_Slot i]) ups_places) @ acts) s"
proof -
  obtain b t where t: "check_slots e (\<lambda>k. ups_run e (mids k)) ups_places (False, s) = (b, t)" by fastforce
  then have r: "ups_run e (concat (map (\<lambda>i. mids i @ [Check_Slot i]) ups_places)) s = t" using check_slots_run [of e mids ups_places False s] by simp
  let ?as = "mids MAX_UPS_COUNT @ Select_New # mids (MAX_UPS_COUNT + 1)"
  let ?acts = "if b then ?as @ (if has_master (ups_run e ?as t) then mids (MAX_UPS_COUNT + 2) @ [Grant_Lease True] else []) else []"
  have "snd (check_lease e (\<lambda>k. ups_run e (mids k)) s) = ups_run e (concat (map (\<lambda>i. mids i @ [Check_Slot i]) ups_places) @ ?acts) s"
    using t by (simp add: check_lease_def ups_run_append Let_def r)
  moreover have "set ?acts \<subseteq> {Select_New, Grant_Lease True} \<union> (\<Union>k. set (mids k))" by auto
  ultimately show ?thesis by blast
qed

lemma set_ups_master_run:
  "\<exists>acts. snd (set_ups_master e master force (ups_run e mid) s) = ups_run e (Set_Master_First master force # mid @ acts) s \<and>
     (\<forall>a \<in> set acts. a = Grant_Lease True \<or> (\<exists>i. a = Set_Master_Second i master force))"
proof -
  obtain r i w t where t: "set_master_first e master force s = ((r, i, w), t)" by (metis prod.exhaust)
  let ?u = "ups_run e mid t"
  let ?go = "r = Ok () \<and> is_idx_valid i"
  let ?v = "set_master_second e (nat i) master force ?u"
  let ?acts = "if ?go then Set_Master_Second (nat i) master force # (if fst ?v = Ok () then [Grant_Lease True] else []) else []"
  have "snd (set_ups_master e master force (ups_run e mid) s) = ups_run e (Set_Master_First master force # mid @ ?acts) s"
    using t by (simp add: set_ups_master_def ups_run_append split_def Let_def)
  then show ?thesis by (intro exI [of _ ?acts]) auto
qed

section \<open>Properties\<close>

text \<open>
  C5: One master. Whatever sequence of registrations, renewals, failure reports, grants, expiry checks, elections and changes of the master by
  hand the manager runs from its start, as long as every action is in order (servers register under proper addresses, no server reports its own
  failure, and \<^verbatim>\<open>set_ups_master\<close>, when it comes back from its sleep, finds its server registered and no other master whose lease is over): exactly the place that the index names has the status of a
  master, no two places that are online have the same address, and none has the empty one.
\<close>
theorem ups_one_master:
  assumes "run_in_order e acts (ups_manager_new d r w role schema config)"
    "s = ups_run e acts (ups_manager_new d r w role schema config)" "i < MAX_UPS_COUNT" "j < MAX_UPS_COUNT"
  shows "(ups_stat (ups_at s i) = UPS_STAT_MASTER \<longleftrightarrow> ups_master_idx s = int i) \<and>
    (ups_stat (ups_at s i) = UPS_STAT_MASTER \<longrightarrow> ups_stat (ups_at s j) = UPS_STAT_MASTER \<longrightarrow> i = j) \<and>
    (ups_online s i \<longrightarrow> ups_online s j \<longrightarrow> server_eq (ups_addr (ups_at s i)) (ups_addr (ups_at s j)) \<longrightarrow> i = j) \<and>
    (ups_online s i \<longrightarrow> \<not> server_eq (ups_addr (ups_at s i)) server_new) \<and>
    (has_master s \<longleftrightarrow> ups_master_idx s \<noteq> - 1)"
proof -
  have inv: "mgr_inv s" using run_mgr_inv [OF mgr_inv_new assms(1)] assms(2) by simp
  note D = mgr_invD [OF inv]
  have "has_master s \<longleftrightarrow> ups_master_idx s \<noteq> - 1" using D(2,3) by (auto simp: has_master_def)
  then show ?thesis using D(4) [OF assms(3)] D(4) [OF assms(4)] D(5) [OF assms(3,4)] D(6) [OF assms(3)] by simp
qed

theorem ups_one_master_witness:
  "ups_stat (ups_at sample_state 0) = UPS_STAT_MASTER \<and> ups_master_idx sample_state = 0 \<and> ups_stat (ups_at sample_state 1) \<noteq> UPS_STAT_MASTER"
proof -
  have "ups_stat (ups_at sample_state 0) = UPS_STAT_MASTER" by (simp add: ups_at_def sample_state_def sample_manager_def sample_ups_def)
  then show ?thesis
    using ups_one_master [OF sample_in_order [unfolded sample_start_def], of sample_state 0 1] sample_run
    by (auto simp: MAX_UPS_COUNT_def sample_start_def)
qed

text \<open>
  C3: One lease. Of all the servers to which this manager has granted leases, at most one can hold a lease as the master at a time, and it is the one the
  manager takes for its master: at any time \<open>t\<close> not before the last reading of the clock, a server that the manager has told, since its last
  confirmed revocation if there was one, that it is the master with a lease that ends after \<open>t\<close>, is the master of the manager, the manager's own record of the lease
  ends after \<open>t\<close> too, and every other such server is the same one. The run is in order (servers register under proper addresses, no server reports its own
  failure, and \<^verbatim>\<open>set_ups_master\<close>, when it comes back from its sleep, finds its server registered and no other master whose lease is
  over); the clock does not go back and its readings plus the lease duration fit 64 bits; every revocation that is sent is confirmed; no
  eternal lease is granted. A lease that a server claims for itself when it registers is not a grant and is not counted.
\<close>
theorem ups_one_lease:
  assumes "run_in_order e acts (ups_manager_new d r w role schema config)"
    "s = ups_run e acts (ups_manager_new d r w role schema config)"
    "mono (env_time e)" "\<forall>k. env_revoke e k" "Grant_Eternal_Lease \<notin> set acts" "clock_bounded e d"
    "\<forall>m < clock_reads s. env_time e m \<le> t" "holds_lease x t (call_log s)"
  shows "has_master s \<and> server_eq (ups_addr (master_at s)) x \<and> t < ups_lease (master_at s) \<and>
    (\<forall>y. holds_lease y t (call_log s) \<longrightarrow> server_eq x y)"
proof -
  let ?n = "ups_manager_new d r w role schema config"
  have d: "lease_duration_us ?n = d" by (simp add: ups_manager_new_def)
  have "lease_inv e d (protocol_of s)"
    using run_lease_inv [OF mgr_inv_new assms(1,3-5)] lease_inv_new [of e d r w role schema config] assms(2,6) d by simp
  then have l: "0 \<le> ups_master_idx s \<and> server_eq (c_addr (cores s ! nat (ups_master_idx s))) y \<and> t < c_lease (cores s ! nat (ups_master_idx s))"
    if "holds_lease y t (call_log s)" for y
    using that assms(7) by (simp add: lease_inv_def protocol_of_def)
  have inv: "mgr_inv s" using run_mgr_inv [OF mgr_inv_new assms(1)] assms(2) by simp
  note D = mgr_invD [OF inv]
  have c: "cores s ! nat (ups_master_idx s) = core_of (master_at s)"
    using D(1-3) by (subst cores_def, subst nth_map) (auto simp: MAX_UPS_COUNT_def master_at_def ups_at_def)
  show ?thesis
    using l [OF assms(8)] l D(3) server_eq_sym server_eq_trans unfolding c by (simp add: has_master_def) blast
qed

theorem ups_one_lease_witness:
  "holds_lease (sample_addr 1) 100 (call_log sample_state) \<and> server_eq (ups_addr (master_at sample_state)) (sample_addr 1) \<and>
   \<not> holds_lease (sample_addr 2) 100 (call_log sample_state)"
proof -
  have g: "Grant_Eternal_Lease \<notin> set sample_acts" by (simp add: sample_acts_def)
  have h: "holds_lease (sample_addr 1) 100 (call_log sample_state)" by (simp add: sample_state_def sample_granted_def)
  have n: "\<not> server_eq (sample_addr 1) (sample_addr 2)" by (simp add: sample_addr_def set_ipv4_addr_def server_new_def server_eq_def)
  have c: "clock_reads sample_state = 3" by (simp add: sample_state_def sample_manager_def)
  have e: "mono (env_time sample_env)" "\<forall>k. env_revoke sample_env k" "clock_bounded sample_env 1000" "\<forall>m < 3. env_time sample_env m \<le> 100"
    by (auto simp: sample_env_def mono_def clock_bounded_def)
  show ?thesis
    using ups_one_lease [OF sample_in_order [unfolded sample_start_def] _ e(1,2) g e(3), of sample_state 100 "sample_addr 1"] h n c e(4) sample_run
    by (auto simp: sample_start_def)
qed

text \<open>
  C18: The state stays well formed in every run that is in order (proper addresses, no server reports its own failure, and \<^verbatim>\<open>set_ups_master\<close> comes back
  from its sleep to a registered server and no other master whose lease is over). The array keeps its seventeen places and the index is that of a place or
  -1; every address has its four words; every percentage is between 0 and 100, so that the byte it is published in holds it; and unless
  percentages are set server by server, those of all servers add up to at most 100.
\<close>
theorem ups_well_formed:
  assumes "run_in_order e acts (ups_manager_new d r w role schema config)"
    "s = ups_run e acts (ups_manager_new d r w role schema config)"
  shows "length (ups_array s) = MAX_UPS_COUNT \<and> - 1 \<le> ups_master_idx s \<and> ups_master_idx s < int MAX_UPS_COUNT \<and>
    (\<forall>i < MAX_UPS_COUNT. server_ok (ups_addr (ups_at s i)) \<and> percent_ok (ms_read_percentage (ups_at s i)) \<and>
      percent_ok (cs_read_percentage (ups_at s i)) \<and>
      sint (info_ms_read_percentage (convert_to (ups_at s i) u)) = ms_read_percentage (ups_at s i) \<and>
      sint (info_cs_read_percentage (convert_to (ups_at s i) u)) = cs_read_percentage (ups_at s i)) \<and>
    (\<not> is_flow_control_by_ip s \<longrightarrow> sum_list (map (\<lambda>i. ms_read_percentage (ups_at s i)) ups_places) \<le> 100 \<and>
      sum_list (map (\<lambda>i. cs_read_percentage (ups_at s i)) ups_places) \<le> 100)"
proof -
  have inv: "mgr_inv s" "shares_inv s"
    using run_mgr_inv [OF mgr_inv_new assms(1)] run_shares [OF mgr_inv_new shares_inv_new assms(1)] assms(2) by simp_all
  show ?thesis using mgr_invD(1-3) [OF inv(1)] sharesD [OF inv] by (simp add: convert_to_def percent_i8)
qed

theorem ups_well_formed_witness:
  "ms_read_percentage (ups_at sample_state 0) = 50 \<and> sum_list (map (\<lambda>i. ms_read_percentage (ups_at sample_state i)) ups_places) \<le> 100"
proof -
  have "\<not> is_flow_control_by_ip sample_state" "ms_read_percentage (ups_at sample_state 0) = 50"
    by (simp_all add: sample_state_def sample_manager_def sample_start_def ups_manager_new_def ups_at_def sample_ups_def)
  then show ?thesis
    using ups_well_formed [OF sample_in_order [unfolded sample_start_def], of sample_state] sample_run by (simp add: sample_start_def)
qed

text \<open>
  C6: What clients read is what the manager has. In a state that a run in order reaches, the list that the manager makes out is written and read
  back without an error; the reader finds the first eight servers that may be shown, in the order of the array, each with its address, its
  port, its percentages and as master exactly the one that the index names, and the sums it adds up are those of the percentages, at most
  100 unless they are set server by server.
\<close>
theorem ups_list_published:
  assumes "run_in_order e acts (ups_manager_new d r w role schema config)"
    "s = ups_run e acts (ups_manager_new d r w role schema config)"
    "room (length (list_bytes (get_ups_list list_new s))) b" "list_ok this"
  shows "\<exists>b' l b''. list_serialize (get_ups_list list_new s) b = Some (Ok (), b') \<and>
    list_deserialize this (b'\<lparr>pos := pos b\<rparr>) = Some (Ok l, b'') \<and> pos b'' = pos b' \<and>
    list_all2 (tells s) (list_items l) (published s) \<and>
    sint (get_sum_percentage MERGE_SERVER l) = sum_list (map (\<lambda>i. ms_read_percentage (ups_at s i)) (published s)) \<and>
    sint (get_sum_percentage CHUNK_SERVER l) = sum_list (map (\<lambda>i. cs_read_percentage (ups_at s i)) (published s)) \<and>
    (\<not> is_flow_control_by_ip s \<longrightarrow> sint (get_sum_percentage MERGE_SERVER l) \<le> 100 \<and> sint (get_sum_percentage CHUNK_SERVER l) \<le> 100)"
proof -
  have inv: "mgr_inv s" "shares_inv s"
    using run_mgr_inv [OF mgr_inv_new assms(1)] run_shares [OF mgr_inv_new shares_inv_new assms(1)] assms(2) by simp_all
  then show ?thesis
    using ups_list.roundtrip [OF get_ups_list_ok [OF inv] assms(4,3)] list_same_tells [OF inv] by blast
qed

theorem ups_list_published_witness:
  "\<exists>b' l b''. list_serialize (get_ups_list list_new sample_state)
      \<lparr>mem = Some (replicate (length (list_bytes (get_ups_list list_new sample_state))) 0),
       blen = int (length (list_bytes (get_ups_list list_new sample_state))), pos = 0\<rparr> = Some (Ok (), b') \<and>
    list_deserialize list_new (b'\<lparr>pos := 0\<rparr>) = Some (Ok l, b'') \<and> list_all2 (tells sample_state) (list_items l) [0, 1] \<and>
    sint (get_sum_percentage MERGE_SERVER l) = 100"
proof -
  have p: "published sample_state = [0, 1]"
    by (simp add: published_def shown_def ups_online_def ups_at_def sample_state_def sample_manager_def sample_ups_def ups_new_def places_eval replicate_eval
      MAX_UPS_COUNT_def LIST_MAX_UPS_COUNT_def)
  have m: "sum_list (map (\<lambda>i. ms_read_percentage (ups_at sample_state i)) [0, 1]) = 100"
    by (simp add: ups_at_def sample_state_def sample_manager_def sample_ups_def)
  have new: "list_ok list_new" by (simp add: list_ok_def list_new_def list_size_def info_new_def server_new_def server_ok_def)
  define b where "b = \<lparr>mem = Some (replicate (length (list_bytes (get_ups_list list_new sample_state))) (0::u8)),
    blen = int (length (list_bytes (get_ups_list list_new sample_state))), pos = 0\<rparr>"
  have "room (length (list_bytes (get_ups_list list_new sample_state))) b" "pos b = 0" by (simp_all add: b_def room_def buf_wf_def)
  then show ?thesis
    using ups_list_published [OF sample_in_order [unfolded sample_start_def] _ _ new, of sample_state b] sample_run m
    unfolding b_def [symmetric] p by (simp add: sample_start_def) blast
qed

section \<open>What is not in order\<close>

text \<open>A master that reports itself is taken off, but the index still names its place: the manager has a master that is offline.\<close>

lemma self_report_breaks:
  assumes "mgr_inv s" "is_ups_master a s" "s' = snd (slave_failure e a a s)"
  shows "has_master s' \<and> \<not> ups_online s' (nat (ups_master_idx s')) \<and> \<not> mgr_inv s'"
proof (rule find_ups_index_cases [of a s])
  assume "find_ups_index a s = - 1"
  then show ?thesis using assms(2) by (simp add: is_ups_master_def)
next
  fix i assume i: "find_ups_index a s = int i" "i < MAX_UPS_COUNT" "ups_online s i"
  then have m: "ups_master_idx s = int i" using assms(2) mgr_invD(4) [OF assms(1) i(2)] by (simp add: is_ups_master_def)
  let ?t = "change_ups_stat i UPS_STAT_OFFLINE s"
  have "s' = snd (refresh_inner_table e SERVER_OFFLINE (ups_at ?t i) ''null'' (reset_ups_read_percent ?t))"
    using assms(2,3) i(1) by (simp add: slave_failure_def Let_def)
  then have q: "quiet ?t s'" using quiet_trans [OF quiet_reset quiet_refresh_inner_table] by simp
  have len: "length (ups_array ?t) = MAX_UPS_COUNT" using mgr_invD(1) [OF assms(1)] by (simp add: change_ups_stat_def change_ups_def)
  have "ups_master_idx s' = int i" using q m by (simp add: quiet_def change_ups_stat_def change_ups_def)
  moreover have "\<not> ups_online s' i"
    using quiet_ups_at(4) [OF q, of i] len i(2) mgr_invD(1) [OF assms(1)] by (simp add: ups_online_def ups_at_def change_ups_stat_def change_ups_def)
  ultimately show ?thesis using i(2) mgr_invD(4) [of s' i] by (auto simp: has_master_def ups_online_def)
qed

text \<open>
  When another master has been chosen during the sleep of \<^verbatim>\<open>set_ups_master\<close> and its lease is over when the method looks, a forced change
  leaves it a master beside the new one.
\<close>

lemma two_masters:
  assumes "mgr_inv s" "has_master s" "i < MAX_UPS_COUNT" "ups_master_idx s \<noteq> int i" "ups_stat (ups_at s i) = UPS_STAT_NOTSYNC"
    "server_eq master (ups_addr (ups_at s i))" "ups_lease (master_at s) \<le> env_time e (clock_reads s)"
    "s' = snd (set_master_second e i master True s)"
  shows "ups_stat (ups_at s' i) = UPS_STAT_MASTER \<and> ups_stat (ups_at s' (nat (ups_master_idx s))) = UPS_STAT_MASTER"
proof -
  let ?m = "nat (ups_master_idx s)" and ?t = "s\<lparr>clock_reads := Suc (clock_reads s)\<rparr>"
  let ?u = "(change_ups_stat i UPS_STAT_MASTER ?t)\<lparr>ups_master_idx := int i\<rparr>"
  have m: "?m < MAX_UPS_COUNT" "?m \<noteq> i" "ups_stat (ups_at s ?m) = UPS_STAT_MASTER"
    using assms(2,4) mgr_invD(4) [OF assms(1), of ?m] by (auto simp: has_master_def)
  have at: "master_at ?t = master_at s" by (simp add: master_at_def ups_at_def)
  have "s' = reset_ups_read_percent ((refresh e ROLE_CHANGE i ''null'' ?u)\<lparr>waiting_ups_finish_time := - 1\<rparr>)"
    using assms(2,5-8) at by (simp add: set_master_second_def is_master_lease_valid_def get_time_def Let_def)
  then have q: "quiet ?u s'" using quiet_trans [OF quiet_refresh quiet_trans [OF quiet_waiting quiet_reset]] by simp
  have len: "length (ups_array ?u) = MAX_UPS_COUNT" using mgr_invD(1) [OF assms(1)] by (simp add: change_ups_stat_def change_ups_def)
  have st: "ups_stat (ups_at ?u j) = (if j = i then UPS_STAT_MASTER else ups_stat (ups_at s j))" for j
    using assms(3) mgr_invD(1) [OF assms(1)] by (simp add: change_ups_stat_def change_ups_def ups_at_def nth_list_update)
  show ?thesis using quiet_ups_at(2) [OF q, of i] quiet_ups_at(2) [OF q, of ?m] st len assms(3) m by simp
qed

end
