(* ===== verification/Ob_Ups_Failover.thy ===== *)
theory Ob_Ups_Failover
  imports Ob_Ups_Sample
begin

text \<open>
  What happens when the lease of the master runs out: a round of the check thread takes the master off, chooses a new one and tells every
  server of it.
\<close>

section \<open>What a check does to a place\<close>

definition vital :: "ob_ups \<Rightarrow> core \<times> int" where
  "vital u = (core_of u, log_seq_num u)"

definition vitals :: "ups_manager \<Rightarrow> (core \<times> int) list" where
  "vitals s = map vital (ups_array s)"





lemma vitals_same [simp]:
  "vitals (s\<lparr>clock_reads := k\<rparr>) = vitals s" "vitals (s\<lparr>ups_master_idx := m\<rparr>) = vitals s" "vitals (s\<lparr>waiting_ups_finish_time := w\<rparr>) = vitals s"
  "vitals (check_all_ups_offline s) = vitals s" "vitals (snd (refresh_inner_table e ty u v s)) = vitals s"
  by (simp_all add: vitals_def check_all_ups_offline_def refresh_inner_table_def get_time_def split: option.split prod.split)

lemma vitals_reset [simp]: "vitals (reset_ups_read_percent s) = vitals s"
proof -
  have "vital (set_read_percent m n (u\<lparr>ms_read_percentage := 0, cs_read_percentage := 0\<rparr>)) = vital u" for m n u
    by (cases "ups_stat u") (simp_all add: set_read_percent_def vital_def core_of_def)
  then show ?thesis by (simp add: vitals_def reset_ups_read_percent_def Let_def split_def comp_def)
qed







section \<open>What goes on beside a round\<close>















section \<open>A round over the places\<close>








section \<open>The choice and the news\<close>










section \<open>Failover\<close>








end
