(* ===== verification/Spec2Isabelle.thy ===== *)
theory Spec2Isabelle
  imports Ob_Object_Apply Ob_Range_Contract Ob_Qlock_Progress Ob_String_Like Ob_Ups_Contract Ob_Ups_Failover
begin

text \<open>
  OceanBase 0.4, a distributed relational database (\<^verbatim>\<open>src/oceanbase/\<close>): its servers exchange and store rows whose cells are
  \<^verbatim>\<open>ObObj\<close> values. This development models the layer that all servers share, bottom up: how integers, strings and objects are
  written to bytes and read back, how decimals are computed, how cells are compared, merged, hashed and checksummed, how row keys
  and key ranges are built from cells, and how rows are locked; and of the root server the manager of the update servers, which
  decides which of them is the master and who may write. File names below are relative to \<^verbatim>\<open>src/oceanbase/src/\<close>.

  \<^bold>\<open>The parts and their theories.\<close>

  \<^item> \<open>Ob_Prelude\<close>: machine integers, return codes, the byte buffer with its cursor (\<^verbatim>\<open>buf, buf_len, pos\<close>), and runs over it.
    A run gives \<open>None\<close> where the code has undefined behaviour (an access outside the memory, a null pointer, a shift that is too
    wide, a failed assertion), otherwise a code or a value and the new buffer. \<open>emits\<close>, \<open>reads\<close> and \<open>refuses\<close> specify writers and
    readers, and the locale \<open>codec\<close> is the interface of a pair of them; every format below is an interpretation of it.
  \<^item> \<open>Serialization\<close>, \<open>Serialization_Obj\<close>, \<open>Serialization_Types\<close>: \<^verbatim>\<open>common/serialization.h\<close>. Fixed-width and variable-length integers,
    strings, and the tagged formats of each object type, with the unrolled fast paths next to the checked ones.
  \<^item> \<open>Ob_Number\<close> with \<open>Ob_Number_Values\<close>, \<open>_Arith\<close>, \<open>_Muldiv\<close>: \<^verbatim>\<open>common/ob_number.h, .cpp\<close>. Decimals as two's complement word arrays with a
    scale; the words of every operation and the integer they stand for.
  \<^item> \<open>Ob_Crc64\<close>, \<open>Murmur_Hash\<close>: \<^verbatim>\<open>common/ob_crc64\<close> (table-driven checksum and \<^verbatim>\<open>ObBatchChecksum\<close>), \<^verbatim>\<open>common/murmur_hash\<close>.
  \<^item> \<open>Ob_Object\<close> with \<open>_Codec\<close>, \<open>_Order\<close>, \<open>_Apply\<close>, \<open>_Hash\<close>: \<^verbatim>\<open>common/ob_object.h, .cpp\<close>. The object with its meta data and its union, setters,
    getters, comparison, \<^verbatim>\<open>apply\<close>, codec, hashes and checksums. It calls the serialisation, number, checksum and hash theories.
  \<^item> \<open>Ob_Rowkey\<close> with \<open>_Order\<close>, \<open>_Codec\<close>: \<^verbatim>\<open>common/ob_rowkey.h, .cpp\<close> and the descriptions \<^verbatim>\<open>ObRowkeyInfo\<close> of \<^verbatim>\<open>common/ob_schema.cpp\<close>. Keys are
    arrays of objects; their order is the lexicographic one over the order of objects, each column ascending or descending.
  \<^item> \<open>Ob_Range\<close> with \<open>_Laws\<close>, \<open>_Contract\<close>: \<^verbatim>\<open>common/ob_range2.h, .cpp\<close> and the border flags of \<^verbatim>\<open>common/ob_range.h\<close>. A range means the set of
    keys between its borders; the operations are shown correct for that meaning.
  \<^item> \<open>Ob_Qlock\<close> with \<open>_Safety\<close>, \<open>_Progress\<close>: \<^verbatim>\<open>common/qlock.h\<close>. Each method is a program of atomic accesses to the two words of the lock, and
    the threads interleave between any two accesses.
  \<^item> \<open>Ob_String_Search\<close> with \<open>_Laws\<close>, and \<open>Ob_String_Like\<close>: \<^verbatim>\<open>common/ob_string_search.h, .cpp\<close>. The two substring searches against the first
    occurrence, and \<^verbatim>\<open>is_matched\<close>, the operator \<^verbatim>\<open>LIKE\<close>, against the meaning of a pattern as a list of atoms.
  \<^item> \<open>Ob_Server\<close>, \<open>Ob_Ups_Info\<close>, \<open>Ob_Task_Queue\<close>: \<^verbatim>\<open>common/ob_server\<close>, \<^verbatim>\<open>common/ob_obi_role\<close>, \<^verbatim>\<open>common/ob_ups_info\<close>, \<^verbatim>\<open>common/ob_rs_ups_message\<close>,
    \<^verbatim>\<open>common/ob_single_pop_queue.h\<close> and \<^verbatim>\<open>rootserver/ob_root_async_task_queue\<close>. Addresses, the list of update servers and the messages
    about leases with their codecs, and the queue of tasks.
  \<^item> \<open>Ob_Ups_Manager\<close>: \<^verbatim>\<open>rootserver/ob_ups_manager.h, .cpp\<close>. The record is the class; a stretch of code that holds the mutex is one
    function. \<open>Ob_Ups_Runs\<close> makes actions of these and runs of the actions, in any order; \<open>Ob_Ups_Safety\<close> has the abstract protocol
    that they refine, \<open>Ob_Ups_Shares\<close> the read percentages, \<open>Ob_Ups_Sample\<close> a run that is evaluated, \<open>Ob_Ups_Contract\<close> and
    \<open>Ob_Ups_Failover\<close> what the manager promises.

  \<^bold>\<open>What is shown.\<close> Round trips: integers, strings, objects, keys and ranges are read back as they were written, sizes announced
  are sizes used, a buffer that is too short is refused without a write outside it, and exactly which inputs make the
  variable-length reader run over the end. Equivalence: the unrolled integer codec does what the checked one does, the checksum
  tables compute the bitwise shift register, the buffered checksum that of the concatenated pieces. Arithmetic: addition,
  multiplication, comparison, division by a word, rounding and conversion give the exact value wherever no word is lost, and
  where that fails. Order: the values of a column of type int, varchar,
  bool or a time type and the keys made of such columns are totally preordered. Merge: \<^verbatim>\<open>apply\<close> refines an
  abstract merge of values for every mutation but a decimal, and on the types with exact addition this merge is associative, so that
  changes may be compacted before they are applied. Ranges: \<^verbatim>\<open>trim\<close> splits a
  range in two, \<^verbatim>\<open>intersect\<close> misses no common key, \<^verbatim>\<open>empty\<close> and \<^verbatim>\<open>check\<close> agree. Locks: mutual exclusion and the meaning of the lock's
  words in every interleaving of any number of threads, which codes calls return, that calls with a deadline return, and that
  a free lock is granted. Strings: both searches find the first occurrence in spite of colliding prints and skips, and need the
  byte behind the text exactly when there is none; \<^verbatim>\<open>LIKE\<close> is decided for the patterns with at most one \<^verbatim>\<open>%\<close> and for \<^verbatim>\<open>%...%\<close>, and
  patterns on which it fails are given. Update servers: the queue refines a bounded list; in every run that is in order there is one
  master, and, as long as revocations are confirmed, one server at a time that holds a lease the manager
  has granted it as the master; the percentages are
  shares of a hundred; what clients read is what the manager has; and when the lease of the master runs out, the check thread
  chooses the server with the longest log and tells all of it, whatever routine calls of other threads come between its steps. A run is in order when addresses are valid, no master reports
  itself, and the change of the master by hand finds its server online and no master with a lease that is over; two lemmas of
  \<open>Ob_Ups_Contract\<close> show what happens otherwise.

  \<^bold>\<open>Interfaces.\<close> \<open>codec\<close> (a writer and a reader), \<open>array_codec\<close> (a counted array of such), \<open>accumulator\<close> (a value fed in pieces),
  \<open>object_codec\<close> (a reader that fills an object that exists), \<open>fifo\<close> (a bounded queue), \<open>comparison\<close> and \<open>three_way\<close> (a three-way comparison and the order it gives), \<open>flagged_type\<close> and \<open>timed_type\<close> (how \<^verbatim>\<open>apply\<close> treats a type) are
  locales; each is interpreted on the definitions of the model, and the component lemmas are their facts.

  \<^bold>\<open>Bounds and fuel.\<close> Loops over a counted array recurse on the number of elements left, loops over a buffer on the bytes left; no
  fuel is needed. The manager has its seventeen places, the wait for a change of role ends when the time slept reaches the lease
  duration. Lengths and positions are integers where the source's 64-bit arithmetic on them cannot wrap, and words where it
  can. The lock is modelled for finitely many threads, fewer than the reference count can hold,
  with different uids. The counters of the queue are 64-bit words, and its theorem is about fewer than \<open>2 ^ 63\<close> calls.

  \<^bold>\<open>Parameters.\<close> Arithmetic on floats and doubles is the record \<open>fp_ops\<close> of functions on bit patterns; the theorems hold for all of
  them. Allocators are predicates that say which requests succeed. The clock and the wait flag of a lock are read like memory
  that others write. Of the manager, the record \<open>ups_env\<close> has the readings of the clock and the answers of other servers to questions for
  their log sequence numbers and to revocations; times are integers, and the theorem on leases assumes that readings plus the
  lease duration fit 64 bits. What other threads do while a method sleeps is an argument, or the actions of a run in between.

  \<^bold>\<open>Not modelled.\<close> The servers (\<^verbatim>\<open>chunkserver\<close>, \<^verbatim>\<open>updateserver\<close>, \<^verbatim>\<open>mergeserver\<close>, and \<^verbatim>\<open>rootserver\<close> apart from the manager), the network protocol and the on-disk formats: they are
  made of threads, sockets, remote calls and direct I/O. The SQL parser is generated from a grammar that is not translated. The
  memory allocators and the concurrent B-trees and hash tables work on raw memory. Printing functions (\<^verbatim>\<open>to_string\<close>, \<^verbatim>\<open>dump\<close>) and the
  inline assembly branch of the checksum are left out.
\<close>

section \<open>Objects on the wire\<close>

text \<open>
  C1: whatever an object's unused fields hold, an object with a value that fits the wire format is
  written whenever its bytes fit into the buffer, and reading them back gives an object with the same
  type, flag and value and leaves the cursor behind them.
\<close>
theorem obj_roundtrip:
  assumes "obj_abs o1 = Some x" "scalar_good x" "room (length (scalar_bytes x)) s"
  shows "\<exists>s' o2. obj_serialize o1 s = Some (Ok (), s') \<and> pos s' = pos s + int (length (scalar_bytes x))
    \<and> obj_deserialize (s'\<lparr>pos := pos s\<rparr>) = Some (Ok o2, s') \<and> obj_abs o2 = Some x"
proof -
  have "obj_serialize o1 s = Some (Ok (), overlay (scalar_bytes x) s)"
    using emitsD [OF obj_emits] assms by blast
  moreover have "obj_deserialize ((overlay (scalar_bytes x) s)\<lparr>pos := pos s\<rparr>) =
      Some (Ok (obj_rep x), adv (length (scalar_bytes x)) ((overlay (scalar_bytes x) s)\<lparr>pos := pos s\<rparr>))"
    using readsD [OF obj_reads holds_overlay] assms by blast
  ultimately show ?thesis using assms by (simp add: adv_def obj_abs_rep)
qed

theorem obj_roundtrip_witness:
  "\<exists>s' o2. obj_serialize (set_datetime 1322469000 True (set_varchar (Some [1, 2]) 2 obj_reset)) (zero_buffer 5) = Some (Ok (), s')
    \<and> obj_deserialize (s'\<lparr>pos := 0\<rparr>) = Some (Ok o2, s') \<and> obj_abs o2 = Some (DateTimeS 1322469000 True)"
proof -
  have "obj_abs (set_datetime 1322469000 True (set_varchar (Some [1, 2]) 2 obj_reset)) = Some (DateTimeS 1322469000 True)"
    "length (scalar_bytes (DateTimeS 1322469000 True)) = 5" by code_simp+
  then show ?thesis
    using obj_roundtrip [of "set_datetime 1322469000 True (set_varchar (Some [1, 2]) 2 obj_reset)"
        "DateTimeS 1322469000 True" "zero_buffer 5"] by auto
qed

text \<open>
  C25: on a buffer that is too short for an object's bytes the writer returns an error; it never writes
  outside the buffer.
\<close>
theorem obj_serialize_short:
  assumes "obj_abs o1 = Some x" "scalar_good x" "buf_wf s" "\<not> room (length (scalar_bytes x)) s"
  shows "\<exists>e s'. obj_serialize o1 s = Some (Err e, s')"
  using obj_refuses [OF assms(1,2)] assms(3,4) by (simp add: refuses_def)

theorem obj_serialize_short_witness:
  "\<exists>e s'. obj_serialize (set_int 1000 False obj_reset) (zero_buffer 2) = Some (Err e, s')"
proof -
  have "obj_abs (set_int 1000 False obj_reset) = Some (IntS 1000 False)"
    "length (scalar_bytes (IntS 1000 False)) = 3" by code_simp+
  then show ?thesis using obj_serialize_short [of _ "IntS 1000 False" "zero_buffer 2"] by auto
qed

text \<open>
  C24: the size announced for an object is the number of bytes written for it, for every type but decimal.
\<close>
theorem obj_serialize_size:
  assumes "obj_abs o1 = Some x" "scalar_good x" "o_type o1 \<noteq> 12" "room (length (scalar_bytes x)) s"
  shows "\<exists>s'. obj_serialize o1 s = Some (Ok (), s') \<and> obj_get_serialize_size o1 = Some (pos s' - pos s)"
  using emitsD [OF obj_emits [OF assms(1,2)] assms(4)] obj_size [OF assms(1-3)] by simp

theorem obj_serialize_size_witness:
  "\<exists>s'. obj_serialize (set_ext 15 obj_reset) (zero_buffer 2) = Some (Ok (), s')
    \<and> obj_get_serialize_size (set_ext 15 obj_reset) = Some (pos s')"
proof -
  have "obj_abs (set_ext 15 obj_reset) = Some (ExtS 15)" "length (scalar_bytes (ExtS 15)) = 2"
    "o_type (set_ext 15 obj_reset) = 10" by code_simp+
  then show ?thesis using obj_serialize_size [of _ "ExtS 15" "zero_buffer 2"] by auto
qed

text \<open>
  C40: for a decimal the announced size falls short of the bytes written by exactly the length of its last word as a variable-length
  integer, and the writer refuses a buffer of the announced size.
\<close>
theorem obj_decimal_size_short:
  assumes "obj_abs o1 = Some (DecS add p sc vs ws)" "scalar_good (DecS add p sc vs ws)"
    and "room (length (scalar_bytes (DecS add p sc vs ws))) s"
  shows "\<exists>s' n e s2. obj_serialize o1 s = Some (Ok (), s') \<and> obj_get_serialize_size o1 = Some (int n) \<and>
    pos s' - pos s = int n + int (length (vi_bytes (unat (last ws)))) \<and> obj_serialize o1 (zero_buffer n) = Some (Err e, s2)"
proof -
  let ?x = "DecS add p sc vs ws" and ?l = "length (vi_bytes (unat (last ws)))"
  define n where "n = length (scalar_bytes ?x) - ?l"
  have "ws \<noteq> []"
    using assms(1) by (auto simp: obj_abs_def Let_def split: if_splits option.splits ob_value.splits)
  then have l: "?l \<le> length (scalar_bytes ?x)"
    by (cases ws rule: rev_cases) (simp_all add: decimal_bytes_def)
  have "0 < ?l" by (simp add: vi_bytes.simps)
  with l have "\<not> room (length (scalar_bytes ?x)) (zero_buffer n)"
    by (simp add: n_def del: scalar_bytes.simps length_greater_0_conv)
  then have "\<exists>e s2. obj_serialize o1 (zero_buffer n) = Some (Err e, s2)"
    using obj_refuses [OF assms(1,2)] by (simp add: refuses_def)
  moreover have "obj_get_serialize_size o1 = Some (int n)"
    using obj_size_decimal [OF assms(1)] l by (simp add: n_def of_nat_diff del: scalar_bytes.simps)
  moreover have "int (length (scalar_bytes ?x)) = int n + int ?l" using l by (simp add: n_def del: scalar_bytes.simps)
  moreover have "\<exists>s'. obj_serialize o1 s = Some (Ok (), s') \<and> pos s' - pos s = int (length (scalar_bytes ?x))"
    using emitsD [OF obj_emits [OF assms(1,2)] assms(3)] by (simp del: scalar_bytes.simps)
  ultimately show ?thesis by (metis (no_types))
qed

theorem obj_decimal_size_short_witness:
  "\<exists>o2 s' e s2. set_decimal \<lparr>num_vscale = 2, num_words = [12345]\<rparr> 10 2 False obj_reset = Some (Ok (), o2) \<and>
     obj_get_serialize_size o2 = Some 6 \<and> obj_serialize o2 (zero_buffer 8) = Some (Ok (), s') \<and> pos s' = 8 \<and>
     obj_serialize o2 (zero_buffer 6) = Some (Err e, s2)"
proof -
  define o2 where "o2 = obj_reset\<lparr>o_type := 12, o_precision := 10, o_scale := 2, o_vscale := 2, o_val_len := 12345\<rparr>"
  have "set_decimal \<lparr>num_vscale = 2, num_words = [12345]\<rparr> 10 2 False obj_reset = Some (Ok (), o2)"
    unfolding o2_def by code_simp
  moreover have "obj_abs o2 = Some (DecS False 10 2 2 [12345])" "obj_get_serialize_size o2 = Some 6"
    unfolding o2_def by code_simp+
  moreover have "length (vi_bytes (unat (last [12345 :: u32]))) = 2" "length (scalar_bytes (DecS False 10 2 2 [12345])) = 8"
    by (simp_all add: decimal_bytes_def vi_bytes.simps)
  ultimately obtain s' n e s2 where "obj_serialize o2 (zero_buffer 8) = Some (Ok (), s')" "int n = 6"
    "pos s' - pos (zero_buffer 8) = int n + 2" "obj_serialize o2 (zero_buffer n) = Some (Err e, s2)"
    using obj_decimal_size_short [of o2 False 10 2 2 "[12345]" "zero_buffer 8"] by (auto simp del: scalar_bytes.simps)
  moreover from this have "n = 6" "pos s' = 8" by (simp_all add: zero_buffer_def)
  ultimately show ?thesis
    using \<open>set_decimal _ _ _ _ _ = _\<close> \<open>obj_get_serialize_size o2 = Some 6\<close> by blast
qed

section \<open>Integers on the wire\<close>

text \<open>
  C20: the unrolled integer writer used when ten bytes are free and the checked one used otherwise do the
  same on every well-formed buffer (memory that is there, with the announced length, and a cursor inside it), so \<^verbatim>\<open>encode_int\<close> is the
  checked writer there. On a null buffer with a length they differ: the checked one returns an error, the unrolled one writes.
\<close>
theorem encode_int_is_safe: "buf_wf s \<Longrightarrow> encode_int v add s = encode_int_safe v add s"
  by (rule encode_int_eq_safe)

theorem encode_int_is_safe_witness:
  "encode_int (- 70000) True (zero_buffer 12) = encode_int_safe (- 70000) True (zero_buffer 12)"
  using encode_int_is_safe [of "zero_buffer 12" "- 70000" True] by simp

text \<open>
  C21: the two integer readers agree on every well-formed buffer (memory that is there, with the announced length, and a cursor inside
  it) and every first byte, but for the length marker 29.
\<close>
theorem decode_int_is_safe:
  assumes "buf_wf s" "unat (fb AND 0x1f) \<noteq> 29"
  shows "decode_int fb s = decode_int_safe fb s"
  using assms by (rule decode_int_eq_safe)

theorem decode_int_is_safe_witness: "decode_int 0x1a (zero_buffer 12) = decode_int_safe 0x1a (zero_buffer 12)"
  using decode_int_is_safe [of "zero_buffer 12" "0x1a"] by simp

text \<open>
  On the marker 29, which the writer never produces, the unrolled reader takes eight bytes and the checked one
  six: the same bytes are different integers depending on how much of the buffer lies behind them.
\<close>
theorem decode_int_marker_29:
  "let s = \<lparr>mem = Some (replicate 10 1), blen = 10, pos = 0\<rparr> in
   decode_int 29 s = Some (Ok (0x0101010101010101, False), s\<lparr>pos := 8\<rparr>) \<and>
   decode_int 29 (s\<lparr>blen := 8\<rparr>) = Some (Ok (0x010101010101, False), s\<lparr>blen := 8, pos := 6\<rparr>)"
  by code_simp

text \<open>
  C23: a list of variable-length 64-bit integers is written when its bytes fit, and reading as many integers
  gives the list back.
\<close>
theorem vi64_list_roundtrip:
  assumes "room (length (concat (map (\<lambda>v. vi_bytes (unat v)) vs))) s"
  shows "\<exists>s'. enc_seq encode_vi64 vs s = Some (Ok (), s') \<and>
     dec_seq decode_vi64 (length vs) (s'\<lparr>pos := pos s\<rparr>) = Some (Ok vs, s')"
proof -
  let ?bs = "concat (map (\<lambda>v. vi_bytes (unat v)) vs)"
  have "list_all (\<lambda>_. True) vs" by (simp add: list_all_iff)
  then show ?thesis
    using emitsD [OF vi64.enc_seq_emits assms] readsD [OF vi64.dec_seq_reads holds_overlay [OF assms]]
    by (auto simp: adv_def)
qed

theorem vi64_list_roundtrip_witness:
  "\<exists>s'. enc_seq encode_vi64 [300, 5, 0] (zero_buffer 4) = Some (Ok (), s') \<and>
     dec_seq decode_vi64 3 (s'\<lparr>pos := 0\<rparr>) = Some (Ok [300, 5, 0], s')"
proof -
  have "length (concat (map (\<lambda>v. vi_bytes (unat v)) [300, 5, 0 :: i64])) = 4" by code_simp
  then show ?thesis using vi64_list_roundtrip [of "[300, 5, 0]" "zero_buffer 4"] by (simp add: numeral_3_eq_3)
qed

text \<open>
  C22: On a well-formed buffer, whose memory ends where \<^verbatim>\<open>data_len\<close> says, \<^verbatim>\<open>decode_vi64\<close> never returns an error, although it tests
  \<^verbatim>\<open>data_len\<close>: each test comes after the byte has been read. It runs into undefined behaviour exactly when none of the next ten bytes in the
  buffer ends the integer: it reads behind the data, or shifts by 70. (\<^verbatim>\<open>OB_ERROR\<close> is returned only where memory goes on behind
  \<^verbatim>\<open>data_len\<close>.)
\<close>
theorem decode_vi64_undefined_iff:
  assumes "buf_wf s"
  shows "(decode_vi64 s = None \<longleftrightarrow> list_all (\<lambda>b. b AND 0x80 \<noteq> 0) (take 10 (rest s))) \<and>
     \<not> (\<exists>e s'. decode_vi64 s = Some (Err e, s'))"
  using decode_vi64_defined [OF assms] by blast

theorem decode_vi64_undefined_iff_witness: "decode_vi64 (zero_buffer 0) = None"
proof -
  have "rest (zero_buffer 0) = []" by (simp add: rest_def zero_buffer_def)
  then show ?thesis using decode_vi64_undefined_iff [of "zero_buffer 0"] by simp
qed

text \<open>
  A length-prefixed string is written when it fits, and the reader returns its position, its length and,
  in the buffer at that position, its bytes.
\<close>
theorem vstr_roundtrip:
  assumes "length (vstr_bytes bs) < 2 ^ 31" "room (length (vstr_bytes bs)) s"
  shows "\<exists>s' p. encode_vstr (Some bs) (int (length bs)) s = Some (Ok (), s') \<and>
     decode_vstr (s'\<lparr>pos := pos s\<rparr>) = Some (Ok (Some p, Some (int (length bs))), s') \<and>
     mem_slice s' p (int (length bs)) = Some bs"
proof -
  have e: "encode_vstr (Some bs) (int (length bs)) s = Some (Ok (), overlay (vstr_bytes bs) s)"
    using emitsD [OF encode_vstr_emits] assms by blast
  have "holds (vstr_bytes bs) ((overlay (vstr_bytes bs) s)\<lparr>pos := pos s\<rparr>)"
    using assms(2) by (rule holds_overlay)
  then have h: "holds (vi_bytes (length bs) @ bs) ((overlay (vstr_bytes bs) s)\<lparr>pos := pos s\<rparr>)"
    by (simp add: vstr_bytes_def holds_append)
  have "length bs < 2 ^ 63" using assms(1) by (simp add: vstr_bytes_def)
  from e decode_vstr_holds [OF h this] show ?thesis
    by (auto simp: adv_def mem_slice_def vstr_bytes_def)
qed

theorem vstr_roundtrip_witness:
  "\<exists>s' p. encode_vstr (Some [104, 105]) 2 (zero_buffer 4) = Some (Ok (), s') \<and>
     decode_vstr (s'\<lparr>pos := 0\<rparr>) = Some (Ok (Some p, Some 2), s') \<and> mem_slice s' p 2 = Some [104, 105]"
proof -
  have "length (vstr_bytes [104, 105]) = 4" by code_simp
  then show ?thesis using vstr_roundtrip [of "[104, 105]" "zero_buffer 4"] by simp
qed

text \<open>
  A string of \<open>2 ^ 31\<close> bytes passes the writer's size check on any buffer below two gigabytes with five free
  bytes, because the size is cut to 32 bits, and is then copied over the end of the buffer.
\<close>
theorem vstr_size_check_wraps:
  assumes "room 5 s" "blen s < 2 ^ 31" "length vb = 2 ^ 31"
  shows "encode_vstr (Some vb) (2 ^ 31) s = None"
  using encode_vstr_overrun [OF room_wf [OF assms(1)] assms] .

theorem vstr_size_check_wraps_witness:
  "\<exists>vb. length vb = 2 ^ 31 \<and> encode_vstr (Some vb) (2 ^ 31) (zero_buffer 8) = None"
proof -
  obtain vb :: "u8 list" where "length vb = 2 ^ 31" using Ex_list_of_length by blast
  moreover from this have "encode_vstr (Some vb) (2 ^ 31) (zero_buffer 8) = None"
    by (intro vstr_size_check_wraps) simp_all
  ultimately show ?thesis by blast
qed

section \<open>Checksums and hashes\<close>

text \<open>
  C10: the table-driven checksum that takes eight bytes at a time is the bitwise shift register of the file's
  comment, for every start value and every message.
\<close>
theorem crc64_is_shift_register:
  "ob_crc64 c (Some bs) (int (length bs)) =
     Some (foldl (\<lambda>c b. (crc_shift OB_DEFAULT_CRC64_POLYNOM ^^ 8) (c XOR ucast b)) c bs)"
  using ob_crc64_eq [of "int (length bs)" bs c] by (simp add: crc_ref_def)

text \<open>
  C9: however a message is cut into pieces, feeding them to an \<^verbatim>\<open>ObBatchChecksum\<close> terminates and gives the checksum of
  the whole message. The buffer of 64 KiB is never overrun.
\<close>
theorem batch_checksum_stream:
  assumes "length (bc_buffer bc) = 65536"
  shows "\<exists>v bc'. Option.bind (fill_seq bc_fill_bytes pieces (bc_set_base base (bc_reset bc))) bc_calc = Some (v, bc')
    \<and> ob_crc64 base (Some (concat pieces)) (int (length (concat pieces))) = Some v"
proof -
  define bc1 where "bc1 = bc_set_base base (bc_reset bc)"
  have "bc_ok bc1" "bc_value bc1 = base"
    using assms by (simp_all add: bc1_def bc_set_base_def bc_reset_def bc_ok_def bc_value_def BUFFER_SIZE_def)
  with batch.stream_value [of bc1 pieces] show ?thesis
    using ob_crc64_eq [of "int (length (concat pieces))" "concat pieces" base] by (auto simp: bc1_def)
qed

theorem batch_checksum_stream_witness:
  "\<exists>bc v bc'. length (bc_buffer bc) = 65536 \<and>
     Option.bind (fill_seq bc_fill_bytes [[1, 2], [], [3]] (bc_set_base 7 (bc_reset bc))) bc_calc = Some (v, bc') \<and>
     ob_crc64 7 (Some [1, 2, 3]) 3 = Some v"
proof -
  obtain buf :: "u8 list" where "length buf = 65536" using Ex_list_of_length by blast
  then show ?thesis
    using batch_checksum_stream [of "\<lparr>bc_buffer = buf, bc_pos = 9, bc_base = 1\<rparr>" "[[1, 2], [], [3]]" 7] by force
qed

text \<open>
  The 64-bit hash is one-to-one on integer objects: two of them with the same flag and the same hash, from the
  same seed, hold the same integer.
\<close>
theorem int_hash_injective:
  assumes "obj_murmurhash64A (set_int v add o1) seed = obj_murmurhash64A (set_int w add o2) seed"
  shows "v = w"
proof -
  have p: "obj_murmurhash64A (set_int u add o3) seed =
      Some (murmurhash64A (le_bytes 8 u) (murmurhash64A (meta_bytes 1 (flag_of add)) seed))" for u o3
    by (simp add: obj_murmurhash64A_def hash_with_def payload_def mem_bytes_def set_int_def set_flag_def
        is_valid_type_def flag_of_def)
  have "le_bytes 8 v = le_bytes 8 w"
    using assms unfolding p by (intro murmurhash64A_inj) simp_all
  then have "le_val (le_bytes 8 v) = le_val (le_bytes 8 w)" by (rule arg_cong)
  then show ?thesis
    unfolding le_val_le_bytes using take_bit_word_eq_self [of "8 * 8" v] take_bit_word_eq_self [of "8 * 8" w] by simp
qed

theorem int_hash_injective_witness:
  "obj_murmurhash64A (set_int 17 True (set_null obj_reset)) 5 = obj_murmurhash64A (set_int 17 True obj_reset) 5 \<and> (17 :: i64) = 17"
proof -
  have "obj_murmurhash64A (set_int 17 True (set_null obj_reset)) 5 = obj_murmurhash64A (set_int 17 True obj_reset) 5"
    by (simp add: set_null_def set_int_def set_flag_def obj_reset_def)
  then show ?thesis using int_hash_injective [of 17 True "set_null obj_reset" 5 17 obj_reset] by simp
qed

text \<open>
  The buffered and the direct checksum of an object agree: filling an accumulator with the object advances its
  value as the direct routine does.
\<close>
theorem obj_checksum_batch_agrees:
  assumes "bc_ok bc" "obj_abs o1 = Some x"
  shows "\<exists>bc'. obj_checksum_batch o1 bc = Some bc' \<and> bc_ok bc' \<and> obj_checksum o1 (bc_value bc) = Some (bc_value bc')"
  using assms by (rule obj_checksum_batch_value)

theorem obj_checksum_batch_agrees_witness:
  "\<exists>bc bc'. bc_value bc = 3 \<and> obj_checksum_batch (set_bool True obj_reset) bc = Some bc' \<and>
     obj_checksum (set_bool True obj_reset) 3 = Some (bc_value bc')"
proof -
  obtain buf :: "u8 list" where "length buf = 65536" using Ex_list_of_length by blast
  then have "bc_ok \<lparr>bc_buffer = buf, bc_pos = 0, bc_base = 3\<rparr>" "bc_value \<lparr>bc_buffer = buf, bc_pos = 0, bc_base = 3\<rparr> = 3"
    by (simp_all add: bc_ok_def bc_value_def BUFFER_SIZE_def)
  moreover have "obj_abs (set_bool True obj_reset) = Some (BoolS True)" by code_simp
  ultimately show ?thesis
    using obj_checksum_batch_agrees [of "\<lparr>bc_buffer = buf, bc_pos = 0, bc_base = 3\<rparr>" "set_bool True obj_reset"] by metis
qed

section \<open>Decimal numbers\<close>

text \<open>
  C12: addition is exact. For numbers in canonical range whose sum, in units of the larger scale, fits into one word more
  than the longer operand, \<^verbatim>\<open>ObNumber::add\<close> succeeds with the sum, its scale and a valid representation.
\<close>
theorem add_exact:
  assumes "num_wf a" "num_wf b" "length (num_words a) \<le> 8" "length (num_words b) \<le> 8"
    and "fits (sum_words a b) (scaled (sum_scale a b) a + scaled (sum_scale a b) b)"
  shows "\<exists>n. num_add a b res = Some (Ok (), n) \<and> num_ok n \<and> num_vscale n = sum_scale a b \<and>
    nval n = scaled (sum_scale a b) a + scaled (sum_scale a b) b"
  using num_add_value [OF assms(1,2) _ assms(5), of res] assms(3,4) by fastforce

theorem add_exact_witness:
  "\<exists>n. num_add \<lparr>num_vscale = 1, num_words = [0xfffffff1]\<rparr> \<lparr>num_vscale = 2, num_words = [275]\<rparr> new_number = Some (Ok (), n)
     \<and> num_vscale n = 2 \<and> nval n = 125"
proof -
  let ?a = "\<lparr>num_vscale = 1, num_words = [0xfffffff1]\<rparr>" and ?b = "\<lparr>num_vscale = 2, num_words = [275]\<rparr>"
  have "num_wf ?a" "num_wf ?b" "fits (sum_words ?a ?b) (scaled 2 ?a + scaled 2 ?b)" "scaled 2 ?a + scaled 2 ?b = 125"
    by code_simp+
  then show ?thesis using add_exact [of ?a ?b new_number] by auto
qed

text \<open>
  C35: numbers of one scale, which is at most 38, compare by value, when the first has at most eight words and the second at most seven:
  \<^verbatim>\<open>compare\<close> subtracts, and the subtraction needs a word more for the negated operand and for the carry.
\<close>
theorem compare_same_scale:
  assumes "num_wf a" "num_wf b" "length (num_words a) \<le> 8" "length (num_words b) \<le> 7" "num_vscale a = num_vscale b"
  shows "num_compare a b = Some (sgn (nval a - nval b))"
  using assms by (rule num_compare_same_scale)

theorem compare_same_scale_witness:
  "num_compare \<lparr>num_vscale = 3, num_words = [0xffffffff]\<rparr> \<lparr>num_vscale = 3, num_words = [0, 1]\<rparr> = Some (- 1)"
proof -
  let ?a = "\<lparr>num_vscale = 3, num_words = [0xffffffff]\<rparr>" and ?b = "\<lparr>num_vscale = 3, num_words = [0, 1]\<rparr>"
  have "num_wf ?a" "num_wf ?b" "sgn (nval ?a - nval ?b) = - 1" by code_simp+
  then show ?thesis using compare_same_scale [of ?a ?b] by simp
qed

text \<open>
  Between numbers of different scale the comparison may be wrong: rescaling drops the carry out of the operand's
  words, and ten million compares below a millionth of a millionth.
\<close>
theorem compare_scale_overflow:
  "num_compare \<lparr>num_vscale = 0, num_words = [10000000]\<rparr> \<lparr>num_vscale = 12, num_words = [1]\<rparr> = Some (- 1)"
  by code_simp

text \<open>
  C11: multiplication is exact and never fails for operands of at most eight words together whose scales are at most 38 each. The product
  has the sum of the scales, and when an operand is zero the result keeps its own scale. (Operands of a larger scale are first cut to 38 digits.)
\<close>
theorem mul_exact:
  assumes "num_wf a" "num_wf b" "length (num_words a) + length (num_words b) \<le> 8"
  shows "\<exists>n. num_mul a b res = Some (Ok (), n) \<and> num_ok n \<and> nval n = nval a * nval b \<and>
    num_vscale n = (if is_zero a \<or> is_zero b then num_vscale res else num_vscale a + num_vscale b)"
  using num_mul_value [OF assms, of res] by metis

theorem mul_exact_witness:
  "\<exists>n. num_mul \<lparr>num_vscale = 1, num_words = [0xfffffff1]\<rparr> \<lparr>num_vscale = 2, num_words = [275]\<rparr> new_number = Some (Ok (), n)
     \<and> nval n = - 4125 \<and> num_vscale n = 3"
proof -
  let ?a = "\<lparr>num_vscale = 1, num_words = [0xfffffff1]\<rparr>" and ?b = "\<lparr>num_vscale = 2, num_words = [275]\<rparr>"
  have "num_wf ?a" "num_wf ?b" "nval ?a * nval ?b = - 4125" "\<not> is_zero ?a" "\<not> is_zero ?b" by code_simp+
  then show ?thesis using mul_exact [of ?a ?b new_number] by auto
qed

text \<open>
  C36: converting a 64-bit integer gives a number of scale 0, and it has the integer's value exactly when the magnitude is less
  than \<open>2 ^ 31\<close> or at least \<open>2 ^ 32\<close>, or the integer is \<open>-2 ^ 31\<close>. For all others the magnitude is put in a single word whose top bit
  then reads as the sign.
\<close>
theorem from_int64_exact_iff:
  "\<exists>n. from_int64 v = Some n \<and> num_ok n \<and> num_vscale n = 0 \<and>
    (nval n = sint v \<longleftrightarrow> \<bar>sint v\<bar> < 2 ^ 31 \<or> sint v = - (2 ^ 31) \<or> 2 ^ 32 \<le> \<bar>sint v\<bar>)"
  by (rule from_int64_value)

text \<open>
  C37: a number that passes \<^verbatim>\<open>can_convert_to_int64\<close> converts to its value.
\<close>
theorem to_int64_exact: "can_convert_to_int64 n \<Longrightarrow> to_int64 n = Some (Ok (nval n))"
  by (rule to_int64_value)

theorem to_int64_exact_witness: "to_int64 \<lparr>num_vscale = 0, num_words = [5, 0xffffffff]\<rparr> = Some (Ok (5 - 2 ^ 32))"
proof -
  have "can_convert_to_int64 \<lparr>num_vscale = 0, num_words = [5, 0xffffffff]\<rparr>"
    "nval \<lparr>num_vscale = 0, num_words = [5, 0xffffffff]\<rparr> = 5 - 2 ^ 32" by code_simp+
  then show ?thesis using to_int64_exact by simp
qed

text \<open>
  C39: dropping digits behind the point cuts towards zero, for either sign.
\<close>
theorem round_truncates:
  assumes "num_ok n" "0 \<le> sc" "sc < num_vscale n" "num_vscale n \<le> 127"
  shows "\<exists>n'. round_fraction_part n sc = Some n' \<and> num_ok n' \<and> num_vscale n' = sc \<and>
    nval n' = sgn (nval n) * (\<bar>nval n\<bar> div 10 ^ nat (num_vscale n - sc))"
  using round_fraction_part_value [OF assms] by metis

theorem round_truncates_witness:
  "\<exists>n'. round_fraction_part \<lparr>num_vscale = 3, num_words = [0xfffffb2e]\<rparr> 1 = Some n' \<and> nval n' = - 12"
proof -
  let ?n = "\<lparr>num_vscale = 3, num_words = [0xfffffb2e]\<rparr>"
  have "num_ok ?n" "sgn (nval ?n) * (\<bar>nval ?n\<bar> div 10 ^ nat (3 - 1)) = - 12" by code_simp+
  then show ?thesis using round_truncates [of ?n 1] by auto
qed

text \<open>
  C38: dividing by a single word from 2 to \<open>2 ^ 31\<close> gives the quotient and the remainder of the unsigned value.
\<close>
theorem div_word_exact:
  assumes "num_ok n" "2 \<le> uint d" "uint d \<le> 2 ^ 31"
  shows "\<exists>q' r'. div_uint32 n d q r = Some (q', r') \<and> num_ok q' \<and>
    nval q' = uval (num_words n) div uint d \<and> num_words r' = [word_of_int (uval (num_words n) mod uint d)]"
  using div_uint32_value [OF assms, of q r] by (metis (no_types, lifting) ob_number.select_convs(2) ob_number.surjective ob_number.update_convs(2))

theorem div_word_exact_witness:
  "\<exists>q' r'. div_uint32 \<lparr>num_vscale = 0, num_words = [7, 1]\<rparr> 10 new_number new_number = Some (q', r') \<and>
     nval q' = 429496730 \<and> num_words r' = [3]"
proof -
  let ?n = "\<lparr>num_vscale = 0, num_words = [7, 1 :: u32]\<rparr>"
  have "num_ok ?n" "uval (num_words ?n) div 10 = 429496730" "uval (num_words ?n) mod 10 = 3" by code_simp+
  then show ?thesis using div_word_exact [of ?n 10 new_number new_number] by auto
qed

text \<open>
  A one-word divisor above \<open>2 ^ 31\<close> overflows the signed step of the long division: one divided by three billion comes
  out as 33333333325370689906583073048, not 33333333333333333333333333333, units of \<open>10 ^ - 38\<close>.
\<close>
theorem div_large_word_wrong:
  "let n = \<lparr>num_vscale = 38, num_words = [4173918488, 1621428715, 1807003620]\<rparr> in
   num_div \<lparr>num_vscale = 0, num_words = [1]\<rparr> \<lparr>num_vscale = 0, num_words = [3000000000, 0]\<rparr> new_number = Some (Ok (), n)
   \<and> nval n = 33333333325370689906583073048"
  by code_simp

section \<open>Order and merge of objects\<close>

text \<open>
  C26: the objects of a column of type int, varchar or bool, or of the four time types, which compare with each other, together with
  null and the two border values, are totally preordered by \<^verbatim>\<open>compare\<close>: it is defined
  on any two of them, zero on equals, changes sign when the arguments are swapped, and is transitive.
  Floats, doubles and decimals are not covered: floats and doubles that differ by less than an epsilon compare as equal, which is not transitive.
\<close>
theorem column_total_order:
  assumes "obj_column t a" "obj_column t b" "obj_column t c"
  shows "obj_compare fp a b \<noteq> None \<and> obj_compare fp a a = Some 0 \<and>
    map_option sgn (obj_compare fp b a) = map_option (\<lambda>x. - sgn x) (obj_compare fp a b) \<and>
    (obj_le fp a b = Some True \<and> obj_le fp b c = Some True \<longrightarrow> obj_le fp a c = Some True)"
  using column.cmp_defined [OF assms(1,2)] column.cmp_refl [OF assms(1)] column.cmp_antisym [OF assms(1,2)]
    column.cmp_trans [OF assms]
  by (fastforce simp: obj_le_def)

theorem column_total_order_witness:
  "\<forall>fp. obj_le fp (set_null obj_reset) (set_createtime 5000001 obj_reset) = Some True"
proof
  fix fp
  let ?a = "set_null obj_reset" and ?b = "set_datetime 5 False obj_reset" and ?c = "set_createtime 5000001 obj_reset"
  have "obj_column 4 ?a" "obj_column 4 ?b" "obj_column 4 ?c" by code_simp+
  moreover have "obj_le fp ?a ?b = Some True" "obj_le fp ?b ?c = Some True" by code_simp+
  ultimately show "obj_le fp ?a ?c = Some True" using column_total_order [of 4 ?a ?b ?c fp] by blast
qed

text \<open>
  The border values and null stand where the code's comment puts them: minimum, null, ordinary values, maximum,
  whatever the types are.
\<close>
theorem compare_by_rank:
  assumes "obj_rank a < obj_rank b"
  shows "obj_lt fp a b = Some True \<and> obj_gt fp b a = Some True"
  using assms by (simp add: obj_lt_def obj_gt_def obj_compare_rank)

theorem compare_by_rank_witness:
  "\<forall>fp. obj_lt fp (set_int 7 False obj_reset) (set_max_value obj_reset) = Some True"
proof
  fix fp
  have "obj_rank (set_int 7 False obj_reset) < obj_rank (set_max_value obj_reset)" by code_simp
  then show "obj_lt fp (set_int 7 False obj_reset) (set_max_value obj_reset) = Some True"
    using compare_by_rank by blast
qed

text \<open>
  Across types \<^verbatim>\<open>compare\<close> is no order: a create time is above a string, the string above a date, and the date above
  the create time.
\<close>
theorem compare_cycle:
  "\<exists>a b c. obj_gt fp a b = Some True \<and> obj_gt fp b c = Some True \<and> obj_gt fp c a = Some True"
proof -
  have "obj_gt fp (set_createtime 100 obj_reset) (set_varchar (Some []) 0 obj_reset) = Some True"
    "obj_gt fp (set_varchar (Some []) 0 obj_reset) (set_datetime 1 False obj_reset) = Some True"
    "obj_gt fp (set_datetime 1 False obj_reset) (set_createtime 100 obj_reset) = Some True"
    by code_simp+
  then show ?thesis by blast
qed

text \<open>
  C7: For every mutation that is not a decimal, \<^verbatim>\<open>apply\<close> computes the abstract merge of the values of cell and mutation, on every
  type of cell (its extend code is read as 32 bits): null and the extend codes \<^verbatim>\<open>DEL_ROW\<close> and \<^verbatim>\<open>DEL_TABLE\<close> make it null; \<^verbatim>\<open>ROW_DOES_NOT_EXIST\<close> keeps it, and so does \<^verbatim>\<open>NOP\<close>,
  which makes a deleted or missing row null; any other extend code is refused with \<^verbatim>\<open>OB_INVALID_ARGUMENT\<close>. An int, float, double, datetime or precise
  datetime is stored, or added when it is an increment (from zero in a cell that is null or has no value yet, and in a cell that is
  \<^verbatim>\<open>NOP\<close> it stays an increment); create times keep the earlier, modify times the later one; varchar and bool replace the
  value. Where the types do not match the cell is unchanged and the code is \<^verbatim>\<open>OB_INVALID_ARGUMENT\<close>, or \<^verbatim>\<open>OB_OBJ_TYPE_ERROR\<close> in a cell with an extend
  code other than \<^verbatim>\<open>NOP\<close> and \<^verbatim>\<open>ROW_DOES_NOT_EXIST\<close>. The addition of floats and doubles is a parameter. Decimal mutations are
  excluded, because the code drops the error of storing them.
\<close>
theorem apply_is_merge:
  assumes "obj_abs o1 = Some c" "obj_abs m = Some x" "scalar_type x \<noteq> ObDecimalType"
  shows "case merge_result fp c x of
      Ok r \<Rightarrow> \<exists>o2. obj_apply fp m o1 = Some (Ok (), o2) \<and> obj_abs o2 = Some r
    | Err e \<Rightarrow> obj_apply fp m o1 = Some (Err e, o1)"
  using apply_does [OF assms, of fp] by (simp only: does_def)

theorem apply_is_merge_witness:
  "\<forall>fp. (\<exists>o2. obj_apply fp (set_int 5 True obj_reset) (set_ext 15 obj_reset) = Some (Ok (), o2) \<and> obj_abs o2 = Some (IntS 5 True)) \<and>
     obj_apply fp (set_int 5 True obj_reset) (set_ext 8 obj_reset) = Some (Err OB_OBJ_TYPE_ERROR, set_ext 8 obj_reset)"
proof
  fix fp
  have a: "obj_abs (set_ext 15 obj_reset) = Some (ExtS 15)" "obj_abs (set_ext 8 obj_reset) = Some (ExtS 8)"
    "obj_abs (set_int 5 True obj_reset) = Some (IntS 5 True)" "scalar_type (IntS 5 True) \<noteq> ObDecimalType"
    and m: "merge_result fp (ExtS 15) (IntS 5 True) = Ok (IntS 5 True)" "merge_result fp (ExtS 8) (IntS 5 True) = Err OB_OBJ_TYPE_ERROR"
    by code_simp+
  then show "(\<exists>o2. obj_apply fp (set_int 5 True obj_reset) (set_ext 15 obj_reset) = Some (Ok (), o2) \<and> obj_abs o2 = Some (IntS 5 True)) \<and>
     obj_apply fp (set_int 5 True obj_reset) (set_ext 8 obj_reset) = Some (Err OB_OBJ_TYPE_ERROR, set_ext 8 obj_reset)"
    using apply_is_merge [OF a(1,3,4), of fp] apply_is_merge [OF a(2,3,4), of fp] by simp
qed

text \<open>
  Mutations may be merged before they are applied: applying two of them to a cell one after the other gives the value
  that applying their merge gives.
\<close>
theorem apply_compacts:
  assumes "obj_abs o1 = Some c" "obj_abs m1 = Some x" "obj_abs m2 = Some y"
    and "mergeable c" "is_mutation x" "is_mutation y" "x = NullS \<longrightarrow> \<not> system_time y"
    and "scalar_merge c x = Some c1" "scalar_merge c1 y = Some r" "scalar_merge c y \<noteq> None"
  shows "\<exists>o2 o3 m12 o4. obj_apply fp m1 o1 = Some (Ok (), o2) \<and> obj_apply fp m2 o2 = Some (Ok (), o3) \<and>
    obj_apply fp m2 m1 = Some (Ok (), m12) \<and> obj_apply fp m12 o1 = Some (Ok (), o4) \<and> obj_abs o3 = obj_abs o4"
proof -
  obtain z where z: "scalar_merge x y = Some z" "scalar_merge c z = Some r"
    using merge_assoc [OF assms(4-6) assms(7) [rule_format] assms(10,8,9)] by blast
  have g: "mergeable x" "mergeable y" "mergeable c1" "mergeable z"
    using assms(5,6) merge_mergeable [OF assms(4) _ assms(8)] merge_mergeable [OF _ _ z(1)] by (auto simp: is_mutation_def)
  from apply_refines [OF assms(1,2) assms(4) g(1) assms(8)] obtain o2 where
    o2: "obj_apply fp m1 o1 = Some (Ok (), o2)" "obj_abs o2 = Some c1" by blast
  from apply_refines [OF assms(2,3) g(1,2) z(1)] obtain m12 where
    m12: "obj_apply fp m2 m1 = Some (Ok (), m12)" "obj_abs m12 = Some z" by blast
  from apply_refines [OF o2(2) assms(3) g(3,2) assms(9)] apply_refines [OF assms(1) m12(2) assms(4) g(4) z(2)] o2 m12
  show ?thesis by fastforce
qed

theorem apply_compacts_witness:
  "\<forall>fp. \<exists>o2 o3 m12 o4. obj_apply fp (set_int 5 True obj_reset) (set_int 2 False obj_reset) = Some (Ok (), o2) \<and>
     obj_apply fp (set_int 6 True obj_reset) o2 = Some (Ok (), o3) \<and>
     obj_apply fp (set_int 6 True obj_reset) (set_int 5 True obj_reset) = Some (Ok (), m12) \<and>
     obj_apply fp m12 (set_int 2 False obj_reset) = Some (Ok (), o4) \<and> obj_abs o3 = obj_abs o4"
proof
  fix fp
  have "obj_abs (set_int 2 False obj_reset) = Some (IntS 2 False)" "obj_abs (set_int 5 True obj_reset) = Some (IntS 5 True)"
    "obj_abs (set_int 6 True obj_reset) = Some (IntS 6 True)" "scalar_merge (IntS 2 False) (IntS 5 True) = Some (IntS 7 False)"
    "scalar_merge (IntS 7 False) (IntS 6 True) = Some (IntS 13 False)"
    "scalar_merge (IntS 2 False) (IntS 6 True) \<noteq> None" "is_mutation (IntS 5 True)" "is_mutation (IntS 6 True)"
    by code_simp+
  then show "\<exists>o2 o3 m12 o4. obj_apply fp (set_int 5 True obj_reset) (set_int 2 False obj_reset) = Some (Ok (), o2) \<and>
     obj_apply fp (set_int 6 True obj_reset) o2 = Some (Ok (), o3) \<and>
     obj_apply fp (set_int 6 True obj_reset) (set_int 5 True obj_reset) = Some (Ok (), m12) \<and>
     obj_apply fp m12 (set_int 2 False obj_reset) = Some (Ok (), o4) \<and> obj_abs o3 = obj_abs o4"
    by (intro apply_compacts [of _ "IntS 2 False" _ "IntS 5 True" _ "IntS 6 True"]) simp_all
qed

text \<open>
  A decimal applied to a null cell is lost: the cell's precision is zero, \<^verbatim>\<open>set_decimal\<close> fails, its code is ignored, and
  \<^verbatim>\<open>apply\<close> reports success with the number zero.
\<close>
theorem apply_decimal_lost:
  "\<exists>m o2. set_decimal \<lparr>num_vscale = 0, num_words = [7]\<rparr> 5 0 False obj_reset = Some (Ok (), m) \<and>
     obj_apply fp m (set_null obj_reset) = Some (Ok (), o2) \<and> o_type o2 = 12 \<and>
     get_decimal o2 = Some (Ok (\<lparr>num_vscale = 0, num_words = [0]\<rparr>, False))"
proof -
  define m where "m = obj_reset\<lparr>o_type := 12, o_precision := 5, o_val_len := 7\<rparr>"
  have "set_decimal \<lparr>num_vscale = 0, num_words = [7]\<rparr> 5 0 False obj_reset = Some (Ok (), m)"
    "obj_apply fp m (set_null obj_reset) = Some (Ok (), obj_reset\<lparr>o_type := 12\<rparr>)"
    "get_decimal (obj_reset\<lparr>o_type := 12\<rparr>) = Some (Ok (\<lparr>num_vscale = 0, num_words = [0]\<rparr>, False))"
    unfolding m_def by code_simp+
  then show ?thesis by (intro exI [of _ m] exI [of _ "obj_reset\<lparr>o_type := 12\<rparr>"]) simp
qed

text \<open>
  The checksum of an object does not depend on its type: an integer and a date of the same value have the same
  checksum, because the routine copies the type from the wrong object.
\<close>
theorem checksum_ignores_type:
  "obj_checksum (set_int v add o1) current = obj_checksum (set_datetime v add' o2) current"
  by (simp add: obj_checksum_def payload_def set_int_def set_datetime_def set_flag_def is_valid_type_def)

end
